(* ===== verification/Prelude.thy ===== *)
theory Prelude
  imports Main "HOL-Library.Word" "HOL-Library.Sublist"
begin

text \<open>
  Shared material of the development: the names of the model's result types, the reachable
  states of a transition system with the invariant rule every stateful component uses, and the
  generic list and arithmetic lemmas the components share.
\<close>

named_theorems agent_defs \<open>definitions the component proofs unfold\<close>
named_theorems inv_rules \<open>one fact per operation: it keeps the component's invariant\<close>

section \<open>Results\<close>

text \<open>A Go function that returns \<open>(T, error)\<close> is a sum: \<open>Inl\<close> carries the error.\<close>

type_synonym ('e, 'a) result = "'e + 'a"

abbreviation Err :: "'e \<Rightarrow> ('e, 'a) result" where
  "Err \<equiv> Inl"

abbreviation Ok :: "'a \<Rightarrow> ('e, 'a) result" where
  "Ok \<equiv> Inr"

definition is_ok :: "('e, 'a) result \<Rightarrow> bool" where
  "is_ok r \<longleftrightarrow> (case r of Inl _ \<Rightarrow> False | Inr _ \<Rightarrow> True)"

lemma is_ok_simps [simp]: "is_ok (Ok x)" "\<not> is_ok (Err e)"
  by (simp_all add: is_ok_def)

lemma is_okE: "is_ok r \<Longrightarrow> (\<And>x. r = Ok x \<Longrightarrow> P) \<Longrightarrow> P"
  by (cases r) auto

section \<open>Transition systems and invariants\<close>

text \<open>
  The states a program can reach from an initial state, for a step relation labelled with the
  operation that is run. Every component below that keeps state over many calls is such a
  system: one label per operation of the source.
\<close>

inductive reach :: "('s \<Rightarrow> bool) \<Rightarrow> ('s \<Rightarrow> 'l \<Rightarrow> 's \<Rightarrow> bool) \<Rightarrow> 's \<Rightarrow> bool"
  for init :: "'s \<Rightarrow> bool" and step :: "'s \<Rightarrow> 'l \<Rightarrow> 's \<Rightarrow> bool" where
  reach_init: "init s \<Longrightarrow> reach init step s"
| reach_step: "reach init step s \<Longrightarrow> step s l t \<Longrightarrow> reach init step t"

text \<open>
  The contract of a component with an invariant: it holds at the start and every operation
  keeps it. What the client gets is that it holds in every reachable state.
\<close>

locale invariant_system =
  fixes init :: "'s \<Rightarrow> bool"
    and step :: "'s \<Rightarrow> 'l \<Rightarrow> 's \<Rightarrow> bool"
    and inv :: "'s \<Rightarrow> bool"
  assumes inv_init: "init s \<Longrightarrow> inv s"
    and inv_step: "inv s \<Longrightarrow> step s l t \<Longrightarrow> inv t"
begin

lemma reach_inv: "reach init step s \<Longrightarrow> inv s"
  by (induction rule: reach.induct) (auto intro: inv_init inv_step)

lemma inv_rtrancl: "inv s \<Longrightarrow> (\<lambda>a b. \<exists>l. step a l b)\<^sup>*\<^sup>* s t \<Longrightarrow> inv t"
  by (rotate_tac 1, induction rule: rtranclp_induct) (auto intro: inv_step)

end

text \<open>
  A component driven by a list of events: the run is the events one after the other. What the client
  gets is that whatever every allowed event keeps holds at the end.
\<close>

locale event_run =
  fixes ev_apply :: "'e \<Rightarrow> 's \<Rightarrow> 's"
    and ev_run :: "'e list \<Rightarrow> 's \<Rightarrow> 's"
  assumes run_Nil: "ev_run [] s = s"
    and run_Cons: "ev_run (e # es) s = ev_run es (ev_apply e s)"
begin

lemma run_append: "ev_run (es @ es') s = ev_run es' (ev_run es s)"
  by (induction es arbitrary: s) (simp_all add: run_Nil run_Cons)

lemma run_keeps:
  assumes "I s" and "list_all ok es" and "\<And>e s. ok e \<Longrightarrow> I s \<Longrightarrow> I (ev_apply e s)"
  shows "I (ev_run es s)"
  using assms(1,2) by (induction es arbitrary: s) (simp_all add: run_Nil run_Cons assms(3))

end

section \<open>Lists\<close>

lemma map_upt_Suc_shift: "map f [Suc 0..<Suc n] = map (\<lambda>i. f (Suc i)) [0..<n]"
  by (induction n) auto

lemma map_upt_cong: "(\<And>i. i < n \<Longrightarrow> f i = g i) \<Longrightarrow> map f [0..<n] = map g [0..<n]"
  by simp

lemma filter_neq_id: "x \<notin> set xs \<Longrightarrow> filter (\<lambda>y. y \<noteq> x) xs = xs"
  by (induction xs) auto

lemma take_drop_concat_Nil: "length xs \<le> n \<Longrightarrow> take n xs = xs"
  by simp

section \<open>Arithmetic of circular indices\<close>

lemma mod_window_neq:
  fixes c :: nat
  assumes "i < j" and "j < c"
  shows "(h + i) mod c \<noteq> (h + j) mod c"
proof
  assume "(h + i) mod c = (h + j) mod c"
  then have "(h + j - (h + i)) mod c = 0"
    using assms by (intro mod_eq_dvd_iff_nat [THEN iffD1, THEN dvd_imp_mod_0]) auto
  with assms show False by simp
qed

lemma mod_window_inj:
  fixes c :: nat
  assumes "i < c" and "j < c" and "(h + i) mod c = (h + j) mod c"
  shows "i = j"
  using assms mod_window_neq [of i j c h] mod_window_neq [of j i c h] by (cases i j rule: linorder_cases) auto

lemma mod_Suc_shift: "((Suc h) mod c + i) mod c = (h + Suc i) mod (c::nat)"
  by (simp add: mod_add_left_eq)

lemma of_nat_word64_eq_0:
  "k < 2 ^ 64 \<Longrightarrow> (of_nat k = (0 :: 64 word)) \<longleftrightarrow> k = 0"
  by (auto simp: word_of_nat_eq_0_iff dest: dvd_imp_le)

end
