(* ===== verification/RingBuffer.thy ===== *)
theory RingBuffer
  imports Prelude
begin

text \<open>
  The bounded replay queue of \<open>internal/agentcore/ring_buffer.go\<close>: a circular array that
  overwrites its oldest entry when full, and a \<open>Flush\<close> that sends the entries one by one
  without holding the lock while a send runs, so producers and \<open>Drain\<close> may act between the
  reading of an entry and its removal. \<open>headVersion\<close>, a \<open>uint64\<close>, is how \<open>Flush\<close> notices.

  The indices are Go \<open>int\<close>s below the length of an allocated slice, so \<open>nat\<close> is exact for them;
  the version counter keeps its width.
\<close>

section \<open>State\<close>

record 'a ring =
  rb_data :: "'a list"
  rb_head :: nat
  rb_size :: nat
  rb_cap :: nat
  rb_version :: "64 word"

definition NewRingBuffer :: "'a \<Rightarrow> int \<Rightarrow> 'a ring" where
  "NewRingBuffer zero capacity =
     (let c = (if capacity \<le> 0 then 60 else nat capacity)
      in \<lparr>rb_data = replicate c zero, rb_head = 0, rb_size = 0, rb_cap = c, rb_version = 0\<rparr>)"

section \<open>Operations\<close>

definition Push :: "'a \<Rightarrow> 'a ring \<Rightarrow> 'a ring" where
  "Push item rb =
     (let idx = (rb_head rb + rb_size rb) mod rb_cap rb;
          rb1 = rb\<lparr>rb_data := (rb_data rb)[idx := item]\<rparr>
      in if rb_size rb < rb_cap rb
         then rb1\<lparr>rb_size := rb_size rb + 1\<rparr>
         else rb1\<lparr>rb_head := (rb_head rb + 1) mod rb_cap rb, rb_version := rb_version rb + 1\<rparr>)"

text \<open>\<open>Drain\<close>: the loop copies every live slot out and writes the zero value into it.\<close>

fun drain_loop :: "'a \<Rightarrow> nat \<Rightarrow> nat \<Rightarrow> nat list \<Rightarrow> 'a list \<Rightarrow> 'a list \<times> 'a list" where
  "drain_loop zero h c [] data = ([], data)"
| "drain_loop zero h c (i # is) data =
     (let idx = (h + i) mod c;
          (out, data') = drain_loop zero h c is (data[idx := zero])
      in (data ! idx # out, data'))"

definition Drain :: "'a \<Rightarrow> 'a ring \<Rightarrow> 'a list \<times> 'a ring" where
  "Drain zero rb =
     (if rb_size rb = 0 then ([], rb)
      else let (out, data') = drain_loop zero (rb_head rb) (rb_cap rb) [0..<rb_size rb] (rb_data rb)
           in (out, rb\<lparr>rb_data := data', rb_head := 0, rb_size := 0, rb_version := rb_version rb + 1\<rparr>))"

definition Len :: "'a ring \<Rightarrow> nat" where
  "Len rb = rb_size rb"

text \<open>
  What other goroutines may run on the buffer while a send is in progress. A second \<open>Flush\<close> is
  not among them: it fails \<open>TryLock\<close> and changes nothing.
\<close>

datatype 'a rb_op = PushOp 'a | DrainOp

fun rb_apply :: "'a \<Rightarrow> 'a rb_op \<Rightarrow> 'a ring \<Rightarrow> 'a ring" where
  "rb_apply zero (PushOp x) rb = Push x rb"
| "rb_apply zero DrainOp rb = snd (Drain zero rb)"

fun rb_run :: "'a \<Rightarrow> 'a rb_op list \<Rightarrow> 'a ring \<Rightarrow> 'a ring" where
  "rb_run zero [] rb = rb"
| "rb_run zero (p # ps) rb = rb_run zero ps (rb_apply zero p rb)"

text \<open>The items an interference sequence pushes, in order.\<close>

fun pushed :: "'a rb_op list \<Rightarrow> 'a list" where
  "pushed [] = []"
| "pushed (PushOp x # ps) = x # pushed ps"
| "pushed (DrainOp # ps) = pushed ps"

text \<open>
  One turn of the loop in \<open>Flush\<close> has two critical sections: \<open>flush_sample\<close> reads the head and
  its version, \<open>flush_commit\<close> removes the head if the version is still the one read.
\<close>

definition flush_sample :: "'a ring \<Rightarrow> ('a \<times> 64 word) option" where
  "flush_sample rb =
     (if rb_size rb = 0 then None else Some (rb_data rb ! rb_head rb, rb_version rb))"

definition flush_commit :: "'a \<Rightarrow> 64 word \<Rightarrow> 'a ring \<Rightarrow> 'a ring" where
  "flush_commit zero version rb =
     (if 0 < rb_size rb \<and> rb_version rb = version
      then rb\<lparr>rb_data := (rb_data rb)[rb_head rb := zero],
              rb_head := (rb_head rb + 1) mod rb_cap rb,
              rb_size := rb_size rb - 1,
              rb_version := rb_version rb + 1\<rparr>
      else rb)"

text \<open>
  The outcome of one \<open>send\<close>: success, an error wrapping \<open>errDiscardBufferedItem\<close>, or another
  error, which ends the flush. The callback is a closure over the caller's variables \<open>st\<close>;
  \<open>send i x st\<close> is its \<open>i\<close>-th call. Other goroutines run \<open>env i\<close> on the buffer between the two
  critical sections of that turn, and \<open>gap i\<close> after the second one. The result is the list of
  samples handed to \<open>send\<close>, the returned error, the variables and the buffer afterwards.
\<close>

datatype 'e send_result = SendOk | SendDiscard 'e | SendFail 'e

fun flush_loop :: "'a \<Rightarrow> (nat \<Rightarrow> 'a \<Rightarrow> 's \<Rightarrow> 'e send_result \<times> 's) \<Rightarrow> (nat \<Rightarrow> 'a rb_op list) \<Rightarrow> (nat \<Rightarrow> 'a rb_op list)
    \<Rightarrow> nat \<Rightarrow> nat \<Rightarrow> 's \<Rightarrow> 'a ring \<Rightarrow> 'a list \<times> 'e option \<times> 's \<times> 'a ring" where
  "flush_loop zero send env gap i 0 st rb = ([], None, st, rb)"
| "flush_loop zero send env gap i (Suc n) st rb =
     (case flush_sample rb of
        None \<Rightarrow> ([], None, st, rb)
      | Some (x, v) \<Rightarrow>
          let rb1 = rb_run zero (env i) rb; (out, st1) = send i x st
          in case out of
               SendFail e \<Rightarrow> ([x], Some e, st1, rb1)
             | _ \<Rightarrow> (let (xs, r, st2, rb2) =
                          flush_loop zero send env gap (Suc i) n st1 (rb_run zero (gap i) (flush_commit zero v rb1))
                    in (x # xs, r, st2, rb2)))"

text \<open>\<open>busy\<close> says that another goroutine holds \<open>flushMu\<close>, so \<open>TryLock\<close> fails.\<close>

definition Flush :: "'a \<Rightarrow> bool \<Rightarrow> (nat \<Rightarrow> 'a \<Rightarrow> 's \<Rightarrow> 'e send_result \<times> 's) \<Rightarrow> (nat \<Rightarrow> 'a rb_op list) \<Rightarrow> (nat \<Rightarrow> 'a rb_op list)
    \<Rightarrow> 's \<Rightarrow> 'a ring \<Rightarrow> 'a list \<times> 'e option \<times> 's \<times> 'a ring" where
  "Flush zero busy send env gap st rb =
     (if busy then ([], None, st, rb) else flush_loop zero send env gap 0 (rb_cap rb) st rb)"

section \<open>Well-formedness and the abstract queue\<close>

text \<open>The queue the circular array stands for, oldest entry first.\<close>

definition rb_list :: "'a ring \<Rightarrow> 'a list" where
  "rb_list rb = map (\<lambda>i. rb_data rb ! ((rb_head rb + i) mod rb_cap rb)) [0..<rb_size rb]"

definition rb_wf :: "'a ring \<Rightarrow> bool" where
  "rb_wf rb \<longleftrightarrow> 0 < rb_cap rb \<and> length (rb_data rb) = rb_cap rb
     \<and> rb_head rb < rb_cap rb \<and> rb_size rb \<le> rb_cap rb"

text \<open>No slot outside the live window keeps an entry alive.\<close>

definition rb_clean :: "'a \<Rightarrow> 'a ring \<Rightarrow> bool" where
  "rb_clean zero rb \<longleftrightarrow>
     (\<forall>i < rb_cap rb. rb_size rb \<le> i \<longrightarrow> rb_data rb ! ((rb_head rb + i) mod rb_cap rb) = zero)"

lemma rb_wf_NewRingBuffer [simp, intro]: "rb_wf (NewRingBuffer zero c)"
  by (simp add: rb_wf_def NewRingBuffer_def Let_def)

lemma rb_list_NewRingBuffer [simp]: "rb_list (NewRingBuffer zero c) = []"
  by (simp add: rb_list_def NewRingBuffer_def Let_def)

lemma rb_clean_NewRingBuffer: "rb_clean zero (NewRingBuffer zero c)"
  by (simp add: rb_clean_def NewRingBuffer_def Let_def)

lemma length_rb_list [simp]: "length (rb_list rb) = rb_size rb"
  by (simp add: rb_list_def)

lemma rb_list_empty: "rb_size rb = 0 \<Longrightarrow> rb_list rb = []"
  by (simp add: rb_list_def)

lemma rb_list_nth: "i < rb_size rb \<Longrightarrow> rb_list rb ! i = rb_data rb ! ((rb_head rb + i) mod rb_cap rb)"
  by (simp add: rb_list_def)

subsection \<open>Push\<close>

lemma Push_cap [simp]: "rb_cap (Push x rb) = rb_cap rb"
  by (simp add: Push_def Let_def)

lemma Push_wf [inv_rules]: "rb_wf rb \<Longrightarrow> rb_wf (Push x rb)"
  by (auto simp: rb_wf_def Push_def Let_def)

lemma Push_version:
  "rb_version (Push x rb) = rb_version rb + (if rb_size rb < rb_cap rb then 0 else 1)"
  by (simp add: Push_def Let_def)

lemma rb_list_Push:
  assumes wf: "rb_wf rb"
  shows "rb_list (Push x rb) =
    (if rb_size rb < rb_cap rb then rb_list rb @ [x] else tl (rb_list rb) @ [x])"
proof (cases "rb_size rb < rb_cap rb")
  case True
  have "(rb_head rb + rb_size rb) mod rb_cap rb \<noteq> (rb_head rb + i) mod rb_cap rb"
    if "i < rb_size rb" for i
    using mod_window_neq [OF that True] by metis
  with True wf show ?thesis
    by (auto simp: rb_list_def Push_def Let_def rb_wf_def nth_append nth_list_update)
next
  case False
  with wf have full: "rb_size rb = rb_cap rb" and c: "0 < rb_cap rb"
    by (auto simp: rb_wf_def)
  show ?thesis
  proof (rule nth_equalityI)
    show "length (rb_list (Push x rb)) =
        length (if rb_size rb < rb_cap rb then rb_list rb @ [x] else tl (rb_list rb) @ [x])"
      using full c by (simp add: Push_def Let_def)
  next
    fix i
    assume "i < length (rb_list (Push x rb))"
    then have i: "i < rb_cap rb"
      using full by (simp add: Push_def Let_def)
    have "(rb_head rb + Suc i) mod rb_cap rb = rb_head rb \<longleftrightarrow> Suc i = rb_cap rb"
      using i wf mod_window_neq [of 0 "Suc i" "rb_cap rb" "rb_head rb"]
      by (cases "Suc i = rb_cap rb") (auto simp: rb_wf_def)
    with i full wf show "rb_list (Push x rb) ! i =
        (if rb_size rb < rb_cap rb then rb_list rb @ [x] else tl (rb_list rb) @ [x]) ! i"
      by (auto simp: rb_list_def Push_def Let_def rb_wf_def nth_append nth_tl mod_Suc_shift less_Suc_eq)
  qed
qed

lemma Push_clean:
  assumes "rb_wf rb" and "rb_clean zero rb"
  shows "rb_clean zero (Push x rb)"
proof (cases "rb_size rb < rb_cap rb")
  case True
  have "(rb_head rb + rb_size rb) mod rb_cap rb \<noteq> (rb_head rb + i) mod rb_cap rb"
    if "Suc (rb_size rb) \<le> i" "i < rb_cap rb" for i
    using that mod_window_neq [of "rb_size rb" i "rb_cap rb" "rb_head rb"] by simp
  with True assms show ?thesis
    by (auto simp: rb_clean_def Push_def Let_def rb_wf_def nth_list_update)
next
  case False
  with assms show ?thesis
    by (auto simp: rb_clean_def Push_def Let_def rb_wf_def)
qed

subsection \<open>Drain\<close>

lemma length_drain_loop [simp]: "length (snd (drain_loop zero h c is data)) = length data"
  by (induction "is" arbitrary: data) (auto simp: Let_def case_prod_beta)

lemma drain_loop_out:
  assumes "\<And>i. i \<in> set is \<Longrightarrow> i < c" and "distinct is" and "length data = c"
  shows "fst (drain_loop zero h c is data) = map (\<lambda>i. data ! ((h + i) mod c)) is"
  using assms
proof (induction "is" arbitrary: data)
  case (Cons i "is")
  have "(h + i) mod c \<noteq> (h + j) mod c" if "j \<in> set is" for j
    using that Cons.prems mod_window_inj [of i c j h] by auto
  with Cons.prems show ?case
    by (auto simp: Let_def Cons.IH nth_list_update_neq case_prod_beta)
qed simp

lemma drain_loop_data:
  assumes "\<And>i. i \<in> set is \<Longrightarrow> i < c" and "length data = c" and "k < c"
  shows "snd (drain_loop zero h c is data) ! k =
    (if k \<in> (\<lambda>i. (h + i) mod c) ` set is then zero else data ! k)"
  using assms
proof (induction "is" arbitrary: data)
  case (Cons i "is")
  then show ?case
    by (auto simp: Let_def nth_list_update case_prod_beta)
qed simp

lemma Drain_out: "rb_wf rb \<Longrightarrow> fst (Drain zero rb) = rb_list rb"
  by (auto simp: Drain_def rb_list_def rb_wf_def case_prod_beta intro!: drain_loop_out)

lemma Drain_state [simp]:
  "rb_cap (snd (Drain zero rb)) = rb_cap rb"
  "rb_size (snd (Drain zero rb)) = 0"
  "rb_version (snd (Drain zero rb)) = rb_version rb + (if rb_size rb = 0 then 0 else 1)"
  by (simp_all add: Drain_def case_prod_beta)

lemma rb_list_Drain [simp]: "rb_list (snd (Drain zero rb)) = []"
  by (simp add: rb_list_def)

lemma Drain_wf [inv_rules]: "rb_wf rb \<Longrightarrow> rb_wf (snd (Drain zero rb))"
  by (simp add: rb_wf_def Drain_def case_prod_beta)

lemma Drain_clean:
  assumes "rb_wf rb" and "rb_clean zero rb"
  shows "rb_clean zero (snd (Drain zero rb))"
proof (cases "rb_size rb = 0")
  case True
  with assms show ?thesis by (simp add: Drain_def)
next
  case False
  have "snd (drain_loop zero (rb_head rb) (rb_cap rb) [0..<rb_size rb] (rb_data rb)) ! k = zero"
    if k: "k < rb_cap rb" for k
  proof -
    define i where "i = (k + (rb_cap rb - rb_head rb)) mod rb_cap rb"
    have i: "i < rb_cap rb" and ki: "k = (rb_head rb + i) mod rb_cap rb"
      using assms k by (auto simp: i_def rb_wf_def mod_add_right_eq)
    show ?thesis
    proof (cases "i < rb_size rb")
      case True
      then show ?thesis
        using assms k ki by (subst drain_loop_data) (auto simp: rb_wf_def)
    next
      case False
      then have "rb_data rb ! k = zero"
        using assms(2) i ki by (simp add: rb_clean_def)
      then show ?thesis
        using assms k by (subst drain_loop_data) (auto simp: rb_wf_def)
    qed
  qed
  with False show ?thesis
    by (simp add: rb_clean_def Drain_def case_prod_beta)
qed

subsection \<open>Removal of a sent entry\<close>

lemma rb_list_Cons:
  "rb_wf rb \<Longrightarrow> 0 < rb_size rb \<Longrightarrow> rb_list rb = rb_data rb ! rb_head rb # tl (rb_list rb)"
  by (cases "rb_list rb") (auto simp: rb_list_def rb_wf_def upt_conv_Cons)

lemma flush_sample_Some:
  "rb_wf rb \<Longrightarrow> flush_sample rb = Some (x, v) \<Longrightarrow>
     rb_list rb = x # tl (rb_list rb) \<and> v = rb_version rb \<and> 0 < rb_size rb"
  by (auto simp: flush_sample_def split: if_splits intro: rb_list_Cons)

lemma flush_sample_None: "flush_sample rb = None \<longleftrightarrow> rb_list rb = []"
  by (simp add: flush_sample_def rb_list_def)

lemma flush_commit_cap [simp]: "rb_cap (flush_commit zero v rb) = rb_cap rb"
  by (simp add: flush_commit_def)

lemma flush_commit_wf [inv_rules]: "rb_wf rb \<Longrightarrow> rb_wf (flush_commit zero v rb)"
  by (auto simp: rb_wf_def flush_commit_def)

lemma rb_list_flush_commit:
  assumes "rb_wf rb"
  shows "rb_list (flush_commit zero v rb) =
    (if 0 < rb_size rb \<and> rb_version rb = v then tl (rb_list rb) else rb_list rb)"
proof (cases "0 < rb_size rb \<and> rb_version rb = v")
  case True
  then obtain n where n: "rb_size rb = Suc n"
    by (cases "rb_size rb") auto
  have "rb_head rb \<noteq> (rb_head rb + Suc i) mod rb_cap rb" if "i < n" for i
    using that n assms mod_window_neq [of 0 "Suc i" "rb_cap rb" "rb_head rb"]
    by (auto simp: rb_wf_def)
  with True n assms show ?thesis
    by (auto simp: rb_list_def flush_commit_def rb_wf_def mod_Suc_shift nth_list_update
        upt_conv_Cons map_upt_Suc_shift simp del: upt_Suc)
next
  case False
  then show ?thesis
    by (auto simp: flush_commit_def rb_list_def)
qed

lemma flush_commit_clean:
  assumes "rb_wf rb" and "rb_clean zero rb"
  shows "rb_clean zero (flush_commit zero v rb)"
proof (cases "0 < rb_size rb \<and> rb_version rb = v")
  case True
  have "(rb_data rb)[rb_head rb := zero] ! ((rb_head rb + Suc i) mod rb_cap rb) = zero"
    if i: "i < rb_cap rb" "rb_size rb - 1 \<le> i" for i
  proof (cases "Suc i = rb_cap rb")
    case True
    with assms show ?thesis by (auto simp: rb_wf_def)
  next
    case False
    with i have "Suc i < rb_cap rb" and "rb_size rb \<le> Suc i"
      by auto
    with assms(2) have "rb_data rb ! ((rb_head rb + Suc i) mod rb_cap rb) = zero"
      unfolding rb_clean_def by blast
    with assms show ?thesis by (auto simp: nth_list_update rb_wf_def)
  qed
  with True show ?thesis
    by (auto simp: rb_clean_def flush_commit_def mod_Suc_shift)
next
  case False
  with assms show ?thesis by (auto simp: flush_commit_def)
qed

section \<open>The buffer as a system of steps\<close>

datatype 'a rb_label = LPush 'a | LDrain | LCommit "64 word"

inductive rb_step :: "'a \<Rightarrow> 'a ring \<Rightarrow> 'a rb_label \<Rightarrow> 'a ring \<Rightarrow> bool" for zero where
  step_push: "rb_step zero rb (LPush x) (Push x rb)"
| step_drain: "rb_step zero rb LDrain (snd (Drain zero rb))"
| step_commit: "rb_step zero rb (LCommit v) (flush_commit zero v rb)"

inductive_simps rb_step_simps:
  "rb_step zero rb (LPush x) rb'"
  "rb_step zero rb LDrain rb'"
  "rb_step zero rb (LCommit v) rb'"

interpretation ring: invariant_system
  "\<lambda>rb. \<exists>c. rb = NewRingBuffer zero c" "rb_step zero" "\<lambda>rb. rb_wf rb \<and> rb_clean zero rb" for zero
proof (unfold_locales, goal_cases)
  case (1 s)
  then show ?case by (auto intro: rb_clean_NewRingBuffer)
next
  case (2 s l t)
  then show ?case
    by (cases l) (auto simp: rb_step_simps intro: inv_rules Push_clean Drain_clean flush_commit_clean)
qed

section \<open>The contract of a bounded queue\<close>

text \<open>
  What the telemetry code relies on: a first-in first-out buffer with a fixed limit that drops
  its oldest entry when a new one does not fit.
\<close>

locale bounded_fifo =
  fixes contents :: "'q \<Rightarrow> 'a list"
    and invar :: "'q \<Rightarrow> bool"
    and limit :: "'q \<Rightarrow> nat"
    and push :: "'a \<Rightarrow> 'q \<Rightarrow> 'q"
    and drain :: "'q \<Rightarrow> 'a list \<times> 'q"
  assumes contents_push: "invar q \<Longrightarrow> contents (push x q) =
      (if length (contents q) < limit q then contents q @ [x] else tl (contents q) @ [x])"
    and drain_out: "invar q \<Longrightarrow> fst (drain q) = contents q"
    and contents_drain: "invar q \<Longrightarrow> contents (snd (drain q)) = []"
    and invar_push: "invar q \<Longrightarrow> invar (push x q)"
    and invar_drain: "invar q \<Longrightarrow> invar (snd (drain q))"
    and limit_push: "limit (push x q) = limit q"
    and limit_pos: "invar q \<Longrightarrow> 0 < limit q"
    and contents_bound: "invar q \<Longrightarrow> length (contents q) \<le> limit q"
begin

lemma invar_pushes: "invar q \<Longrightarrow> invar (fold push xs q)"
  by (induction xs arbitrary: q) (auto intro: invar_push)

lemma limit_pushes: "limit (fold push xs q) = limit q"
  by (induction xs arbitrary: q) (auto simp: limit_push)

lemma contents_pushes:
  "invar q \<Longrightarrow> contents (fold push xs q) =
     drop (length (contents q) + length xs - limit q) (contents q @ xs)"
proof (induction xs arbitrary: q)
  case Nil
  then show ?case by (simp add: contents_bound)
next
  case (Cons x xs)
  have IH: "contents (fold push xs (push x q)) =
      drop (length (contents (push x q)) + length xs - limit q) (contents (push x q) @ xs)"
    using Cons.IH [OF invar_push [OF Cons.prems]] by (simp add: limit_push)
  show ?case
  proof (cases "length (contents q) < limit q")
    case True
    with IH Cons.prems show ?thesis
      by (simp add: contents_push)
  next
    case False
    with Cons.prems obtain y ys where q: "contents q = y # ys" and l: "limit q = Suc (length ys)"
      using contents_bound [of q] limit_pos [of q] by (cases "contents q") auto
    from IH False Cons.prems show ?thesis
      by (simp add: contents_push q l)
  qed
qed

text \<open>After any number of pushes, a drain returns the most recent \<open>limit\<close> entries, in order.\<close>

lemma drain_after_pushes:
  "invar q \<Longrightarrow> contents q = [] \<Longrightarrow>
     fst (drain (fold push xs q)) = drop (length xs - limit q) xs"
  by (simp add: drain_out invar_pushes contents_pushes)

end

interpretation fifo: bounded_fifo rb_list rb_wf rb_cap Push "Drain zero" for zero
  by unfold_locales (auto simp: rb_list_Push Drain_out inv_rules, auto simp: rb_wf_def)

section \<open>Interference while a send runs\<close>

text \<open>How often the head of the queue changes during an interference sequence.\<close>

fun head_changes :: "'a \<Rightarrow> 'a rb_op list \<Rightarrow> 'a ring \<Rightarrow> nat" where
  "head_changes zero [] rb = 0"
| "head_changes zero (p # ps) rb =
     (case p of PushOp x \<Rightarrow> if rb_size rb < rb_cap rb then 0 else 1
      | DrainOp \<Rightarrow> if rb_size rb = 0 then 0 else 1)
     + head_changes zero ps (rb_apply zero p rb)"

lemma head_changes_le: "head_changes zero ps rb \<le> length ps"
proof (induction ps arbitrary: rb)
  case (Cons p ps)
  from Cons [of "rb_apply zero p rb"] show ?case by (auto split: rb_op.splits)
qed simp

lemma rb_apply_wf: "rb_wf rb \<Longrightarrow> rb_wf (rb_apply zero p rb)"
  by (cases p) (auto intro: inv_rules)

lemma rb_run_wf: "rb_wf rb \<Longrightarrow> rb_wf (rb_run zero ps rb)"
  by (induction ps arbitrary: rb) (auto intro: rb_apply_wf)

lemma rb_run_version: "rb_version (rb_run zero ps rb) = rb_version rb + of_nat (head_changes zero ps rb)"
proof (induction ps arbitrary: rb)
  case (Cons p ps)
  show ?case
    by (cases p) (simp_all add: Cons.IH Push_version)
qed simp

lemma rb_apply_list:
  "rb_wf rb \<Longrightarrow> suffix (rb_list (rb_apply zero p rb)) (rb_list rb @ pushed [p])"
  by (cases p) (auto simp: rb_list_Push suffix_def intro: exI [of _ "take 1 (rb_list rb)"],
      metis append_Cons append_Nil list.exhaust_sel list.sel(2))

lemma pushed_Cons: "pushed (p # ps) = pushed [p] @ pushed ps"
  by (cases p) auto

lemma suffix_append_mono: "suffix xs ys \<Longrightarrow> suffix (xs @ zs) (ys @ zs)"
  by (auto simp: suffix_def)

lemma rb_run_list: "rb_wf rb \<Longrightarrow> suffix (rb_list (rb_run zero ps rb)) (rb_list rb @ pushed ps)"
proof (induction ps arbitrary: rb)
  case (Cons p ps)
  have "suffix (rb_list (rb_run zero ps (rb_apply zero p rb))) (rb_list (rb_apply zero p rb) @ pushed ps)"
    using Cons by (auto intro: rb_apply_wf)
  also have "suffix (rb_list (rb_apply zero p rb) @ pushed ps) ((rb_list rb @ pushed [p]) @ pushed ps)"
    using Cons.prems by (intro suffix_append_mono rb_apply_list)
  finally show ?case
    by (simp add: pushed_Cons [of p ps])
qed simp

lemma rb_run_unchanged:
  "rb_wf rb \<Longrightarrow> head_changes zero ps rb = 0 \<Longrightarrow> rb_list (rb_run zero ps rb) = rb_list rb @ pushed ps"
proof (induction ps arbitrary: rb)
  case (Cons p ps)
  have "rb_list (rb_apply zero p rb) = rb_list rb @ pushed [p]"
    using Cons.prems by (cases p) (auto simp: rb_list_Push rb_list_empty split: if_splits)
  moreover have "rb_list (rb_run zero ps (rb_apply zero p rb)) = rb_list (rb_apply zero p rb) @ pushed ps"
    using Cons.prems by (intro Cons.IH) (auto intro: rb_apply_wf)
  ultimately show ?case by (simp add: pushed_Cons [of p ps])
qed simp

lemma suffix_tl_append: "xs \<noteq> [] \<Longrightarrow> tl xs @ zs = tl (xs @ zs)"
  by simp

lemma rb_apply_changed:
  assumes "rb_wf rb" and "rb_list rb \<noteq> []" and "head_changes zero [p] rb \<noteq> 0"
  shows "suffix (rb_list (rb_apply zero p rb)) (tl (rb_list rb) @ pushed [p])"
  using assms by (cases p) (auto simp: rb_list_Push split: if_splits)

lemma rb_run_changed:
  "rb_wf rb \<Longrightarrow> rb_list rb \<noteq> [] \<Longrightarrow> head_changes zero ps rb \<noteq> 0 \<Longrightarrow>
     suffix (rb_list (rb_run zero ps rb)) (tl (rb_list rb) @ pushed ps)"
proof (induction ps arbitrary: rb)
  case (Cons p ps)
  let ?rb = "rb_apply zero p rb"
  have wf: "rb_wf ?rb"
    using Cons.prems by (auto intro: rb_apply_wf)
  show ?case
  proof (cases "head_changes zero [p] rb = 0")
    case True
    have l: "rb_list ?rb = rb_list rb @ pushed [p]"
      using rb_run_unchanged [OF Cons.prems(1) True] by simp
    have "head_changes zero ps ?rb \<noteq> 0"
      using Cons.prems(3) True by simp
    then have "suffix (rb_list (rb_run zero ps ?rb)) (tl (rb_list ?rb) @ pushed ps)"
      using Cons.prems(2) l by (intro Cons.IH wf) auto
    then show ?thesis
      using Cons.prems(2) l by (simp add: pushed_Cons [of p ps])
  next
    case False
    have "suffix (rb_list (rb_run zero ps ?rb)) (rb_list ?rb @ pushed ps)"
      by (rule rb_run_list [OF wf])
    also have "suffix (rb_list ?rb @ pushed ps) ((tl (rb_list rb) @ pushed [p]) @ pushed ps)"
      using Cons.prems False by (intro suffix_append_mono rb_apply_changed)
    finally show ?thesis
      by (simp add: pushed_Cons [of p ps])
  qed
qed simp

text \<open>
  The version comparison decides exactly whether the sampled head is still the head, as long as
  fewer than \<open>2 ^ 64\<close> operations run during one send.
\<close>

lemma version_decides:
  assumes "length ps < 2 ^ 64"
  shows "rb_version (rb_run zero ps rb) = rb_version rb \<longleftrightarrow> head_changes zero ps rb = 0"
proof -
  have "head_changes zero ps rb < 2 ^ 64"
    using assms head_changes_le [of zero ps rb] by linarith
  then show ?thesis
    using of_nat_word64_eq_0 by (simp add: rb_run_version)
qed

lemma commit_cases:
  assumes wf: "rb_wf rb" and s: "flush_sample rb = Some (x, v)" and n: "length ps < 2 ^ 64"
  shows "(head_changes zero ps rb = 0 \<and>
            rb_list (rb_run zero ps rb) = x # tl (rb_list rb) @ pushed ps \<and>
            rb_list (flush_commit zero v (rb_run zero ps rb)) = tl (rb_list rb) @ pushed ps)
       \<or> (head_changes zero ps rb \<noteq> 0 \<and>
            suffix (rb_list (rb_run zero ps rb)) (tl (rb_list rb) @ pushed ps) \<and>
            flush_commit zero v (rb_run zero ps rb) = rb_run zero ps rb)"
proof -
  have l: "rb_list rb = x # tl (rb_list rb)" and v: "v = rb_version rb"
    using flush_sample_Some [OF wf s] by auto
  show ?thesis
  proof (cases "head_changes zero ps rb = 0")
    case True
    have r: "rb_list (rb_run zero ps rb) = x # tl (rb_list rb) @ pushed ps"
      using rb_run_unchanged [OF wf True] l by (metis append_Cons)
    then have "0 < rb_size (rb_run zero ps rb)"
      by (metis length_rb_list length_greater_0_conv list.distinct(1))
    with True r show ?thesis
      using version_decides [OF n] by (simp add: rb_list_flush_commit rb_run_wf wf v)
  next
    case False
    have "rb_list rb \<noteq> []"
      using l by auto
    with False show ?thesis
      using rb_run_changed [OF wf _ False] version_decides [OF n, of zero rb]
      by (simp add: flush_commit_def v)
  qed
qed

lemma commit_suffix:
  assumes "rb_wf rb" and "flush_sample rb = Some (x, v)" and "length ps < 2 ^ 64"
  shows "suffix (rb_list (flush_commit zero v (rb_run zero ps rb))) (tl (rb_list rb) @ pushed ps)"
  using commit_cases [OF assms, of zero] by auto

section \<open>Flush\<close>

lemma rb_run_cap [simp]: "rb_cap (rb_run zero ps rb) = rb_cap rb"
proof (induction ps arbitrary: rb)
  case (Cons p ps)
  then show ?case by (cases p) auto
qed simp

text \<open>The items pushed while turn \<open>j\<close> of a flush runs and before the next one.\<close>

definition turn_pushes :: "(nat \<Rightarrow> 'a rb_op list) \<Rightarrow> (nat \<Rightarrow> 'a rb_op list) \<Rightarrow> nat \<Rightarrow> 'a list" where
  "turn_pushes env gap j = pushed (env j) @ pushed (gap j)"

definition turns_pushes :: "(nat \<Rightarrow> 'a rb_op list) \<Rightarrow> (nat \<Rightarrow> 'a rb_op list) \<Rightarrow> nat \<Rightarrow> nat \<Rightarrow> 'a list" where
  "turns_pushes env gap i n = concat (map (turn_pushes env gap) [i..<i + n])"

lemma turns_pushes_0 [simp]: "turns_pushes env gap i 0 = []"
  by (simp add: turns_pushes_def)

lemma turns_pushes_Suc:
  "turns_pushes env gap i (Suc n) = pushed (env i) @ pushed (gap i) @ turns_pushes env gap (Suc i) n"
  by (simp add: turns_pushes_def turn_pushes_def upt_conv_Cons del: upt_Suc)

text \<open>The buffer at the start of the next turn.\<close>

definition next_turn :: "'a \<Rightarrow> (nat \<Rightarrow> 'a rb_op list) \<Rightarrow> (nat \<Rightarrow> 'a rb_op list) \<Rightarrow> nat \<Rightarrow> 64 word \<Rightarrow> 'a ring \<Rightarrow> 'a ring" where
  "next_turn zero env gap i v rb = rb_run zero (gap i) (flush_commit zero v (rb_run zero (env i) rb))"

lemma next_turn_wf [inv_rules]: "rb_wf rb \<Longrightarrow> rb_wf (next_turn zero env gap i v rb)"
  unfolding next_turn_def by (intro inv_rules rb_run_wf)

lemma next_turn_cap [simp]: "rb_cap (next_turn zero env gap i v rb) = rb_cap rb"
  by (simp add: next_turn_def)

lemma next_turn_suffix:
  assumes "rb_wf rb" and "flush_sample rb = Some (x, v)" and "\<forall>j. length (env j) < 2 ^ 64"
  shows "suffix (rb_list (next_turn zero env gap i v rb)) (tl (rb_list rb) @ pushed (env i) @ pushed (gap i))"
proof -
  let ?rb1 = "flush_commit zero v (rb_run zero (env i) rb)"
  have "suffix (rb_list (next_turn zero env gap i v rb)) (rb_list ?rb1 @ pushed (gap i))"
    unfolding next_turn_def using assms(1) by (intro rb_run_list inv_rules rb_run_wf)
  moreover have "suffix (rb_list ?rb1 @ pushed (gap i)) ((tl (rb_list rb) @ pushed (env i)) @ pushed (gap i))"
    using assms by (intro suffix_append_mono commit_suffix) auto
  ultimately show ?thesis
    by (auto intro: suffix_order.trans)
qed

lemma flush_loop_Suc:
  "flush_loop zero send env gap i (Suc n) st rb =
     (case flush_sample rb of
        None \<Rightarrow> ([], None, st, rb)
      | Some (x, v) \<Rightarrow>
          (case send i x st of
             (SendFail e, st1) \<Rightarrow> ([x], Some e, st1, rb_run zero (env i) rb)
           | (_, st1) \<Rightarrow>
               (let (xs, r, st2, rb2) = flush_loop zero send env gap (Suc i) n st1 (next_turn zero env gap i v rb)
                in (x # xs, r, st2, rb2))))"
  by (simp add: Let_def next_turn_def case_prod_beta split: option.split send_result.split)

lemma flush_loop_subset:
  "rb_wf rb \<Longrightarrow> \<forall>j. length (env j) < 2 ^ 64 \<Longrightarrow>
     set (fst (flush_loop zero send env gap i n st rb)) \<subseteq> set (rb_list rb) \<union> set (turns_pushes env gap i n)"
proof (induction n arbitrary: i st rb)
  case (Suc n)
  show ?case
  proof (cases "flush_sample rb")
    case (Some p)
    then obtain x v where p: "flush_sample rb = Some (x, v)" by (cases p) auto
    let ?rb1 = "next_turn zero env gap i v rb"
    obtain q where l: "rb_list rb = x # q"
      using flush_sample_Some [OF Suc.prems(1) p] by blast
    have "set (rb_list ?rb1) \<subseteq> set q \<union> set (pushed (env i)) \<union> set (pushed (gap i))"
      using set_mono_suffix [OF next_turn_suffix [OF Suc.prems(1) p Suc.prems(2), of zero gap i]] l by auto
    moreover have "set (fst (flush_loop zero send env gap (Suc i) n (snd (send i x st)) ?rb1))
        \<subseteq> set (rb_list ?rb1) \<union> set (turns_pushes env gap (Suc i) n)"
      using next_turn_wf [OF Suc.prems(1)] Suc.prems(2) by (rule Suc.IH)
    ultimately show ?thesis
      using p l
      by (auto simp: flush_loop_Suc turns_pushes_Suc Let_def case_prod_beta
          simp del: flush_loop.simps split: send_result.splits)
  qed (simp add: flush_loop_Suc del: flush_loop.simps)
qed simp

lemma flush_loop_sorted:
  "rb_wf rb \<Longrightarrow> \<forall>j. length (env j) < 2 ^ 64 \<Longrightarrow>
     sorted_wrt (<) (rb_list rb @ turns_pushes env gap i n) \<Longrightarrow>
     sorted_wrt (<) (fst (flush_loop zero send env gap i n st (rb :: 'a :: linorder ring)))"
proof (induction n arbitrary: i st rb)
  case (Suc n)
  show ?case
  proof (cases "flush_sample rb")
    case (Some p)
    then obtain x v where p: "flush_sample rb = Some (x, v)" by (cases p) auto
    let ?rb1 = "next_turn zero env gap i v rb" and ?rest = "turns_pushes env gap (Suc i) n"
    let ?st1 = "snd (send i x st)"
    have wf1: "rb_wf ?rb1"
      by (intro inv_rules Suc.prems)
    have l: "rb_list rb = x # tl (rb_list rb)"
      using flush_sample_Some [OF Suc.prems(1) p] by simp
    have sorted: "sorted_wrt (<) (x # (tl (rb_list rb) @ pushed (env i) @ pushed (gap i)) @ ?rest)"
      using Suc.prems(3) l unfolding turns_pushes_Suc by (metis append_Cons append_assoc)
    obtain zs where zs: "tl (rb_list rb) @ pushed (env i) @ pushed (gap i) = zs @ rb_list ?rb1"
      using next_turn_suffix [OF Suc.prems(1) p Suc.prems(2), of zero gap i] by (auto simp: suffix_def)
    have s1: "sorted_wrt (<) (rb_list ?rb1 @ ?rest)" and gt: "\<forall>y \<in> set (rb_list ?rb1 @ ?rest). x < y"
      using sorted unfolding zs by (auto simp: sorted_wrt_append)
    have "sorted_wrt (<) (fst (flush_loop zero send env gap (Suc i) n ?st1 ?rb1))"
      using wf1 Suc.prems(2) s1 by (rule Suc.IH)
    moreover have "\<forall>y \<in> set (fst (flush_loop zero send env gap (Suc i) n ?st1 ?rb1)). x < y"
      using flush_loop_subset [OF wf1 Suc.prems(2), of zero send gap "Suc i" n ?st1] gt by auto
    ultimately show ?thesis
      using p by (auto simp: flush_loop_Suc Let_def case_prod_beta simp del: flush_loop.simps split: send_result.splits)
  qed (simp add: flush_loop_Suc del: flush_loop.simps)
qed simp

text \<open>What a flush does when nothing interferes: deliver in order until the first hard error.\<close>

fun deliver :: "(nat \<Rightarrow> 'a \<Rightarrow> 's \<Rightarrow> 'e send_result \<times> 's) \<Rightarrow> nat \<Rightarrow> 's \<Rightarrow> 'a list \<Rightarrow> 'a list \<times> 'e option \<times> 's \<times> 'a list" where
  "deliver send i st [] = ([], None, st, [])"
| "deliver send i st (x # xs) =
     (case send i x st of
        (SendFail e, st1) \<Rightarrow> ([x], Some e, st1, x # xs)
      | (_, st1) \<Rightarrow> (let (ys, r, st2, q) = deliver send (Suc i) st1 xs in (x # ys, r, st2, q)))"

lemma flush_loop_deliver:
  "rb_wf rb \<Longrightarrow> rb_size rb \<le> n \<Longrightarrow>
     flush_loop zero send (\<lambda>_. []) (\<lambda>_. []) i n st rb = (xs, r, st', rb') \<Longrightarrow>
     deliver send i st (rb_list rb) = (xs, r, st', rb_list rb')"
proof (induction n arbitrary: i st rb xs r st' rb')
  case (Suc n)
  show ?case
  proof (cases "flush_sample rb")
    case None
    with Suc.prems show ?thesis by (simp add: flush_sample_None)
  next
    case (Some p)
    then obtain x v where p: "flush_sample rb = Some (x, v)" by (cases p) auto
    have v: "v = rb_version rb" and z: "0 < rb_size rb"
      using flush_sample_Some [OF Suc.prems(1) p] by auto
    obtain q where l: "rb_list rb = x # q"
      using flush_sample_Some [OF Suc.prems(1) p] by blast
    let ?rb1 = "flush_commit zero v rb" and ?st1 = "snd (send i x st)"
    have l1: "rb_list ?rb1 = q"
      using Suc.prems(1) z v l by (simp add: rb_list_flush_commit)
    have wf1: "rb_wf ?rb1"
      by (intro inv_rules Suc.prems)
    have sz: "rb_size ?rb1 \<le> n"
      using Suc.prems(2) z v by (simp add: flush_commit_def)
    obtain ys r1 st2 rb2 where rec: "flush_loop zero send (\<lambda>_. []) (\<lambda>_. []) (Suc i) n ?st1 ?rb1 = (ys, r1, st2, rb2)"
      by (cases "flush_loop zero send (\<lambda>_. []) (\<lambda>_. []) (Suc i) n ?st1 ?rb1")
    have "deliver send (Suc i) ?st1 q = (ys, r1, st2, rb_list rb2)"
      using Suc.IH [OF wf1 sz rec] by (simp add: l1)
    then show ?thesis
      using Suc.prems(3) p rec l by (auto simp: Let_def case_prod_beta split: send_result.splits)
  qed
qed (simp add: rb_list_empty)

lemma flush_loop_attempts: "length (fst (flush_loop zero send env gap i n st rb)) \<le> n"
  by (induction n arbitrary: i st rb)
    (auto simp: Let_def case_prod_beta split: option.splits send_result.splits)

lemma flush_loop_wf: "rb_wf rb \<Longrightarrow> rb_wf (snd (snd (snd (flush_loop zero send env gap i n st rb))))"
  by (induction n arbitrary: i st rb)
    (auto simp: Let_def case_prod_beta rb_run_wf inv_rules split: option.splits send_result.splits)

text \<open>An invariant of the callback's variables holds after the flush.\<close>

lemma flush_loop_inv:
  assumes "\<And>i x st. P st \<Longrightarrow> P (snd (send i x st))" and "P st"
  shows "P (fst (snd (snd (flush_loop zero send env gap i n st rb))))"
  using assms(2)
proof (induction n arbitrary: i st rb)
  case (Suc n)
  then show ?case
    using assms(1) [of st i] by (auto simp: Let_def case_prod_beta split: option.splits send_result.splits)
qed simp

subsection \<open>Flushing while there is room\<close>

text \<open>
  As long as the queue and everything pushed meanwhile fit and nobody drains, no entry is
  overwritten: each one has been settled by the callback or is still queued.
\<close>

definition pushes_only :: "'a rb_op list \<Rightarrow> bool" where
  "pushes_only ps \<longleftrightarrow> list_all (\<lambda>p. p \<noteq> DrainOp) ps"

lemma pushes_only_Cons: "pushes_only (p # ps) \<longleftrightarrow> (\<exists>x. p = PushOp x) \<and> pushes_only ps"
  by (cases p) (auto simp: pushes_only_def)

lemma rb_run_room:
  "rb_wf rb \<Longrightarrow> pushes_only ps \<Longrightarrow> rb_size rb + length (pushed ps) \<le> rb_cap rb \<Longrightarrow>
     rb_list (rb_run zero ps rb) = rb_list rb @ pushed ps \<and> rb_version (rb_run zero ps rb) = rb_version rb"
proof (induction ps arbitrary: rb)
  case (Cons p ps)
  then obtain x where p: "p = PushOp x" "pushes_only ps"
    by (auto simp: pushes_only_Cons)
  have "rb_size (Push x rb) = Suc (rb_size rb)"
    using Cons.prems p by (simp add: Push_def Let_def)
  with Cons.IH [of "Push x rb"] Cons.prems p show ?case
    by (simp add: rb_list_Push Push_version inv_rules)
qed simp

lemma size_of_list: "rb_list rb = xs \<Longrightarrow> rb_size rb = length xs"
  by (metis length_rb_list)

lemma next_turn_room:
  assumes "rb_wf rb" and "flush_sample rb = Some (x, v)" and "pushes_only (env i)" and "pushes_only (gap i)"
    and "rb_size rb + length (turn_pushes env gap i) \<le> rb_cap rb"
  shows "rb_list (next_turn zero env gap i v rb) = tl (rb_list rb) @ turn_pushes env gap i"
proof -
  let ?rb1 = "rb_run zero (env i) rb" and ?rb2 = "flush_commit zero v (rb_run zero (env i) rb)"
  have s: "rb_list rb = x # tl (rb_list rb)" "v = rb_version rb"
    using flush_sample_Some [OF assms(1,2)] by auto
  have l1: "rb_list ?rb1 = rb_list rb @ pushed (env i)" and v1: "rb_version ?rb1 = v"
    using rb_run_room [OF assms(1,3)] assms(5) s(2) by (auto simp: turn_pushes_def)
  have wf: "rb_wf ?rb1" and wf2: "rb_wf ?rb2"
    using assms(1) by (auto intro: rb_run_wf inv_rules)
  have "0 < rb_size ?rb1"
    using l1 s(1) by (metis append_Cons length_rb_list length_greater_0_conv list.distinct(1))
  then have l2: "rb_list ?rb2 = tl (rb_list rb) @ pushed (env i)"
    using rb_list_flush_commit [OF wf, of zero v] l1 v1 s(1) by (metis append_Cons list.sel(3))
  then have "rb_size ?rb2 + length (pushed (gap i)) \<le> rb_cap ?rb2"
    using assms(5) size_of_list [OF l2] by (simp add: turn_pushes_def)
  with rb_run_room [OF wf2 assms(4)] l2 show ?thesis
    by (simp add: next_turn_def turn_pushes_def)
qed

lemma turns_pushes_turn:
  "turns_pushes env gap i (Suc n) = turn_pushes env gap i @ turns_pushes env gap (Suc i) n"
  by (simp add: turns_pushes_Suc turn_pushes_def)

lemma flush_loop_settles:
  assumes "\<And>i x st. G x (snd (send i x st)) \<or> (\<exists>e. fst (send i x st) = SendFail e)"
    and "\<And>i x y st. G y st \<Longrightarrow> G y (snd (send i x st))"
    and "\<forall>j. pushes_only (env j) \<and> pushes_only (gap j)"
  shows "rb_wf rb \<Longrightarrow> rb_size rb + length (turns_pushes env gap i n) \<le> rb_cap rb \<Longrightarrow>
    flush_loop zero send env gap i n st rb = (xs, r, st', rb') \<Longrightarrow>
    \<exists>ps ds. prefix ps (turns_pushes env gap i n) \<and> rb_list rb @ ps = ds @ rb_list rb' \<and> (\<forall>x \<in> set ds. G x st')"
proof (induction n arbitrary: i st rb xs r st' rb')
  case (Suc n)
  show ?case
  proof (cases "flush_sample rb")
    case None
    with Suc.prems show ?thesis
      by (intro exI [of _ "[]"]) auto
  next
    case (Some p)
    then obtain x v where p: "flush_sample rb = Some (x, v)" by (cases p) auto
    let ?rb1 = "next_turn zero env gap i v rb" and ?st1 = "snd (send i x st)"
    obtain q where l: "rb_list rb = x # q"
      using flush_sample_Some [OF Suc.prems(1) p] by blast
    show ?thesis
    proof (cases "\<exists>e. fst (send i x st) = SendFail e")
      case True
      then have "rb' = rb_run zero (env i) rb"
        using Suc.prems(3) p by (auto simp: Let_def case_prod_beta)
      then have "rb_list rb' = rb_list rb @ pushed (env i)"
        using rb_run_room [OF Suc.prems(1), of "env i" zero] assms(3) Suc.prems(2) by (auto simp: turns_pushes_Suc)
      then show ?thesis
        by (intro exI [of _ "pushed (env i)"] exI [of _ "[]"]) (auto simp: turns_pushes_Suc)
    next
      case False
      then obtain ys where rec: "flush_loop zero send env gap (Suc i) n ?st1 ?rb1 = (ys, r, st', rb')"
        using Suc.prems(3) p
        by (auto simp: Let_def case_prod_beta next_turn_def prod_eq_iff split: send_result.splits)
      have l1: "rb_list ?rb1 = q @ turn_pushes env gap i"
        using next_turn_room [OF Suc.prems(1) p, of env i gap zero] assms(3) Suc.prems(2) l
        by (simp add: turns_pushes_turn)
      then have "rb_size ?rb1 + length (turns_pushes env gap (Suc i) n) \<le> rb_cap ?rb1"
        using Suc.prems(2) size_of_list [OF l] size_of_list [OF l1] by (simp add: turns_pushes_turn)
      from Suc.IH [OF next_turn_wf [OF Suc.prems(1)] this rec] obtain ps ds where
        IH: "prefix ps (turns_pushes env gap (Suc i) n)" "rb_list ?rb1 @ ps = ds @ rb_list rb'" "\<forall>x \<in> set ds. G x st'"
        by blast
      have "G x st'"
        using flush_loop_inv [where P = "G x" and send = send, OF assms(2), of ?st1] assms(1) [of x i st] False rec
        by (metis fst_conv snd_conv)
      with IH l l1 show ?thesis
        by (intro exI [of _ "turn_pushes env gap i @ ps"] exI [of _ "x # ds"]) (auto simp: turns_pushes_turn)
    qed
  qed
qed auto

lemma flush_loop_empties:
  assumes "\<And>i x st e. P st \<Longrightarrow> fst (send i x st) \<noteq> SendFail e" and "\<And>i x st. P st \<Longrightarrow> P (snd (send i x st))"
    and "\<forall>j. pushes_only (env j) \<and> pushes_only (gap j)"
  shows "rb_wf rb \<Longrightarrow> P st \<Longrightarrow> rb_size rb + length (turns_pushes env gap i n) \<le> n \<Longrightarrow> n \<le> rb_cap rb \<Longrightarrow>
    flush_loop zero send env gap i n st rb = (xs, r, st', rb') \<Longrightarrow> r = None \<and> rb_list rb' = []"
proof (induction n arbitrary: i st rb xs)
  case (Suc n)
  show ?case
  proof (cases "flush_sample rb")
    case None
    with Suc.prems show ?thesis by (auto simp: flush_sample_None)
  next
    case (Some p)
    then obtain x v where p: "flush_sample rb = Some (x, v)" by (cases p) auto
    let ?rb1 = "next_turn zero env gap i v rb" and ?st1 = "snd (send i x st)"
    obtain q where l: "rb_list rb = x # q"
      using flush_sample_Some [OF Suc.prems(1) p] by blast
    obtain ys where rec: "flush_loop zero send env gap (Suc i) n ?st1 ?rb1 = (ys, r, st', rb')"
      using Suc.prems(5) p assms(1) [OF Suc.prems(2), of i x]
      by (auto simp: Let_def case_prod_beta next_turn_def prod_eq_iff split: send_result.splits)
    have l1: "rb_list ?rb1 = q @ turn_pushes env gap i"
      using next_turn_room [OF Suc.prems(1) p, of env i gap zero] assms(3) Suc.prems(3,4) l
      by (simp add: turns_pushes_turn)
    then have "rb_size ?rb1 + length (turns_pushes env gap (Suc i) n) \<le> n"
      using Suc.prems(3) size_of_list [OF l] size_of_list [OF l1] by (simp add: turns_pushes_turn)
    with Suc.IH [OF next_turn_wf [OF Suc.prems(1)] assms(2) [OF Suc.prems(2)] _ _ rec] Suc.prems(4) show ?thesis
      by simp
  qed
qed (auto simp: rb_list_empty)

section \<open>Properties\<close>

text \<open>
  C4. Overwriting is safe. Whatever pushes and drains run while one entry is being sent (fewer
  than \<open>2 ^ 64\<close> of them), the removal that follows a successful send removes that entry and no
  other: an entry pushed meanwhile, even one that landed in the same array slot, is never lost.
\<close>

theorem flush_commit_exact:
  assumes "rb_wf rb" and "flush_sample rb = Some (x, v)" and "length ps < 2 ^ 64"
    and "distinct (rb_list rb @ pushed ps)"
  shows "rb_list (flush_commit zero v (rb_run zero ps rb)) =
           filter (\<lambda>y. y \<noteq> x) (rb_list (rb_run zero ps rb))"
proof -
  have "x # tl (rb_list rb) @ pushed ps = rb_list rb @ pushed ps"
    using flush_sample_Some [OF assms(1,2)] by (metis append_Cons)
  then have x: "x \<notin> set (tl (rb_list rb) @ pushed ps)"
    using assms(4) by (metis distinct.simps(2))
  then have "filter (\<lambda>y. y \<noteq> x) (tl (rb_list rb) @ pushed ps) = tl (rb_list rb) @ pushed ps"
    by (rule filter_neq_id)
  then show ?thesis
    using commit_cases [OF assms(1-3), of zero] x
    by (elim disjE conjE) (simp, fastforce dest: set_mono_suffix intro: filter_neq_id [symmetric])
qed

theorem flush_commit_exact_witness:
  "rb_list (flush_commit 0 1 (rb_run 0 [PushOp 4, PushOp 5]
      (Push 3 (Push 2 (Push (1::nat) (NewRingBuffer 0 2)))))) = [4, 5]"
proof -
  let ?rb = "Push 3 (Push 2 (Push (1::nat) (NewRingBuffer 0 2)))"
  have wf: "rb_wf ?rb" by (intro inv_rules rb_wf_NewRingBuffer)
  have s: "flush_sample ?rb = Some (2, 1)" and d: "distinct (rb_list ?rb @ pushed [PushOp 4, PushOp 5])"
    and r: "rb_list (rb_run 0 [PushOp 4, PushOp 5] ?rb) = [4, 5]"
    by code_simp+
  show ?thesis
    using flush_commit_exact [OF wf s _ d, of 0] r by simp
qed

text \<open>
  Whatever other goroutines do between the turns of one flush, the samples it hands to
  \<open>send\<close> come in queue order and none is handed over twice: with entries tagged by arrival, the
  tags sent are strictly increasing. At most \<open>cap\<close> sends are attempted.
\<close>

theorem Flush_in_order:
  fixes rb :: "'a :: linorder ring"
  assumes "rb_wf rb" and "\<forall>j. length (env j) < 2 ^ 64"
    and "sorted_wrt (<) (rb_list rb @ turns_pushes env gap 0 (rb_cap rb))"
  shows "sorted_wrt (<) (fst (Flush zero busy send env gap st rb))
    \<and> length (fst (Flush zero busy send env gap st rb)) \<le> rb_cap rb"
  using assms flush_loop_sorted [of rb env gap 0 "rb_cap rb" zero send st] flush_loop_attempts
  by (auto simp: Flush_def)

theorem Flush_in_order_witness:
  "fst (Flush 0 False (\<lambda>_ _ st. (SendOk :: unit send_result, st))
      (\<lambda>j. if j = 0 then [PushOp 3, PushOp 4] else []) (\<lambda>j. if j = 0 then [PushOp 5] else [])
      () (Push 2 (Push (1::nat) (NewRingBuffer 0 2)))) = [1, 4]
   \<and> sorted_wrt (<) [1, 4 :: nat]"
proof -
  let ?env = "\<lambda>j. if j = (0::nat) then [PushOp 3, PushOp 4] else []"
  let ?gap = "\<lambda>j. if j = (0::nat) then [PushOp 5] else []"
  let ?send = "\<lambda>_ _ st. (SendOk :: unit send_result, st)"
  let ?rb = "Push 2 (Push (1::nat) (NewRingBuffer 0 2))"
  have r: "fst (Flush 0 False ?send ?env ?gap () ?rb) = [1, 4]"
    by code_simp
  have wf: "rb_wf ?rb" by (intro inv_rules rb_wf_NewRingBuffer)
  have e: "\<forall>j. length (?env j) < 2 ^ 64" by simp
  have s: "sorted_wrt (<) (rb_list ?rb @ turns_pushes ?env ?gap 0 (rb_cap ?rb))"
    by code_simp
  show ?thesis
    using Flush_in_order [OF wf e s, of 0 False ?send "()"] r by simp
qed

text \<open>
  C28. With no interference a flush is exactly ordered delivery: every entry is attempted in queue
  order, an entry the sender rejects as invalid is dropped, the first other error stops the
  flush and is returned, and the entry that failed and all behind it stay queued.
\<close>

theorem Flush_refines_deliver:
  assumes "rb_wf rb"
  shows "\<exists>rb'. Flush zero False send (\<lambda>_. []) (\<lambda>_. []) st rb =
            (let (xs, r, st', q) = deliver send 0 st (rb_list rb) in (xs, r, st', rb'))
          \<and> rb_list rb' = snd (snd (snd (deliver send 0 st (rb_list rb)))) \<and> rb_wf rb'"
proof -
  obtain xs r st' rb' where f: "flush_loop zero send (\<lambda>_. []) (\<lambda>_. []) 0 (rb_cap rb) st rb = (xs, r, st', rb')"
    by (cases "flush_loop zero send (\<lambda>_. []) (\<lambda>_. []) 0 (rb_cap rb) st rb")
  have "deliver send 0 st (rb_list rb) = (xs, r, st', rb_list rb')"
    using assms f by (intro flush_loop_deliver) (auto simp: rb_wf_def)
  with f flush_loop_wf [OF assms, of zero send "\<lambda>_. []" "\<lambda>_. []" 0 "rb_cap rb" st] show ?thesis
    by (simp add: Flush_def)
qed

theorem Flush_refines_deliver_witness:
  "\<exists>rb'. Flush 0 False (\<lambda>i x st. (if x = 2 then SendFail () else SendOk, x # st)) (\<lambda>_. []) (\<lambda>_. []) []
        (Push 3 (Push 2 (Push (1::nat) (NewRingBuffer 0 4)))) = ([1, 2], Some (), [2, 1], rb') \<and> rb_list rb' = [2, 3]"
proof -
  let ?rb = "Push 3 (Push 2 (Push (1::nat) (NewRingBuffer 0 4)))"
  have wf: "rb_wf ?rb" by (intro inv_rules rb_wf_NewRingBuffer)
  have l: "rb_list ?rb = [1, 2, 3]" by code_simp
  show ?thesis
    using Flush_refines_deliver [OF wf, of 0 "\<lambda>i x st. (if x = 2 then SendFail () else SendOk, x # st)" "[]"]
    unfolding l by auto
qed

text \<open>
  The buffer keeps the newest entries: after any sequence of pushes into a new buffer, \<open>Drain\<close>
  returns the last \<open>cap\<close> items pushed, oldest first, where \<open>cap\<close> is 60 for a non-positive
  request.
\<close>

theorem Drain_returns_latest:
  "fst (Drain zero (fold Push xs (NewRingBuffer zero c))) =
     drop (length xs - (if c \<le> 0 then 60 else nat c)) xs"
proof -
  have "rb_cap (NewRingBuffer zero c) = (if c \<le> 0 then 60 else nat c)"
    by (simp add: NewRingBuffer_def Let_def)
  then show ?thesis
    by (simp only: fifo.drain_after_pushes [OF rb_wf_NewRingBuffer rb_list_NewRingBuffer])
qed

text \<open>
  In every state the buffer can reach, the array indices stay in range and every slot outside
  the live window holds the zero value: a removed entry is not kept alive.
\<close>

theorem ring_reachable_clean:
  assumes "reach (\<lambda>rb. \<exists>c. rb = NewRingBuffer zero c) (rb_step zero) rb"
  shows "rb_wf rb \<and> rb_clean zero rb"
  using assms by (rule ring.reach_inv)

theorem ring_reachable_clean_witness:
  "rb_wf (Push (7::nat) (NewRingBuffer 0 3)) \<and> rb_clean 0 (Push (7::nat) (NewRingBuffer 0 3))"
proof (rule ring_reachable_clean)
  show "reach (\<lambda>rb. \<exists>c. rb = NewRingBuffer 0 c) (rb_step 0) (Push (7::nat) (NewRingBuffer 0 3))"
    by (rule reach_step [where s = "NewRingBuffer 0 3" and l = "LPush 7"])
      (auto intro: reach_init step_push)
qed

end
