(* ===== verification/GoStrings.thy ===== *)
theory GoStrings
  imports Prelude
begin

text \<open>
  The part of Go's packages \<open>strings\<close> and \<open>strconv\<close> the agent's policies use. A Go string is its
  list of bytes, the type \<open>string\<close>. Case mapping and white space are those of ASCII: the agent
  compares against ASCII command names, option names, keys and schemes, and a byte of 128 or
  above (part of a multi-byte UTF-8 sequence) is left alone and is never white space. The
  Unicode white space and case pairs beyond ASCII are outside the model. Numbers are Go \<open>int\<close>s
  of 64 bits.
\<close>

section \<open>Characters\<close>

definition is_space :: "char \<Rightarrow> bool" where
  "is_space c \<longleftrightarrow> c \<in> set [CHR 0x09, CHR 0x0A, CHR 0x0B, CHR 0x0C, CHR 0x0D, CHR 0x20]"

definition lower_char :: "char \<Rightarrow> char" where
  "lower_char c = (let n = of_char c :: nat in if 65 \<le> n \<and> n \<le> 90 then char_of (n + 32) else c)"

definition upper_char :: "char \<Rightarrow> char" where
  "upper_char c = (let n = of_char c :: nat in if 97 \<le> n \<and> n \<le> 122 then char_of (n - 32) else c)"

definition is_digit :: "char \<Rightarrow> bool" where
  "is_digit c \<longleftrightarrow> (let n = of_char c :: nat in 48 \<le> n \<and> n \<le> 57)"

definition is_alnum :: "char \<Rightarrow> bool" where
  "is_alnum c \<longleftrightarrow> (let n = of_char c :: nat in
     48 \<le> n \<and> n \<le> 57 \<or> 65 \<le> n \<and> n \<le> 90 \<or> 97 \<le> n \<and> n \<le> 122)"

definition is_ascii :: "char \<Rightarrow> bool" where
  "is_ascii c \<longleftrightarrow> of_char c < (128::nat)"

definition is_ctl :: "char \<Rightarrow> bool" where
  "is_ctl c \<longleftrightarrow> of_char c < (32::nat) \<or> of_char c = (127::nat)"

text \<open>The same on the bits, so that closed terms evaluate quickly.\<close>

lemma is_space_code [code]:
  "is_space (Char b0 b1 b2 b3 b4 b5 b6 b7) \<longleftrightarrow>
     \<not> b7 \<and> \<not> b6 \<and> \<not> b4 \<and>
     (if b5 then \<not> b0 \<and> \<not> b1 \<and> \<not> b2 \<and> \<not> b3 else b3 \<and> (b0 \<or> b1 \<or> b2) \<and> \<not> (b2 \<and> b1))"
  by (cases b0; cases b1; cases b2; cases b3; cases b4; cases b5; cases b6; cases b7) (simp_all add: is_space_def)

lemma is_digit_code [code]:
  "is_digit (Char b0 b1 b2 b3 b4 b5 b6 b7) \<longleftrightarrow> \<not> b7 \<and> \<not> b6 \<and> b5 \<and> b4 \<and> \<not> (b3 \<and> (b2 \<or> b1))"
  by (cases b0; cases b1; cases b2; cases b3; cases b4; cases b5; cases b6; cases b7)
    (simp_all add: is_digit_def Let_def of_char_def)

lemma is_alnum_code [code]:
  "is_alnum (Char b0 b1 b2 b3 b4 b5 b6 b7) \<longleftrightarrow>
     \<not> b7 \<and> (if b6 then (b0 \<or> b1 \<or> b2 \<or> b3 \<or> b4) \<and> \<not> (b4 \<and> b3 \<and> (b2 \<or> b1 \<and> b0))
             else b5 \<and> b4 \<and> \<not> (b3 \<and> (b2 \<or> b1)))"
  by (cases b0; cases b1; cases b2; cases b3; cases b4; cases b5; cases b6; cases b7)
    (simp_all add: is_alnum_def Let_def of_char_def)

lemma is_ascii_code [code]: "is_ascii (Char b0 b1 b2 b3 b4 b5 b6 b7) \<longleftrightarrow> \<not> b7"
  by (cases b0; cases b1; cases b2; cases b3; cases b4; cases b5; cases b6; cases b7)
    (simp_all add: is_ascii_def of_char_def)

lemma is_ctl_code [code]:
  "is_ctl (Char b0 b1 b2 b3 b4 b5 b6 b7) \<longleftrightarrow>
     \<not> b7 \<and> (if b6 then b5 \<and> b4 \<and> b3 \<and> b2 \<and> b1 \<and> b0 else \<not> b5)"
  by (cases b0; cases b1; cases b2; cases b3; cases b4; cases b5; cases b6; cases b7)
    (simp_all add: is_ctl_def of_char_def)

lemma lower_char_code [code]:
  "lower_char (Char b0 b1 b2 b3 b4 b5 b6 b7) =
     (if \<not> b7 \<and> b6 \<and> \<not> b5 \<and> (b0 \<or> b1 \<or> b2 \<or> b3 \<or> b4) \<and> \<not> (b4 \<and> b3 \<and> (b2 \<or> b1 \<and> b0))
      then Char b0 b1 b2 b3 b4 True b6 b7 else Char b0 b1 b2 b3 b4 b5 b6 b7)"
  by (cases b0; cases b1; cases b2; cases b3; cases b4; cases b5; cases b6; cases b7)
    (simp_all add: lower_char_def Let_def of_char_def char_of_def bit_0)

lemma upper_char_code [code]:
  "upper_char (Char b0 b1 b2 b3 b4 b5 b6 b7) =
     (if \<not> b7 \<and> b6 \<and> b5 \<and> (b0 \<or> b1 \<or> b2 \<or> b3 \<or> b4) \<and> \<not> (b4 \<and> b3 \<and> (b2 \<or> b1 \<and> b0))
      then Char b0 b1 b2 b3 b4 False b6 b7 else Char b0 b1 b2 b3 b4 b5 b6 b7)"
  by (cases b0; cases b1; cases b2; cases b3; cases b4; cases b5; cases b6; cases b7)
    (simp_all add: upper_char_def Let_def of_char_def char_of_def bit_0)

section \<open>Package strings\<close>

definition ToLower :: "string \<Rightarrow> string" where
  "ToLower s = map lower_char s"

definition ToUpper :: "string \<Rightarrow> string" where
  "ToUpper s = map upper_char s"

definition EqualFold :: "string \<Rightarrow> string \<Rightarrow> bool" where
  "EqualFold s t \<longleftrightarrow> ToLower s = ToLower t"

definition TrimLeft :: "(char \<Rightarrow> bool) \<Rightarrow> string \<Rightarrow> string" where
  "TrimLeft p s = dropWhile p s"

definition TrimRight :: "(char \<Rightarrow> bool) \<Rightarrow> string \<Rightarrow> string" where
  "TrimRight p s = rev (dropWhile p (rev s))"

definition TrimSpace :: "string \<Rightarrow> string" where
  "TrimSpace s = TrimRight is_space (TrimLeft is_space s)"

definition HasPrefix :: "string \<Rightarrow> string \<Rightarrow> bool" where
  "HasPrefix s p \<longleftrightarrow> take (length p) s = p"

definition HasSuffix :: "string \<Rightarrow> string \<Rightarrow> bool" where
  "HasSuffix s p \<longleftrightarrow> length p \<le> length s \<and> drop (length s - length p) s = p"

definition TrimPrefix :: "string \<Rightarrow> string \<Rightarrow> string" where
  "TrimPrefix s p = (if HasPrefix s p then drop (length p) s else s)"

definition TrimSuffix :: "string \<Rightarrow> string \<Rightarrow> string" where
  "TrimSuffix s p = (if HasSuffix s p then take (length s - length p) s else s)"

fun Contains :: "string \<Rightarrow> string \<Rightarrow> bool" where
  "Contains [] sub \<longleftrightarrow> sub = []"
| "Contains (c # s) sub \<longleftrightarrow> HasPrefix (c # s) sub \<or> Contains s sub"

fun IndexByte :: "string \<Rightarrow> char \<Rightarrow> nat option" where
  "IndexByte [] b = None"
| "IndexByte (c # s) b = (if c = b then Some 0 else map_option Suc (IndexByte s b))"

definition ReplaceByte :: "char \<Rightarrow> char \<Rightarrow> string \<Rightarrow> string" where
  "ReplaceByte a b s = map (\<lambda>c. if c = a then b else c) s"

text \<open>\<open>strings.Split(s, sep)\<close> for a one-byte separator.\<close>

fun SplitByte :: "char \<Rightarrow> string \<Rightarrow> string list" where
  "SplitByte b [] = [[]]"
| "SplitByte b (c # s) =
     (if c = b then [] # SplitByte b s
      else case SplitByte b s of [] \<Rightarrow> [[c]] | w # ws \<Rightarrow> (c # w) # ws)"

text \<open>\<open>strings.FieldsFunc\<close>: the maximal runs of bytes that are not separators.\<close>

function FieldsFunc :: "(char \<Rightarrow> bool) \<Rightarrow> string \<Rightarrow> string list" where
  "FieldsFunc p s =
     (case dropWhile p s of
        [] \<Rightarrow> []
      | c # t \<Rightarrow> takeWhile (\<lambda>x. \<not> p x) (c # t) # FieldsFunc p (dropWhile (\<lambda>x. \<not> p x) (c # t)))"
  by pat_completeness auto
termination
proof (relation "measure (\<lambda>(p, s). length s)", goal_cases)
  case (2 p s c t)
  have "\<not> p c"
    using 2 by (metis hd_dropWhile list.discI list.sel(1))
  moreover have "length (c # t) \<le> length s"
    using 2 by (metis length_dropWhile_le)
  ultimately show ?case
    using length_dropWhile_le [of "\<lambda>x. \<not> p x" t] by simp
qed simp

declare FieldsFunc.simps [simp del]

definition Fields :: "string \<Rightarrow> string list" where
  "Fields s = FieldsFunc is_space s"

fun Join :: "string list \<Rightarrow> string \<Rightarrow> string" where
  "Join [] sep = []"
| "Join [w] sep = w"
| "Join (w # v # ws) sep = w @ sep @ Join (v # ws) sep"

section \<open>Package strconv\<close>

definition ParseBool :: "string \<Rightarrow> bool option" where
  "ParseBool s =
     (if s \<in> set [''1'', ''t'', ''T'', ''true'', ''TRUE'', ''True''] then Some True
      else if s \<in> set [''0'', ''f'', ''F'', ''false'', ''FALSE'', ''False''] then Some False
      else None)"

definition FormatBool :: "bool \<Rightarrow> string" where
  "FormatBool b = (if b then ''true'' else ''false'')"

definition digit_val :: "char \<Rightarrow> nat" where
  "digit_val c = of_char c - 48"

definition dec_val :: "string \<Rightarrow> nat" where
  "dec_val s = foldl (\<lambda>n c. 10 * n + digit_val c) 0 s"

definition int_min :: int where "int_min = - (2 ^ 63)"
definition int_max :: int where "int_max = 2 ^ 63 - 1"

text \<open>\<open>strconv.Atoi\<close>: an optional sign and decimal digits, an error out of the 64-bit range.\<close>

definition Atoi :: "string \<Rightarrow> int option" where
  "Atoi s =
     (let neg = HasPrefix s ''-'';
          t = (if neg \<or> HasPrefix s ''+'' then tl s else s)
      in if t = [] \<or> \<not> list_all is_digit t then None
         else let n = (if neg then - int (dec_val t) else int (dec_val t))
              in if int_min \<le> n \<and> n \<le> int_max then Some n else None)"

fun itoa_nat :: "nat \<Rightarrow> string" where
  "itoa_nat n = (if n < 10 then [char_of (48 + n)] else itoa_nat (n div 10) @ [char_of (48 + n mod 10)])"

declare itoa_nat.simps [simp del]

definition Itoa :: "int \<Rightarrow> string" where
  "Itoa n = (if n < 0 then CHR ''-'' # itoa_nat (nat (- n)) else itoa_nat (nat n))"

section \<open>Lemmas\<close>

lemma EqualFold_refl [simp]: "EqualFold s s"
  by (simp add: EqualFold_def)

lemma EqualFold_sym: "EqualFold s t \<Longrightarrow> EqualFold t s"
  by (simp add: EqualFold_def)

lemma EqualFold_trans: "EqualFold s t \<Longrightarrow> EqualFold t u \<Longrightarrow> EqualFold s u"
  by (simp add: EqualFold_def)

lemma length_ToLower [simp]: "length (ToLower s) = length s"
  by (simp add: ToLower_def)

lemma lower_char_idem [simp]: "lower_char (lower_char c) = lower_char c"
  by (simp add: lower_char_def Let_def)

lemma ToLower_idem [simp]: "ToLower (ToLower s) = ToLower s"
  by (simp add: ToLower_def)

lemma HasPrefix_iff: "HasPrefix s p \<longleftrightarrow> (\<exists>t. s = p @ t)"
  by (metis HasPrefix_def append_eq_conv_conj append_take_drop_id)

lemma HasSuffix_iff: "HasSuffix s p \<longleftrightarrow> (\<exists>t. s = t @ p)"
proof
  assume "HasSuffix s p"
  then show "\<exists>t. s = t @ p"
    by (metis HasSuffix_def append_take_drop_id)
qed (auto simp: HasSuffix_def)

lemma Contains_iff: "Contains s sub \<longleftrightarrow> (\<exists>u v. s = u @ sub @ v)"
proof (induction s)
  case (Cons c s)
  show ?case
  proof
    assume "Contains (c # s) sub"
    then consider "HasPrefix (c # s) sub" | "Contains s sub" by auto
    then show "\<exists>u v. c # s = u @ sub @ v"
    proof cases
      case 1
      then obtain t where "c # s = [] @ sub @ t" by (auto simp: HasPrefix_iff)
      then show ?thesis by blast
    next
      case 2
      then obtain u v where "s = u @ sub @ v" using Cons by blast
      then have "c # s = (c # u) @ sub @ v" by simp
      then show ?thesis by blast
    qed
  next
    assume "\<exists>u v. c # s = u @ sub @ v"
    then obtain u v where uv: "c # s = u @ sub @ v" by blast
    show "Contains (c # s) sub"
    proof (cases u)
      case Nil
      with uv have "HasPrefix (c # s) sub" unfolding HasPrefix_iff by auto
      then show ?thesis by simp
    next
      case (Cons d u')
      with uv \<open>Contains s sub \<longleftrightarrow> _\<close> show ?thesis by auto
    qed
  qed
qed auto

lemma set_TrimSpace: "set (TrimSpace s) \<subseteq> set s"
  by (auto simp: TrimSpace_def TrimLeft_def TrimRight_def dest!: set_dropWhileD)

lemma TrimSpace_ends:
  assumes "TrimSpace s \<noteq> []"
  shows "\<not> is_space (last (TrimSpace s))"
  using assms hd_dropWhile [of is_space "rev (TrimLeft is_space s)"]
  unfolding TrimSpace_def TrimRight_def by (simp only: last_rev rev_is_Nil_conv) simp

lemma TrimSpace_noop:
  assumes "s \<noteq> []" and "\<not> is_space (hd s)" and "\<not> is_space (last s)"
  shows "TrimSpace s = s"
proof -
  have "dropWhile is_space s = s"
    using assms(1,2) by (cases s) auto
  moreover have "dropWhile is_space (rev s) = rev s"
    using assms(1,3) by (cases s rule: rev_cases) auto
  ultimately show ?thesis
    by (simp add: TrimSpace_def TrimLeft_def TrimRight_def)
qed

lemma TrimSpace_idem [simp]: "TrimSpace (TrimSpace s) = TrimSpace s"
proof (cases "TrimSpace s = []")
  case False
  let ?t = "dropWhile is_space s"
  have "?t = TrimSpace s @ rev (takeWhile is_space (rev ?t))"
    unfolding TrimSpace_def TrimLeft_def TrimRight_def rev_append [symmetric] takeWhile_dropWhile_id by simp
  then have "hd (TrimSpace s) = hd ?t" and "?t \<noteq> []"
    using False by (metis hd_append2, metis append_is_Nil_conv)
  then have "\<not> is_space (hd (TrimSpace s))"
    using hd_dropWhile [of is_space s] by simp
  with False show ?thesis
    using TrimSpace_ends [OF False] by (intro TrimSpace_noop) auto
next
  case True
  have "TrimSpace [] = []"
    by (simp add: TrimSpace_def TrimLeft_def TrimRight_def)
  with True show ?thesis by simp
qed

lemma FieldsFunc_words: "w \<in> set (FieldsFunc p s) \<Longrightarrow> w \<noteq> [] \<and> (\<forall>c \<in> set w. \<not> p c)"
proof (induction p s rule: FieldsFunc.induct)
  case (1 p s)
  show ?case
  proof (cases "dropWhile p s")
    case Nil
    then have "FieldsFunc p s = []" by (subst FieldsFunc.simps) (simp only: list.case)
    with 1(2) show ?thesis by simp
  next
    case (Cons c t)
    then have "\<not> p c"
      by (metis hd_dropWhile list.discI list.sel(1))
    then have ne: "takeWhile (\<lambda>x. \<not> p x) (c # t) \<noteq> []"
      by simp
    have head: "\<forall>d \<in> set (takeWhile (\<lambda>x. \<not> p x) (c # t)). \<not> p d"
      by (rule ballI) (rule set_takeWhileD [THEN conjunct2])
    have "w = takeWhile (\<lambda>x. \<not> p x) (c # t) \<or> w \<in> set (FieldsFunc p (dropWhile (\<lambda>x. \<not> p x) (c # t)))"
      using 1(2) unfolding FieldsFunc.simps [of p s] Cons by (simp only: list.case set_simps insert_iff)
    with 1(1) [OF Cons] ne head show ?thesis by metis
  qed
qed

subsection \<open>Words of a text\<close>

lemma FieldsFunc_Nil [simp]: "FieldsFunc p [] = []"
  by (subst FieldsFunc.simps) simp

lemma FieldsFunc_sep: "p c \<Longrightarrow> FieldsFunc p (c # s) = FieldsFunc p s"
  by (subst (1 2) FieldsFunc.simps) simp

lemma FieldsFunc_word:
  "w \<noteq> [] \<Longrightarrow> \<forall>c \<in> set w. \<not> p c \<Longrightarrow> s = [] \<or> p (hd s) \<Longrightarrow> FieldsFunc p (w @ s) = w # FieldsFunc p s"
proof (cases w)
  case (Cons c v)
  assume w: "\<forall>c \<in> set w. \<not> p c" and s: "s = [] \<or> p (hd s)"
  have "dropWhile p (w @ s) = c # v @ s"
    using w Cons by simp
  moreover have "takeWhile (\<lambda>x. \<not> p x) (c # v @ s) = w" "dropWhile (\<lambda>x. \<not> p x) (c # v @ s) = s"
    using w s Cons by (cases s; simp)+
  ultimately show ?thesis
    by (subst FieldsFunc.simps) simp
qed simp

lemma FieldsFunc_single: "w \<noteq> [] \<Longrightarrow> \<forall>c \<in> set w. \<not> p c \<Longrightarrow> FieldsFunc p w = [w]"
  using FieldsFunc_word [of w p "[]"] by simp

lemma takeWhile_all: "\<forall>c \<in> set (takeWhile P s). P c"
  by (induction s) auto

text \<open>Induction over a text as separators and words.\<close>

lemma words_induct [case_names Nil sep word]:
  assumes "P []" and "\<And>c s. p c \<Longrightarrow> P s \<Longrightarrow> P (c # s)"
    and "\<And>w s. w \<noteq> [] \<Longrightarrow> \<forall>c \<in> set w. \<not> p c \<Longrightarrow> s = [] \<or> p (hd s) \<Longrightarrow> P s \<Longrightarrow> P (w @ s)"
  shows "P s"
proof (induction "length s" arbitrary: s rule: less_induct)
  case less
  show ?case
  proof (cases s)
    case Nil
    with assms(1) show ?thesis by simp
  next
    case (Cons d s')
    show ?thesis
    proof (cases "p d")
      case True
      with less [of s'] Cons assms(2) show ?thesis by simp
    next
      case False
      let ?w = "takeWhile (\<lambda>x. \<not> p x) s" and ?r = "dropWhile (\<lambda>x. \<not> p x) s"
      have "?w \<noteq> []"
        using False Cons by simp
      moreover have "\<forall>c \<in> set ?w. \<not> p c"
        by (rule takeWhile_all)
      moreover have "?r = [] \<or> p (hd ?r)"
        using hd_dropWhile [of "\<lambda>x. \<not> p x" s] by blast
      moreover have "length ?r < length s"
        using False Cons length_dropWhile_le [of "\<lambda>x. \<not> p x" s'] by simp
      then have "P ?r"
        by (rule less)
      ultimately have "P (?w @ ?r)"
        by (rule assms(3))
      then show ?thesis by simp
    qed
  qed
qed

text \<open>A separator splits a text: the words before it and the words after it.\<close>

lemma FieldsFunc_append_sep:
  assumes "p c"
  shows "FieldsFunc p (s @ c # t) = FieldsFunc p s @ FieldsFunc p t"
proof (induction s rule: words_induct [where p = p])
  case (word w s)
  have "s @ c # t = [] \<or> p (hd (s @ c # t))"
    using word(3) assms by (cases s) auto
  with word show ?case
    by (simp add: FieldsFunc_word)
qed (simp_all add: FieldsFunc_sep assms)

lemma FieldsFunc_dropWhile: "FieldsFunc p (dropWhile p s) = FieldsFunc p s"
  by (induction s) (auto simp: FieldsFunc_sep)

lemma FieldsFunc_all_sep: "\<forall>c \<in> set s. p c \<Longrightarrow> FieldsFunc p s = []"
  by (induction s) (auto simp: FieldsFunc_sep)

lemma FieldsFunc_append_seps: "\<forall>c \<in> set t. p c \<Longrightarrow> FieldsFunc p (s @ t) = FieldsFunc p s"
  by (cases t) (auto simp: FieldsFunc_append_sep FieldsFunc_all_sep)

lemma Fields_TrimSpace [simp]: "Fields (TrimSpace s) = Fields s"
proof -
  let ?u = "TrimLeft is_space s"
  have u: "?u = rev (dropWhile is_space (rev ?u)) @ rev (takeWhile is_space (rev ?u))"
    by (metis rev_append rev_rev_ident takeWhile_dropWhile_id)
  have "\<forall>c \<in> set (rev (takeWhile is_space (rev ?u))). is_space c"
    unfolding set_rev by (rule takeWhile_all)
  then have "FieldsFunc is_space ?u = FieldsFunc is_space (rev (dropWhile is_space (rev ?u)))"
    by (subst u) (rule FieldsFunc_append_seps)
  then show ?thesis
    by (simp add: Fields_def TrimSpace_def TrimRight_def TrimLeft_def FieldsFunc_dropWhile)
qed

lemma is_space_char_bound: "is_space c \<Longrightarrow> of_char c < (33::nat)"
  by (auto simp: is_space_def)

lemma is_space_lower [simp]: "is_space (lower_char c) \<longleftrightarrow> is_space c"
proof (cases "65 \<le> (of_char c :: nat) \<and> of_char c \<le> (90 :: nat)")
  case True
  then have "of_char (lower_char c) = of_char c + (32 :: nat)"
    by (simp add: lower_char_def Let_def)
  with True show ?thesis
    using is_space_char_bound [of c] is_space_char_bound [of "lower_char c"] by auto
next
  case False
  then show ?thesis by (auto simp: lower_char_def Let_def)
qed

lemma FieldsFunc_map:
  assumes "\<And>c. p (f c) = p c"
  shows "FieldsFunc p (map f s) = map (map f) (FieldsFunc p s)"
proof (induction s rule: words_induct [where p = p])
  case (word w s)
  have "map f s = [] \<or> p (hd (map f s))"
    using word(3) assms by (cases s) auto
  with word assms show ?case
    by (simp add: FieldsFunc_word)
qed (simp_all add: FieldsFunc_sep assms)

lemma Fields_ToLower: "Fields (ToLower s) = map ToLower (Fields s)"
  unfolding Fields_def ToLower_def by (rule FieldsFunc_map) simp

lemma Fields_Join:
  "set (Fields (Join ws '' '')) = (\<Union>w \<in> set ws. set (Fields w))"
proof (induction ws "'' ''" rule: Join.induct)
  case (3 w v ws)
  have "Fields (Join (w # v # ws) '' '') = Fields w @ Fields (Join (v # ws) '' '')"
    unfolding Fields_def using FieldsFunc_append_sep [of is_space "CHR '' ''" w]
    by (simp add: is_space_def)
  with 3 show ?case by simp
qed (simp_all add: Fields_def)

lemma Fields_word: "w \<noteq> [] \<Longrightarrow> \<forall>c \<in> set w. \<not> is_space c \<Longrightarrow> Fields w = [w]"
  by (simp add: Fields_def FieldsFunc_single)

lemma Fields_Join_Fields: "set (Fields (Join (Fields s) '' '')) = set (Fields s)"
proof -
  have "Fields w = [w]" if "w \<in> set (Fields s)" for w
    using that FieldsFunc_words [of w is_space s] by (intro Fields_word) (auto simp: Fields_def)
  then show ?thesis
    by (auto simp: Fields_Join)
qed

subsection \<open>Case folding commutes with trimming\<close>

lemma TrimSpace_map:
  assumes "\<And>c. is_space (f c) = is_space c"
  shows "TrimSpace (map f s) = map f (TrimSpace s)"
proof -
  have "is_space \<circ> f = is_space" using assms by (simp add: comp_def)
  then show ?thesis
    by (simp add: TrimSpace_def TrimLeft_def TrimRight_def dropWhile_map rev_map)
qed

lemma TrimSpace_ToLower: "TrimSpace (ToLower s) = ToLower (TrimSpace s)"
  unfolding ToLower_def by (rule TrimSpace_map) simp

lemma ToLower_Nil_iff [simp]: "ToLower s = [] \<longleftrightarrow> s = []" "[] = ToLower s \<longleftrightarrow> s = []"
  by (auto simp: ToLower_def)

lemma lower_char_eq_iff:
  assumes "(of_char d :: nat) < 65"
  shows "lower_char c = d \<longleftrightarrow> c = d"
proof (cases "65 \<le> (of_char c :: nat) \<and> of_char c \<le> (90 :: nat)")
  case True
  then have "of_char (lower_char c) = of_char c + (32 :: nat)"
    by (simp add: lower_char_def Let_def)
  with True assms show ?thesis by auto
next
  case False
  then show ?thesis by (auto simp: lower_char_def Let_def)
qed

lemma Join_append:
  "xs \<noteq> [] \<Longrightarrow> ys \<noteq> [] \<Longrightarrow> Join (xs @ ys) sep = Join xs sep @ sep @ Join ys sep"
proof (induction xs sep rule: Join.induct)
  case (2 w sep)
  then show ?case by (cases ys) auto
qed auto

lemma EqualFold_space_free:
  assumes "EqualFold a t" and "t \<noteq> []" and "\<forall>c \<in> set t. \<not> is_space c"
  shows "Fields a = [a]"
proof -
  have "map lower_char a = map lower_char t"
    using assms(1) by (simp add: EqualFold_def ToLower_def)
  then have "is_space ` set (map lower_char a) = is_space ` set (map lower_char t)"
    by (simp only:)
  then have "is_space ` set a = is_space ` set t"
    by (simp add: image_image)
  with assms(3) have "\<forall>c \<in> set a. \<not> is_space c"
    by (metis (full_types) imageE imageI)
  moreover have "a \<noteq> []" using \<open>map lower_char a = map lower_char t\<close> assms(2) by auto
  ultimately show ?thesis by (rule Fields_word [rotated])
qed

end
