(* ===== verification/GoURL.thy ===== *)
theory GoURL
  imports GoStrings
begin

text \<open>
  The part of Go's \<open>net/url\<close> the agent uses: \<open>Parse\<close>, \<open>URL.String\<close>, \<open>URL.Hostname\<close>, \<open>URL.Port\<close>
  and \<open>net.JoinHostPort\<close>, on byte strings. Percent escapes are decoded and encoded as the
  library does for paths, hosts, zones and user information; the text inside the brackets of an
  IPv6 literal is not checked further. Together with it the URL helpers of
  \<open>internal/agentcore/config_values.go\<close>, which rewrite the scheme of a Hub address.
\<close>

section \<open>Escapes\<close>

datatype url_mode = EncPath | EncHost | EncZone | EncUser | EncFragment

definition is_hex :: "char \<Rightarrow> bool" where
  "is_hex c \<longleftrightarrow> is_digit c \<or> c \<in> set ''abcdefABCDEF''"

definition unhex :: "char \<Rightarrow> nat" where
  "unhex c = (if is_digit c then digit_val c else of_char (lower_char c) - 87)"

definition hex_digit :: "nat \<Rightarrow> char" where
  "hex_digit n = ''0123456789ABCDEF'' ! (n mod 16)"

definition shouldEscape :: "url_mode \<Rightarrow> char \<Rightarrow> bool" where
  "shouldEscape md c =
     (if is_alnum c \<or> c \<in> set ''-_.~'' then False
      else if (md = EncHost \<or> md = EncZone) \<and> c \<in> set ''!$&'' \<union> {CHR 0x27} \<union> set ''()*+,;=:[]<>'' \<union> {CHR 0x22} then False
      else if c \<in> set ''$&+,/:;=?@'' then
        (case md of EncPath \<Rightarrow> c = CHR ''?''
         | EncUser \<Rightarrow> c \<in> set ''@/?:''
         | EncFragment \<Rightarrow> False
         | _ \<Rightarrow> True)
      else if md = EncFragment \<and> c \<in> set ''!()*'' then False
      else True)"

fun unescape :: "url_mode \<Rightarrow> string \<Rightarrow> string option" where
  "unescape md [] = Some []"
| "unescape md (c # s) =
     (if c = CHR ''%'' then
        (case s of
           a # b # t \<Rightarrow>
             if \<not> (is_hex a \<and> is_hex b) then None
             else if md = EncHost \<and> unhex a < 8 \<and> (a, b) \<noteq> (CHR ''2'', CHR ''5'') then None
             else let v = char_of (unhex a * 16 + unhex b) :: char
                  in if md = EncZone \<and> (a, b) \<noteq> (CHR ''2'', CHR ''5'') \<and> v \<noteq> CHR '' '' \<and> shouldEscape EncHost v
                     then None
                     else map_option (\<lambda>r. v # r) (unescape md t)
         | _ \<Rightarrow> None)
      else if (md = EncHost \<or> md = EncZone) \<and> is_ascii c \<and> shouldEscape md c then None
      else map_option (\<lambda>r. c # r) (unescape md s))"

definition escape_char :: "url_mode \<Rightarrow> char \<Rightarrow> string" where
  "escape_char md c =
     (if shouldEscape md c then [CHR ''%'', hex_digit (of_char c div 16), hex_digit (of_char c)] else [c])"

definition escape :: "url_mode \<Rightarrow> string \<Rightarrow> string" where
  "escape md s = concat (map (escape_char md) s)"

definition validEncoded :: "url_mode \<Rightarrow> string \<Rightarrow> bool" where
  "validEncoded md s \<longleftrightarrow>
     list_all (\<lambda>c. c \<in> set ''!$&'' \<union> {CHR 0x27} \<union> set ''()*+,;=:@[]%'' \<or> \<not> shouldEscape md c) s"

section \<open>Parsing\<close>

record url =
  u_scheme :: string
  u_opaque :: string
  u_user :: "(string \<times> string option) option"
  u_host :: string
  u_path :: string
  u_raw_path :: string
  u_omit_host :: bool
  u_force_query :: bool
  u_raw_query :: string
  u_fragment :: string

definition empty_url :: url where
  "empty_url = \<lparr>u_scheme = [], u_opaque = [], u_user = None, u_host = [], u_path = [], u_raw_path = [],
     u_omit_host = False, u_force_query = False, u_raw_query = [], u_fragment = []\<rparr>"

text \<open>\<open>strings.Cut\<close> at a byte, and the position after the last occurrence of a byte.\<close>

definition CutByte :: "char \<Rightarrow> string \<Rightarrow> string \<times> string" where
  "CutByte b s = (takeWhile (\<lambda>c. c \<noteq> b) s, drop 1 (dropWhile (\<lambda>c. c \<noteq> b) s))"

definition cut_last :: "char \<Rightarrow> string \<Rightarrow> (string \<times> string) option" where
  "cut_last b s =
     (if b \<in> set s
      then let t = rev (takeWhile (\<lambda>c. c \<noteq> b) (rev s)) in Some (take (length s - length t - 1) s, t)
      else None)"

definition is_letter :: "char \<Rightarrow> bool" where
  "is_letter c \<longleftrightarrow> is_alnum c \<and> \<not> is_digit c"

text \<open>\<open>getScheme\<close>: \<open>acc\<close> is the text read so far.\<close>

fun getScheme :: "string \<Rightarrow> string \<Rightarrow> (string \<times> string) option" where
  "getScheme acc [] = Some ([], acc)"
| "getScheme acc (c # s) =
     (if is_letter c then getScheme (acc @ [c]) s
      else if is_digit c \<or> c \<in> set ''+-.'' then
        (if acc = [] then Some ([], c # s) else getScheme (acc @ [c]) s)
      else if c = CHR '':'' then (if acc = [] then None else Some (acc, s))
      else Some ([], acc @ c # s))"

definition validOptionalPort :: "string \<Rightarrow> bool" where
  "validOptionalPort p \<longleftrightarrow> (case p of [] \<Rightarrow> True | c # s \<Rightarrow> c = CHR '':'' \<and> list_all is_digit s)"

fun cut_zone :: "string \<Rightarrow> (string \<times> string) option" where
  "cut_zone [] = None"
| "cut_zone (c # s) =
     (if HasPrefix (c # s) ''%25'' then Some ([], c # s)
      else map_option (\<lambda>(a, b). (c # a, b)) (cut_zone s))"

definition parseHost :: "string \<Rightarrow> string option" where
  "parseHost host =
     (if HasPrefix host ''['' then
        (case cut_last (CHR '']'') host of
           None \<Rightarrow> None
         | Some (h, colonPort) \<Rightarrow>
             if \<not> validOptionalPort colonPort then None
             else case cut_zone h of
                    Some (a, z) \<Rightarrow>
                      (case (unescape EncHost a, unescape EncZone z, unescape EncHost (CHR '']'' # colonPort)) of
                         (Some x, Some y, Some w) \<Rightarrow> Some (x @ y @ w)
                       | _ \<Rightarrow> None)
                  | None \<Rightarrow> unescape EncHost host)
      else case cut_last (CHR '':'') host of
             Some (_, p) \<Rightarrow> if validOptionalPort (CHR '':'' # p) then unescape EncHost host else None
           | None \<Rightarrow> unescape EncHost host)"

definition validUserinfo :: "string \<Rightarrow> bool" where
  "validUserinfo s \<longleftrightarrow> list_all (\<lambda>c. is_alnum c \<or> c \<in> set ''-._:~!$&'' \<union> {CHR 0x27} \<union> set ''()*+,;=%@'') s"

definition parse_user :: "string \<Rightarrow> (string \<times> string option) option" where
  "parse_user ui =
     (if \<not> validUserinfo ui then None
      else if CHR '':'' \<notin> set ui then map_option (\<lambda>n. (n, None)) (unescape EncUser ui)
      else let (n, p) = CutByte (CHR '':'') ui
           in case (unescape EncUser n, unescape EncUser p) of
                (Some n', Some p') \<Rightarrow> Some (n', Some p')
              | _ \<Rightarrow> None)"

definition parseAuthority :: "string \<Rightarrow> ((string \<times> string option) option \<times> string) option" where
  "parseAuthority a =
     (case cut_last (CHR ''@'') a of
        None \<Rightarrow> map_option (\<lambda>h. (None, h)) (parseHost a)
      | Some (ui, h) \<Rightarrow>
          (case (parseHost h, parse_user ui) of
             (Some h', Some u) \<Rightarrow> Some (Some u, h')
           | _ \<Rightarrow> None))"

definition setPath :: "string \<Rightarrow> url \<Rightarrow> url option" where
  "setPath p u =
     map_option (\<lambda>path. u\<lparr>u_path := path, u_raw_path := (if p = escape EncPath path then [] else p)\<rparr>)
       (unescape EncPath p)"

definition has_ctl :: "string \<Rightarrow> bool" where
  "has_ctl s \<longleftrightarrow> list_ex is_ctl s"

definition cut_query :: "string \<Rightarrow> string \<times> bool \<times> string" where
  "cut_query rest =
     (let (a, q) = CutByte (CHR ''?'') rest
      in (a, CHR ''?'' \<in> set rest \<and> q = [], q))"

definition parse_rest :: "string \<Rightarrow> string \<Rightarrow> url option" where
  "parse_rest scheme rest0 =
     (let (rest, force, query) = cut_query rest0;
          u = empty_url\<lparr>u_scheme := scheme, u_force_query := force, u_raw_query := query\<rparr>
      in if \<not> HasPrefix rest ''/'' \<and> scheme \<noteq> [] then Some (u\<lparr>u_opaque := rest\<rparr>)
         else if \<not> HasPrefix rest ''/'' \<and> CHR '':'' \<in> set (fst (CutByte (CHR ''/'') rest)) then None
         else if (scheme \<noteq> [] \<or> \<not> HasPrefix rest ''///'') \<and> HasPrefix rest ''//'' then
           let a = drop 2 rest;
               path = dropWhile (\<lambda>c. c \<noteq> CHR ''/'') a
           in (case parseAuthority (takeWhile (\<lambda>c. c \<noteq> CHR ''/'') a) of
                 None \<Rightarrow> None
               | Some (user, host) \<Rightarrow> setPath path (u\<lparr>u_user := user, u_host := host\<rparr>))
         else setPath rest (u\<lparr>u_omit_host := (scheme \<noteq> [] \<and> HasPrefix rest ''/'')\<rparr>))"

definition ParseURL :: "string \<Rightarrow> url option" where
  "ParseURL raw =
     (let (s, frag) = CutByte (CHR ''#'') raw
      in if has_ctl s then None
         else if s = ''*'' then map_option (\<lambda>f. empty_url\<lparr>u_path := s, u_fragment := f\<rparr>) (unescape EncFragment frag)
         else case getScheme [] s of
                None \<Rightarrow> None
              | Some (scheme, rest) \<Rightarrow>
                  (case parse_rest (ToLower scheme) rest of
                     None \<Rightarrow> None
                   | Some u \<Rightarrow> map_option (\<lambda>f. u\<lparr>u_fragment := f\<rparr>) (unescape EncFragment frag)))"

section \<open>Printing\<close>

definition EscapedPath :: "url \<Rightarrow> string" where
  "EscapedPath u =
     (if u_raw_path u \<noteq> [] \<and> validEncoded EncPath (u_raw_path u)
         \<and> unescape EncPath (u_raw_path u) = Some (u_path u) then u_raw_path u
      else if u_path u = ''*'' then ''*''
      else escape EncPath (u_path u))"

definition user_string :: "string \<times> string option \<Rightarrow> string" where
  "user_string ui = escape EncUser (fst ui) @
     (case snd ui of None \<Rightarrow> [] | Some p \<Rightarrow> CHR '':'' # escape EncUser p)"

definition url_authority :: "url \<Rightarrow> string" where
  "url_authority u =
     (if u_scheme u = [] \<and> u_host u = [] \<and> u_user u = None then []
      else if u_omit_host u \<and> u_host u = [] \<and> u_user u = None then []
      else (if u_host u \<noteq> [] \<or> u_path u \<noteq> [] \<or> u_user u \<noteq> None then ''//'' else [])
           @ (case u_user u of None \<Rightarrow> [] | Some ui \<Rightarrow> user_string ui @ ''@'')
           @ escape EncHost (u_host u))"

definition URLString :: "url \<Rightarrow> string" where
  "URLString u =
     (let sch = (if u_scheme u \<noteq> [] then u_scheme u @ '':'' else []);
          body = (if u_opaque u \<noteq> [] then u_opaque u
                  else let a = url_authority u; path = EscapedPath u
                       in a @ (if path \<noteq> [] \<and> hd path \<noteq> CHR ''/'' \<and> u_host u \<noteq> [] then ''/'' else [])
                            @ (if sch @ a = [] \<and> CHR '':'' \<in> set (fst (CutByte (CHR ''/'') path)) then ''./'' else [])
                            @ path)
      in sch @ body @ (if u_force_query u \<or> u_raw_query u \<noteq> [] then CHR ''?'' # u_raw_query u else [])
           @ (if u_fragment u \<noteq> [] then CHR ''#'' # escape EncFragment (u_fragment u) else []))"

text \<open>\<open>splitHostPort\<close> behind \<open>Hostname\<close> and \<open>Port\<close>.\<close>

definition split_host :: "string \<Rightarrow> string \<times> string" where
  "split_host hp =
     (let (h, p) = (case cut_last (CHR '':'') hp of
                      Some (a, b) \<Rightarrow> if validOptionalPort (CHR '':'' # b) then (a, b) else (hp, [])
                    | None \<Rightarrow> (hp, []))
      in (if HasPrefix h ''['' \<and> HasSuffix h '']'' then butlast (tl h) else h, p))"

definition Hostname :: "url \<Rightarrow> string" where
  "Hostname u = fst (split_host (u_host u))"

definition Port :: "url \<Rightarrow> string" where
  "Port u = snd (split_host (u_host u))"

definition JoinHostPort :: "string \<Rightarrow> string \<Rightarrow> string" where
  "JoinHostPort h p = (if CHR '':'' \<in> set h then ''['' @ h @ '']:'' @ p else h @ '':'' @ p)"

section \<open>Hub addresses\<close>

text \<open>
  \<open>normalizeURLScheme\<close> of \<open>config_values.go\<close>. \<open>optin\<close> is the value of
  \<open>allowInsecureTransportOptIn\<close>, read from the process environment.
\<close>

definition normalizeURLScheme :: "bool \<Rightarrow> string \<Rightarrow> string \<Rightarrow> (string \<rightharpoonup> string) \<Rightarrow> string \<Rightarrow> string" where
  "normalizeURLScheme optin secureScheme insecureScheme aliases raw =
     (let trimmed = TrimSpace raw
      in if trimmed = [] then []
         else case ParseURL trimmed of
                None \<Rightarrow> trimmed
              | Some parsed \<Rightarrow>
                  if TrimSpace (u_scheme parsed) = [] then trimmed
                  else let s0 = ToLower (TrimSpace (u_scheme parsed));
                           scheme = (case aliases s0 of Some m \<Rightarrow> m | None \<Rightarrow> s0)
                       in URLString
                            (if scheme = secureScheme then parsed\<lparr>u_scheme := secureScheme\<rparr>
                             else if scheme = insecureScheme
                               then parsed\<lparr>u_scheme := (if optin then insecureScheme else secureScheme)\<rparr>
                             else parsed))"

definition normalizeAPIBaseURL :: "bool \<Rightarrow> string \<Rightarrow> string" where
  "normalizeAPIBaseURL optin raw =
     normalizeURLScheme optin ''https'' ''http'' (map_of [(''wss'', ''https''), (''ws'', ''http'')]) raw"

definition normalizeWSBaseURL :: "bool \<Rightarrow> string \<Rightarrow> string" where
  "normalizeWSBaseURL optin raw =
     normalizeURLScheme optin ''wss'' ''ws'' (map_of [(''https'', ''wss''), (''http'', ''ws'')]) raw"

definition normalizeHTTPSURL :: "bool \<Rightarrow> string \<Rightarrow> string" where
  "normalizeHTTPSURL optin raw = normalizeURLScheme optin ''https'' ''http'' (\<lambda>_. None) raw"

end
