(* ===== verification/HubIdentity.thy ===== *)
theory HubIdentity
  imports GoURL Prelude
begin

text \<open>
  The agent's credential and routing identity: \<open>internal/agentcore/runtime_identity.go\<close>, with the
  Hub address helpers of \<open>enrollment_state.go\<close> it calls. One record holds the bearer token, the
  asset, the group and the Hub addresses; every update replaces the whole record under one lock
  and advances a \<open>uint64\<close> generation, which is how a handshake notices that the identity it was
  made with is no longer current. The nil receiver, which no constructor makes, is left out.
  \<open>optin\<close> is \<open>allowInsecureTransportOptIn\<close>.
\<close>

section \<open>Validation\<close>

definition maxAgentBearerTokenBytes :: nat where "maxAgentBearerTokenBytes = 4096"

definition token_char :: "char \<Rightarrow> bool" where
  "token_char c \<longleftrightarrow> is_alnum c \<or> c \<in> set ''-._~+/=''"

datatype identity_error = CredentialLength | CredentialCharacters | InvalidCanonicalAsset

definition normalizeIssuedAgentToken :: "string \<Rightarrow> (identity_error, string) result" where
  "normalizeIssuedAgentToken raw =
     (let token = TrimSpace raw
      in if token = [] \<or> maxAgentBearerTokenBytes < length token then Err CredentialLength
         else if list_all token_char token then Ok token
         else Err CredentialCharacters)"

lemma normalizeIssuedAgentToken_code [code]:
  "normalizeIssuedAgentToken raw =
     (let token = TrimSpace raw
      in if token = [] \<or> 4096 < int (length token) then Err CredentialLength
         else if list_all token_char token then Ok token
         else Err CredentialCharacters)"
  by (simp add: normalizeIssuedAgentToken_def maxAgentBearerTokenBytes_def Let_def)

definition asset_char :: "char \<Rightarrow> bool" where
  "asset_char c \<longleftrightarrow> is_alnum c \<or> c \<in> set ''-_.''"

definition validPersistedAssetID :: "string \<Rightarrow> bool" where
  "validPersistedAssetID assetID \<longleftrightarrow> assetID \<noteq> [] \<and> length assetID \<le> 128 \<and> list_all asset_char assetID"

lemma validPersistedAssetID_code [code]:
  "validPersistedAssetID assetID \<longleftrightarrow> assetID \<noteq> [] \<and> int (length assetID) \<le> 128 \<and> list_all asset_char assetID"
  by (simp add: validPersistedAssetID_def)

text \<open>\<open>apiBaseURLFromWS\<close>: the HTTP origin of a WebSocket address, with its path and query dropped.\<close>

definition apiBaseURLFromWS :: "bool \<Rightarrow> string \<Rightarrow> string" where
  "apiBaseURLFromWS optin raw =
     (case ParseURL (normalizeWSBaseURL optin raw) of
        None \<Rightarrow> []
      | Some parsed \<Rightarrow>
          if TrimSpace (u_host parsed) = [] then []
          else let sch = ToLower (u_scheme parsed)
               in if sch \<noteq> ''wss'' \<and> sch \<noteq> ''ws'' then []
                  else TrimRight (\<lambda>c. c = CHR ''/'')
                    (URLString (parsed\<lparr>u_scheme := (if sch = ''ws'' \<and> optin then ''http'' else ''https''),
                       u_path := [], u_raw_path := [], u_raw_query := [], u_fragment := []\<rparr>)))"

section \<open>The identity source\<close>

record identity =
  id_token :: string
  id_asset :: string
  id_group :: string
  id_groupKnown :: bool
  id_ws :: string
  id_api :: string
  id_generation :: "64 word"

definition newRuntimeIdentitySource :: "bool \<Rightarrow> string \<Rightarrow> string \<Rightarrow> string \<Rightarrow> bool \<Rightarrow> string \<Rightarrow> string \<Rightarrow> identity" where
  "newRuntimeIdentitySource optin APIToken AssetID GroupID groupIDCanonical WSBaseURL APIBaseURL =
     (let ws = normalizeWSBaseURL optin WSBaseURL;
          api0 = normalizeAPIBaseURL optin APIBaseURL;
          api = (if api0 = [] then apiBaseURLFromWS optin ws else api0)
      in \<lparr>id_token = TrimSpace APIToken, id_asset = TrimSpace AssetID, id_group = TrimSpace GroupID,
          id_groupKnown = groupIDCanonical, id_ws = ws, id_api = api, id_generation = 1\<rparr>)"

definition AdoptCredential :: "bool \<Rightarrow> string \<Rightarrow> string \<Rightarrow> string \<Rightarrow> string \<Rightarrow> string option \<Rightarrow> identity
    \<Rightarrow> (identity_error, identity) result \<times> identity" where
  "AdoptCredential optin rawToken rawAsset wsBaseURL apiBaseURL canonicalGroupID s =
     (case normalizeIssuedAgentToken rawToken of
        Inl e \<Rightarrow> (Err e, s)
      | Inr token \<Rightarrow>
          let assetID = TrimSpace rawAsset
          in if \<not> validPersistedAssetID assetID then (Err InvalidCanonicalAsset, s)
             else let normalizedWS = normalizeWSBaseURL optin wsBaseURL;
                      normalizedAPI = normalizeAPIBaseURL optin apiBaseURL;
                      n0 = s\<lparr>id_token := token, id_asset := assetID\<rparr>;
                      n1 = (case canonicalGroupID of
                              None \<Rightarrow> n0
                            | Some g \<Rightarrow> n0\<lparr>id_group := TrimSpace g, id_groupKnown := True\<rparr>);
                      n2 = (if normalizedWS \<noteq> [] then n1\<lparr>id_ws := normalizedWS\<rparr> else n1);
                      n3 = (if normalizedAPI \<noteq> [] then n2\<lparr>id_api := normalizedAPI\<rparr>
                            else if normalizedWS \<noteq> [] \<or> id_api n2 = []
                              then n2\<lparr>id_api := apiBaseURLFromWS optin (id_ws n2)\<rparr>
                            else n2);
                      nxt = n3\<lparr>id_generation := id_generation n3 + 1\<rparr>
                  in (Ok nxt, nxt))"

definition AdoptCanonicalAsset :: "bool \<Rightarrow> identity \<Rightarrow> string \<Rightarrow> identity
    \<Rightarrow> (identity_error, identity \<times> bool) result \<times> identity" where
  "AdoptCanonicalAsset optin expected rawAsset s =
     (let assetID = TrimSpace rawAsset
      in if \<not> validPersistedAssetID assetID then (Err InvalidCanonicalAsset, s)
         else if id_generation s \<noteq> id_generation expected then (Ok (s, False), s)
         else let n0 = s\<lparr>id_asset := assetID\<rparr>;
                  n1 = (if id_api n0 = [] then n0\<lparr>id_api := apiBaseURLFromWS optin (id_ws n0)\<rparr> else n0);
                  nxt = n1\<lparr>id_generation := id_generation n1 + 1\<rparr>
              in (Ok (nxt, True), nxt))"

definition UpdateToken :: "string \<Rightarrow> identity \<Rightarrow> (identity_error, unit) result \<times> identity" where
  "UpdateToken raw s =
     (case normalizeIssuedAgentToken raw of
        Inl e \<Rightarrow> (Err e, s)
      | Inr token \<Rightarrow>
          if id_token s = token then (Ok (), s)
          else (Ok (), s\<lparr>id_token := token, id_generation := id_generation s + 1\<rparr>))"

definition MatchesConnection :: "identity \<Rightarrow> identity \<Rightarrow> bool" where
  "MatchesConnection s snapshot \<longleftrightarrow> id_generation s = id_generation snapshot"

text \<open>What any goroutine may do to the identity source, and a run of such calls.\<close>

datatype id_op =
    AdoptCredentialOp string string string string "string option"
  | AdoptCanonicalAssetOp identity string
  | UpdateTokenOp string

fun id_apply :: "bool \<Rightarrow> id_op \<Rightarrow> identity \<Rightarrow> identity" where
  "id_apply optin (AdoptCredentialOp t a w p g) s = snd (AdoptCredential optin t a w p g s)"
| "id_apply optin (AdoptCanonicalAssetOp e a) s = snd (AdoptCanonicalAsset optin e a s)"
| "id_apply optin (UpdateTokenOp t) s = snd (UpdateToken t s)"

fun id_run :: "bool \<Rightarrow> id_op list \<Rightarrow> identity \<Rightarrow> identity" where
  "id_run optin [] s = s"
| "id_run optin (p # ps) s = id_run optin ps (id_apply optin p s)"

section \<open>Generations\<close>

text \<open>An operation either leaves the source as it is or advances the generation by one.\<close>

lemma id_apply_cases:
  "id_apply optin p s = s \<or> id_generation (id_apply optin p s) = id_generation s + 1"
  by (cases p)
    (auto simp: AdoptCredential_def AdoptCanonicalAsset_def UpdateToken_def Let_def split: sum.splits option.splits)

lemma id_run_append: "id_run optin (ps @ qs) s = id_run optin qs (id_run optin ps s)"
  by (induction ps arbitrary: s) auto

text \<open>The number of operations of a run that changed something.\<close>

fun id_changes :: "bool \<Rightarrow> id_op list \<Rightarrow> identity \<Rightarrow> nat" where
  "id_changes optin [] s = 0"
| "id_changes optin (p # ps) s =
     (if id_apply optin p s = s then 0 else 1) + id_changes optin ps (id_apply optin p s)"

lemma id_changes_le: "id_changes optin ps s \<le> length ps"
  by (induction ps arbitrary: s) (auto intro: le_SucI)

lemma id_run_generation: "id_generation (id_run optin ps s) = id_generation s + of_nat (id_changes optin ps s)"
proof (induction ps arbitrary: s)
  case (Cons p ps)
  show ?case
    using Cons.IH [of "id_apply optin p s"] id_apply_cases [of optin p s] by auto
qed simp

lemma id_run_unchanged: "id_changes optin ps s = 0 \<Longrightarrow> id_run optin (take k ps) s = s"
proof (induction ps arbitrary: s k)
  case (Cons p ps)
  then have a: "id_apply optin p s = s" and z: "id_changes optin ps s = 0"
    by (auto split: if_splits)
  show ?case
    using a Cons.IH [OF z] by (cases k) auto
qed simp

lemma generation_decides:
  assumes "length ps < 2 ^ 64"
  shows "MatchesConnection (id_run optin ps s) s \<longleftrightarrow> id_changes optin ps s = 0"
  using of_nat_word64_eq_0 [of "id_changes optin ps s"] id_changes_le [of optin ps s] assms
  by (simp add: MatchesConnection_def id_run_generation)

section \<open>What adopted credentials look like\<close>

lemma normalizeIssuedAgentToken_Ok:
  "normalizeIssuedAgentToken raw = Ok t \<longleftrightarrow>
     t = TrimSpace raw \<and> t \<noteq> [] \<and> length t \<le> maxAgentBearerTokenBytes \<and> list_all token_char t"
  by (auto simp: normalizeIssuedAgentToken_def Let_def)

lemma token_char_header: "token_char c \<Longrightarrow> c \<noteq> CHR 0x0D \<and> c \<noteq> CHR 0x0A \<and> c \<noteq> CHR '' ''"
  by (auto simp: token_char_def is_alnum_def)

lemma asset_char_plain: "asset_char c \<Longrightarrow> c \<noteq> CHR ''/''"
  by (auto simp: asset_char_def is_alnum_def)

text \<open>The invariant of a source that was enrolled: what every update writes keeps it.\<close>

definition id_sound :: "identity \<Rightarrow> bool" where
  "id_sound s \<longleftrightarrow> id_token s \<noteq> [] \<and> length (id_token s) \<le> maxAgentBearerTokenBytes
     \<and> list_all token_char (id_token s) \<and> validPersistedAssetID (id_asset s)"

lemma AdoptCredential_Ok:
  assumes "AdoptCredential optin t a w p g s = (Ok nxt, s')"
  shows "s' = nxt \<and> id_sound nxt \<and> id_token nxt = TrimSpace t \<and> id_asset nxt = TrimSpace a
    \<and> id_generation nxt = id_generation s + 1"
  using assms
  by (auto simp: AdoptCredential_def Let_def id_sound_def normalizeIssuedAgentToken_Ok split: sum.splits if_splits option.splits)

lemma AdoptCredential_Err: "AdoptCredential optin t a w p g s = (Err e, s') \<Longrightarrow> s' = s"
  by (auto simp: AdoptCredential_def Let_def split: sum.splits if_splits)

lemma id_apply_sound [inv_rules]: "id_sound s \<Longrightarrow> id_sound (id_apply optin p s)"
proof (cases p)
  case (AdoptCredentialOp t a w q g)
  assume "id_sound s"
  with AdoptCredentialOp show ?thesis
    by (cases "AdoptCredential optin t a w q g s"; cases "fst (AdoptCredential optin t a w q g s)")
      (auto dest: AdoptCredential_Ok AdoptCredential_Err)
qed (auto simp: id_sound_def AdoptCanonicalAsset_def UpdateToken_def Let_def normalizeIssuedAgentToken_Ok split: sum.splits)

interpretation ident: invariant_system
  "\<lambda>s. \<exists>t a w p g s0. AdoptCredential optin t a w p g s0 = (Ok s, s)"
  "\<lambda>s p s'. s' = id_apply optin p s" id_sound for optin
  by unfold_locales (auto dest: AdoptCredential_Ok intro: id_apply_sound)

section \<open>Properties\<close>

text \<open>
  C35. \<open>MatchesConnection\<close> is exact: after any run of identity updates by other goroutines (fewer
  than \<open>2 ^ 64\<close>), the snapshot a handshake was made with still matches if and only if the
  identity was the same record at every moment in between.
\<close>

theorem MatchesConnection_exact:
  assumes "length ps < 2 ^ 64"
  shows "MatchesConnection (id_run optin ps s) s \<longleftrightarrow>
           (\<forall>k \<le> length ps. id_run optin (take k ps) s = s)"
proof
  assume "MatchesConnection (id_run optin ps s) s"
  then show "\<forall>k \<le> length ps. id_run optin (take k ps) s = s"
    using generation_decides [OF assms] id_run_unchanged by blast
next
  assume "\<forall>k \<le> length ps. id_run optin (take k ps) s = s"
  then have "id_run optin (take (length ps) ps) s = s" by blast
  then show "MatchesConnection (id_run optin ps s) s"
    by (simp add: MatchesConnection_def)
qed

theorem MatchesConnection_exact_witness:
  "\<not> (\<forall>k \<le> 2. id_run False (take k [UpdateTokenOp ''new'', UpdateTokenOp ''old''])
      (newRuntimeIdentitySource False ''old'' ''a1'' [] False [] [])
      = newRuntimeIdentitySource False ''old'' ''a1'' [] False [] [])"
proof -
  let ?ps = "[UpdateTokenOp ''new'', UpdateTokenOp ''old'']"
  let ?s = "newRuntimeIdentitySource False ''old'' ''a1'' [] False [] []"
  have "\<not> MatchesConnection (id_run False ?ps ?s) ?s"
    by code_simp
  then show ?thesis
    using MatchesConnection_exact [of ?ps False ?s, simplified] by (simp add: numeral_2_eq_2)
qed

text \<open>
  C37. Once a credential was adopted, every later state of the identity source holds a non-empty
  bearer token of at most 4096 bytes without line breaks or spaces, so it cannot break out of
  the \<open>Authorization\<close> header, and an asset ID of at most 128 bytes without a path separator.
\<close>

theorem identity_reachable_safe:
  assumes "reach (\<lambda>s. \<exists>t a w p g s0. AdoptCredential optin t a w p g s0 = (Ok s, s))
             (\<lambda>s p s'. s' = id_apply optin p s) s"
  shows "id_token s \<noteq> [] \<and> length (id_token s) \<le> 4096
    \<and> set (id_token s) \<inter> {CHR 0x0D, CHR 0x0A, CHR '' ''} = {}
    \<and> id_asset s \<noteq> [] \<and> length (id_asset s) \<le> 128 \<and> CHR ''/'' \<notin> set (id_asset s)"
proof -
  have "id_sound s"
    using assms by (rule ident.reach_inv)
  then have t: "\<forall>c \<in> set (id_token s). token_char c" and a: "\<forall>c \<in> set (id_asset s). asset_char c"
    and "id_token s \<noteq> [] \<and> length (id_token s) \<le> 4096 \<and> id_asset s \<noteq> [] \<and> length (id_asset s) \<le> 128"
    by (simp_all add: id_sound_def validPersistedAssetID_def maxAgentBearerTokenBytes_def list_all_iff)
  moreover have "set (id_token s) \<inter> {CHR 0x0D, CHR 0x0A, CHR '' ''} = {}"
    using t token_char_header by blast
  ultimately show ?thesis
    using a asset_char_plain by blast
qed

theorem identity_reachable_safe_witness:
  "id_token (snd (AdoptCredential False ''tok'' ''a1'' [] [] None (newRuntimeIdentitySource False [] [] [] False [] []))) \<noteq> []
   \<and> CHR ''/'' \<notin> set (id_asset (snd (AdoptCredential False ''tok'' ''a1'' [] [] None
        (newRuntimeIdentitySource False [] [] [] False [] []))))"
proof -
  let ?init = "newRuntimeIdentitySource False [] [] [] False [] []"
  let ?s = "snd (AdoptCredential False ''tok'' ''a1'' [] [] None ?init)"
  have "fst (AdoptCredential False ''tok'' ''a1'' [] [] None ?init) = Ok ?s"
    by code_simp
  then have "AdoptCredential False ''tok'' ''a1'' [] [] None ?init = (Ok ?s, ?s)"
    by (rule prod_eqI [where q = "(Ok ?s, ?s)", unfolded fst_conv snd_conv]) simp
  then have "reach (\<lambda>s. \<exists>t a w p g s0. AdoptCredential False t a w p g s0 = (Ok s, s))
      (\<lambda>s p s'. s' = id_apply False p s) ?s"
    by (intro reach_init) blast
  from identity_reachable_safe [OF this] show ?thesis by simp
qed

text \<open>
  A canonical asset ID that comes back from a handshake is applied as a compare-and-swap: if
  any identity update took effect since the snapshot the handshake was made with, the identity
  stays as that update left it; otherwise only the asset, a missing API address and the
  generation change, and the token and Hub address of the handshake are kept.
\<close>

theorem AdoptCanonicalAsset_cas:
  assumes "length ps < 2 ^ 64"
  shows "(case AdoptCanonicalAsset optin s a (id_run optin ps s) of
            (Inl e, s') \<Rightarrow> s' = id_run optin ps s \<and> \<not> validPersistedAssetID (TrimSpace a)
          | (Inr (r, applied), s') \<Rightarrow>
              r = s' \<and> (applied \<longleftrightarrow> (\<forall>k \<le> length ps. id_run optin (take k ps) s = s))
              \<and> (if applied
                  then id_token s' = id_token s \<and> id_ws s' = id_ws s \<and> id_asset s' = TrimSpace a
                    \<and> id_generation s' = id_generation s + 1
                  else s' = id_run optin ps s))"
proof -
  have iff: "id_generation (id_run optin ps s) = id_generation s \<longleftrightarrow>
      (\<forall>k \<le> length ps. id_run optin (take k ps) s = s)"
  proof
    assume "id_generation (id_run optin ps s) = id_generation s"
    then have "id_changes optin ps s = 0"
      using generation_decides [OF assms, of optin s] by (simp add: MatchesConnection_def)
    then show "\<forall>k \<le> length ps. id_run optin (take k ps) s = s"
      using id_run_unchanged by blast
  next
    assume "\<forall>k \<le> length ps. id_run optin (take k ps) s = s"
    then show "id_generation (id_run optin ps s) = id_generation s"
      by (metis order_refl take_all)
  qed
  show ?thesis
    unfolding iff [symmetric]
  proof (cases "id_generation (id_run optin ps s) = id_generation s")
    case True
    then have "id_run optin ps s = s"
      using iff by (metis order_refl take_all)
    then show "case AdoptCanonicalAsset optin s a (id_run optin ps s) of
            (Inl e, s') \<Rightarrow> s' = id_run optin ps s \<and> \<not> validPersistedAssetID (TrimSpace a)
          | (Inr (r, applied), s') \<Rightarrow>
              r = s' \<and> (applied \<longleftrightarrow> id_generation (id_run optin ps s) = id_generation s)
              \<and> (if applied
                  then id_token s' = id_token s \<and> id_ws s' = id_ws s \<and> id_asset s' = TrimSpace a
                    \<and> id_generation s' = id_generation s + 1
                  else s' = id_run optin ps s)"
      by (simp add: AdoptCanonicalAsset_def Let_def)
  qed (simp add: AdoptCanonicalAsset_def Let_def)
qed

theorem AdoptCanonicalAsset_cas_witness:
  "fst (AdoptCanonicalAsset False (newRuntimeIdentitySource False ''old'' ''a1'' [] False [] []) ''a2''
      (id_run False [UpdateTokenOp ''new''] (newRuntimeIdentitySource False ''old'' ''a1'' [] False [] [])))
   = Ok (id_run False [UpdateTokenOp ''new''] (newRuntimeIdentitySource False ''old'' ''a1'' [] False [] []), False)"
proof -
  let ?s = "newRuntimeIdentitySource False ''old'' ''a1'' [] False [] []"
  have "fst (AdoptCanonicalAsset False ?s ''a2'' (id_run False [UpdateTokenOp ''new''] ?s))
      = Ok (snd (AdoptCanonicalAsset False ?s ''a2'' (id_run False [UpdateTokenOp ''new''] ?s)), False)"
    by code_simp
  then show ?thesis
    using AdoptCanonicalAsset_cas [of "[UpdateTokenOp ''new'']" False ?s "''a2''"]
    by (cases "AdoptCanonicalAsset False ?s ''a2'' (id_run False [UpdateTokenOp ''new''] ?s)") auto
qed

end
