(* ===== verification/GoPath.thy ===== *)
theory GoPath
  imports GoStrings
begin

text \<open>
  The part of Go's package \<open>path/filepath\<close> the agent uses, for the Unix build: the separator is
  \<open>'/'\<close> and there are no volume names. Paths are cleaned component by component, as the package
  documents it.
\<close>

abbreviation slash :: char where
  "slash \<equiv> CHR ''/''"

definition dot :: string where "dot = ''.''"
definition dotdot :: string where "dotdot = ''..''"

lemma dots [simp]: "dot \<noteq> []" "dotdot \<noteq> []" "dot \<noteq> dotdot" "dotdot \<noteq> dot"
  "slash \<notin> set dot" "slash \<notin> set dotdot"
  by (simp_all add: dot_def dotdot_def)

definition IsAbs :: "string \<Rightarrow> bool" where
  "IsAbs p \<longleftrightarrow> HasPrefix p ''/''"

text \<open>
  The components of a path with \<open>.\<close> and empty ones dropped and every \<open>..\<close> resolved against the
  component before it. \<open>stack\<close> holds the components kept so far, the last one first. A leading
  \<open>..\<close> of a rooted path is dropped, of a relative path kept.
\<close>

fun clean_comps :: "bool \<Rightarrow> string list \<Rightarrow> string list \<Rightarrow> string list" where
  "clean_comps rooted stack [] = rev stack"
| "clean_comps rooted stack (c # cs) =
     (if c = [] \<or> c = dot then clean_comps rooted stack cs
      else if c = dotdot then
        (case stack of
           [] \<Rightarrow> clean_comps rooted (if rooted then [] else [dotdot]) cs
         | t # ts \<Rightarrow> if t = dotdot then clean_comps rooted (dotdot # stack) cs
                    else clean_comps rooted ts cs)
      else clean_comps rooted (c # stack) cs)"

definition comps :: "string \<Rightarrow> string list" where
  "comps p = clean_comps (IsAbs p) [] (SplitByte slash p)"

definition of_comps :: "bool \<Rightarrow> string list \<Rightarrow> string" where
  "of_comps rooted cs =
     (if rooted then ''/'' @ Join cs ''/'' else if cs = [] then dot else Join cs ''/'')"

definition Clean :: "string \<Rightarrow> string" where
  "Clean p = of_comps (IsAbs p) (comps p)"

definition JoinPath :: "string list \<Rightarrow> string" where
  "JoinPath ps =
     (let qs = filter (\<lambda>p. p \<noteq> []) ps in if qs = [] then [] else Clean (Join qs ''/''))"

definition Base :: "string \<Rightarrow> string" where
  "Base p =
     (if p = [] then dot
      else let q = TrimRight (\<lambda>c. c = slash) p
           in if q = [] then ''/'' else rev (takeWhile (\<lambda>c. c \<noteq> slash) (rev q)))"

text \<open>\<open>Dir\<close> cleans the part up to and including the last separator.\<close>

definition Dir :: "string \<Rightarrow> string" where
  "Dir p = Clean (rev (dropWhile (\<lambda>c. c \<noteq> slash) (rev p)))"

fun strip_common :: "string list \<Rightarrow> string list \<Rightarrow> string list \<times> string list" where
  "strip_common (b # bs) (t # ts) = (if b = t then strip_common bs ts else (b # bs, t # ts))"
| "strip_common bs ts = (bs, ts)"

text \<open>\<open>Rel\<close> is \<open>None\<close> where the package returns an error.\<close>

definition Rel :: "string \<Rightarrow> string \<Rightarrow> string option" where
  "Rel basepath targpath =
     (if IsAbs basepath \<noteq> IsAbs targpath then None
      else let (bs, ts) = strip_common (comps basepath) (comps targpath)
           in if bs = [] \<and> ts = [] then Some dot
              else if dotdot \<in> set bs then None
              else Some (Join (replicate (length bs) dotdot @ ts) ''/''))"

section \<open>Lemmas\<close>

lemma SplitByte_ne: "SplitByte b s \<noteq> []"
  by (induction s) (auto split: list.splits)

lemma SplitByte_noslash: "w \<in> set (SplitByte b s) \<Longrightarrow> b \<notin> set w"
proof (induction s arbitrary: w)
  case (Cons c s)
  then show ?case by (cases "SplitByte b s") (auto split: if_splits)
qed simp

lemma SplitByte_plain: "b \<notin> set w \<Longrightarrow> SplitByte b w = [w]"
  by (induction w) auto

lemma SplitByte_append: "b \<notin> set w \<Longrightarrow> SplitByte b (w @ b # s) = w # SplitByte b s"
  by (induction w) auto

lemma SplitByte_Join:
  "ws \<noteq> [] \<Longrightarrow> (\<forall>w \<in> set ws. b \<notin> set w) \<Longrightarrow> SplitByte b (Join ws [b]) = ws"
  by (induction ws "[b]" rule: Join.induct) (auto simp: SplitByte_plain SplitByte_append)

text \<open>A list of components as \<open>Clean\<close> leaves it.\<close>

definition clean_list :: "bool \<Rightarrow> string list \<Rightarrow> bool" where
  "clean_list rooted cs \<longleftrightarrow> (\<forall>c \<in> set cs. c \<noteq> [] \<and> c \<noteq> dot \<and> slash \<notin> set c)
     \<and> (rooted \<longrightarrow> dotdot \<notin> set cs)
     \<and> (\<exists>k ds. cs = replicate k dotdot @ ds \<and> dotdot \<notin> set ds)"

lemma clean_listI:
  "(\<And>c. c \<in> set cs \<Longrightarrow> c \<noteq> [] \<and> c \<noteq> dot \<and> slash \<notin> set c) \<Longrightarrow> (rooted \<Longrightarrow> dotdot \<notin> set cs) \<Longrightarrow>
   cs = replicate k dotdot @ ds \<Longrightarrow> dotdot \<notin> set ds \<Longrightarrow> clean_list rooted cs"
  unfolding clean_list_def by blast

lemma clean_listD:
  "clean_list rooted cs \<Longrightarrow> c \<in> set cs \<Longrightarrow> c \<noteq> [] \<and> c \<noteq> dot \<and> slash \<notin> set c"
  "clean_list rooted cs \<Longrightarrow> rooted \<Longrightarrow> dotdot \<notin> set cs"
  unfolding clean_list_def by blast+

lemma clean_comps_list:
  assumes "clean_list rooted (rev stack)" and "\<forall>c \<in> set cs. slash \<notin> set c"
  shows "clean_list rooted (clean_comps rooted stack cs)"
  using assms
proof (induction cs arbitrary: stack)
  case (Cons c cs)
  obtain k ds where kd: "rev stack = replicate k dotdot @ ds" "dotdot \<notin> set ds"
    using Cons.prems(1) by (auto simp: clean_list_def)
  consider "c = [] \<or> c = dot" | "c = dotdot" "stack = []" | ts where "c = dotdot" "stack = dotdot # ts"
    | t ts where "c = dotdot" "stack = t # ts" "t \<noteq> dotdot" | "c \<noteq> []" "c \<noteq> dot" "c \<noteq> dotdot"
    by (cases stack) auto
  then show ?case
  proof cases
    case 1
    with Cons.IH [of stack] Cons.prems show ?thesis by auto
  next
    case 2
    have "clean_list rooted (rev (if rooted then [] else [dotdot]))"
      unfolding clean_list_def by (auto intro: exI [of _ 0] exI [of _ 1] exI [of _ "[]"])
    with 2 Cons.IH [of "if rooted then [] else [dotdot]"] Cons.prems(2) show ?thesis by simp
  next
    case (3 ts)
    then have "dotdot \<in> set (rev stack)" "last (rev stack) = dotdot"
      by simp_all
    then have "ds = []"
      using kd by (metis last_appendR last_in_set)
    then have "rev (dotdot # stack) = replicate (Suc k) dotdot @ []"
      using kd by (simp add: replicate_append_same)
    with 3 Cons.prems(1) have "clean_list rooted (rev (dotdot # stack))"
      unfolding clean_list_def by (intro conjI) (auto simp del: replicate_Suc intro!: exI [of _ "Suc k"] exI [of _ "[]"])
    with 3 Cons.IH [of "dotdot # stack"] Cons.prems(2) show ?thesis by simp
  next
    case (4 t ts)
    then have "last (rev stack) = t" "rev stack \<noteq> []"
      by simp_all
    then have "ds \<noteq> []"
      using kd 4 by (metis append_Nil2 in_set_replicate last_in_set)
    then obtain ds' where "ds = ds' @ [t]"
      using kd \<open>last (rev stack) = t\<close> by (metis append_butlast_last_id last_appendR)
    then have "rev ts = replicate k dotdot @ ds'" "dotdot \<notin> set ds'"
      using kd 4 by auto
    then have "clean_list rooted (rev ts)"
      using Cons.prems(1) 4 unfolding clean_list_def by auto
    with 4 Cons.IH [of ts] Cons.prems(2) show ?thesis by simp
  next
    case 5
    have "rev (c # stack) = replicate k dotdot @ (ds @ [c])" "dotdot \<notin> set (ds @ [c])"
      using kd 5 by auto
    moreover have "d \<noteq> [] \<and> d \<noteq> dot \<and> slash \<notin> set d" if "d \<in> set (rev (c # stack))" for d
      using that 5 Cons.prems(2) clean_listD(1) [OF Cons.prems(1), of d] by (cases "d = c") simp_all
    moreover have "dotdot \<notin> set (rev (c # stack))" if rooted
      using 5 clean_listD(2) [OF Cons.prems(1) that] by simp
    ultimately have "clean_list rooted (rev (c # stack))"
      by (intro clean_listI [of "rev (c # stack)" rooted k "ds @ [c]"])
    with 5 Cons.IH [of "c # stack"] Cons.prems(2) show ?thesis by simp
  qed
qed simp

lemma clean_list_comps: "clean_list (IsAbs p) (comps p)"
  unfolding comps_def
  by (rule clean_comps_list) (auto simp: clean_list_def dest: SplitByte_noslash)

subsection \<open>Containment of cleaned paths\<close>

lemma SplitByte_append_general: "SplitByte b (s @ b # t) = SplitByte b s @ SplitByte b t"
  by (induction s) (auto split: list.splits simp: SplitByte_ne)

lemma Join_slash_last:
  "rs \<noteq> [] \<Longrightarrow> \<forall>r \<in> set rs. r \<noteq> [] \<and> slash \<notin> set r \<Longrightarrow> Join rs ''/'' \<noteq> [] \<and> last (Join rs ''/'') \<noteq> slash"
proof (induction rs "''/''" rule: Join.induct)
  case (2 w)
  then show ?case by (auto dest: last_in_set)
next
  case (3 w v ws)
  then show ?case by (auto simp: last_append)
qed simp

lemma HasPrefix_Join_iff:
  assumes "clean_list True cs" and "clean_list True rs" and "rs \<noteq> []"
  shows "(\<exists>t. Join cs ''/'' = Join rs ''/'' @ slash # t) \<longleftrightarrow> strict_prefix rs cs"
proof
  assume "\<exists>t. Join cs ''/'' = Join rs ''/'' @ slash # t"
  then obtain t where t: "Join cs ''/'' = Join rs ''/'' @ slash # t" by blast
  have "cs \<noteq> []" using t by auto
  then have "cs = SplitByte slash (Join cs ''/'')"
    using assms(1) by (simp add: SplitByte_Join clean_list_def)
  also have "\<dots> = SplitByte slash (Join rs ''/'') @ SplitByte slash t"
    by (simp add: t SplitByte_append_general)
  also have "SplitByte slash (Join rs ''/'') = rs"
    using assms(2,3) by (simp add: SplitByte_Join clean_list_def)
  finally show "strict_prefix rs cs"
    using SplitByte_ne by (auto intro: strict_prefixI' simp: strict_prefix_def)
next
  assume "strict_prefix rs cs"
  then obtain x xs where "cs = rs @ x # xs"
    by (auto elim: strict_prefixE')
  then show "\<exists>t. Join cs ''/'' = Join rs ''/'' @ slash # t"
    using assms(3) by (simp add: Join_append)
qed

lemma of_comps_inj:
  assumes "clean_list True cs" and "clean_list True rs"
  shows "of_comps True cs = of_comps True rs \<longleftrightarrow> cs = rs"
proof
  assume "of_comps True cs = of_comps True rs"
  then have j: "Join cs ''/'' = Join rs ''/''" by (simp add: of_comps_def)
  show "cs = rs"
  proof (cases "cs = [] \<or> rs = []")
    case True
    have "Join xs ''/'' \<noteq> []" if "xs \<noteq> []" "clean_list True xs" for xs
      using Join_slash_last [OF that(1)] clean_listD(1) [OF that(2)] by blast
    with True j assms show ?thesis by (metis Join.simps(1))
  next
    case False
    have "SplitByte slash (Join xs ''/'') = xs" if "xs \<noteq> []" "clean_list True xs" for xs
      using SplitByte_Join [OF that(1)] clean_listD(1) [OF that(2)] by blast
    with False j assms show ?thesis by metis
  qed
qed simp

lemma Clean_ne: "Clean p \<noteq> []"
proof (cases "comps p")
  case (Cons c cs)
  have "c \<noteq> []"
    using clean_listD [OF clean_list_comps [of p]] Cons by auto
  then show ?thesis
    by (cases cs) (auto simp: Clean_def of_comps_def Cons)
qed (simp add: Clean_def of_comps_def)

lemma JoinPath_ne: "\<exists>p \<in> set ps. p \<noteq> [] \<Longrightarrow> JoinPath ps \<noteq> []"
  by (auto simp: JoinPath_def Let_def Clean_ne filter_empty_conv)

end
