(* ===== verification/Enrollment.thy ===== *)
theory Enrollment
  imports HubIdentity GoPath
begin

text \<open>
  How the agent gets, keeps and protects its Hub credential: \<open>enrollment_state.go\<close>,
  \<open>enrollment_token_consumed.go\<close> and the token resolution of \<open>enroll.go\<close> (all under
  \<open>internal/agentcore\<close>).

  The managed files beside the agent token are a record with one field per file. A file is
  absent, unreadable (a symbolic link, too large, no permission), readable but not decodable, or
  holds its value; the enrollment state file holds the decoded record, so the JSON text itself is
  not modelled. \<open>writeManagedFileAtomic\<close> replaces a file or leaves it as it was; whether a write
  or a removal succeeds is an input, one per place in the code. The answer of the Hub to the
  enrollment request is an input, and so is the SHA-256 digest \<open>sha\<close> (hexadecimal).
\<close>

section \<open>Data\<close>

record enrollment_state =
  es_Version :: int
  es_AssetID :: string
  es_GroupID :: "string option"
  es_HubWSURL :: string
  es_HubAPIURL :: string
  es_TokenOrigins :: "string list"

datatype 'a fstate = Absent | Unreadable | Garbled | Content 'a

record agent_files =
  f_token :: "string fstate"
  f_state :: "enrollment_state fstate"
  f_consumed :: "string fstate"
  f_enroll :: "string fstate"
  f_ca :: "string fstate"
  f_env :: bool

datatype write_point = WToken | WState | WLegacyState | WConsumed | WCA

record io_outcomes =
  io_write :: "write_point \<Rightarrow> bool"
  io_remove_token :: bool
  io_remove_enroll :: bool

text \<open>The fields of \<open>RuntimeConfig\<close> that enrollment reads and writes.\<close>

record runtime_config =
  c_TokenFilePath :: string
  c_APIToken :: string
  c_AssetID :: string
  c_GroupID :: string
  c_groupIDCanonical :: bool
  c_WSBaseURL :: string
  c_APIBaseURL :: string
  c_EnrollmentToken :: string
  c_EnrollmentTokenFromFile :: bool
  c_EnrollmentTokenFilePath :: string
  c_TLSCAFile :: string

datatype enroll_error =
    InvalidEnrollmentAsset
  | InvalidHubURL
  | InvalidHubWSURL
  | InvalidHubAPIURL
  | StateCommitFailed
  | StateUnreadable
  | StateUndecodable
  | StateContentInvalid
  | NoStateDirectory
  | EmptyConsumedToken
  | ConsumedRecordFailed
  | RemoveFailed
  | AddressRequired
  | HubRefused int string
  | EnrollRequestFailed
  | InvalidIssuedToken identity_error
  | InvalidIssuedAsset
  | TokenPersistence

section \<open>Hub addresses and token origins\<close>

definition canonicalGroupIDPointer :: "string \<Rightarrow> bool \<Rightarrow> string option" where
  "canonicalGroupIDPointer groupID known = (if known then Some (TrimSpace groupID) else None)"

definition enrollmentStateFileName :: string where "enrollmentStateFileName = ''enrollment-state.json''"
definition enrollmentStateVersion :: int where "enrollmentStateVersion = 1"

definition enrollmentStatePath :: "string \<Rightarrow> string" where
  "enrollmentStatePath tokenFilePath =
     (if TrimSpace tokenFilePath = [] then [] else JoinPath [Dir tokenFilePath, enrollmentStateFileName])"

definition hubOrigin :: "string \<Rightarrow> string" where
  "hubOrigin raw =
     (case ParseURL (TrimSpace raw) of
        None \<Rightarrow> []
      | Some parsed \<Rightarrow>
          if Hostname parsed = [] then []
          else let sch = ToLower (u_scheme parsed);
                   port = (if Port parsed \<noteq> [] then Port parsed
                           else if sch = ''wss'' \<or> sch = ''https'' then ''443''
                           else if sch = ''ws'' \<or> sch = ''http'' then ''80''
                           else [])
               in JoinHostPort (ToLower (Hostname parsed)) port)"

text \<open>One loop body serves both loops of \<open>mergeHubOrigins\<close>: \<open>seen\<close> always equals what was merged.\<close>

fun merge_new :: "string list \<Rightarrow> string list \<Rightarrow> string list" where
  "merge_new merged [] = merged"
| "merge_new merged (origin # rest) =
     (if origin \<noteq> [] \<and> origin \<notin> set merged then merge_new (merged @ [origin]) rest else merge_new merged rest)"

definition mergeHubOrigins :: "string list \<Rightarrow> string list \<Rightarrow> string list" where
  "mergeHubOrigins origins urls = merge_new (merge_new [] (map TrimSpace origins)) (map hubOrigin urls)"

definition validatePersistedHubURL :: "bool \<Rightarrow> string \<Rightarrow> bool \<Rightarrow> (enroll_error, unit) result" where
  "validatePersistedHubURL optin raw websocketURL =
     (if TrimSpace raw = [] then Ok ()
      else case ParseURL (TrimSpace raw) of
             None \<Rightarrow> Err InvalidHubURL
           | Some parsed \<Rightarrow>
               if u_host parsed = [] \<or> u_user parsed \<noteq> None then Err InvalidHubURL
               else let scheme = ToLower (u_scheme parsed)
                    in if websocketURL
                       then (if scheme \<noteq> ''wss'' \<and> \<not> (scheme = ''ws'' \<and> optin) then Err InvalidHubWSURL else Ok ())
                       else (if scheme \<noteq> ''https'' \<and> \<not> (scheme = ''http'' \<and> optin) then Err InvalidHubAPIURL else Ok ()))"

definition wsBaseURLFromAPI :: "bool \<Rightarrow> string \<Rightarrow> string \<Rightarrow> string" where
  "wsBaseURLFromAPI optin rawAPI savedWS =
     (case ParseURL (normalizeAPIBaseURL optin rawAPI) of
        None \<Rightarrow> []
      | Some api \<Rightarrow>
          if u_host api = [] \<or> u_user api \<noteq> None then []
          else let ws0 = empty_url\<lparr>u_host := u_host api, u_path := ''/ws/agent''\<rparr>;
                   ws1 = (case ParseURL (normalizeWSBaseURL optin savedWS) of
                            Some saved \<Rightarrow> if u_path saved \<noteq> []
                              then ws0\<lparr>u_path := u_path saved, u_raw_path := u_raw_path saved\<rparr> else ws0
                          | None \<Rightarrow> ws0)
               in if u_scheme api = ''https'' then URLString (ws1\<lparr>u_scheme := ''wss''\<rparr>)
                  else if u_scheme api = ''http'' \<and> optin then URLString (ws1\<lparr>u_scheme := ''ws''\<rparr>)
                  else [])"

section \<open>The enrollment state file\<close>

definition saveEnrollmentState :: "bool \<Rightarrow> bool \<Rightarrow> string \<Rightarrow> enrollment_state \<Rightarrow> agent_files
    \<Rightarrow> (enroll_error, unit) result \<times> agent_files" where
  "saveEnrollmentState optin writeOk tokenFilePath st fs =
     (if enrollmentStatePath tokenFilePath = [] then (Ok (), fs)
      else
        let ws = normalizeWSBaseURL optin (es_HubWSURL st);
            api0 = normalizeAPIBaseURL optin (es_HubAPIURL st);
            api = (if api0 = [] then apiBaseURLFromWS optin ws else api0);
            asset = TrimSpace (es_AssetID st)
        in if \<not> validPersistedAssetID asset then (Err InvalidEnrollmentAsset, fs)
           else case validatePersistedHubURL optin ws True of
             Inl e \<Rightarrow> (Err e, fs)
           | Inr _ \<Rightarrow>
             (case validatePersistedHubURL optin api False of
                Inl e \<Rightarrow> (Err e, fs)
              | Inr _ \<Rightarrow>
                  let st' = \<lparr>es_Version = enrollmentStateVersion, es_AssetID = asset,
                             es_GroupID = map_option TrimSpace (es_GroupID st), es_HubWSURL = ws, es_HubAPIURL = api,
                             es_TokenOrigins = mergeHubOrigins (es_TokenOrigins st) [ws, api]\<rparr>
                  in if writeOk then (Ok (), fs\<lparr>f_state := Content st'\<rparr>) else (Err StateCommitFailed, fs)))"

text \<open>
  \<open>holdTokenForOtherHub\<close>: the loop over the two addresses stops at the first origin that is not
  allowed.
\<close>

fun origins_allowed :: "string list \<Rightarrow> string list \<Rightarrow> bool" where
  "origins_allowed allowed [] = True"
| "origins_allowed allowed (target # rest) =
     (if hubOrigin target \<noteq> [] \<and> hubOrigin target \<notin> set allowed then False else origins_allowed allowed rest)"

definition holdTokenForOtherHub :: "bool \<Rightarrow> bool \<Rightarrow> runtime_config \<Rightarrow> enrollment_state \<Rightarrow> agent_files
    \<Rightarrow> runtime_config \<times> agent_files" where
  "holdTokenForOtherHub optin writeOk cfg st fs =
     (if es_TokenOrigins st = [] then
        let st' = st\<lparr>es_TokenOrigins :=
              mergeHubOrigins [] [es_HubWSURL st, es_HubAPIURL st, c_WSBaseURL cfg, c_APIBaseURL cfg]\<rparr>
        in (cfg, snd (saveEnrollmentState optin writeOk (c_TokenFilePath cfg) st' fs))
      else if origins_allowed (es_TokenOrigins st) [c_WSBaseURL cfg, c_APIBaseURL cfg] then (cfg, fs)
      else (cfg\<lparr>c_APIToken := []\<rparr>, fs))"

text \<open>The address part of \<open>restoreEnrollmentState\<close>.\<close>

definition restore_addresses :: "bool \<Rightarrow> enrollment_state \<Rightarrow> runtime_config \<Rightarrow> runtime_config" where
  "restore_addresses optin st cfg =
     (let configuredWS = normalizeWSBaseURL optin (c_WSBaseURL cfg);
          configuredAPI = normalizeAPIBaseURL optin (c_APIBaseURL cfg);
          savedWS = normalizeWSBaseURL optin (es_HubWSURL st);
          savedAPI = normalizeAPIBaseURL optin (es_HubAPIURL st)
      in if configuredWS \<noteq> [] \<and> configuredAPI \<noteq> []
           then cfg\<lparr>c_WSBaseURL := configuredWS, c_APIBaseURL := configuredAPI\<rparr>
         else if configuredWS \<noteq> []
           then cfg\<lparr>c_WSBaseURL := configuredWS, c_APIBaseURL := apiBaseURLFromWS optin configuredWS\<rparr>
         else if configuredAPI \<noteq> []
           then cfg\<lparr>c_WSBaseURL := wsBaseURLFromAPI optin configuredAPI savedWS, c_APIBaseURL := configuredAPI\<rparr>
         else cfg\<lparr>c_WSBaseURL := savedWS,
                  c_APIBaseURL := (if savedAPI = [] then apiBaseURLFromWS optin savedWS else savedAPI)\<rparr>)"

definition restoreEnrollmentState :: "bool \<Rightarrow> bool \<Rightarrow> runtime_config \<Rightarrow> agent_files
    \<Rightarrow> (enroll_error, unit) result \<times> runtime_config \<times> agent_files" where
  "restoreEnrollmentState optin writeOk cfg fs =
     (if enrollmentStatePath (c_TokenFilePath cfg) = [] then (Ok (), cfg, fs)
      else case f_state fs of
        Absent \<Rightarrow>
          (Ok (), if c_APIBaseURL cfg = []
                  then cfg\<lparr>c_APIBaseURL := apiBaseURLFromWS optin (c_WSBaseURL cfg)\<rparr> else cfg, fs)
      | Unreadable \<Rightarrow> (Err StateUnreadable, cfg, fs)
      | Garbled \<Rightarrow> (Err StateUndecodable, cfg, fs)
      | Content st \<Rightarrow>
          if es_Version st \<noteq> enrollmentStateVersion \<or> \<not> validPersistedAssetID (TrimSpace (es_AssetID st))
          then (Err StateContentInvalid, cfg, fs)
          else case validatePersistedHubURL optin (es_HubWSURL st) True of
            Inl e \<Rightarrow> (Err e, cfg, fs)
          | Inr _ \<Rightarrow>
            (case validatePersistedHubURL optin (es_HubAPIURL st) False of
               Inl e \<Rightarrow> (Err e, cfg, fs)
             | Inr _ \<Rightarrow>
                 let c1 = cfg\<lparr>c_AssetID := TrimSpace (es_AssetID st)\<rparr>;
                     c2 = (case es_GroupID st of
                             None \<Rightarrow> c1
                           | Some g \<Rightarrow> c1\<lparr>c_GroupID := TrimSpace g, c_groupIDCanonical := True\<rparr>);
                     c3 = restore_addresses optin st c2;
                     (c4, fs') = holdTokenForOtherHub optin writeOk c3 st fs
                 in (Ok (), c4, fs')))"

definition savedTokenOrigins :: "string \<Rightarrow> agent_files \<Rightarrow> string list" where
  "savedTokenOrigins tokenFilePath fs =
     (if enrollmentStatePath tokenFilePath = [] then []
      else case f_state fs of Content st \<Rightarrow> es_TokenOrigins st | _ \<Rightarrow> [])"

section \<open>Consumed one-time tokens\<close>

definition consumedEnrollmentTokenFileName :: string where
  "consumedEnrollmentTokenFileName = ''consumed-enrollment-token.sha256''"

definition consumedEnrollmentTokenPath :: "string \<Rightarrow> string" where
  "consumedEnrollmentTokenPath tokenFilePath =
     (if TrimSpace tokenFilePath = [] then []
      else JoinPath [Dir tokenFilePath, consumedEnrollmentTokenFileName])"

definition enrollmentTokenDigest :: "(string \<Rightarrow> string) \<Rightarrow> string \<Rightarrow> string" where
  "enrollmentTokenDigest sha token = sha (TrimSpace token)"

definition newline :: string where "newline = [CHR 0x0A]"

definition recordConsumedEnrollmentToken :: "(string \<Rightarrow> string) \<Rightarrow> bool \<Rightarrow> string \<Rightarrow> string \<Rightarrow> agent_files
    \<Rightarrow> (enroll_error, unit) result \<times> agent_files" where
  "recordConsumedEnrollmentToken sha writeOk tokenFilePath token fs =
     (if consumedEnrollmentTokenPath tokenFilePath = [] then (Err NoStateDirectory, fs)
      else if TrimSpace token = [] then (Err EmptyConsumedToken, fs)
      else if writeOk then (Ok (), fs\<lparr>f_consumed := Content (enrollmentTokenDigest sha token @ newline)\<rparr>)
      else (Err ConsumedRecordFailed, fs))"



definition removeConsumedEnrollmentTokenFile :: "(string \<Rightarrow> string) \<Rightarrow> io_outcomes \<Rightarrow> runtime_config \<Rightarrow> agent_files
    \<Rightarrow> (enroll_error, unit) result \<times> agent_files" where
  "removeConsumedEnrollmentTokenFile sha io cfg fs =
     (if f_enroll fs = Absent then (Ok (), fs)
      else if io_remove_enroll io then (Ok (), fs\<lparr>f_enroll := Absent\<rparr>)
      else case recordConsumedEnrollmentToken sha (io_write io WConsumed) (c_TokenFilePath cfg) (c_EnrollmentToken cfg) fs of
             (Inl e, fs') \<Rightarrow> (Err RemoveFailed, fs')
           | (Inr _, fs') \<Rightarrow> (Ok (), fs'))"

definition discardConsumedEnrollmentToken :: "(string \<Rightarrow> string) \<Rightarrow> io_outcomes \<Rightarrow> runtime_config \<Rightarrow> agent_files
    \<Rightarrow> (enroll_error, unit) result \<times> runtime_config \<times> agent_files" where
  "discardConsumedEnrollmentToken sha io cfg fs =
     (let (r, fs1) = (if c_EnrollmentTokenFromFile cfg \<and> TrimSpace (c_EnrollmentTokenFilePath cfg) \<noteq> []
                      then removeConsumedEnrollmentTokenFile sha io cfg fs else (Ok (), fs))
      in (r, cfg\<lparr>c_EnrollmentToken := [], c_EnrollmentTokenFromFile := False\<rparr>, fs1\<lparr>f_env := False\<rparr>))"

section \<open>The agent token file\<close>

definition loadTokenFromFile :: "string \<Rightarrow> agent_files \<Rightarrow> string option" where
  "loadTokenFromFile path fs =
     (if path = [] then Some []
      else case f_token fs of Content data \<Rightarrow> Some (TrimSpace data) | _ \<Rightarrow> None)"

definition saveTokenToFile :: "bool \<Rightarrow> string \<Rightarrow> string \<Rightarrow> agent_files \<Rightarrow> bool \<times> agent_files" where
  "saveTokenToFile writeOk path token fs =
     (if path = [] then (True, fs)
      else if writeOk then (True, fs\<lparr>f_token := Content (token @ newline)\<rparr>)
      else (False, fs))"

definition removePersistedAgentToken :: "bool \<Rightarrow> string \<Rightarrow> agent_files \<Rightarrow> bool \<times> agent_files" where
  "removePersistedAgentToken removeOk path fs =
     (if TrimSpace path = [] then (True, fs)
      else if f_token fs = Absent then (True, fs)
      else if removeOk then (True, fs\<lparr>f_token := Absent\<rparr>)
      else (False, fs))"

section \<open>Enrolling\<close>

record enroll_response =
  er_AgentToken :: string
  er_AssetID :: string
  er_GroupID :: "string option"
  er_HubWSURL :: string
  er_HubAPIURL :: string
  er_CACertPEM :: string

text \<open>The address the enrollment request goes to: the first part of \<open>enrollWithHubWithIdentityProof\<close>.\<close>

definition enroll_url :: "bool \<Rightarrow> runtime_config \<Rightarrow> (enroll_error, string) result" where
  "enroll_url optin cfg =
     (if c_APIBaseURL cfg \<noteq> []
      then Ok (TrimRight (\<lambda>c. c = CHR ''/'') (normalizeAPIBaseURL optin (c_APIBaseURL cfg)) @ ''/api/v1/enroll'')
      else if c_WSBaseURL cfg = [] then Ok []
      else case ParseURL (normalizeWSBaseURL optin (c_WSBaseURL cfg)) of
             None \<Rightarrow> Err InvalidHubWSURL
           | Some p \<Rightarrow>
               if TrimSpace (u_host p) = [] then Err InvalidHubWSURL
               else let sch = ToLower (TrimSpace (u_scheme p))
                    in if sch \<noteq> ''wss'' \<and> sch \<noteq> ''ws'' then Err InvalidHubWSURL
                       else Ok (TrimRight (\<lambda>c. c = CHR ''/'')
                          (URLString (p\<lparr>u_scheme := (if sch = ''ws'' \<and> optin then ''http'' else ''https''),
                             u_path := [], u_raw_path := [], u_raw_query := [], u_fragment := []\<rparr>)) @ ''/api/v1/enroll''))"

text \<open>The checks on the decoded answer of the Hub, the last part of that function.\<close>

definition check_response :: "bool \<Rightarrow> enroll_response \<Rightarrow> (enroll_error, enroll_response) result" where
  "check_response optin resp =
     (case normalizeIssuedAgentToken (er_AgentToken resp) of
        Inl e \<Rightarrow> Err (InvalidIssuedToken e)
      | Inr tok \<Rightarrow>
          let asset = TrimSpace (er_AssetID resp);
              ws = normalizeWSBaseURL optin (er_HubWSURL resp);
              api = normalizeAPIBaseURL optin (er_HubAPIURL resp)
          in if \<not> validPersistedAssetID asset then Err InvalidIssuedAsset
             else case validatePersistedHubURL optin ws True of
               Inl e \<Rightarrow> Err e
             | Inr _ \<Rightarrow>
               (case validatePersistedHubURL optin api False of
                  Inl e \<Rightarrow> Err e
                | Inr _ \<Rightarrow> Ok (resp\<lparr>er_AgentToken := tok, er_AssetID := asset, er_HubWSURL := ws, er_HubAPIURL := api\<rparr>)))"

text \<open>
  \<open>hub url token\<close> is the Hub's decoded answer to a request to \<open>url\<close> with the one-time token, or
  the error of the HTTP exchange. \<open>enrollWithHub\<close> also returns the request that was sent.
\<close>

definition enrollWithHub :: "bool \<Rightarrow> (string \<Rightarrow> string \<Rightarrow> (enroll_error, enroll_response) result) \<Rightarrow> runtime_config
    \<Rightarrow> (string \<times> string) option \<times> (enroll_error, enroll_response) result" where
  "enrollWithHub optin hub cfg =
     (case enroll_url optin cfg of
        Inl e \<Rightarrow> (None, Err e)
      | Inr u \<Rightarrow>
          (Some (u, c_EnrollmentToken cfg),
           case hub u (c_EnrollmentToken cfg) of Inl e \<Rightarrow> Err e | Inr resp \<Rightarrow> check_response optin resp))"

definition apply_response :: "bool \<Rightarrow> enroll_response \<Rightarrow> runtime_config \<Rightarrow> runtime_config" where
  "apply_response optin resp cfg =
     (let c1 = cfg\<lparr>c_APIToken := er_AgentToken resp\<rparr>;
          c2 = (if er_AssetID resp \<noteq> [] then c1\<lparr>c_AssetID := er_AssetID resp\<rparr> else c1);
          c3 = (case er_GroupID resp of
                  None \<Rightarrow> c2 | Some g \<Rightarrow> c2\<lparr>c_GroupID := TrimSpace g, c_groupIDCanonical := True\<rparr>);
          ws = normalizeWSBaseURL optin (er_HubWSURL resp);
          api = normalizeAPIBaseURL optin (er_HubAPIURL resp)
      in if c_WSBaseURL cfg = [] then
           c3\<lparr>c_WSBaseURL := (if ws \<noteq> [] then ws else c_WSBaseURL c3),
              c_APIBaseURL := (if api \<noteq> [] then api else c_APIBaseURL c3)\<rparr>
         else if c_APIBaseURL c3 = [] then c3\<lparr>c_APIBaseURL := apiBaseURLFromWS optin (c_WSBaseURL c3)\<rparr>
         else c3)"

text \<open>Writing the issued token and the enrollment state; the flag says that the token is on disk.\<close>

definition persist_issued :: "bool \<Rightarrow> io_outcomes \<Rightarrow> string \<Rightarrow> string \<Rightarrow> enroll_response \<Rightarrow> runtime_config \<Rightarrow> agent_files
    \<Rightarrow> bool \<times> agent_files" where
  "persist_issued optin io enrolledWS enrolledAPI resp cfg fs =
     (let (saved, fs1) = saveTokenToFile (io_write io WToken) (c_TokenFilePath cfg) (er_AgentToken resp) fs
      in if \<not> saved then (False, snd (removePersistedAgentToken (io_remove_token io) (c_TokenFilePath cfg) fs1))
         else (True, snd (saveEnrollmentState optin (io_write io WState) (c_TokenFilePath cfg)
                \<lparr>es_Version = 0, es_AssetID = c_AssetID cfg,
                 es_GroupID = canonicalGroupIDPointer (c_GroupID cfg) (c_groupIDCanonical cfg),
                 es_HubWSURL = c_WSBaseURL cfg, es_HubAPIURL = c_APIBaseURL cfg,
                 es_TokenOrigins = mergeHubOrigins [] [enrolledWS, enrolledAPI, er_HubWSURL resp, er_HubAPIURL resp]\<rparr> fs1)))"

text \<open>Keeping the Hub's CA; \<open>validCA\<close> stands for \<open>validateCACertPEM\<close> (X.509 parsing).\<close>

definition save_ca :: "(string \<Rightarrow> bool) \<Rightarrow> io_outcomes \<Rightarrow> string \<Rightarrow> runtime_config \<Rightarrow> agent_files \<Rightarrow> runtime_config \<times> agent_files" where
  "save_ca validCA io pem cfg fs =
     (let caPath = JoinPath [Dir (c_TokenFilePath cfg), ''ca.crt'']
      in if pem \<noteq> [] \<and> c_TokenFilePath cfg \<noteq> [] \<and> (c_TLSCAFile cfg = [] \<or> Clean (c_TLSCAFile cfg) = Clean caPath)
            \<and> validCA pem \<and> io_write io WCA
         then (cfg\<lparr>c_TLSCAFile := caPath\<rparr>, fs\<lparr>f_ca := Content pem\<rparr>)
         else (cfg, fs))"

text \<open>Priority 3 of \<open>resolveTokenWithIdentity\<close>: enroll and keep the result.\<close>

definition resolve_enroll :: "bool \<Rightarrow> (string \<Rightarrow> string) \<Rightarrow> (string \<Rightarrow> bool) \<Rightarrow> io_outcomes
    \<Rightarrow> (string \<Rightarrow> string \<Rightarrow> (enroll_error, enroll_response) result) \<Rightarrow> runtime_config \<Rightarrow> agent_files
    \<Rightarrow> (enroll_error, unit) result \<times> (string \<times> string) option \<times> runtime_config \<times> agent_files" where
  "resolve_enroll optin sha validCA io hub cfg fs =
     (if c_EnrollmentToken cfg = [] then (Ok (), None, cfg, fs)
      else if c_WSBaseURL cfg = [] \<and> c_APIBaseURL cfg = [] then (Err AddressRequired, None, cfg, fs)
      else case enrollWithHub optin hub cfg of
        (req, Inl e) \<Rightarrow> (Err e, req, cfg, fs)
      | (req, Inr resp) \<Rightarrow>
          let c1 = apply_response optin resp cfg;
              (saved, fs1) = persist_issued optin io (c_WSBaseURL cfg) (c_APIBaseURL cfg) resp c1 fs;
              (cleanup, c2, fs2) = discardConsumedEnrollmentToken sha io c1 fs1;
              (c3, fs3) = save_ca validCA io (er_CACertPEM resp) c2 fs2
          in (if \<not> saved then Err TokenPersistence else cleanup, req, c3, fs3))"


text \<open>\<open>selectEnrollmentHostname\<close>, on ASCII strings (where every string is valid UTF-8).\<close>

definition validEnrollmentRequestHostname :: "string \<Rightarrow> bool" where
  "validEnrollmentRequestHostname value \<longleftrightarrow> value \<noteq> [] \<and> length value \<le> 253 \<and> list_all (\<lambda>c. \<not> is_ctl c) value"

definition selectEnrollmentHostname :: "string \<Rightarrow> string \<Rightarrow> string" where
  "selectEnrollmentHostname configuredAssetID systemHostname =
     (let a = TrimSpace configuredAssetID; h = TrimSpace systemHostname
      in if validPersistedAssetID a then a
         else if validEnrollmentRequestHostname h then h
         else ''labtether-agent'')"

section \<open>Token origins\<close>

lemma origins_allowed_iff:
  "origins_allowed allowed us \<longleftrightarrow> (\<forall>u \<in> set us. hubOrigin u = [] \<or> hubOrigin u \<in> set allowed)"
  by (induction us) auto

lemma set_merge_new: "set (merge_new merged os) = set merged \<union> (set os - {[]})"
  by (induction os arbitrary: merged) auto

lemma distinct_merge_new: "distinct merged \<Longrightarrow> distinct (merge_new merged os)"
  by (induction os arbitrary: merged) auto

lemma set_mergeHubOrigins:
  "set (mergeHubOrigins os us) = (TrimSpace ` set os \<union> hubOrigin ` set us) - {[]}"
  by (auto simp: mergeHubOrigins_def set_merge_new)

text \<open>What each step keeps of the configuration and of the files.\<close>

lemma holdToken_eq:
  "holdTokenForOtherHub optin w cfg st fs = (cfg', fs') \<Longrightarrow>
     cfg' = (if es_TokenOrigins st = [] \<or> origins_allowed (es_TokenOrigins st) [c_WSBaseURL cfg, c_APIBaseURL cfg]
             then cfg else cfg\<lparr>c_APIToken := []\<rparr>)"
  by (cases "es_TokenOrigins st = []"; cases "origins_allowed (es_TokenOrigins st) [c_WSBaseURL cfg, c_APIBaseURL cfg]")
    (simp_all add: holdTokenForOtherHub_def Let_def del: origins_allowed.simps)

lemma restore_addresses_keeps [simp]:
  "c_APIToken (restore_addresses optin st cfg) = c_APIToken cfg"
  "c_EnrollmentToken (restore_addresses optin st cfg) = c_EnrollmentToken cfg"
  "c_EnrollmentTokenFromFile (restore_addresses optin st cfg) = c_EnrollmentTokenFromFile cfg"
  "c_EnrollmentTokenFilePath (restore_addresses optin st cfg) = c_EnrollmentTokenFilePath cfg"
  "c_TokenFilePath (restore_addresses optin st cfg) = c_TokenFilePath cfg"
  by (simp_all add: restore_addresses_def Let_def)


text \<open>What becomes of the token: it is held back only by a readable, valid state that lists its origins.\<close>

lemma restore_token:
  assumes "restoreEnrollmentState optin w cfg fs = (r, cfg', fs')"
  shows "c_APIToken cfg' =
    (case f_state fs of
       Content st \<Rightarrow>
         if r = Ok () \<and> enrollmentStatePath (c_TokenFilePath cfg) \<noteq> [] \<and> es_TokenOrigins st \<noteq> [] \<and>
            \<not> origins_allowed (es_TokenOrigins st) [c_WSBaseURL cfg', c_APIBaseURL cfg'] then [] else c_APIToken cfg
     | _ \<Rightarrow> c_APIToken cfg)"
proof (cases "f_state fs")
  case (Content st)
  show ?thesis
  proof (cases "r = Ok () \<and> enrollmentStatePath (c_TokenFilePath cfg) \<noteq> []")
    case True
    then obtain c3 where c: "holdTokenForOtherHub optin w c3 st fs = (cfg', fs')" "c_APIToken c3 = c_APIToken cfg"
      using assms Content
      by (fastforce simp: restoreEnrollmentState_def Let_def case_prod_beta split: sum.splits if_splits option.splits)
    then show ?thesis
      using holdToken_eq [OF c(1)] True Content by (simp split: if_splits del: origins_allowed.simps)
  next
    case False
    then show ?thesis
      using assms Content
      by (auto simp: restoreEnrollmentState_def Let_def case_prod_beta split: sum.splits if_splits)
  qed
qed (use assms in \<open>auto simp: restoreEnrollmentState_def Let_def split: if_splits\<close>)

section \<open>Files along a run\<close>

lemma saveEnrollmentState_files:
  "f_token (snd (saveEnrollmentState optin w p st fs)) = f_token fs"
  "f_consumed (snd (saveEnrollmentState optin w p st fs)) = f_consumed fs"
  "f_enroll (snd (saveEnrollmentState optin w p st fs)) = f_enroll fs"
  by (simp_all add: saveEnrollmentState_def Let_def split: sum.splits)

lemma save_ca_files:
  "f_token (snd (save_ca v io pem cfg fs)) = f_token fs"
  "f_consumed (snd (save_ca v io pem cfg fs)) = f_consumed fs"
  "f_enroll (snd (save_ca v io pem cfg fs)) = f_enroll fs"
  "c_APIToken (fst (save_ca v io pem cfg fs)) = c_APIToken cfg"
  by (simp_all add: save_ca_def Let_def)

lemma discard_files:
  assumes "discardConsumedEnrollmentToken sha io cfg fs = (r, cfg', fs')"
  shows "f_token fs' = f_token fs \<and> c_APIToken cfg' = c_APIToken cfg \<and> r \<noteq> Err TokenPersistence"
  using assms
  by (auto simp: discardConsumedEnrollmentToken_def removeConsumedEnrollmentTokenFile_def
      recordConsumedEnrollmentToken_def Let_def split: if_splits)


lemma apply_response_keeps [simp]:
  "c_EnrollmentToken (apply_response optin resp cfg) = c_EnrollmentToken cfg"
  "c_EnrollmentTokenFromFile (apply_response optin resp cfg) = c_EnrollmentTokenFromFile cfg"
  "c_EnrollmentTokenFilePath (apply_response optin resp cfg) = c_EnrollmentTokenFilePath cfg"
  "c_TokenFilePath (apply_response optin resp cfg) = c_TokenFilePath cfg"
  "c_APIToken (apply_response optin resp cfg) = er_AgentToken resp"
  by (simp_all add: apply_response_def Let_def split: option.splits)


text \<open>The two outcomes of priority 3 once the Hub has issued a token.\<close>

lemma resolve_enroll_issued:
  assumes "resolve_enroll optin sha v io hub cfg fs = (r, req, cfg', fs')"
    and "enrollWithHub optin hub cfg = (req', Ok resp)" and "c_EnrollmentToken cfg \<noteq> []"
    and "\<not> (c_WSBaseURL cfg = [] \<and> c_APIBaseURL cfg = [])"
  obtains saved fs1 cleanup c2 fs2 where
    "persist_issued optin io (c_WSBaseURL cfg) (c_APIBaseURL cfg) resp (apply_response optin resp cfg) fs = (saved, fs1)"
    "discardConsumedEnrollmentToken sha io (apply_response optin resp cfg) fs1 = (cleanup, c2, fs2)"
    "r = (if \<not> saved then Err TokenPersistence else cleanup)" "req = req'"
    "cfg' = fst (save_ca v io (er_CACertPEM resp) c2 fs2)" "fs' = snd (save_ca v io (er_CACertPEM resp) c2 fs2)"
proof -
  obtain saved fs1 where p: "persist_issued optin io (c_WSBaseURL cfg) (c_APIBaseURL cfg) resp
      (apply_response optin resp cfg) fs = (saved, fs1)"
    by (cases "persist_issued optin io (c_WSBaseURL cfg) (c_APIBaseURL cfg) resp (apply_response optin resp cfg) fs")
  obtain cleanup c2 fs2 where
    d: "discardConsumedEnrollmentToken sha io (apply_response optin resp cfg) fs1 = (cleanup, c2, fs2)"
    by (cases "discardConsumedEnrollmentToken sha io (apply_response optin resp cfg) fs1")
  have "(r, req, cfg', fs') = (if \<not> saved then Err TokenPersistence else cleanup, req',
      fst (save_ca v io (er_CACertPEM resp) c2 fs2), snd (save_ca v io (er_CACertPEM resp) c2 fs2))"
    using assms p d by (auto simp: resolve_enroll_def Let_def case_prod_beta)
  with p d that show thesis by blast
qed



lemma newline_space: "TrimSpace (s @ newline) = TrimSpace s"
proof -
  have nl: "is_space (CHR 0x0A)"
    by (simp add: is_space_def)
  show ?thesis
  proof (cases "\<forall>c \<in> set s. is_space c")
    case True
    then have "dropWhile is_space (s @ newline) = []" and "dropWhile is_space s = []"
      using nl by (auto simp: newline_def)
    then show ?thesis
      by (simp only: TrimSpace_def TrimLeft_def)
  next
    case False
    then have "dropWhile is_space (s @ newline) = dropWhile is_space s @ newline"
      by (auto simp: dropWhile_append1)
    then show ?thesis
      using nl by (simp add: TrimSpace_def TrimLeft_def TrimRight_def newline_def)
  qed
qed

section \<open>Properties\<close>

text \<open>
  C6. When a stored token is used with a Hub and when it is held back. Reading the enrollment state at
  start clears the token exactly when the state is readable and valid, lists the origins the token was
  issued for, and one of the two addresses the agent will use (whatever the configuration said) names a
  host whose origin is not in the list. In every other case the token is kept: with no state, one that
  cannot be read, decoded or is invalid (an error the caller only logs), one from before origins were
  recorded, and for an address without a host name.
\<close>

theorem saved_token_stays_with_its_hub:
  assumes "restoreEnrollmentState optin w cfg fs = (r, cfg', fs')" and "TrimSpace (c_TokenFilePath cfg) \<noteq> []"
  shows "c_APIToken cfg' =
    (case f_state fs of
       Content st \<Rightarrow>
         if r = Ok () \<and> es_TokenOrigins st \<noteq> [] \<and>
            (\<exists>u \<in> {c_WSBaseURL cfg', c_APIBaseURL cfg'}. hubOrigin u \<noteq> [] \<and> hubOrigin u \<notin> set (es_TokenOrigins st))
         then [] else c_APIToken cfg
     | _ \<Rightarrow> c_APIToken cfg)"
proof -
  have "enrollmentStatePath (c_TokenFilePath cfg) \<noteq> []"
    using assms(2) by (simp add: enrollmentStatePath_def enrollmentStateFileName_def JoinPath_ne)
  then show ?thesis
    unfolding restore_token [OF assms(1)] by (cases "f_state fs") (simp_all add: origins_allowed_iff del: origins_allowed.simps)
qed

definition sample_state :: enrollment_state where
  "sample_state = \<lparr>es_Version = 1, es_AssetID = ''a1'', es_GroupID = None, es_HubWSURL = ''wss://hub:8443/ws'',
     es_HubAPIURL = ''https://hub:8443'', es_TokenOrigins = [''hub:8443'']\<rparr>"

definition sample_files :: agent_files where
  "sample_files = \<lparr>f_token = Content ''tok'', f_state = Content sample_state, f_consumed = Absent,
     f_enroll = Content ''once'', f_ca = Absent, f_env = False\<rparr>"

definition sample_cfg :: "string \<Rightarrow> runtime_config" where
  "sample_cfg ws = \<lparr>c_TokenFilePath = ''/d/token'', c_APIToken = ''tok'', c_AssetID = [], c_GroupID = [],
     c_groupIDCanonical = False, c_WSBaseURL = ws, c_APIBaseURL = [], c_EnrollmentToken = [],
     c_EnrollmentTokenFromFile = False, c_EnrollmentTokenFilePath = [], c_TLSCAFile = []\<rparr>"

text \<open>The same Hub under another spelling keeps the token; another Hub does not get it.\<close>

theorem saved_token_stays_with_its_hub_witness:
  "c_APIToken (fst (snd (restoreEnrollmentState False True (sample_cfg ''https://HUB:8443/x'') sample_files))) = ''tok''
   \<and> c_APIToken (fst (snd (restoreEnrollmentState False True (sample_cfg ''wss://other/ws'') sample_files))) = []"
proof -
  let ?r = "\<lambda>u. restoreEnrollmentState False True (sample_cfg u) sample_files"
  have p: "TrimSpace (c_TokenFilePath (sample_cfg u)) \<noteq> []" for u
    by (simp add: sample_cfg_def TrimSpace_def TrimLeft_def TrimRight_def is_space_def)
  have a: "fst (?r ''https://HUB:8443/x'') = Ok ()" "fst (?r ''wss://other/ws'') = Ok ()"
    and c: "hubOrigin (c_WSBaseURL (fst (snd (?r ''https://HUB:8443/x'')))) = ''hub:8443''"
      "hubOrigin (c_APIBaseURL (fst (snd (?r ''https://HUB:8443/x'')))) = ''hub:8443''"
      "hubOrigin (c_WSBaseURL (fst (snd (?r ''wss://other/ws'')))) = ''other:443''"
    by code_simp+
  have e: "?r u = (Ok (), fst (snd (?r u)), snd (snd (?r u)))" if "fst (?r u) = Ok ()" for u
    using that by (metis prod.collapse)
  show ?thesis
    using saved_token_stays_with_its_hub [OF e [OF a(1)] p] saved_token_stays_with_its_hub [OF e [OF a(2)] p] c
    by (simp add: sample_files_def sample_state_def) (simp add: sample_cfg_def)
qed




definition sample_io :: "(write_point \<Rightarrow> bool) \<Rightarrow> io_outcomes" where
  "sample_io w = \<lparr>io_write = w, io_remove_token = True, io_remove_enroll = False\<rparr>"

definition sample_hub :: "string \<Rightarrow> string \<Rightarrow> (enroll_error, enroll_response) result" where
  "sample_hub u tok = Ok \<lparr>er_AgentToken = ''new'', er_AssetID = ''a1'', er_GroupID = None, er_HubWSURL = [],
     er_HubAPIURL = [], er_CACertPEM = []\<rparr>"

definition sample_start :: runtime_config where
  "sample_start = (sample_cfg ''wss://hub/ws'')\<lparr>c_APIToken := [], c_EnrollmentToken := ''once'',
     c_EnrollmentTokenFromFile := True, c_EnrollmentTokenFilePath := ''/s/tok''\<rparr>"



text \<open>
  What a restart loads is what the Hub issued. After the Hub accepted an enrollment, the token
  in memory is the issued one; unless \<open>errAgentTokenPersistence\<close> is reported, reading the token
  file back gives the same token; and when it is reported, no older token is left on disk if the
  stale file could be removed.
\<close>

theorem issued_token_survives_restart:
  assumes "resolve_enroll optin sha v io hub cfg fs = (r, req, cfg', fs')"
    and "enrollWithHub optin hub cfg = (req', Ok resp)" and "c_EnrollmentToken cfg \<noteq> []"
    and "c_WSBaseURL cfg \<noteq> []" and "TrimSpace (c_TokenFilePath cfg) \<noteq> []"
  shows "c_APIToken cfg' = er_AgentToken resp \<and>
    (if r \<noteq> Err TokenPersistence
     then loadTokenFromFile (c_TokenFilePath cfg) fs' = Some (er_AgentToken resp)
     else io_remove_token io \<longrightarrow> f_token fs' = Absent)"
proof -
  have ws: "\<not> (c_WSBaseURL cfg = [] \<and> c_APIBaseURL cfg = [])" using assms(4) by simp
  from resolve_enroll_issued [OF assms(1-3) ws] obtain saved fs1 cleanup c2 fs2 where
    p: "persist_issued optin io (c_WSBaseURL cfg) (c_APIBaseURL cfg) resp (apply_response optin resp cfg) fs = (saved, fs1)"
    and d: "discardConsumedEnrollmentToken sha io (apply_response optin resp cfg) fs1 = (cleanup, c2, fs2)"
    and r: "r = (if \<not> saved then Err TokenPersistence else cleanup)"
    and f: "cfg' = fst (save_ca v io (er_CACertPEM resp) c2 fs2)" "fs' = snd (save_ca v io (er_CACertPEM resp) c2 fs2)"
    by metis
  have tf: "f_token fs' = f_token fs1" and ct: "c_APIToken cfg' = er_AgentToken resp"
    using discard_files [OF d] f by (simp_all add: save_ca_files)
  have tok: "TrimSpace (er_AgentToken resp) = er_AgentToken resp"
    using assms(2) by (auto simp: enrollWithHub_def check_response_def Let_def normalizeIssuedAgentToken_Ok
        split: sum.splits if_splits)
  have path: "c_TokenFilePath cfg \<noteq> []"
    using assms(5) by (auto simp: TrimSpace_def TrimLeft_def TrimRight_def)
  show ?thesis
  proof (cases saved)
    case True
    then have "f_token fs1 = Content (er_AgentToken resp @ newline)"
      using p path by (auto simp: persist_issued_def saveTokenToFile_def Let_def saveEnrollmentState_files split: if_splits)
    with ct tf tok path show ?thesis
      using True r discard_files [OF d] by (simp add: loadTokenFromFile_def newline_space)
  next
    case False
    then have "io_remove_token io \<longrightarrow> f_token fs1 = Absent"
      using p path assms(5) by (auto simp: persist_issued_def saveTokenToFile_def removePersistedAgentToken_def Let_def
          split: if_splits)
    with ct tf r False show ?thesis by simp
  qed
qed

theorem issued_token_survives_restart_witness:
  "(let r = resolve_enroll False (\<lambda>_. ''ab'') (\<lambda>_. False) (sample_io (\<lambda>p. p \<noteq> WToken)) sample_hub sample_start sample_files
    in fst r = Err TokenPersistence \<and> c_APIToken (fst (snd (snd r))) = ''new'' \<and> f_token (snd (snd (snd r))) = Absent)"
proof -
  let ?r = "resolve_enroll False (\<lambda>_. ''ab'') (\<lambda>_. False) (sample_io (\<lambda>p. p \<noteq> WToken)) sample_hub sample_start sample_files"
  let ?e = "enrollWithHub False sample_hub sample_start"
  let ?resp = "\<lparr>er_AgentToken = ''new'', er_AssetID = ''a1'', er_GroupID = None, er_HubWSURL = [],
     er_HubAPIURL = [], er_CACertPEM = []\<rparr>"
  have a: "fst ?r = Err TokenPersistence" and b: "snd ?e = Ok ?resp"
    and c: "c_EnrollmentToken sample_start \<noteq> []" "c_WSBaseURL sample_start \<noteq> []"
      "TrimSpace (c_TokenFilePath sample_start) \<noteq> []" "io_remove_token (sample_io (\<lambda>p. p \<noteq> WToken))"
    by code_simp+
  have r: "?r = (Err TokenPersistence, fst (snd ?r), fst (snd (snd ?r)), snd (snd (snd ?r)))"
    using a by (metis prod.collapse)
  have e: "?e = (fst ?e, Ok ?resp)"
    using b by (metis prod.collapse)
  from issued_token_survives_restart [OF r e c(1-3)] c(4) a show ?thesis
    by (simp add: Let_def)
qed

end
