(* ===== verification/Transport.thy ===== *)
theory Transport
  imports Enrollment
begin

text \<open>
  The WebSocket transport to the Hub: \<open>ws_transport.go\<close>, \<open>ws_session_transport.go\<close> and the
  enrollment messages of \<open>enrollment_ws_handler.go\<close> (\<open>internal/agentcore\<close>).

  The record holds the fields the code guards with \<open>mu\<close>, the identity source it shares and the
  managed files it writes. A socket, its ping channel and its context are numbers: each
  successful dial takes the next number. What the outside sees is kept as well: the sockets
  whose handshake carried a bearer token, every \<open>WriteJSON\<close> call as a pair of socket and message
  type, and the channels, sockets and contexts that were closed. Times are nanoseconds, with 0
  for the zero \<open>time.Time\<close>.

  \<open>connectWithResponse\<close> runs without the lock for most of its way, so other goroutines act at
  five points of it; their actions are an input, a list of operations per point.
\<close>

section \<open>State\<close>

record device_identity =
  d_fingerprint :: string
  d_keyAlgorithm :: string
  d_publicKey :: string

record transport =
  t_identity :: identity
  t_device :: "device_identity option"
  t_files :: agent_files
  t_conn :: "nat option"
  t_connected :: bool
  t_pending :: bool
  t_ping :: "nat option"
  t_cancel :: "nat option"
  t_ctx :: "nat option"
  t_authFailures :: int
  t_lastError :: string
  t_lastErrorReason :: string
  t_lastErrorAt :: int
  t_disconnectedAt :: int
  t_persistError :: string
  t_credentialError :: string
  t_refusal :: string
  t_rejected :: bool
  t_lastReEnrollAt :: int
  t_sent :: "64 word"
  t_received :: "64 word"
  t_reconnects :: "64 word"
  t_next :: nat
  t_authed :: "nat list"
  t_wire :: "(nat \<times> string) list"
  t_closedPings :: "nat list"
  t_closedConns :: "nat list"
  t_cancelled :: "nat list"

text \<open>What a transport is built with and never changes.\<close>

record transport_cfg =
  tc_optin :: bool
  tc_platform :: string
  tc_version :: string
  tc_tokenFilePath :: string
  tc_hostname :: string

definition newWSTransportWithRuntimeIdentity :: "identity \<Rightarrow> device_identity option \<Rightarrow> agent_files \<Rightarrow> transport" where
  "newWSTransportWithRuntimeIdentity ident dev fs =
     \<lparr>t_identity = ident, t_device = dev, t_files = fs, t_conn = None, t_connected = False, t_pending = False, t_ping = None,
      t_cancel = None, t_ctx = None, t_authFailures = 0, t_lastError = [], t_lastErrorReason = [], t_lastErrorAt = 0,
      t_disconnectedAt = 0, t_persistError = [], t_credentialError = [], t_refusal = [], t_rejected = False,
      t_lastReEnrollAt = 0, t_sent = 0, t_received = 0, t_reconnects = 0, t_next = 0, t_authed = [], t_wire = [],
      t_closedPings = [], t_closedConns = [], t_cancelled = []\<rparr>"

section \<open>Operations\<close>

definition updateToken :: "string \<Rightarrow> transport \<Rightarrow> transport" where
  "updateToken token t =
     t\<lparr>t_identity := snd (UpdateToken token (t_identity t)), t_authFailures := 0, t_lastError := [],
       t_lastErrorReason := [], t_credentialError := [], t_refusal := [], t_rejected := False\<rparr>"

definition markEnrollmentRejected :: "string \<Rightarrow> transport \<Rightarrow> transport" where
  "markEnrollmentRejected reason t = t\<lparr>t_rejected := True, t_refusal := TrimSpace reason\<rparr>"

definition waitingAfterRejection :: "transport \<Rightarrow> bool" where
  "waitingAfterRejection t \<longleftrightarrow> t_rejected t \<and> id_token (t_identity t) = []"

definition setCredentialPersistenceError :: "string \<Rightarrow> transport \<Rightarrow> transport" where
  "setCredentialPersistenceError message t = t\<lparr>t_persistError := TrimSpace message\<rparr>"

definition setEnrollmentRefusal :: "string \<Rightarrow> transport \<Rightarrow> transport" where
  "setEnrollmentRefusal message t = t\<lparr>t_refusal := TrimSpace message\<rparr>"

definition setCredentialError :: "string \<Rightarrow> transport \<Rightarrow> transport" where
  "setCredentialError message t = t\<lparr>t_credentialError := TrimSpace message\<rparr>"

definition closeConn :: "nat \<Rightarrow> transport \<Rightarrow> transport" where
  "closeConn c t = t\<lparr>t_closedConns := c # t_closedConns t\<rparr>"

definition cancel_context :: "transport \<Rightarrow> transport" where
  "cancel_context t = (case t_cancel t of
     None \<Rightarrow> t | Some x \<Rightarrow> t\<lparr>t_cancelled := x # t_cancelled t, t_cancel := None\<rparr>)"

definition stop_ping :: "transport \<Rightarrow> transport" where
  "stop_ping t = (case t_ping t of
     None \<Rightarrow> t | Some p \<Rightarrow> t\<lparr>t_closedPings := p # t_closedPings t, t_ping := None\<rparr>)"

definition drop_conn :: "transport \<Rightarrow> transport" where
  "drop_conn t = (case t_conn t of None \<Rightarrow> t | Some c \<Rightarrow> (closeConn c t)\<lparr>t_conn := None\<rparr>)"

definition markDisconnectedIfCurrent :: "int \<Rightarrow> nat option \<Rightarrow> transport \<Rightarrow> transport" where
  "markDisconnectedIfCurrent now expected t =
     (if expected \<noteq> None \<and> t_conn t \<noteq> expected then t
      else let t1 = (cancel_context t)\<lparr>t_connected := False, t_pending := False\<rparr>;
               t2 = stop_ping t1;
               t3 = (if t_disconnectedAt t2 = 0 then t2\<lparr>t_disconnectedAt := now\<rparr> else t2)
           in drop_conn t3)"

definition markDisconnected :: "int \<Rightarrow> transport \<Rightarrow> transport" where
  "markDisconnected now t = markDisconnectedIfCurrent now None t"

definition CloseTransport :: "transport \<Rightarrow> transport" where
  "CloseTransport t = (drop_conn (stop_ping (cancel_context t)))\<lparr>t_connected := False, t_pending := False\<rparr>"

datatype send_error = NotConnected | EnrollmentPending | WriteError

definition MsgEnrollmentProof :: string where "MsgEnrollmentProof = ''enrollment.proof''"

text \<open>\<open>expected\<close> is the socket a session is bound to, or \<open>None\<close> for \<open>Send\<close>; \<open>ok\<close> is the outcome of \<open>WriteJSON\<close>.\<close>

definition sendOnConnection :: "nat option \<Rightarrow> bool \<Rightarrow> string \<Rightarrow> transport \<Rightarrow> send_error option \<times> transport" where
  "sendOnConnection expected ok msgType t =
     (case t_conn t of
        None \<Rightarrow> (Some NotConnected, t)
      | Some c \<Rightarrow>
          if expected \<noteq> None \<and> expected \<noteq> Some c then (Some NotConnected, t)
          else if t_pending t \<and> msgType \<noteq> MsgEnrollmentProof then (Some EnrollmentPending, t)
          else let t1 = t\<lparr>t_wire := (c, msgType) # t_wire t\<rparr>
               in if ok then (None, t1\<lparr>t_sent := t_sent t1 + 1\<rparr>) else (Some WriteError, t1))"

definition socketOpen :: "transport \<Rightarrow> bool" where
  "socketOpen t \<longleftrightarrow> t_connected t"

definition EnrollmentIsPending :: "transport \<Rightarrow> bool" where
  "EnrollmentIsPending t \<longleftrightarrow> t_connected t \<and> t_pending t"

definition Connected :: "transport \<Rightarrow> bool" where
  "Connected t \<longleftrightarrow> t_connected t \<and> \<not> t_pending t"

definition enrollmentPendingState :: string where "enrollmentPendingState = ''enrollment_pending''"
definition auth_failed :: string where "auth_failed = ''auth_failed''"

definition ConnectionState :: "transport \<Rightarrow> string \<times> string \<times> int" where
  "ConnectionState t =
     (if t_credentialError t \<noteq> [] then (auth_failed, t_credentialError t, t_disconnectedAt t)
      else if t_connected t then
        (if t_pending t then (''connecting'', enrollmentPendingState, 0) else (''connected'', t_persistError t, 0))
      else if t_lastError t = auth_failed then (auth_failed, t_lastError t, t_disconnectedAt t)
      else if t_lastError t \<noteq> [] then (''connecting'', t_lastError t, t_disconnectedAt t)
      else if t_persistError t \<noteq> [] then (''connecting'', t_persistError t, t_disconnectedAt t)
      else (''disconnected'', [], t_disconnectedAt t))"

definition ConnectionErrorReason :: "transport \<Rightarrow> string" where
  "ConnectionErrorReason t =
     (if t_connected t \<or> t_credentialError t \<noteq> [] \<or> t_lastError t = [] then [] else t_lastErrorReason t)"

subsection \<open>Sessions and the receive loop\<close>

record session_sender =
  ss_conn :: nat
  ss_ctx :: "nat option"
  ss_assetID :: string

definition connectionIsCurrent :: "nat option \<Rightarrow> transport \<Rightarrow> bool" where
  "connectionIsCurrent conn t \<longleftrightarrow> conn \<noteq> None \<and> t_conn t = conn \<and> t_connected t"

definition senderForConnection :: "nat option \<Rightarrow> transport \<Rightarrow> session_sender option" where
  "senderForConnection conn t =
     (case conn of
        None \<Rightarrow> None
      | Some c \<Rightarrow>
          if t_conn t \<noteq> Some c \<or> \<not> t_connected t then None
          else Some \<lparr>ss_conn = c, ss_ctx = t_ctx t, ss_assetID = id_asset (t_identity t)\<rparr>)"

definition session_Send :: "session_sender \<Rightarrow> bool \<Rightarrow> string \<Rightarrow> transport \<Rightarrow> send_error option \<times> transport" where
  "session_Send s ok msgType t = sendOnConnection (Some (ss_conn s)) ok msgType t"

definition session_Connected :: "session_sender \<Rightarrow> transport \<Rightarrow> bool" where
  "session_Connected s t \<longleftrightarrow> t_conn t = Some (ss_conn s) \<and> t_connected t \<and> \<not> t_pending t"

definition session_Close :: "session_sender \<Rightarrow> int \<Rightarrow> transport \<Rightarrow> transport" where
  "session_Close s now t = markDisconnectedIfCurrent now (Some (ss_conn s)) t"

text \<open>
  \<open>receiveWithConnection\<close> in its two parts: the socket and its enrollment state are read together
  before \<open>ReadJSON\<close>, and whether the socket is still current is checked after it.
\<close>

definition receive_begin :: "transport \<Rightarrow> nat option \<times> bool" where
  "receive_begin t = (t_conn t, t_pending t)"

definition receive_end :: "nat option \<Rightarrow> bool \<Rightarrow> transport \<Rightarrow> bool \<times> transport" where
  "receive_end conn readOk t =
     (if conn \<noteq> None \<and> readOk \<and> connectionIsCurrent conn t
      then (True, t\<lparr>t_received := t_received t + 1\<rparr>) else (False, t))"

text \<open>One tick of \<open>pingLoop\<close> for the socket \<open>c\<close>; \<open>ok\<close> is the outcome of the control write.\<close>

definition ping_tick :: "nat \<Rightarrow> int \<Rightarrow> bool \<Rightarrow> transport \<Rightarrow> transport" where
  "ping_tick c now ok t =
     (if t_conn t \<noteq> Some c then t else if ok then t else markDisconnectedIfCurrent now (Some c) t)"

subsection \<open>Enrollment messages\<close>

text \<open>
  A payload is the decoded message, or \<open>None\<close> when it does not decode. \<open>loaded\<close> is what
  \<open>loadDeviceIdentity\<close> returns, asked only when the transport has no device identity yet. The
  signature itself is not modelled.
\<close>

definition handleEnrollmentChallenge :: "device_identity option \<Rightarrow> bool \<Rightarrow> (string \<times> string) option \<Rightarrow> transport \<Rightarrow> transport" where
  "handleEnrollmentChallenge loaded ok payload t =
     (case payload of
        None \<Rightarrow> t
      | Some (nonce, connectionID) \<Rightarrow>
          if TrimSpace nonce = [] \<or> TrimSpace connectionID = [] then t
          else let t1 = (if t_device t = None then t\<lparr>t_device := loaded\<rparr> else t)
               in if t_device t1 = None then t1
                  else snd (sendOnConnection None ok MsgEnrollmentProof t1))"

definition agentTokenPersistenceFailed :: string where
  "agentTokenPersistenceFailed = ''agent_token_persistence_failed''"

definition approved_files :: "transport_cfg \<Rightarrow> io_outcomes \<Rightarrow> string \<Rightarrow> identity \<Rightarrow> agent_files \<Rightarrow> string \<times> agent_files" where
  "approved_files tc io token adopted fs =
     (if tc_tokenFilePath tc = [] then ([], fs)
      else let (saved, fs1) = saveTokenToFile (io_write io WToken) (tc_tokenFilePath tc) token fs
           in if \<not> saved
              then (agentTokenPersistenceFailed,
                    snd (removePersistedAgentToken (io_remove_token io) (tc_tokenFilePath tc) fs1))
              else ([], snd (saveEnrollmentState (tc_optin tc) (io_write io WState) (tc_tokenFilePath tc)
                     \<lparr>es_Version = 0, es_AssetID = id_asset adopted,
                      es_GroupID = canonicalGroupIDPointer (id_group adopted) (id_groupKnown adopted),
                      es_HubWSURL = id_ws adopted, es_HubAPIURL = id_api adopted, es_TokenOrigins = []\<rparr> fs1)))"

definition handleEnrollmentApproved :: "transport_cfg \<Rightarrow> io_outcomes \<Rightarrow> int \<Rightarrow> (string \<times> string) option \<Rightarrow> transport \<Rightarrow> transport" where
  "handleEnrollmentApproved tc io now payload t =
     (case payload of
        None \<Rightarrow> t
      | Some (rawToken, rawAsset) \<Rightarrow>
          let token = TrimSpace rawToken; asset = TrimSpace rawAsset
          in if token = [] \<or> \<not> validPersistedAssetID asset then t
             else let cur = t_identity t;
                      api0 = apiBaseURLFromWS (tc_optin tc) (id_ws cur);
                      api = (if api0 = [] then id_api cur else api0)
                  in case AdoptCredential (tc_optin tc) token asset (id_ws cur) api (Some []) cur of
                       (Inl _, _) \<Rightarrow> t
                     | (Inr adopted, ident) \<Rightarrow>
                         let (warning, fs) = approved_files tc io token adopted (t_files t);
                             t1 = t\<lparr>t_identity := ident, t_files := fs\<rparr>;
                             t2 = setCredentialError [] (setCredentialPersistenceError warning t1)
                         in markDisconnected now t2)"

definition defaultRejection :: string where
  "defaultRejection = ''An admin rejected this device in LabTether.''"

definition handleEnrollmentRejected :: "string option \<Rightarrow> transport \<Rightarrow> transport" where
  "handleEnrollmentRejected payload t =
     (case payload of
        None \<Rightarrow> t
      | Some reason \<Rightarrow>
          markEnrollmentRejected (if TrimSpace reason = [] then defaultRejection else TrimSpace reason) t)"

subsection \<open>What other goroutines do\<close>

datatype tr_op =
    OpIdentity id_op
  | OpUpdateToken string
  | OpSend "nat option" bool string
  | OpMarkDisconnected int "nat option"
  | OpPing nat int bool
  | OpClose
  | OpReceived "nat option" bool
  | OpRejected "string option"
  | OpApproved io_outcomes int "(string \<times> string) option"
  | OpChallenge "device_identity option" bool "(string \<times> string) option"
  | OpPersistError string
  | OpRefusal string
  | OpCredentialError string

fun tr_apply :: "transport_cfg \<Rightarrow> tr_op \<Rightarrow> transport \<Rightarrow> transport" where
  "tr_apply tc (OpIdentity p) t = t\<lparr>t_identity := id_apply (tc_optin tc) p (t_identity t)\<rparr>"
| "tr_apply tc (OpUpdateToken s) t = updateToken s t"
| "tr_apply tc (OpSend e ok m) t = snd (sendOnConnection e ok m t)"
| "tr_apply tc (OpMarkDisconnected now e) t = markDisconnectedIfCurrent now e t"
| "tr_apply tc (OpPing c now ok) t = ping_tick c now ok t"
| "tr_apply tc OpClose t = CloseTransport t"
| "tr_apply tc (OpReceived c ok) t = snd (receive_end c ok t)"
| "tr_apply tc (OpRejected r) t = handleEnrollmentRejected r t"
| "tr_apply tc (OpApproved io now p) t = handleEnrollmentApproved tc io now p t"
| "tr_apply tc (OpChallenge d ok p) t = handleEnrollmentChallenge d ok p t"
| "tr_apply tc (OpPersistError s) t = setCredentialPersistenceError s t"
| "tr_apply tc (OpRefusal s) t = setEnrollmentRefusal s t"
| "tr_apply tc (OpCredentialError s) t = setCredentialError s t"

fun tr_run :: "transport_cfg \<Rightarrow> tr_op list \<Rightarrow> transport \<Rightarrow> transport" where
  "tr_run tc [] t = t"
| "tr_run tc (p # ps) t = tr_run tc ps (tr_apply tc p t)"

subsection \<open>Connecting\<close>

datatype ws_url_error = WSURLRequired | WSURLInvalid | WSURLUserInfo | WSURLInsecure | WSURLScheme string

definition validateWebSocketTransportURL :: "bool \<Rightarrow> string \<Rightarrow> (ws_url_error, unit) result" where
  "validateWebSocketTransportURL optin raw =
     (let trimmed = TrimSpace raw
      in if trimmed = [] then Err WSURLRequired
         else case ParseURL trimmed of
                None \<Rightarrow> Err WSURLInvalid
              | Some parsed \<Rightarrow>
                  if TrimSpace (u_host parsed) = [] then Err WSURLInvalid
                  else if u_user parsed \<noteq> None then Err WSURLUserInfo
                  else let sch = ToLower (TrimSpace (u_scheme parsed))
                       in if sch = ''wss'' then Ok ()
                          else if sch = ''ws'' then (if optin then Ok () else Err WSURLInsecure)
                          else Err (WSURLScheme (u_scheme parsed)))"

text \<open>The handshake headers, all from one identity snapshot.\<close>

definition handshake_headers :: "transport_cfg \<Rightarrow> device_identity option \<Rightarrow> identity \<Rightarrow> (string \<times> string) list" where
  "handshake_headers tc device snap =
     (if id_token snap \<noteq> [] then [(''Authorization'', ''Bearer '' @ id_token snap)]
      else (''X-Request-Enrollment'', ''true'') # (''X-Hostname'', tc_hostname tc) #
        (case device of
           None \<Rightarrow> []
         | Some d \<Rightarrow> [(''X-Device-Fingerprint'', d_fingerprint d), (''X-Device-Key-Alg'', d_keyAlgorithm d),
                      (''X-Device-Public-Key'', d_publicKey d)]))
     @ [(''X-Asset-ID'', id_asset snap), (''X-Platform'', tc_platform tc)]
     @ (if tc_version tc \<noteq> [] then [(''X-Agent-Version'', tc_version tc)] else [])"

text \<open>
  The outcome of \<open>DialContext\<close>: an error with the HTTP status if there was a response, or a socket
  with the \<open>X-LabTether-Asset-ID\<close> header of the upgrade response.
\<close>

datatype dial_outcome = DialFailed "int option" string | Dialed string

datatype connect_error =
    ConnURL ws_url_error
  | ConnDial "int option" string
  | ConnInvalidAsset
  | ConnIdentity identity_error
  | ConnIdentityChanged
  | ConnContext

text \<open>Adopting the canonical asset ID the Hub returned; the result is the identity the socket stands for.\<close>

definition adopt_asset :: "transport_cfg \<Rightarrow> bool \<Rightarrow> identity \<Rightarrow> string \<Rightarrow> transport
    \<Rightarrow> (connect_error, identity) result \<times> transport" where
  "adopt_asset tc writeOk snap canonical t =
     (if id_token snap = [] \<or> canonical = [] then (Ok snap, t)
      else if \<not> validPersistedAssetID canonical then (Err ConnInvalidAsset, t)
      else case AdoptCanonicalAsset (tc_optin tc) snap canonical (t_identity t) of
             (Inl e, _) \<Rightarrow> (Err (ConnIdentity e), t)
           | (Inr (adopted, applied), ident) \<Rightarrow>
               if \<not> applied then (Ok snap, t\<lparr>t_identity := ident\<rparr>)
               else (Ok adopted,
                     t\<lparr>t_identity := ident,
                       t_files := snd (saveEnrollmentState (tc_optin tc) writeOk (tc_tokenFilePath tc)
                         \<lparr>es_Version = 0, es_AssetID = id_asset adopted,
                          es_GroupID = canonicalGroupIDPointer (id_group adopted) (id_groupKnown adopted),
                          es_HubWSURL = id_ws adopted, es_HubAPIURL = id_api adopted,
                          es_TokenOrigins = savedTokenOrigins (tc_tokenFilePath tc) (t_files t)\<rparr> (t_files t))\<rparr>))"

definition publish :: "nat \<Rightarrow> string \<Rightarrow> transport \<Rightarrow> transport" where
  "publish c token t =
     (stop_ping t)\<lparr>t_ctx := Some c, t_cancel := Some c, t_ping := Some c, t_conn := Some c, t_connected := True,
       t_pending := (token = []), t_authFailures := 0, t_lastError := [], t_lastErrorReason := [], t_disconnectedAt := 0\<rparr>"

text \<open>
  The points of interference: 0 during the dial, 1 before the first identity check, 2 before the
  dispatch lock, 3 while \<open>beforeConnect\<close> clears the sessions, 4 between the second check and the
  lock under which the socket is published.
\<close>

definition connect_publish :: "transport_cfg \<Rightarrow> (nat \<Rightarrow> tr_op list) \<Rightarrow> int \<Rightarrow> bool \<Rightarrow> nat \<Rightarrow> string \<Rightarrow> identity \<Rightarrow> transport
    \<Rightarrow> connect_error option \<times> transport" where
  "connect_publish tc env now ctxErr c token connIdent t =
     (let t1 = tr_run tc (env 3) (markDisconnected now (tr_run tc (env 2) t))
      in if ctxErr then (Some ConnContext, closeConn c t1)
         else if \<not> MatchesConnection (t_identity t1) connIdent then (Some ConnIdentityChanged, closeConn c t1)
         else (None, publish c token (tr_run tc (env 4) t1)))"

definition register_dial :: "string \<Rightarrow> transport \<Rightarrow> transport" where
  "register_dial token t =
     t\<lparr>t_next := Suc (t_next t), t_authed := (if token \<noteq> [] then t_next t # t_authed t else t_authed t)\<rparr>"

definition connectWithResponse :: "transport_cfg \<Rightarrow> (nat \<Rightarrow> tr_op list) \<Rightarrow> int \<Rightarrow> bool \<Rightarrow> bool \<Rightarrow> dial_outcome \<Rightarrow> transport
    \<Rightarrow> connect_error option \<times> transport" where
  "connectWithResponse tc env now ctxErr writeOk dial t =
     (let snap = t_identity t; token = id_token snap
      in case validateWebSocketTransportURL (tc_optin tc) (id_ws snap) of
           Inl e \<Rightarrow> (Some (ConnURL e), t)
         | Inr _ \<Rightarrow>
             let t1 = tr_run tc (env 0) t
             in case dial of
                  DialFailed status msg \<Rightarrow> (Some (ConnDial status msg), t1)
                | Dialed header \<Rightarrow>
                    let c = t_next t1; t2 = register_dial token t1
                    in case adopt_asset tc writeOk snap (TrimSpace header) t2 of
                         (Inl e, t3) \<Rightarrow> (Some e, closeConn c t3)
                       | (Inr connIdent, t3) \<Rightarrow>
                           let t4 = tr_run tc (env 1) t3
                           in if \<not> MatchesConnection (t_identity t4) connIdent
                              then (Some ConnIdentityChanged, closeConn c t4)
                              else connect_publish tc env now ctxErr c token connIdent t4)"

text \<open>The transport as a transition system: single operations, and connection attempts.\<close>

inductive tr_step :: "transport_cfg \<Rightarrow> transport \<Rightarrow> unit \<Rightarrow> transport \<Rightarrow> bool" for tc where
  step_op: "tr_step tc t () (tr_apply tc p t)"
| step_connect: "tr_step tc t () (snd (connectWithResponse tc env now ctxErr writeOk dial t))"

section \<open>The invariant\<close>

text \<open>
  The socket, its ping channel and its cancel function come and go together, a pending socket is
  one whose handshake carried no bearer token, and what went out on a socket without one is
  enrollment proofs only. No channel or socket is closed twice.
\<close>

definition tr_inv :: "transport \<Rightarrow> bool" where
  "tr_inv t \<longleftrightarrow>
     (case t_conn t of
        None \<Rightarrow> \<not> t_connected t \<and> \<not> t_pending t \<and> t_ping t = None \<and> t_cancel t = None
      | Some c \<Rightarrow> t_connected t \<and> (t_pending t \<longleftrightarrow> c \<notin> set (t_authed t)) \<and> t_ping t = Some c \<and> t_cancel t = Some c
          \<and> c < t_next t \<and> c \<notin> set (t_closedPings t) \<and> c \<notin> set (t_closedConns t) \<and> c \<notin> set (t_cancelled t))
     \<and> (\<forall>(c, m) \<in> set (t_wire t). c \<in> set (t_authed t) \<or> m = MsgEnrollmentProof)
     \<and> distinct (t_closedPings t) \<and> distinct (t_closedConns t) \<and> distinct (t_cancelled t)
     \<and> set (t_closedPings t) \<union> set (t_closedConns t) \<union> set (t_cancelled t) \<union> set (t_authed t) \<subseteq> {..<t_next t}"

lemmas teardown_defs = cancel_context_def stop_ping_def drop_conn_def closeConn_def

lemma tr_inv_new: "tr_inv (newWSTransportWithRuntimeIdentity ident dev fs)"
  by (simp add: tr_inv_def newWSTransportWithRuntimeIdentity_def)

text \<open>The invariant reads only the connection fields.\<close>

lemma tr_inv_frame [simp]:
  "tr_inv (t\<lparr>t_identity := x0\<rparr>) = tr_inv t"
  "tr_inv (t\<lparr>t_device := x1\<rparr>) = tr_inv t"
  "tr_inv (t\<lparr>t_files := x2\<rparr>) = tr_inv t"
  "tr_inv (t\<lparr>t_ctx := x3\<rparr>) = tr_inv t"
  "tr_inv (t\<lparr>t_authFailures := x4\<rparr>) = tr_inv t"
  "tr_inv (t\<lparr>t_lastError := x5\<rparr>) = tr_inv t"
  "tr_inv (t\<lparr>t_lastErrorReason := x6\<rparr>) = tr_inv t"
  "tr_inv (t\<lparr>t_lastErrorAt := x7\<rparr>) = tr_inv t"
  "tr_inv (t\<lparr>t_disconnectedAt := x8\<rparr>) = tr_inv t"
  "tr_inv (t\<lparr>t_persistError := x9\<rparr>) = tr_inv t"
  "tr_inv (t\<lparr>t_credentialError := x10\<rparr>) = tr_inv t"
  "tr_inv (t\<lparr>t_refusal := x11\<rparr>) = tr_inv t"
  "tr_inv (t\<lparr>t_rejected := x12\<rparr>) = tr_inv t"
  "tr_inv (t\<lparr>t_lastReEnrollAt := x13\<rparr>) = tr_inv t"
  "tr_inv (t\<lparr>t_sent := x14\<rparr>) = tr_inv t"
  "tr_inv (t\<lparr>t_received := x15\<rparr>) = tr_inv t"
  "tr_inv (t\<lparr>t_reconnects := x16\<rparr>) = tr_inv t"
  by (simp_all add: tr_inv_def cong: option.case_cong)

lemma tr_inv_disconnect [inv_rules]: "tr_inv t \<Longrightarrow> tr_inv (markDisconnectedIfCurrent now e t)"
  by (cases "t_conn t") (auto simp: markDisconnectedIfCurrent_def Let_def tr_inv_def teardown_defs)

lemma tr_inv_close [inv_rules]: "tr_inv t \<Longrightarrow> tr_inv (CloseTransport t)"
  by (cases "t_conn t") (auto simp: CloseTransport_def tr_inv_def teardown_defs)

lemma tr_inv_send [inv_rules]: "tr_inv t \<Longrightarrow> tr_inv (snd (sendOnConnection e ok m t))"
  by (cases "t_conn t") (auto simp: sendOnConnection_def Let_def tr_inv_def)

lemma tr_inv_receive [inv_rules]: "tr_inv t \<Longrightarrow> tr_inv (snd (receive_end c ok t))"
  by (simp add: receive_end_def)

lemma tr_inv_approved [inv_rules]: "tr_inv t \<Longrightarrow> tr_inv (handleEnrollmentApproved tc io now p t)"
  unfolding handleEnrollmentApproved_def Let_def case_prod_beta markDisconnected_def
  by (auto split: option.splits sum.splits simp: setCredentialError_def setCredentialPersistenceError_def
      intro!: tr_inv_disconnect)

lemma tr_inv_challenge [inv_rules]: "tr_inv t \<Longrightarrow> tr_inv (handleEnrollmentChallenge d ok p t)"
  unfolding handleEnrollmentChallenge_def Let_def
  by (auto split: option.splits intro!: tr_inv_send)

lemma tr_inv_apply [inv_rules]: "tr_inv t \<Longrightarrow> tr_inv (tr_apply tc p t)"
  by (cases p)
    (auto simp: ping_tick_def handleEnrollmentRejected_def markEnrollmentRejected_def updateToken_def
      setCredentialPersistenceError_def setEnrollmentRefusal_def setCredentialError_def split: option.splits
      intro: tr_inv_disconnect tr_inv_close tr_inv_send tr_inv_receive tr_inv_approved tr_inv_challenge)

lemma tr_inv_run [inv_rules]: "tr_inv t \<Longrightarrow> tr_inv (tr_run tc ps t)"
  by (induction ps arbitrary: t) (auto intro: tr_inv_apply)

text \<open>
  While an attempt is under way its socket number \<open>c\<close> is taken but not published: no other
  operation can close or use it.
\<close>

definition reserved :: "nat \<Rightarrow> bool \<Rightarrow> transport \<Rightarrow> bool" where
  "reserved c auth t \<longleftrightarrow> c < t_next t \<and> t_conn t \<noteq> Some c \<and> c \<notin> set (t_closedPings t) \<and> c \<notin> set (t_closedConns t)
     \<and> c \<notin> set (t_cancelled t) \<and> (auth \<longleftrightarrow> c \<in> set (t_authed t))"

lemma reserved_frame [simp]:
  "reserved c a (t\<lparr>t_identity := x0\<rparr>) = reserved c a t"
  "reserved c a (t\<lparr>t_device := x1\<rparr>) = reserved c a t"
  "reserved c a (t\<lparr>t_files := x2\<rparr>) = reserved c a t"
  "reserved c a (t\<lparr>t_ctx := x3\<rparr>) = reserved c a t"
  "reserved c a (t\<lparr>t_authFailures := x4\<rparr>) = reserved c a t"
  "reserved c a (t\<lparr>t_lastError := x5\<rparr>) = reserved c a t"
  "reserved c a (t\<lparr>t_lastErrorReason := x6\<rparr>) = reserved c a t"
  "reserved c a (t\<lparr>t_lastErrorAt := x7\<rparr>) = reserved c a t"
  "reserved c a (t\<lparr>t_disconnectedAt := x8\<rparr>) = reserved c a t"
  "reserved c a (t\<lparr>t_persistError := x9\<rparr>) = reserved c a t"
  "reserved c a (t\<lparr>t_credentialError := x10\<rparr>) = reserved c a t"
  "reserved c a (t\<lparr>t_refusal := x11\<rparr>) = reserved c a t"
  "reserved c a (t\<lparr>t_rejected := x12\<rparr>) = reserved c a t"
  "reserved c a (t\<lparr>t_lastReEnrollAt := x13\<rparr>) = reserved c a t"
  "reserved c a (t\<lparr>t_sent := x14\<rparr>) = reserved c a t"
  "reserved c a (t\<lparr>t_received := x15\<rparr>) = reserved c a t"
  "reserved c a (t\<lparr>t_reconnects := x16\<rparr>) = reserved c a t"
  by (simp_all add: reserved_def)

lemma reserved_disconnect: "tr_inv t \<Longrightarrow> reserved c a t \<Longrightarrow> reserved c a (markDisconnectedIfCurrent now e t)"
  by (cases "t_conn t") (auto simp: markDisconnectedIfCurrent_def Let_def tr_inv_def reserved_def teardown_defs)

lemma reserved_close: "tr_inv t \<Longrightarrow> reserved c a t \<Longrightarrow> reserved c a (CloseTransport t)"
  by (cases "t_conn t") (auto simp: CloseTransport_def tr_inv_def reserved_def teardown_defs)

lemma reserved_send: "reserved c a t \<Longrightarrow> reserved c a (snd (sendOnConnection e ok m t))"
  by (auto simp: sendOnConnection_def Let_def reserved_def split: option.splits)

lemma reserved_approved: "tr_inv t \<Longrightarrow> reserved c a t \<Longrightarrow> reserved c a (handleEnrollmentApproved tc io now p t)"
  unfolding handleEnrollmentApproved_def Let_def case_prod_beta markDisconnected_def
  by (auto split: option.splits sum.splits simp: setCredentialError_def setCredentialPersistenceError_def
      intro!: reserved_disconnect)

lemma reserved_challenge: "reserved c a t \<Longrightarrow> reserved c a (handleEnrollmentChallenge d ok p t)"
  unfolding handleEnrollmentChallenge_def Let_def
  by (auto split: option.splits intro!: reserved_send)

lemma reserved_apply: "tr_inv t \<Longrightarrow> reserved c a t \<Longrightarrow> reserved c a (tr_apply tc p t)"
  by (cases p)
    (auto simp: ping_tick_def handleEnrollmentRejected_def markEnrollmentRejected_def updateToken_def receive_end_def
      setCredentialPersistenceError_def setEnrollmentRefusal_def setCredentialError_def split: option.splits
      intro: reserved_disconnect reserved_close reserved_send reserved_approved reserved_challenge)

lemma reserved_run: "tr_inv t \<Longrightarrow> reserved c a t \<Longrightarrow> reserved c a (tr_run tc ps t)"
  by (induction ps arbitrary: t) (auto intro: tr_inv_apply reserved_apply)

text \<open>No operation but a connection attempt opens a socket.\<close>

lemma closed_apply: "t_conn t = None \<Longrightarrow> t_conn (tr_apply tc p t) = None"
  by (cases p)
    (auto simp: ping_tick_def handleEnrollmentRejected_def markEnrollmentRejected_def updateToken_def receive_end_def
      setCredentialPersistenceError_def setEnrollmentRefusal_def setCredentialError_def markDisconnectedIfCurrent_def
      CloseTransport_def teardown_defs Let_def sendOnConnection_def handleEnrollmentApproved_def case_prod_beta
      markDisconnected_def handleEnrollmentChallenge_def split: option.splits sum.splits)

lemma closed_run: "t_conn t = None \<Longrightarrow> t_conn (tr_run tc ps t) = None"
  by (induction ps arbitrary: t) (simp_all add: closed_apply)

lemma conn_markDisconnected: "t_conn (markDisconnected now t) = None"
  by (simp add: markDisconnected_def markDisconnectedIfCurrent_def Let_def teardown_defs split: option.splits)

lemma tr_inv_closeConn: "tr_inv t \<Longrightarrow> reserved c a t \<Longrightarrow> tr_inv (closeConn c t)"
  by (cases "t_conn t") (auto simp: closeConn_def tr_inv_def reserved_def)

lemma tr_inv_publish:
  "tr_inv t \<Longrightarrow> reserved c (token \<noteq> []) t \<Longrightarrow> t_conn t = None \<Longrightarrow> tr_inv (publish c token t)"
  by (auto simp: publish_def stop_ping_def tr_inv_def reserved_def)

lemma tr_inv_register: "tr_inv t \<Longrightarrow> tr_inv (register_dial token t)"
  by (cases "t_conn t") (auto simp: register_dial_def tr_inv_def less_Suc_eq)

lemma reserved_register: "tr_inv t \<Longrightarrow> reserved (t_next t) (token \<noteq> []) (register_dial token t)"
  by (cases "t_conn t") (auto simp: register_dial_def tr_inv_def reserved_def)

lemma adopt_asset_keeps:
  assumes "adopt_asset tc w snap a t = (r, t')"
  shows "(tr_inv t \<longrightarrow> tr_inv t') \<and> (reserved c au t \<longrightarrow> reserved c au t')"
  using assms by (auto simp: adopt_asset_def split: if_splits sum.splits prod.splits)

lemma tr_inv_connect_publish:
  assumes "tr_inv t" and "reserved c (token \<noteq> []) t"
  shows "tr_inv (snd (connect_publish tc env now ctxErr c token ci t))"
proof -
  let ?t0 = "markDisconnected now (tr_run tc (env 2) t)"
  let ?t1 = "tr_run tc (env 3) ?t0"
  have 0: "tr_inv ?t0" "reserved c (token \<noteq> []) ?t0"
    using assms by (auto simp: markDisconnected_def intro: tr_inv_disconnect reserved_disconnect tr_inv_run reserved_run)
  then have 1: "tr_inv ?t1" "reserved c (token \<noteq> []) ?t1" "t_conn ?t1 = None"
    by (auto intro: tr_inv_run reserved_run closed_run conn_markDisconnected)
  then show ?thesis
    by (auto simp: connect_publish_def Let_def
        intro: tr_inv_closeConn tr_inv_publish tr_inv_run reserved_run closed_run)
qed

lemma tr_inv_connect [inv_rules]:
  assumes "tr_inv t"
  shows "tr_inv (snd (connectWithResponse tc env now ctxErr w dial t))"
proof (cases dial)
  case (Dialed header)
  let ?snap = "t_identity t"
  let ?token = "id_token ?snap"
  let ?t1 = "tr_run tc (env 0) t"
  let ?c = "t_next ?t1"
  let ?t2 = "register_dial ?token ?t1"
  have 1: "tr_inv ?t1" using assms by (rule tr_inv_run)
  have 2: "tr_inv ?t2" "reserved ?c (?token \<noteq> []) ?t2"
    using 1 by (auto intro: tr_inv_register reserved_register)
  obtain r t3 where a: "adopt_asset tc w ?snap (TrimSpace header) ?t2 = (r, t3)"
    by (cases "adopt_asset tc w ?snap (TrimSpace header) ?t2")
  have 3: "tr_inv t3" "reserved ?c (?token \<noteq> []) t3"
    using adopt_asset_keeps [OF a] 2 by auto
  then have 4: "tr_inv (tr_run tc (env 1) t3)" "reserved ?c (?token \<noteq> []) (tr_run tc (env 1) t3)"
    by (auto intro: tr_inv_run reserved_run)
  show ?thesis
    using assms a 3 4 Dialed
    by (auto simp: connectWithResponse_def Let_def split: sum.splits
        intro: tr_inv_closeConn tr_inv_connect_publish)
qed (use assms in \<open>auto simp: connectWithResponse_def Let_def split: sum.splits intro: tr_inv_run\<close>)

interpretation transport: invariant_system
  "\<lambda>t. \<exists>ident dev fs. t = newWSTransportWithRuntimeIdentity ident dev fs" "tr_step tc" tr_inv for tc
  by unfold_locales (auto simp: tr_inv_new elim!: tr_step.cases intro: tr_inv_apply tr_inv_connect)

section \<open>Sockets are never reused\<close>

text \<open>A socket that is not current has been given up for good: nothing publishes it again.\<close>

definition gone :: "nat \<Rightarrow> transport \<Rightarrow> bool" where
  "gone c t \<longleftrightarrow> c < t_next t \<and> t_conn t \<noteq> Some c"

lemma apply_next: "t_next (tr_apply tc p t) = t_next t"
  by (cases p)
    (auto simp: ping_tick_def handleEnrollmentRejected_def markEnrollmentRejected_def updateToken_def receive_end_def
      setCredentialPersistenceError_def setEnrollmentRefusal_def setCredentialError_def markDisconnectedIfCurrent_def
      CloseTransport_def teardown_defs Let_def sendOnConnection_def handleEnrollmentApproved_def case_prod_beta
      markDisconnected_def handleEnrollmentChallenge_def split: option.splits sum.splits)

lemma apply_conn: "t_conn (tr_apply tc p t) = t_conn t \<or> t_conn (tr_apply tc p t) = None"
  by (cases p)
    (auto simp: ping_tick_def handleEnrollmentRejected_def markEnrollmentRejected_def updateToken_def receive_end_def
      setCredentialPersistenceError_def setEnrollmentRefusal_def setCredentialError_def markDisconnectedIfCurrent_def
      CloseTransport_def teardown_defs Let_def sendOnConnection_def handleEnrollmentApproved_def case_prod_beta
      markDisconnected_def handleEnrollmentChallenge_def split: option.splits sum.splits)

lemma run_next [simp]: "t_next (tr_run tc ps t) = t_next t"
  by (induction ps arbitrary: t) (simp_all add: apply_next)

lemma run_conn: "t_conn (tr_run tc ps t) = t_conn t \<or> t_conn (tr_run tc ps t) = None"
proof (induction ps arbitrary: t)
  case (Cons p ps)
  show ?case
    using Cons.IH [of "tr_apply tc p t"] apply_conn [of tc p t] by auto
qed simp

lemma gone_run: "gone c t \<Longrightarrow> gone c (tr_run tc ps t)"
  using run_conn [of tc ps t] by (auto simp: gone_def)

lemma gone_markDisconnected: "gone c t \<Longrightarrow> gone c (markDisconnected now t)"
  using apply_next [of undefined "OpMarkDisconnected now None" t] conn_markDisconnected [of now t]
  by (simp add: gone_def markDisconnected_def)

lemma gone_publish: "gone c t \<Longrightarrow> c \<noteq> d \<Longrightarrow> gone c (publish d token t)"
  by (simp add: gone_def publish_def stop_ping_def split: option.splits)

lemma gone_closeConn [simp]: "gone c (closeConn d t) = gone c t"
  by (simp add: gone_def closeConn_def)

lemma gone_adopt: "adopt_asset tc w snap a t = (r, t') \<Longrightarrow> gone c t \<Longrightarrow> gone c t'"
  by (auto simp: adopt_asset_def gone_def split: if_splits sum.splits prod.splits)

lemma gone_connect_publish:
  assumes "gone c t" and "c \<noteq> d"
  shows "gone c (snd (connect_publish tc env now ctxErr d token ci t))"
proof -
  have "gone c (tr_run tc (env 3) (markDisconnected now (tr_run tc (env 2) t)))"
    using assms(1) by (intro gone_run gone_markDisconnected)
  with assms(2) show ?thesis
    by (auto simp: connect_publish_def Let_def intro: gone_publish gone_run)
qed

lemma gone_connect:
  assumes "gone c t"
  shows "gone c (snd (connectWithResponse tc env now ctxErr w dial t))"
proof (cases dial)
  case (Dialed header)
  let ?t1 = "tr_run tc (env 0) t"
  let ?t2 = "register_dial (id_token (t_identity t)) ?t1"
  have g1: "gone c ?t1"
    using assms by (rule gone_run)
  have ne: "c \<noteq> t_next ?t1"
    using assms by (auto simp: gone_def)
  have g2: "gone c ?t2"
    using g1 by (simp add: gone_def register_dial_def)
  obtain r t3 where a: "adopt_asset tc w (t_identity t) (TrimSpace header) ?t2 = (r, t3)"
    by (cases "adopt_asset tc w (t_identity t) (TrimSpace header) ?t2")
  have "gone c t3" using gone_adopt [OF a g2] .
  then have "gone c t3" and "gone c (tr_run tc (env 1) t3)"
    by (auto intro: gone_run)
  then show ?thesis
    using assms a ne Dialed
    by (auto simp: connectWithResponse_def Let_def split: sum.splits intro: gone_connect_publish)
qed (use assms in \<open>auto simp: connectWithResponse_def Let_def split: sum.splits intro: gone_run\<close>)

lemma gone_step: "gone c t \<Longrightarrow> tr_step tc t l t' \<Longrightarrow> gone c t'"
  by (auto elim!: tr_step.cases intro: gone_connect gone_run [where ps = "[p]" for p, simplified])

interpretation gone_socket: invariant_system "gone c" "tr_step tc" "gone c" for c tc
  by unfold_locales (auto intro: gone_step)

section \<open>The identity behind a socket\<close>

lemma apply_identity: "\<exists>ps. length ps \<le> 1 \<and> t_identity (tr_apply tc p t) = id_run (tc_optin tc) ps (t_identity t)"
proof (cases p)
  case (OpIdentity q)
  then show ?thesis by (intro exI [of _ "[q]"]) simp
next
  case (OpUpdateToken s)
  then show ?thesis by (intro exI [of _ "[UpdateTokenOp s]"]) (simp add: updateToken_def)
next
  case (OpApproved io now q)
  have dis: "t_identity (markDisconnected n t') = t_identity t'" for n t'
    by (simp add: markDisconnected_def markDisconnectedIfCurrent_def teardown_defs Let_def split: option.splits)
  show ?thesis
  proof (cases "t_identity (tr_apply tc p t) = t_identity t")
    case False
    then obtain a b w x where "t_identity (tr_apply tc p t)
        = id_apply (tc_optin tc) (AdoptCredentialOp a b w x (Some [])) (t_identity t)"
      using OpApproved
      by (auto simp: handleEnrollmentApproved_def Let_def case_prod_beta dis setCredentialError_def
          setCredentialPersistenceError_def split: option.splits sum.splits if_splits)
    then show ?thesis
      by (intro exI [of _ "[AdoptCredentialOp a b w x (Some [])]"]) simp
  qed (intro exI [of _ "[]"], simp)
qed (auto simp: ping_tick_def handleEnrollmentRejected_def markEnrollmentRejected_def receive_end_def
      setCredentialPersistenceError_def setEnrollmentRefusal_def setCredentialError_def markDisconnectedIfCurrent_def
      CloseTransport_def teardown_defs Let_def sendOnConnection_def handleEnrollmentChallenge_def
      split: option.splits intro!: exI [of _ "[]"])

text \<open>At most \<open>n\<close> identity updates lead from one identity to another.\<close>

definition id_within :: "transport_cfg \<Rightarrow> nat \<Rightarrow> identity \<Rightarrow> identity \<Rightarrow> bool" where
  "id_within tc n s s' \<longleftrightarrow> (\<exists>qs. length qs \<le> n \<and> s' = id_run (tc_optin tc) qs s)"

lemma id_within_refl: "id_within tc n s s"
  by (auto simp: id_within_def intro!: exI [of _ "[]"])

lemma id_within_trans: "id_within tc m s s' \<Longrightarrow> id_within tc n s' s'' \<Longrightarrow> id_within tc (m + n) s s''"
proof -
  assume "id_within tc m s s'" "id_within tc n s' s''"
  then obtain ps qs where "length ps \<le> m" "s' = id_run (tc_optin tc) ps s" "length qs \<le> n" "s'' = id_run (tc_optin tc) qs s'"
    by (auto simp: id_within_def)
  then show ?thesis
    by (auto simp: id_within_def id_run_append intro!: exI [of _ "ps @ qs"])
qed

lemma run_identity: "id_within tc (length ps) (t_identity t) (t_identity (tr_run tc ps t))"
proof (induction ps arbitrary: t)
  case (Cons p ps)
  have "id_within tc 1 (t_identity t) (t_identity (tr_apply tc p t))"
    using apply_identity [of tc p t] by (simp add: id_within_def)
  from id_within_trans [OF this Cons.IH] show ?case by simp
qed (simp add: id_within_refl)

text \<open>A matching generation means an unchanged identity, as long as fewer than \<open>2 ^ 64\<close> updates ran.\<close>

lemma within_matches:
  assumes "id_within tc n s s'" and "n < 2 ^ 64" and "MatchesConnection s' s"
  shows "s' = s"
proof -
  obtain qs where q: "length qs \<le> n" "s' = id_run (tc_optin tc) qs s"
    using assms(1) by (auto simp: id_within_def)
  have "length qs < 2 ^ 64"
    using q(1) assms(2) by simp
  then have "id_changes (tc_optin tc) qs s = 0"
    using assms(3) generation_decides q(2) by metis
  then show ?thesis
    using id_run_unchanged [of "tc_optin tc" qs s "length qs"] q(2) by simp
qed

lemma identity_markDisconnected [simp]: "t_identity (markDisconnected now t) = t_identity t"
  by (simp add: markDisconnected_def markDisconnectedIfCurrent_def teardown_defs Let_def split: option.splits)

lemma adopt_asset_identity:
  assumes "adopt_asset tc w snap a t = (Ok ci, t')" and "id_within tc n snap (t_identity t)" and "n < 2 ^ 64"
  shows "id_token ci = id_token snap \<and> (ci = snap \<and> t_identity t' = t_identity t \<or> t_identity t' = ci)"
proof -
  have "id_generation (t_identity t) = id_generation snap \<Longrightarrow> t_identity t = snap"
    using within_matches [OF assms(2,3)] by (simp add: MatchesConnection_def)
  then show ?thesis
    using assms(1) by (auto simp: adopt_asset_def AdoptCanonicalAsset_def Let_def split: if_splits sum.splits)
qed

lemma connect_publish_ok:
  assumes "connect_publish tc env now ctxErr c token ci t = (None, t')" and "env 4 = []"
  shows "\<exists>t1. id_within tc (length (env 2) + length (env 3)) (t_identity t) (t_identity t1)
    \<and> MatchesConnection (t_identity t1) ci \<and> t' = publish c token t1"
proof -
  let ?t1 = "tr_run tc (env 3) (markDisconnected now (tr_run tc (env 2) t))"
  have "id_within tc (length (env 3)) (t_identity (tr_run tc (env 2) t)) (t_identity ?t1)"
    using run_identity [of tc "env 3" "markDisconnected now (tr_run tc (env 2) t)"] by simp
  from id_within_trans [OF run_identity this]
  have "id_within tc (length (env 2) + length (env 3)) (t_identity t) (t_identity ?t1)" .
  then show ?thesis
    using assms by (auto simp: connect_publish_def Let_def split: if_splits)
qed

lemma publish_fields [simp]:
  "t_identity (publish c token t) = t_identity t" "t_conn (publish c token t) = Some c"
  "t_connected (publish c token t)" "t_pending (publish c token t) = (token = [])"
  by (simp_all add: publish_def stop_ping_def split: option.splits)

lemma connect_ok:
  assumes "connectWithResponse tc env now ctxErr w dial t = (None, t')" and "env 4 = []"
    and "length (env 0) + length (env 1) + length (env 2) + length (env 3) < 2 ^ 64"
  shows "id_token (t_identity t') = id_token (t_identity t) \<and> t_conn t' = Some (t_next t) \<and> t_connected t'
    \<and> (t_pending t' \<longleftrightarrow> id_token (t_identity t) = [])
    \<and> validateWebSocketTransportURL (tc_optin tc) (id_ws (t_identity t)) = Ok ()"
proof -
  let ?snap = "t_identity t"
  let ?t2 = "register_dial (id_token ?snap) (tr_run tc (env 0) t)"
  obtain header where d: "dial = Dialed header" and url: "validateWebSocketTransportURL (tc_optin tc) (id_ws ?snap) = Ok ()"
    using assms(1) by (auto simp: connectWithResponse_def Let_def split: sum.splits dial_outcome.splits)
  obtain ci t3 where a: "adopt_asset tc w ?snap (TrimSpace header) ?t2 = (Ok ci, t3)"
    using assms(1) d by (auto simp: connectWithResponse_def Let_def split: sum.splits prod.splits)
  have p: "connect_publish tc env now ctxErr (t_next t) (id_token ?snap) ci (tr_run tc (env 1) t3) = (None, t')"
    using assms(1) d a url by (auto simp: connectWithResponse_def Let_def split: if_splits)
  have w2: "id_within tc (length (env 0)) ?snap (t_identity ?t2)"
    using run_identity [of tc "env 0" t] by (simp add: register_dial_def)
  have l0: "length (env 0) < 2 ^ 64"
    using assms(3) by simp
  obtain t1 where w: "id_within tc (length (env 2) + length (env 3)) (t_identity (tr_run tc (env 1) t3)) (t_identity t1)"
    and m: "MatchesConnection (t_identity t1) ci" and t': "t' = publish (t_next t) (id_token ?snap) t1"
    using connect_publish_ok [OF p assms(2)] by blast
  have w13: "id_within tc (length (env 1) + (length (env 2) + length (env 3))) (t_identity t3) (t_identity t1)"
    by (rule id_within_trans [OF run_identity w])
  have "t_identity t1 = ci"
  proof (cases "t_identity t3 = ci")
    case True
    then show ?thesis
      using within_matches [OF w13 _] m assms(3) by simp
  next
    case False
    then have "ci = ?snap" "t_identity t3 = t_identity ?t2"
      using adopt_asset_identity [OF a w2 l0] by auto
    then have "id_within tc (length (env 0) + (length (env 1) + (length (env 2) + length (env 3)))) ci (t_identity t1)"
      using id_within_trans [OF w2] w13 by simp
    from within_matches [OF this _ m] show ?thesis
      using assms(3) by simp
  qed
  then show ?thesis
    using adopt_asset_identity [OF a w2 l0] url by (simp add: t')
qed

text \<open>Whether a socket was authenticated is settled at its handshake.\<close>

definition auth_settled :: "nat \<Rightarrow> bool \<Rightarrow> transport \<Rightarrow> bool" where
  "auth_settled c b t \<longleftrightarrow> c < t_next t \<and> (c \<in> set (t_authed t) \<longleftrightarrow> b)"

lemma apply_authed: "t_authed (tr_apply tc p t) = t_authed t"
  by (cases p)
    (auto simp: ping_tick_def handleEnrollmentRejected_def markEnrollmentRejected_def updateToken_def receive_end_def
      setCredentialPersistenceError_def setEnrollmentRefusal_def setCredentialError_def markDisconnectedIfCurrent_def
      CloseTransport_def teardown_defs Let_def sendOnConnection_def handleEnrollmentApproved_def case_prod_beta
      markDisconnected_def handleEnrollmentChallenge_def split: option.splits sum.splits)

lemma run_authed [simp]: "t_authed (tr_run tc ps t) = t_authed t"
  by (induction ps arbitrary: t) (simp_all add: apply_authed)

lemma disconnect_authed [simp]:
  "t_authed (markDisconnected now t) = t_authed t" "t_next (markDisconnected now t) = t_next t"
  using apply_authed [of undefined "OpMarkDisconnected now None" t] apply_next [of undefined "OpMarkDisconnected now None" t]
  by (simp_all add: markDisconnected_def)

lemma connect_publish_authed:
  "t_authed (snd (connect_publish tc env now ctxErr d token ci t)) = t_authed t"
  "t_next (snd (connect_publish tc env now ctxErr d token ci t)) = t_next t"
  by (simp_all add: connect_publish_def Let_def publish_def stop_ping_def closeConn_def split: option.splits)

lemma adopt_authed: "adopt_asset tc w snap a t = (r, t') \<Longrightarrow> t_authed t' = t_authed t \<and> t_next t' = t_next t"
  by (auto simp: adopt_asset_def split: if_splits sum.splits prod.splits)

lemma connect_authed:
  assumes "auth_settled c b t"
  shows "auth_settled c b (snd (connectWithResponse tc env now ctxErr w dial t))"
proof (cases dial)
  case (Dialed header)
  let ?t2 = "register_dial (id_token (t_identity t)) (tr_run tc (env 0) t)"
  obtain r t3 where a: "adopt_asset tc w (t_identity t) (TrimSpace header) ?t2 = (r, t3)"
    by (cases "adopt_asset tc w (t_identity t) (TrimSpace header) ?t2")
  have "auth_settled c b ?t2"
    using assms by (auto simp: auth_settled_def register_dial_def)
  then have "auth_settled c b t3"
    using adopt_authed [OF a] by (simp add: auth_settled_def)
  then show ?thesis
    using assms a Dialed
    by (auto simp: connectWithResponse_def Let_def auth_settled_def connect_publish_authed closeConn_def split: sum.splits)
qed (use assms in \<open>auto simp: connectWithResponse_def Let_def auth_settled_def split: sum.splits\<close>)

lemma apply_auth_settled: "auth_settled c b t \<Longrightarrow> auth_settled c b (tr_apply tc p t)"
  by (simp add: auth_settled_def apply_authed apply_next)

interpretation authed_socket: invariant_system "auth_settled c b" "tr_step tc" "auth_settled c b" for c b tc
  by unfold_locales (auto elim!: tr_step.cases intro: connect_authed apply_auth_settled)

section \<open>Properties\<close>

text \<open>A transport with and without a credential, for the concrete instances below.\<close>

definition demo_cfg :: transport_cfg where
  "demo_cfg = \<lparr>tc_optin = False, tc_platform = ''linux'', tc_version = [], tc_tokenFilePath = [], tc_hostname = ''h''\<rparr>"

definition demo_identity :: "string \<Rightarrow> identity" where
  "demo_identity tok = \<lparr>id_token = tok, id_asset = ''a1'', id_group = [], id_groupKnown = False, id_ws = ''wss://hub/ws'',
     id_api = ''https://hub'', id_generation = 1\<rparr>"

definition demo_new :: "string \<Rightarrow> transport" where
  "demo_new tok = newWSTransportWithRuntimeIdentity (demo_identity tok) None
     \<lparr>f_token = Absent, f_state = Absent, f_consumed = Absent, f_enroll = Absent, f_ca = Absent, f_env = False\<rparr>"

definition demo_open :: "string \<Rightarrow> transport" where
  "demo_open tok = snd (connectWithResponse demo_cfg (\<lambda>_. []) 5 False True (Dialed []) (demo_new tok))"

lemma demo_open_step: "tr_step demo_cfg (demo_new tok) () (demo_open tok)"
  unfolding demo_open_def by (rule step_connect)

lemma demo_open_reach:
  "reach (\<lambda>t. \<exists>ident dev fs. t = newWSTransportWithRuntimeIdentity ident dev fs) (tr_step demo_cfg) (demo_open tok)"
proof (rule reach_step [where s = "demo_new tok"])
  show "reach (\<lambda>t. \<exists>ident dev fs. t = newWSTransportWithRuntimeIdentity ident dev fs) (tr_step demo_cfg) (demo_new tok)"
    by (rule reach_init) (auto simp: demo_new_def)
qed (rule demo_open_step)

text \<open>
  C1. A socket opened without a bearer token is an enrollment channel and nothing else: in every
  reachable state, each message ever written to a socket whose handshake carried no token is an
  \<open>enrollment.proof\<close>. Heartbeats, telemetry and session output cannot leak through it, whatever
  the order of sends, disconnects, credential updates and reconnects.
\<close>

theorem unauthenticated_socket_sends_only_proofs:
  assumes "reach (\<lambda>t. \<exists>ident dev fs. t = newWSTransportWithRuntimeIdentity ident dev fs) (tr_step tc) t"
    and "(c, m) \<in> set (t_wire t)" and "c \<notin> set (t_authed t)"
  shows "m = MsgEnrollmentProof"
  using transport.reach_inv [OF assms(1)] assms(2,3) by (auto simp: tr_inv_def)

theorem unauthenticated_socket_sends_only_proofs_witness:
  "(let t = snd (sendOnConnection None True MsgEnrollmentProof (demo_open []))
    in t_wire t = [(0, MsgEnrollmentProof)] \<and> fst (sendOnConnection None True ''heartbeat'' t) = Some EnrollmentPending
      \<and> snd (hd (t_wire t)) = MsgEnrollmentProof)"
proof -
  let ?t = "snd (sendOnConnection None True MsgEnrollmentProof (demo_open []))"
  have w: "t_wire ?t = [(0, MsgEnrollmentProof)]" and a: "t_authed ?t = []"
    and s: "fst (sendOnConnection None True ''heartbeat'' ?t) = Some EnrollmentPending"
    by code_simp+
  have "tr_step demo_cfg (demo_open []) () ?t"
    using step_op [of demo_cfg "demo_open []" "OpSend None True MsgEnrollmentProof"] by simp
  from reach_step [OF demo_open_reach this]
  have "MsgEnrollmentProof = MsgEnrollmentProof"
    using unauthenticated_socket_sends_only_proofs [of demo_cfg ?t 0 MsgEnrollmentProof] w a by simp
  with w s show ?thesis by (simp add: Let_def)
qed

text \<open>
  C7. Session output never moves to a newer connection. Once a session's socket is no longer the
  current one, then after any further operations and reconnects its \<open>Send\<close> fails with
  \<open>errNotConnected\<close> and writes nothing, it does not report itself connected, and its \<open>Close\<close>
  leaves the newer connection alone.
\<close>

theorem stale_session_cannot_act:
  assumes "ss_conn s < t_next t" and "t_conn t \<noteq> Some (ss_conn s)"
    and "(\<lambda>a b. \<exists>l. tr_step tc a l b)\<^sup>*\<^sup>* t t'"
  shows "session_Send s ok m t' = (Some NotConnected, t') \<and> \<not> session_Connected s t' \<and> session_Close s now t' = t'"
proof -
  have "gone (ss_conn s) t"
    using assms(1,2) by (simp add: gone_def)
  then have "gone (ss_conn s) t'"
    using assms(3) by (rule gone_socket.inv_rtrancl)
  then show ?thesis
    by (auto simp: gone_def session_Send_def sendOnConnection_def session_Connected_def session_Close_def
        markDisconnectedIfCurrent_def split: option.splits)
qed

theorem stale_session_cannot_act_witness:
  "(let t = markDisconnected 9 (demo_open ''tok'');
        t' = snd (connectWithResponse demo_cfg (\<lambda>_. []) 10 False True (Dialed []) t);
        s = \<lparr>ss_conn = 0, ss_ctx = Some 0, ss_assetID = ''a1''\<rparr>
    in t_conn t' = Some 1 \<and> session_Send s True ''terminal.data'' t' = (Some NotConnected, t') \<and> session_Close s 11 t' = t')"
proof -
  let ?t = "markDisconnected 9 (demo_open ''tok'')"
  let ?t' = "snd (connectWithResponse demo_cfg (\<lambda>_. []) 10 False True (Dialed []) ?t)"
  let ?s = "\<lparr>ss_conn = 0, ss_ctx = Some 0, ss_assetID = ''a1''\<rparr>"
  have c: "t_conn ?t' = Some 1" and n: "0 < t_next ?t" and d: "t_conn ?t \<noteq> Some 0"
    by code_simp+
  have "(\<lambda>a b. \<exists>l. tr_step demo_cfg a l b)\<^sup>*\<^sup>* ?t ?t'"
    by (rule r_into_rtranclp) (auto intro: step_connect)
  with stale_session_cannot_act [of ?s ?t demo_cfg ?t' True "''terminal.data''" 11] n d
  have "session_Send ?s True ''terminal.data'' ?t' = (Some NotConnected, ?t') \<and> session_Close ?s 11 ?t' = ?t'"
    by simp
  with c show ?thesis by (simp add: Let_def)
qed

text \<open>
  A connection whose identity does not change between the last check and the publication. If an attempt
  succeeds, whatever other goroutines did to the identity during the dial and the preparation (fewer
  than \<open>2 ^ 64\<close> operations) and if nothing happened to it after the last check, then the bearer token the handshake carried is the one the identity holds now, the socket is
  a new one, it is pending exactly when there is no token, and its address passed validation.
\<close>

theorem connect_publishes_current_credential:
  assumes "connectWithResponse tc env now ctxErr w dial t = (None, t')" and "env 4 = []"
    and "length (env 0) + length (env 1) + length (env 2) + length (env 3) < 2 ^ 64"
  shows "id_token (t_identity t') = id_token (t_identity t) \<and> t_conn t' = Some (t_next t) \<and> Connected t' = (id_token (t_identity t') \<noteq> [])
    \<and> EnrollmentIsPending t' = (id_token (t_identity t') = [])
    \<and> validateWebSocketTransportURL (tc_optin tc) (id_ws (t_identity t)) = Ok ()"
  using connect_ok [OF assms] by (auto simp: Connected_def EnrollmentIsPending_def)

theorem connect_publishes_current_credential_witness:
  "Connected (demo_open ''tok'') \<and> \<not> EnrollmentIsPending (demo_open ''tok'') \<and> EnrollmentIsPending (demo_open [])
   \<and> fst (connectWithResponse demo_cfg (\<lambda>i. if i = 0 then [OpUpdateToken ''new''] else []) 5 False True (Dialed []) (demo_new ''tok''))
      = Some ConnIdentityChanged"
proof -
  let ?r = "\<lambda>tok. connectWithResponse demo_cfg (\<lambda>_. []) 5 False True (Dialed []) (demo_new tok)"
  have a: "fst (?r ''tok'') = None" "fst (?r []) = None"
    and n: "fst (connectWithResponse demo_cfg (\<lambda>i. if i = 0 then [OpUpdateToken ''new''] else []) 5 False True (Dialed []) (demo_new ''tok''))
      = Some ConnIdentityChanged"
    by code_simp+
  have e: "?r ''tok'' = (None, demo_open ''tok'')" "?r [] = (None, demo_open [])"
    using a by (simp_all add: demo_open_def prod_eq_iff)
  have i: "id_token (t_identity (demo_new tok)) = tok" for tok
    by (simp add: demo_new_def newWSTransportWithRuntimeIdentity_def demo_identity_def)
  show ?thesis
    using connect_publishes_current_credential [OF e(1)] connect_publishes_current_credential [OF e(2)] n i by simp
qed

text \<open>
  A received message is judged by the socket it came from. If \<open>receiveWithConnection\<close> returns a
  message, then whatever happened while the read was blocked, the socket it reports is still the
  current one and the enrollment flag it reports is exactly whether that socket's handshake
  carried no bearer token.
\<close>

theorem received_message_keeps_its_socket:
  assumes "reach (\<lambda>t. \<exists>ident dev fs. t = newWSTransportWithRuntimeIdentity ident dev fs) (tr_step tc) t"
    and "receive_begin t = (conn, pending)" and "(\<lambda>a b. \<exists>l. tr_step tc a l b)\<^sup>*\<^sup>* t t'"
    and "fst (receive_end conn readOk t')"
  shows "\<exists>c. conn = Some c \<and> t_conn t' = Some c \<and> t_connected t' \<and> (pending \<longleftrightarrow> c \<notin> set (t_authed t'))"
proof -
  obtain c where c: "t_conn t = Some c" "conn = Some c" and now: "t_conn t' = Some c" "t_connected t'"
    using assms(2,4) by (auto simp: receive_begin_def receive_end_def connectionIsCurrent_def split: if_splits)
  have "c < t_next t \<and> (pending \<longleftrightarrow> c \<notin> set (t_authed t))"
    using transport.reach_inv [OF assms(1)] assms(2) c by (auto simp: tr_inv_def receive_begin_def)
  then have "auth_settled c (\<not> pending) t"
    by (auto simp: auth_settled_def)
  from authed_socket.inv_rtrancl [OF this assms(3)] show ?thesis
    using c now by (auto simp: auth_settled_def)
qed

theorem received_message_keeps_its_socket_witness:
  "receive_begin (demo_open ''tok'') = (Some 0, False) \<and> fst (receive_end (Some 0) True (demo_open ''tok''))
   \<and> 0 \<in> set (t_authed (demo_open ''tok''))"
proof -
  have b: "receive_begin (demo_open ''tok'') = (Some 0, False)" and e: "fst (receive_end (Some 0) True (demo_open ''tok''))"
    by code_simp+
  from received_message_keeps_its_socket [OF demo_open_reach b rtranclp.rtrancl_refl e] b e show ?thesis by simp
qed

text \<open>
  C34. Readiness is what it says. In every reachable state \<open>Connected\<close> holds exactly when the current
  socket was authenticated at its handshake, \<open>EnrollmentPending\<close> exactly when it was not, the
  reported state is ``connected'' only in the first case, and no ping channel, socket or
  connection context is ever closed twice (closing a Go channel twice panics).
\<close>

theorem transport_state_sound:
  assumes "reach (\<lambda>t. \<exists>ident dev fs. t = newWSTransportWithRuntimeIdentity ident dev fs) (tr_step tc) t"
  shows "(Connected t \<longleftrightarrow> (\<exists>c. t_conn t = Some c \<and> c \<in> set (t_authed t)))
    \<and> (EnrollmentIsPending t \<longleftrightarrow> (\<exists>c. t_conn t = Some c \<and> c \<notin> set (t_authed t)))
    \<and> (fst (ConnectionState t) = ''connected'' \<longrightarrow> Connected t)
    \<and> distinct (t_closedPings t) \<and> distinct (t_closedConns t) \<and> distinct (t_cancelled t)
    \<and> (\<forall>c. t_ping t = Some c \<longrightarrow> c \<notin> set (t_closedPings t))"
proof -
  have i: "tr_inv t"
    using assms by (rule transport.reach_inv)
  have s: "fst (ConnectionState t) = ''connected'' \<longrightarrow> Connected t"
    by (simp add: ConnectionState_def Connected_def auth_failed_def)
  from i s show ?thesis
    by (cases "t_conn t") (auto simp: tr_inv_def Connected_def EnrollmentIsPending_def)
qed

theorem transport_state_sound_witness:
  "Connected (demo_open ''tok'') \<and> EnrollmentIsPending (demo_open []) \<and> distinct (t_closedPings (demo_open []))"
proof -
  have c: "t_conn (demo_open ''tok'') = Some 0" "t_authed (demo_open ''tok'') = [0]"
    "t_conn (demo_open []) = Some 0" "t_authed (demo_open []) = []"
    by code_simp+
  show ?thesis
    using transport_state_sound [OF demo_open_reach [of "''tok''"]] transport_state_sound [OF demo_open_reach [of "[]"]] c by simp
qed

end
