(* ===== verification/TelemetryDelivery.thy ===== *)
theory TelemetryDelivery
  imports RingBuffer Transport
begin

text \<open>
  Telemetry delivery, \<open>internal/agentcore/telemetry_delivery.go\<close>, and the part of
  \<open>Runtime.publishOnce\<close> (\<open>runtime.go\<close>) that feeds it: a collected sample is pushed on the replay
  buffer, and a replay flushes the buffer through one session sender. The two components run
  together here: the callback of \<open>Flush\<close> works on the transport, on which other goroutines act
  before each of its critical sections, a reconnect included.

  The message encoding belongs to the protocol module, which is a parameter: the telemetry
  message type and the encoder of \<open>protocol.TelemetryData\<close>, which fails on values that JSON
  cannot carry.
\<close>

section \<open>Samples and messages\<close>

text \<open>A \<open>float64\<close> is kept as its bits: the code only moves it.\<close>

type_synonym float64 = "64 word"

record telemetry_sample =
  s_AssetID :: string
  s_CPUPercent :: float64
  s_MemoryPercent :: float64
  s_DiskPercent :: float64
  s_NetRXBytes :: float64
  s_NetTXBytes :: float64
  s_NetRXBytesPerSec :: float64
  s_NetTXBytesPerSec :: float64
  s_TempCelsius :: "float64 option"
  s_CollectedAt :: int
  s_heartbeatMetadata :: "(string \<times> string) list"
  s_pending :: bool

text \<open>The fields of \<open>protocol.TelemetryData\<close> the code fills in.\<close>

record telemetry_data =
  td_AssetID :: string
  td_CPUPercent :: float64
  td_MemoryPercent :: float64
  td_DiskPercent :: float64
  td_NetRXBytesPerSec :: float64
  td_NetTXBytesPerSec :: float64
  td_TempCelsius :: "float64 option"

record protocol_lib =
  pl_MsgTelemetry :: string
  pl_Marshal :: "telemetry_data \<Rightarrow> (string, string) result"

definition telemetry_of :: "string \<Rightarrow> telemetry_sample \<Rightarrow> telemetry_data" where
  "telemetry_of assetID sample =
     \<lparr>td_AssetID = assetID, td_CPUPercent = s_CPUPercent sample, td_MemoryPercent = s_MemoryPercent sample,
      td_DiskPercent = s_DiskPercent sample, td_NetRXBytesPerSec = s_NetRXBytesPerSec sample,
      td_NetTXBytesPerSec = s_NetTXBytesPerSec sample, td_TempCelsius = s_TempCelsius sample\<rparr>"

section \<open>Other goroutines on the transport\<close>

datatype tr_act =
    ActOp tr_op
  | ActConnect "nat \<Rightarrow> tr_op list" int bool bool dial_outcome

fun act_apply :: "transport_cfg \<Rightarrow> tr_act \<Rightarrow> transport \<Rightarrow> transport" where
  "act_apply tc (ActOp p) t = tr_apply tc p t"
| "act_apply tc (ActConnect env now ctxErr writeOk dial) t =
     snd (connectWithResponse tc env now ctxErr writeOk dial t)"

fun act_run :: "transport_cfg \<Rightarrow> tr_act list \<Rightarrow> transport \<Rightarrow> transport" where
  "act_run tc [] t = t"
| "act_run tc (a # as) t = act_run tc as (act_apply tc a t)"

section \<open>The replay\<close>

datatype telemetry_error = TelemetrySend send_error | TelemetryInvalid string

text \<open>
  What one replay meets: whether another goroutine holds the flush lock, the buffer operations
  during and between its turns, the transport operations before the critical sections of turn
  \<open>i\<close> (0: before the socket is read, 1: before the sender is bound to it, 2: before the write), and
  the outcome of each write.
\<close>

record replay_world =
  rw_busy :: bool
  rw_env :: "nat \<Rightarrow> telemetry_sample rb_op list"
  rw_gap :: "nat \<Rightarrow> telemetry_sample rb_op list"
  rw_acts :: "nat \<Rightarrow> nat \<Rightarrow> tr_act list"
  rw_write :: "nat \<Rightarrow> bool"

text \<open>
  The closure variable \<open>sender\<close>, the transport, and a log of the writes this replay attempted:
  socket, payload and outcome.
\<close>

record replay_state =
  rp_sender :: "session_sender option"
  rp_transport :: transport
  rp_log :: "(nat \<times> string \<times> bool) list"

definition sendTelemetrySample :: "transport_cfg \<Rightarrow> protocol_lib \<Rightarrow> replay_world \<Rightarrow> nat \<Rightarrow> session_sender
    \<Rightarrow> telemetry_sample \<Rightarrow> replay_state \<Rightarrow> telemetry_error send_result \<times> replay_state" where
  "sendTelemetrySample tc pl w i sender sample st =
     (let assetID = (if ss_assetID sender = [] then s_AssetID sample else ss_assetID sender)
      in case pl_Marshal pl (telemetry_of assetID sample) of
           Inl e \<Rightarrow> (SendDiscard (TelemetryInvalid e), st)
         | Inr data \<Rightarrow>
             (case session_Send sender (rw_write w i) (pl_MsgTelemetry pl) (act_run tc (rw_acts w i 2) (rp_transport st)) of
                (None, t) \<Rightarrow> (SendOk, st\<lparr>rp_transport := t, rp_log := rp_log st @ [(ss_conn sender, data, True)]\<rparr>)
              | (Some WriteError, t) \<Rightarrow>
                  (SendFail (TelemetrySend WriteError),
                   st\<lparr>rp_transport := t, rp_log := rp_log st @ [(ss_conn sender, data, False)]\<rparr>)
              | (Some e, t) \<Rightarrow> (SendFail (TelemetrySend e), st\<lparr>rp_transport := t\<rparr>)))"

definition replay_send :: "transport_cfg \<Rightarrow> protocol_lib \<Rightarrow> replay_world \<Rightarrow> nat \<Rightarrow> telemetry_sample \<Rightarrow> replay_state
    \<Rightarrow> telemetry_error send_result \<times> replay_state" where
  "replay_send tc pl w i sample st =
     (case rp_sender st of
        Some sender \<Rightarrow> sendTelemetrySample tc pl w i sender sample st
      | None \<Rightarrow>
          let t0 = act_run tc (rw_acts w i 0) (rp_transport st);
              conn = t_conn t0;
              t1 = act_run tc (rw_acts w i 1) t0
          in case senderForConnection conn t1 of
               None \<Rightarrow> (SendFail (TelemetrySend NotConnected), st\<lparr>rp_transport := t1\<rparr>)
             | Some sender \<Rightarrow>
                 sendTelemetrySample tc pl w i sender sample (st\<lparr>rp_sender := Some sender, rp_transport := t1\<rparr>))"

text \<open>\<open>flushTelemetrySamples\<close> wraps the callback to count invalid samples, and logs them once.\<close>

record 's invalid_count =
  ic_invalid :: nat
  ic_first :: "telemetry_error option"
  ic_inner :: 's

definition count_invalid :: "(nat \<Rightarrow> 'a \<Rightarrow> 's \<Rightarrow> telemetry_error send_result \<times> 's) \<Rightarrow> nat \<Rightarrow> 'a \<Rightarrow> 's invalid_count
    \<Rightarrow> telemetry_error send_result \<times> 's invalid_count" where
  "count_invalid send i sample st =
     (case send i sample (ic_inner st) of
        (SendDiscard e, s) \<Rightarrow>
          (SendDiscard e, st\<lparr>ic_invalid := Suc (ic_invalid st),
             ic_first := (if ic_first st = None then Some e else ic_first st), ic_inner := s\<rparr>)
      | (r, s) \<Rightarrow> (r, st\<lparr>ic_inner := s\<rparr>))"

text \<open>The result: the returned error, the log line if any, the inner variables and the buffer.\<close>

definition flushTelemetrySamples :: "'a \<Rightarrow> bool \<Rightarrow> (nat \<Rightarrow> 'a rb_op list) \<Rightarrow> (nat \<Rightarrow> 'a rb_op list)
    \<Rightarrow> (nat \<Rightarrow> 'a \<Rightarrow> 's \<Rightarrow> telemetry_error send_result \<times> 's) \<Rightarrow> 's \<Rightarrow> 'a ring
    \<Rightarrow> telemetry_error option \<times> (nat \<times> telemetry_error option) option \<times> 's \<times> 'a ring" where
  "flushTelemetrySamples zero busy env gap send st rb =
     (let (xs, err, c, rb') = Flush zero busy (count_invalid send) env gap \<lparr>ic_invalid = 0, ic_first = None, ic_inner = st\<rparr> rb
      in (err, if 0 < ic_invalid c then Some (ic_invalid c, ic_first c) else None, ic_inner c, rb'))"

definition zero_sample :: telemetry_sample where
  "zero_sample = \<lparr>s_AssetID = [], s_CPUPercent = 0, s_MemoryPercent = 0, s_DiskPercent = 0, s_NetRXBytes = 0,
     s_NetTXBytes = 0, s_NetRXBytesPerSec = 0, s_NetTXBytesPerSec = 0, s_TempCelsius = None, s_CollectedAt = 0,
     s_heartbeatMetadata = [], s_pending = False\<rparr>"

text \<open>The state telemetry touches, with the log of every write attempted so far.\<close>

record delivery =
  dv_transport :: "transport option"
  dv_buffer :: "telemetry_sample ring option"
  dv_log :: "(nat \<times> string \<times> bool) list"

definition replayBufferedTelemetry :: "transport_cfg \<Rightarrow> protocol_lib \<Rightarrow> replay_world \<Rightarrow> delivery
    \<Rightarrow> telemetry_error option \<times> (nat \<times> telemetry_error option) option \<times> delivery" where
  "replayBufferedTelemetry tc pl w d =
     (case (dv_transport d, dv_buffer d) of
        (Some t, Some rb) \<Rightarrow>
          (let (err, line, st, rb') = flushTelemetrySamples zero_sample (rw_busy w) (rw_env w) (rw_gap w) (replay_send tc pl w)
                 \<lparr>rp_sender = None, rp_transport = t, rp_log = []\<rparr> rb
           in (err, line, d\<lparr>dv_transport := Some (rp_transport st), dv_buffer := Some rb', dv_log := dv_log d @ rp_log st\<rparr>))
      | _ \<Rightarrow> (None, None, d))"

section \<open>Publishing\<close>

text \<open>
  \<open>Runtime.current\<close> fills in the asset ID; \<open>publishOnce\<close> then queues the sample before it replays,
  so that a live sample cannot overtake the retained ones.
\<close>

definition current :: "string \<Rightarrow> telemetry_sample \<Rightarrow> telemetry_sample" where
  "current assetID sample = (if assetID \<noteq> [] then sample\<lparr>s_AssetID := assetID\<rparr> else sample)"

definition publish_telemetry :: "transport_cfg \<Rightarrow> protocol_lib \<Rightarrow> replay_world \<Rightarrow> string \<Rightarrow> telemetry_sample \<Rightarrow> delivery \<Rightarrow> delivery" where
  "publish_telemetry tc pl w assetID collected d =
     (let sample = current assetID collected
      in case (dv_transport d, dv_buffer d) of
           (Some t, Some rb) \<Rightarrow>
             if s_pending sample then d
             else snd (snd (replayBufferedTelemetry tc pl w (d\<lparr>dv_buffer := Some (Push sample rb)\<rparr>)))
         | _ \<Rightarrow> d)"

text \<open>A history: collection ticks, replays after a reconnect, and transport operations in between.\<close>

datatype telemetry_op =
    Tick string telemetry_sample replay_world
  | Replay replay_world
  | Meanwhile tr_act

fun telemetry_apply :: "transport_cfg \<Rightarrow> protocol_lib \<Rightarrow> telemetry_op \<Rightarrow> delivery \<Rightarrow> delivery" where
  "telemetry_apply tc pl (Tick assetID x w) d = publish_telemetry tc pl w assetID x d"
| "telemetry_apply tc pl (Replay w) d = snd (snd (replayBufferedTelemetry tc pl w d))"
| "telemetry_apply tc pl (Meanwhile a) d = d\<lparr>dv_transport := map_option (act_apply tc a) (dv_transport d)\<rparr>"

fun telemetry_run :: "transport_cfg \<Rightarrow> protocol_lib \<Rightarrow> telemetry_op list \<Rightarrow> delivery \<Rightarrow> delivery" where
  "telemetry_run tc pl [] d = d"
| "telemetry_run tc pl (p # ps) d = telemetry_run tc pl ps (telemetry_apply tc pl p d)"

section \<open>One socket per replay\<close>

lemma act_apply_step: "\<exists>l. tr_step tc t l (act_apply tc a t)"
  by (cases a) (auto intro: tr_step.intros)

lemma act_run_steps: "(\<lambda>a b. \<exists>l. tr_step tc a l b)\<^sup>*\<^sup>* t (act_run tc as t)"
proof (induction as arbitrary: t)
  case (Cons a as)
  from act_apply_step Cons.IH [of "act_apply tc a t"] show ?case
    unfolding act_run.simps by (rule converse_rtranclp_into_rtranclp [where r = "\<lambda>a b. \<exists>l. tr_step tc a l b"])
qed simp

lemma session_Send_step: "\<exists>l. tr_step tc t l (snd (session_Send s ok m t))"
  using step_op [of tc t "OpSend (Some (ss_conn s)) ok m"] by (auto simp: session_Send_def)

lemma tr_inv_step: "tr_inv t \<Longrightarrow> tr_step tc t l t' \<Longrightarrow> tr_inv t'"
  by (rule transport.inv_step)

lemma tr_inv_acts [inv_rules]: "tr_inv t \<Longrightarrow> tr_inv (act_run tc as t)"
  by (rule transport.inv_rtrancl [OF _ act_run_steps])

lemma authed_acts: "tr_inv t \<Longrightarrow> c \<in> set (t_authed t) \<Longrightarrow> c \<in> set (t_authed (act_run tc as t))"
  using authed_socket.inv_rtrancl [OF _ act_run_steps, of c True t tc as]
  by (auto simp: auth_settled_def tr_inv_def)

lemma session_Send_authed [simp]: "t_authed (snd (session_Send s ok m t)) = t_authed t"
  using apply_authed [of undefined "OpSend (Some (ss_conn s)) ok m" t] by (simp add: session_Send_def)

lemma session_Send_inv [inv_rules]: "tr_inv t \<Longrightarrow> tr_inv (snd (session_Send s ok m t))"
  by (simp add: session_Send_def tr_inv_send)

lemma session_Send_wrote:
  "session_Send s ok m t = (r, t') \<Longrightarrow> r \<in> {None, Some WriteError} \<Longrightarrow> m \<noteq> MsgEnrollmentProof \<Longrightarrow> tr_inv t \<Longrightarrow>
     ss_conn s \<in> set (t_authed t')"
  by (auto simp: session_Send_def sendOnConnection_def tr_inv_def Let_def split: option.splits if_splits)

text \<open>
  The invariant of a replay: what it wrote went to the socket of its sender, and that socket
  was opened with a credential.
\<close>

definition on_one_socket :: "replay_state \<Rightarrow> bool" where
  "on_one_socket st \<longleftrightarrow> tr_inv (rp_transport st)
     \<and> (\<forall>e \<in> set (rp_log st). rp_sender st \<noteq> None \<and> fst e = ss_conn (the (rp_sender st))
          \<and> fst e \<in> set (t_authed (rp_transport st)))"

lemma on_one_socket_acts:
  "on_one_socket st \<Longrightarrow> on_one_socket (st\<lparr>rp_transport := act_run tc as (rp_transport st)\<rparr>)"
  by (auto simp: on_one_socket_def inv_rules authed_acts)

lemma on_one_socket_send:
  assumes "on_one_socket st" and "rp_sender st = Some sender" and "pl_MsgTelemetry pl \<noteq> MsgEnrollmentProof"
  shows "on_one_socket (snd (sendTelemetrySample tc pl w i sender sample st))"
proof -
  let ?t = "act_run tc (rw_acts w i 2) (rp_transport st)"
  obtain r t' where send: "session_Send sender (rw_write w i) (pl_MsgTelemetry pl) ?t = (r, t')"
    by (cases "session_Send sender (rw_write w i) (pl_MsgTelemetry pl) ?t")
  have inv: "tr_inv ?t"
    using assms(1) by (auto simp: on_one_socket_def inv_rules)
  have t': "tr_inv t'" "t_authed t' = t_authed ?t"
    using session_Send_inv [OF inv] session_Send_authed send by (metis snd_conv)+
  have log: "fst e = ss_conn sender \<and> fst e \<in> set (t_authed t')" if "e \<in> set (rp_log st)" for e
    using assms(1,2) that t'(2) by (auto simp: on_one_socket_def authed_acts)
  note wrote = session_Send_wrote [OF send _ assms(3) inv]
  have "on_one_socket (st\<lparr>rp_transport := t', rp_log := rp_log st @ [(ss_conn sender, b, ok)]\<rparr>)"
    if "r \<in> {None, Some WriteError}" for b ok
    using that t'(1) log wrote assms(2) by (auto simp: on_one_socket_def)
  moreover have "on_one_socket (st\<lparr>rp_transport := t'\<rparr>)"
    using t'(1) log assms(2) by (auto simp: on_one_socket_def)
  ultimately show ?thesis
    using assms(1) send
    by (auto simp: sendTelemetrySample_def Let_def split: sum.split option.split send_error.split)
qed

lemma on_one_socket_replay_send:
  assumes "on_one_socket st" and "pl_MsgTelemetry pl \<noteq> MsgEnrollmentProof"
  shows "on_one_socket (snd (replay_send tc pl w i sample st))"
proof (cases "rp_sender st")
  case (Some sender)
  with assms show ?thesis
    by (simp add: replay_send_def on_one_socket_send)
next
  case None
  let ?st = "st\<lparr>rp_transport := act_run tc (rw_acts w i 1) (act_run tc (rw_acts w i 0) (rp_transport st))\<rparr>"
  have st: "on_one_socket ?st"
    using on_one_socket_acts [OF on_one_socket_acts [OF assms(1)]] by simp
  then have "on_one_socket (st\<lparr>rp_sender := Some sender, rp_transport := rp_transport ?st\<rparr>)" for sender
    using None by (auto simp: on_one_socket_def)
  from on_one_socket_send [OF this _ assms(2)] None st show ?thesis
    by (auto simp: replay_send_def Let_def split: option.split)
qed

lemma count_invalid_inner: "ic_inner (snd (count_invalid send i x st)) = snd (send i x (ic_inner st))"
  by (simp add: count_invalid_def case_prod_beta split: send_result.split)

lemma count_invalid_result: "fst (count_invalid send i x st) = fst (send i x (ic_inner st))"
  by (simp add: count_invalid_def case_prod_beta split: send_result.split)

lemma flushTelemetrySamples_inv:
  assumes "\<And>i x st. P st \<Longrightarrow> P (snd (send i x st))" and "P st"
    and "flushTelemetrySamples zero busy env gap send st rb = (err, line, st', rb')"
  shows "P st'"
proof -
  have "P (ic_inner (fst (snd (snd (flush_loop zero (count_invalid send) env gap 0 (rb_cap rb)
      \<lparr>ic_invalid = 0, ic_first = None, ic_inner = st\<rparr> rb)))))"
    by (rule flush_loop_inv) (auto simp: count_invalid_inner assms(1,2))
  with assms(2,3) show ?thesis
    by (auto simp: flushTelemetrySamples_def Flush_def case_prod_beta Let_def split: if_splits)
qed

section \<open>Nothing is lost while there is room\<close>

text \<open>
  A sample is settled when a write of it succeeded, under whatever asset ID it was sent, or
  when the encoder refused it.
\<close>

definition sent :: "protocol_lib \<Rightarrow> telemetry_sample \<Rightarrow> (nat \<times> string \<times> bool) list \<Rightarrow> bool" where
  "sent pl x log \<longleftrightarrow> (\<exists>c a b. (c, b, True) \<in> set log \<and> pl_Marshal pl (telemetry_of a x) = Inr b)"

definition settled :: "protocol_lib \<Rightarrow> telemetry_sample \<Rightarrow> (nat \<times> string \<times> bool) list \<Rightarrow> bool" where
  "settled pl x log \<longleftrightarrow> sent pl x log \<or> (\<exists>a e. pl_Marshal pl (telemetry_of a x) = Inl e)"

lemma settled_mono: "settled pl x log \<Longrightarrow> set log \<subseteq> set log' \<Longrightarrow> settled pl x log'"
  unfolding settled_def sent_def by blast

lemma sendTelemetrySample_log: "set (rp_log st) \<subseteq> set (rp_log (snd (sendTelemetrySample tc pl w i s x st)))"
  by (auto simp: sendTelemetrySample_def Let_def split: sum.split option.split prod.split send_error.split)

lemma sendTelemetrySample_settles:
  "(\<exists>e. fst (sendTelemetrySample tc pl w i s x st) = SendFail e)
    \<or> settled pl x (rp_log (snd (sendTelemetrySample tc pl w i s x st)))"
proof -
  let ?a = "if ss_assetID s = [] then s_AssetID x else ss_assetID s"
  show ?thesis
  proof (cases "pl_Marshal pl (telemetry_of ?a x)")
    case (Inl e)
    then show ?thesis
      unfolding settled_def by blast
  next
    case (Inr b)
    then have "sent pl x (log @ [(c, b, True)])" for c log
      unfolding sent_def by (intro exI [of _ c] exI [of _ ?a] exI [of _ b]) simp
    with Inr show ?thesis
      by (auto simp: sendTelemetrySample_def Let_def settled_def split: option.split prod.split send_error.split)
  qed
qed

lemma replay_send_log: "set (rp_log st) \<subseteq> set (rp_log (snd (replay_send tc pl w i x st)))"
  using sendTelemetrySample_log [of "st\<lparr>rp_sender := s, rp_transport := t\<rparr>" for s t]
    sendTelemetrySample_log [of st]
  by (auto simp: replay_send_def Let_def split: option.split)

lemma replay_send_settles:
  "(\<exists>e. fst (replay_send tc pl w i x st) = SendFail e) \<or> settled pl x (rp_log (snd (replay_send tc pl w i x st)))"
  using sendTelemetrySample_settles by (auto simp: replay_send_def Let_def split: option.split)

lemma flush_loop_cap [simp]: "rb_cap (snd (snd (snd (flush_loop zero send env gap i n st rb)))) = rb_cap rb"
  by (induction n arbitrary: i st rb)
    (auto simp: Let_def case_prod_beta split: option.splits send_result.splits)

definition quiet :: "replay_world \<Rightarrow> bool" where
  "quiet w \<longleftrightarrow> (\<forall>j. pushes_only (rw_env w j) \<and> pushes_only (rw_gap w j))"

definition world_pushes :: "nat \<Rightarrow> replay_world \<Rightarrow> nat" where
  "world_pushes cap w = length (turns_pushes (rw_env w) (rw_gap w) 0 cap)"

lemma replay_settles:
  assumes d: "dv_transport d = Some t" "dv_buffer d = Some rb" and wf: "rb_wf rb" and "quiet w"
    and room: "rb_size rb + world_pushes (rb_cap rb) w \<le> rb_cap rb"
    and run: "replayBufferedTelemetry tc pl w d = (err, line, d')"
  shows "\<exists>t' rb' ps ds. dv_transport d' = Some t' \<and> dv_buffer d' = Some rb' \<and> rb_wf rb' \<and> rb_cap rb' = rb_cap rb
    \<and> set (dv_log d) \<subseteq> set (dv_log d') \<and> length ps \<le> world_pushes (rb_cap rb) w
    \<and> rb_list rb @ ps = ds @ rb_list rb' \<and> (\<forall>x \<in> set ds. settled pl x (dv_log d'))"
proof (cases "rw_busy w")
  case True
  then have "d' = d"
    using run d by (cases d) (auto simp: replayBufferedTelemetry_def flushTelemetrySamples_def Flush_def)
  with d wf show ?thesis
    by (intro exI [of _ t] exI [of _ rb] exI [of _ "[]"]) simp
next
  case False
  let ?st = "\<lparr>ic_invalid = 0, ic_first = None, ic_inner = \<lparr>rp_sender = None, rp_transport = t, rp_log = []\<rparr>\<rparr>"
  let ?send = "count_invalid (replay_send tc pl w)"
  let ?G = "\<lambda>x c. settled pl x (rp_log (ic_inner c))"
  obtain xs r c rb' where loop:
    "flush_loop zero_sample ?send (rw_env w) (rw_gap w) 0 (rb_cap rb) ?st rb = (xs, r, c, rb')"
    by (cases "flush_loop zero_sample ?send (rw_env w) (rw_gap w) 0 (rb_cap rb) ?st rb")
  then have d': "dv_transport d' = Some (rp_transport (ic_inner c))" "dv_buffer d' = Some rb'"
      "dv_log d' = dv_log d @ rp_log (ic_inner c)"
    using run d False by (auto simp: replayBufferedTelemetry_def flushTelemetrySamples_def Flush_def)
  have "\<exists>ps ds. prefix ps (turns_pushes (rw_env w) (rw_gap w) 0 (rb_cap rb)) \<and> rb_list rb @ ps = ds @ rb_list rb'
      \<and> (\<forall>x \<in> set ds. ?G x c)"
  proof (rule flush_loop_settles [where G = ?G, OF _ _ _ wf _ loop])
    show "?G x (snd (?send i x st)) \<or> (\<exists>e. fst (?send i x st) = SendFail e)" for i x st
      using replay_send_settles [of tc pl w i x "ic_inner st"] by (auto simp: count_invalid_inner count_invalid_result)
    show "?G y (snd (?send i x st))" if "?G y st" for i x y st
      using settled_mono [OF that replay_send_log] by (simp add: count_invalid_inner)
  qed (use \<open>quiet w\<close> room in \<open>auto simp: quiet_def world_pushes_def\<close>)
  then obtain ps ds where *: "length ps \<le> world_pushes (rb_cap rb) w" "rb_list rb @ ps = ds @ rb_list rb'" "\<forall>x \<in> set ds. ?G x c"
    by (auto simp: world_pushes_def dest: prefix_length_le)
  have "rb_wf rb'" "rb_cap rb' = rb_cap rb"
    using flush_loop_wf [OF wf] flush_loop_cap loop by (metis snd_conv)+
  moreover have "\<forall>x \<in> set ds. settled pl x (dv_log d')"
    using *(3) by (auto simp: d'(3) intro: settled_mono)
  ultimately show ?thesis
    using d' *(1,2) by auto
qed

text \<open>A history leaves every sample it met settled or queued.\<close>

definition same_reading :: "telemetry_sample \<Rightarrow> telemetry_sample \<Rightarrow> bool" where
  "same_reading x y \<longleftrightarrow> telemetry_of [] x = telemetry_of [] y"

lemma same_reading_eq: "same_reading x y \<longleftrightarrow> (\<forall>a. telemetry_of a x = telemetry_of a y)"
  by (auto simp: same_reading_def telemetry_of_def)

lemma same_reading_current [simp]: "same_reading x (current a x)"
  by (simp add: same_reading_def telemetry_of_def current_def)

lemma same_reading_refl [simp]: "same_reading x x"
  by (simp add: same_reading_def)

lemma same_reading_settled: "same_reading x y \<Longrightarrow> settled pl y log \<Longrightarrow> settled pl x log"
  by (simp add: same_reading_eq settled_def sent_def)

definition tracked :: "protocol_lib \<Rightarrow> telemetry_sample \<Rightarrow> delivery \<Rightarrow> bool" where
  "tracked pl x d \<longleftrightarrow> settled pl x (dv_log d) \<or> (\<exists>rb. dv_buffer d = Some rb \<and> (\<exists>y \<in> set (rb_list rb). same_reading x y))"

definition running :: "nat \<Rightarrow> nat \<Rightarrow> delivery \<Rightarrow> bool" where
  "running cap n d \<longleftrightarrow> dv_transport d \<noteq> None
     \<and> (\<exists>rb. dv_buffer d = Some rb \<and> rb_wf rb \<and> rb_cap rb = cap \<and> rb_size rb + n \<le> cap)"

lemma replay_tracked:
  assumes "running cap (world_pushes cap w + n) d" and "quiet w"
  shows "running cap n (snd (snd (replayBufferedTelemetry tc pl w d)))"
    and "tracked pl x d \<Longrightarrow> tracked pl x (snd (snd (replayBufferedTelemetry tc pl w d)))"
proof -
  obtain t rb where d: "dv_transport d = Some t" "dv_buffer d = Some rb" "rb_wf rb" "rb_cap rb = cap"
    and room: "rb_size rb + (world_pushes cap w + n) \<le> cap"
    using assms(1) by (auto simp: running_def)
  obtain err line d' where run: "replayBufferedTelemetry tc pl w d = (err, line, d')"
    by (cases "replayBufferedTelemetry tc pl w d")
  from replay_settles [OF d(1-3) assms(2) _ run] room d(4) obtain t' rb' ps ds where
    d': "dv_transport d' = Some t'" "dv_buffer d' = Some rb'" "rb_wf rb'" "rb_cap rb' = cap"
      "set (dv_log d) \<subseteq> set (dv_log d')" "length ps \<le> world_pushes cap w"
      "rb_list rb @ ps = ds @ rb_list rb'" "\<forall>x \<in> set ds. settled pl x (dv_log d')"
    by auto
  have "rb_size rb' \<le> rb_size rb + length ps"
    using arg_cong [OF d'(7), of length] by simp
  with d' room show "running cap n (snd (snd (replayBufferedTelemetry tc pl w d)))"
    by (auto simp: running_def run)
  have "y \<in> set ds \<or> y \<in> set (rb_list rb')" if "y \<in> set (rb_list rb)" for y
    using that arg_cong [OF d'(7), of set] by auto
  then show "tracked pl x (snd (snd (replayBufferedTelemetry tc pl w d)))" if "tracked pl x d"
    using that d(2) d'(2,5,8) same_reading_settled settled_mono by (fastforce simp: tracked_def run)
qed

fun op_pushes :: "nat \<Rightarrow> telemetry_op \<Rightarrow> nat" where
  "op_pushes cap (Tick a x w) = Suc (world_pushes cap w)"
| "op_pushes cap (Replay w) = world_pushes cap w"
| "op_pushes cap (Meanwhile a) = 0"

fun op_quiet :: "telemetry_op \<Rightarrow> bool" where
  "op_quiet (Tick a x w) = quiet w"
| "op_quiet (Replay w) = quiet w"
| "op_quiet (Meanwhile a) = True"

fun published :: "telemetry_op \<Rightarrow> telemetry_sample list" where
  "published (Tick a x w) = (if s_pending x then [] else [x])"
| "published _ = []"

lemma running_mono: "running cap n d \<Longrightarrow> m \<le> n \<Longrightarrow> running cap m d"
  by (auto simp: running_def)

lemma push_tracked:
  assumes "running cap (Suc n) d" and "dv_buffer d = Some rb"
  shows "running cap n (d\<lparr>dv_buffer := Some (Push (current a x) rb)\<rparr>)"
    and "tracked pl x (d\<lparr>dv_buffer := Some (Push (current a x) rb)\<rparr>)"
    and "tracked pl y d \<Longrightarrow> tracked pl y (d\<lparr>dv_buffer := Some (Push (current a x) rb)\<rparr>)"
proof -
  have rb: "rb_wf rb" "rb_cap rb = cap" "rb_size rb + Suc n \<le> cap" "dv_transport d \<noteq> None"
    using assms by (auto simp: running_def)
  have l: "rb_list (Push (current a x) rb) = rb_list rb @ [current a x]"
    using rb by (simp add: rb_list_Push)
  show "running cap n (d\<lparr>dv_buffer := Some (Push (current a x) rb)\<rparr>)"
    using rb size_of_list [OF l] by (simp add: running_def inv_rules)
  show "tracked pl x (d\<lparr>dv_buffer := Some (Push (current a x) rb)\<rparr>)"
    "tracked pl y d \<Longrightarrow> tracked pl y (d\<lparr>dv_buffer := Some (Push (current a x) rb)\<rparr>)"
    using assms(2) l by (auto simp: tracked_def)
qed

lemma tick_tracked:
  assumes "running cap (Suc (world_pushes cap w + n)) d" and "quiet w"
  shows "running cap n (publish_telemetry tc pl w a x d)"
    and "tracked pl y d \<Longrightarrow> tracked pl y (publish_telemetry tc pl w a x d)"
    and "\<not> s_pending x \<Longrightarrow> tracked pl x (publish_telemetry tc pl w a x d)"
proof -
  obtain t rb where d: "dv_transport d = Some t" "dv_buffer d = Some rb"
    using assms(1) by (auto simp: running_def)
  let ?d = "d\<lparr>dv_buffer := Some (Push (current a x) rb)\<rparr>"
  have eq: "publish_telemetry tc pl w a x d =
      (if s_pending x then d else snd (snd (replayBufferedTelemetry tc pl w ?d)))"
    using d by (simp add: publish_telemetry_def Let_def current_def)
  note push = push_tracked [OF assms(1) d(2), where a = a and x = x]
  show "running cap n (publish_telemetry tc pl w a x d)"
    using replay_tracked(1) [OF push(1) assms(2)] running_mono [OF assms(1)] by (simp add: eq)
  show "tracked pl y (publish_telemetry tc pl w a x d)" if "tracked pl y d"
    using replay_tracked(2) [OF push(1) assms(2) push(3) [OF that]] that by (simp add: eq)
  show "tracked pl x (publish_telemetry tc pl w a x d)" if "\<not> s_pending x"
    using replay_tracked(2) [OF push(1) assms(2) push(2)] that by (simp add: eq)
qed

lemma apply_tracked:
  assumes "running cap (op_pushes cap p + n) d" and "op_quiet p"
  shows "running cap n (telemetry_apply tc pl p d)"
    and "tracked pl y d \<or> y \<in> set (published p) \<Longrightarrow> tracked pl y (telemetry_apply tc pl p d)"
proof -
  show "running cap n (telemetry_apply tc pl p d)"
    using assms by (cases p) (auto simp: tick_tracked(1) replay_tracked(1), auto simp: running_def)
  show "tracked pl y (telemetry_apply tc pl p d)" if "tracked pl y d \<or> y \<in> set (published p)"
  proof (cases p)
    case (Tick a x w)
    with that assms tick_tracked(2,3) [of cap w n d] show ?thesis
      by (auto split: if_splits)
  next
    case (Replay w)
    with that assms replay_tracked(2) [of cap w n d] show ?thesis
      by auto
  next
    case (Meanwhile a)
    with that show ?thesis
      by (auto simp: tracked_def)
  qed
qed

lemma run_tracked:
  "running cap (sum_list (map (op_pushes cap) ps) + n) d \<Longrightarrow> list_all op_quiet ps \<Longrightarrow>
     running cap n (telemetry_run tc pl ps d)
     \<and> (\<forall>y. tracked pl y d \<or> y \<in> set (concat (map published ps)) \<longrightarrow> tracked pl y (telemetry_run tc pl ps d))"
proof (induction ps arbitrary: d)
  case (Cons p ps)
  have "running cap (op_pushes cap p + (sum_list (map (op_pushes cap) ps) + n)) d" and "op_quiet p"
    using Cons.prems by (auto simp: add.assoc)
  from apply_tracked [OF this] Cons.IH [of "telemetry_apply tc pl p d"] Cons.prems(2) show ?case
    by auto
qed auto

section \<open>A replay over a working connection empties the queue\<close>

text \<open>Operations of other goroutines that leave a working socket alone.\<close>

fun calm :: "tr_act \<Rightarrow> bool" where
  "calm (ActOp (OpSend e ok m)) = True"
| "calm (ActOp (OpPing c now ok)) = ok"
| "calm (ActOp (OpReceived c ok)) = ok"
| "calm _ = False"

definition ready :: "transport \<Rightarrow> bool" where
  "ready t \<longleftrightarrow> t_conn t \<noteq> None \<and> t_connected t \<and> \<not> t_pending t"

definition healthy :: "replay_world \<Rightarrow> bool" where
  "healthy w \<longleftrightarrow> \<not> rw_busy w \<and> quiet w \<and> (\<forall>i. rw_write w i) \<and> (\<forall>i k. list_all calm (rw_acts w i k))"

lemma send_keeps_conn:
  "t_conn (snd (sendOnConnection e ok m t)) = t_conn t"
  "t_connected (snd (sendOnConnection e ok m t)) = t_connected t"
  "t_pending (snd (sendOnConnection e ok m t)) = t_pending t"
  by (auto simp: sendOnConnection_def Let_def split: option.splits)

lemma calm_apply:
  "calm a \<Longrightarrow> t_conn (act_apply tc a t) = t_conn t \<and> t_connected (act_apply tc a t) = t_connected t
     \<and> t_pending (act_apply tc a t) = t_pending t"
  by (induction a rule: calm.induct) (auto simp: send_keeps_conn ping_tick_def receive_end_def)

lemma calm_run:
  "list_all calm as \<Longrightarrow> t_conn (act_run tc as t) = t_conn t \<and> t_connected (act_run tc as t) = t_connected t
     \<and> t_pending (act_run tc as t) = t_pending t"
  by (induction as arbitrary: t) (auto simp: calm_apply)

definition bound :: "replay_state \<Rightarrow> bool" where
  "bound st \<longleftrightarrow> ready (rp_transport st)
     \<and> (\<forall>s. rp_sender st = Some s \<longrightarrow> t_conn (rp_transport st) = Some (ss_conn s))"

lemma bound_send:
  assumes "bound st" and "rp_sender st = Some s" and "healthy w"
  shows "bound (snd (sendTelemetrySample tc pl w i s x st))
    \<and> fst (sendTelemetrySample tc pl w i s x st) \<noteq> SendFail e"
proof -
  let ?t = "act_run tc (rw_acts w i 2) (rp_transport st)"
  have t: "t_conn ?t = Some (ss_conn s)" "t_connected ?t" "\<not> t_pending ?t"
    using assms calm_run [of "rw_acts w i 2" tc "rp_transport st"] by (auto simp: bound_def ready_def healthy_def)
  have "session_Send s True (pl_MsgTelemetry pl) ?t = (None, snd (session_Send s True (pl_MsgTelemetry pl) ?t))"
    using t by (simp add: session_Send_def sendOnConnection_def Let_def)
  moreover have "t_conn (snd (session_Send s True (pl_MsgTelemetry pl) ?t)) = Some (ss_conn s)"
      "t_connected (snd (session_Send s True (pl_MsgTelemetry pl) ?t))"
      "\<not> t_pending (snd (session_Send s True (pl_MsgTelemetry pl) ?t))"
    using t by (auto simp: session_Send_def send_keeps_conn)
  ultimately show ?thesis
    using assms by (auto simp: sendTelemetrySample_def Let_def healthy_def bound_def ready_def split: sum.split prod.split option.split)
qed

lemma ready_sender: "ready t \<Longrightarrow> \<exists>s. senderForConnection (t_conn t) t = Some s \<and> t_conn t = Some (ss_conn s)"
  by (auto simp: senderForConnection_def ready_def)

lemma bound_replay_send:
  assumes "bound st" and "healthy w"
  shows "bound (snd (replay_send tc pl w i x st)) \<and> fst (replay_send tc pl w i x st) \<noteq> SendFail e"
proof (cases "rp_sender st")
  case (Some s)
  with assms bound_send show ?thesis by (simp add: replay_send_def)
next
  case None
  let ?t0 = "act_run tc (rw_acts w i 0) (rp_transport st)"
  let ?t1 = "act_run tc (rw_acts w i 1) ?t0"
  have t: "t_conn ?t1 = t_conn ?t0" "ready ?t1"
    using assms calm_run [of "rw_acts w i 0" tc "rp_transport st"] calm_run [of "rw_acts w i 1" tc ?t0]
    by (auto simp: bound_def ready_def healthy_def)
  then obtain s where s: "senderForConnection (t_conn ?t0) ?t1 = Some s" "t_conn ?t1 = Some (ss_conn s)"
    using ready_sender [of ?t1] by metis
  have "bound (st\<lparr>rp_sender := Some s, rp_transport := ?t1\<rparr>)"
    using t s by (simp add: bound_def)
  from bound_send [OF this _ assms(2)] None s show ?thesis
    by (simp add: replay_send_def Let_def)
qed

lemma healthy_replay_empties:
  assumes d: "dv_transport d = Some t" "dv_buffer d = Some rb" and wf: "rb_wf rb" and "healthy w" and "ready t"
    and room: "rb_size rb + world_pushes (rb_cap rb) w \<le> rb_cap rb"
    and run: "replayBufferedTelemetry tc pl w d = (err, line, d')"
  shows "err = None \<and> (\<exists>rb'. dv_buffer d' = Some rb' \<and> rb_list rb' = [])"
proof -
  let ?st = "\<lparr>ic_invalid = 0, ic_first = None, ic_inner = \<lparr>rp_sender = None, rp_transport = t, rp_log = []\<rparr>\<rparr>"
  let ?send = "count_invalid (replay_send tc pl w)"
  obtain xs r c rb' where loop:
    "flush_loop zero_sample ?send (rw_env w) (rw_gap w) 0 (rb_cap rb) ?st rb = (xs, r, c, rb')"
    by (cases "flush_loop zero_sample ?send (rw_env w) (rw_gap w) 0 (rb_cap rb) ?st rb")
  then have d': "err = r" "dv_buffer d' = Some rb'"
    using run d \<open>healthy w\<close>
    by (auto simp: replayBufferedTelemetry_def flushTelemetrySamples_def Flush_def healthy_def)
  have "r = None \<and> rb_list rb' = []"
  proof (rule flush_loop_empties [where P = "\<lambda>c. bound (ic_inner c)", OF _ _ _ wf _ _ _ loop])
    show "fst (?send i x st) \<noteq> SendFail e" if "bound (ic_inner st)" for i x st e
      using bound_replay_send [OF that \<open>healthy w\<close>] by (simp add: count_invalid_result)
    show "bound (ic_inner (snd (?send i x st)))" if "bound (ic_inner st)" for i x st
      using bound_replay_send [OF that \<open>healthy w\<close>] by (simp add: count_invalid_inner)
  qed (use assms in \<open>auto simp: quiet_def healthy_def bound_def world_pushes_def\<close>)
  with d' show ?thesis by simp
qed

section \<open>Properties\<close>

text \<open>Concrete parameters for the instances below: a reading of all ones cannot be encoded.\<close>

definition demo_protocol :: protocol_lib where
  "demo_protocol = \<lparr>pl_MsgTelemetry = ''telemetry'',
     pl_Marshal = (\<lambda>td. if td_CPUPercent td = -1 then Err ''unsupported value'' else Ok (''td '' @ td_AssetID td))\<rparr>"

definition demo_world :: "bool \<Rightarrow> replay_world" where
  "demo_world ok = \<lparr>rw_busy = False, rw_env = (\<lambda>_. []), rw_gap = (\<lambda>_. []), rw_acts = (\<lambda>_ _. []), rw_write = (\<lambda>_. ok)\<rparr>"

definition demo_delivery :: delivery where
  "demo_delivery = \<lparr>dv_transport = Some (demo_open ''tok''), dv_buffer = Some (Push zero_sample (NewRingBuffer zero_sample 3)), dv_log = []\<rparr>"

text \<open>
  C12. A replay belongs to one connection. Whatever happens to the transport while it runs,
  disconnects, new credentials and reconnects between any two of its critical sections
  included, everything one call of \<open>replayBufferedTelemetry\<close> writes goes to a single socket, and
  that socket was opened with a credential: telemetry never reaches a pending enrollment socket
  and is never carried over to a newer connection.
\<close>

theorem replay_stays_on_one_socket:
  assumes "reach (\<lambda>t. \<exists>ident dev fs. t = newWSTransportWithRuntimeIdentity ident dev fs) (tr_step tc) t"
    and "dv_transport d = Some t" and "pl_MsgTelemetry pl \<noteq> MsgEnrollmentProof"
    and "replayBufferedTelemetry tc pl w d = (err, line, d')"
  shows "\<exists>c t' log. dv_transport d' = Some t' \<and> dv_log d' = dv_log d @ log
    \<and> list_all (\<lambda>(c', payload, ok). c' = c \<and> c \<in> set (t_authed t')) log"
proof (cases "dv_buffer d")
  case None
  with assms(2,4) show ?thesis
    by (auto simp: replayBufferedTelemetry_def)
next
  case (Some rb)
  obtain st rb' where flush: "flushTelemetrySamples zero_sample (rw_busy w) (rw_env w) (rw_gap w) (replay_send tc pl w)
      \<lparr>rp_sender = None, rp_transport = t, rp_log = []\<rparr> rb = (err, line, st, rb')"
    and d': "d' = d\<lparr>dv_transport := Some (rp_transport st), dv_buffer := Some rb', dv_log := dv_log d @ rp_log st\<rparr>"
    using assms(2,4) Some by (auto simp: replayBufferedTelemetry_def split: prod.splits)
  have "on_one_socket \<lparr>rp_sender = None, rp_transport = t, rp_log = []\<rparr>"
    using transport.reach_inv [OF assms(1)] by (simp add: on_one_socket_def)
  then have "on_one_socket st"
    using flushTelemetrySamples_inv [where P = on_one_socket, OF _ _ flush] on_one_socket_replay_send [OF _ assms(3)] by blast
  then have "list_all (\<lambda>(c', payload, ok). c' = ss_conn (the (rp_sender st)) \<and> ss_conn (the (rp_sender st)) \<in> set (t_authed (rp_transport st))) (rp_log st)"
    by (auto simp: on_one_socket_def list_all_iff)
  then show ?thesis
    unfolding d' by auto
qed

theorem replay_stays_on_one_socket_witness:
  "\<exists>c t' log. dv_transport (snd (snd (replayBufferedTelemetry demo_cfg demo_protocol (demo_world True) demo_delivery))) = Some t'
     \<and> log = [(0, ''td a1'', True)] \<and> list_all (\<lambda>(c', payload, ok). c' = c \<and> c \<in> set (t_authed t')) log"
proof -
  obtain err line d' where run: "replayBufferedTelemetry demo_cfg demo_protocol (demo_world True) demo_delivery = (err, line, d')"
    by (cases "replayBufferedTelemetry demo_cfg demo_protocol (demo_world True) demo_delivery")
  have "dv_log (snd (snd (replayBufferedTelemetry demo_cfg demo_protocol (demo_world True) demo_delivery))) = [(0, ''td a1'', True)]"
    by code_simp
  then have log: "dv_log d' = [(0, ''td a1'', True)]"
    by (simp add: run)
  have "dv_transport demo_delivery = Some (demo_open ''tok'')" "pl_MsgTelemetry demo_protocol \<noteq> MsgEnrollmentProof"
    "dv_log demo_delivery = []"
    by (simp_all add: demo_delivery_def demo_protocol_def MsgEnrollmentProof_def)
  with replay_stays_on_one_socket [OF demo_open_reach _ _ run] log run show ?thesis
    by auto
qed

text \<open>
  C13. Telemetry reaches the Hub when the buffer is large enough. Take any history of collection ticks,
  replays after a reconnect and transport operations, in which replays fail at any point and in any
  way and other goroutines may push samples but none drains the buffer. If the samples queued at the
  start and all those pushed since, during the last replay too, fit in the buffer's capacity, then
  every reading that was queued or collected is still in the buffer or settled (written to a socket, or
  refused by the encoder); and one more replay over a working connection (in which other goroutines may
  still queue samples, send, ping and receive) returns no error, leaves the queue empty, and has every
  such reading that the encoder accepts written to a socket. Beyond that capacity the ring drops the
  oldest samples, and this says nothing of them.
\<close>

theorem telemetry_reaches_hub:
  assumes "dv_transport d \<noteq> None" and "dv_buffer d = Some rb" and "rb_wf rb"
    and "list_all op_quiet ps" and "healthy w"
    and "rb_size rb + sum_list (map (op_pushes (rb_cap rb)) ps) + world_pushes (rb_cap rb) w \<le> rb_cap rb"
    and "dv_transport (telemetry_run tc pl ps d) = Some t" and "ready t"
    and "replayBufferedTelemetry tc pl w (telemetry_run tc pl ps d) = (err, line, d')"
  shows "err = None \<and> (\<exists>rb'. dv_buffer d' = Some rb' \<and> rb_list rb' = [])
    \<and> (\<forall>x. x \<in> set (rb_list rb) \<or> x \<in> set (concat (map published ps)) \<longrightarrow>
          tracked pl x (telemetry_run tc pl ps d) \<and>
          ((\<forall>a. is_ok (pl_Marshal pl (telemetry_of a x))) \<longrightarrow> sent pl x (dv_log d')))"
proof -
  let ?cap = "rb_cap rb" and ?d1 = "telemetry_run tc pl ps d"
  have "running ?cap (sum_list (map (op_pushes ?cap) ps) + world_pushes ?cap w) d"
    using assms by (simp add: running_def)
  note run = run_tracked [OF this assms(4), of tc pl]
  then obtain rb1 where rb1: "dv_buffer ?d1 = Some rb1" "rb_wf rb1" "rb_cap rb1 = ?cap" "rb_size rb1 + world_pushes ?cap w \<le> ?cap"
    by (auto simp: running_def)
  have e: "err = None" and empty: "\<exists>rb'. dv_buffer d' = Some rb' \<and> rb_list rb' = []"
    using healthy_replay_empties [OF assms(7) rb1(1,2) assms(5,8) _ assms(9)] rb1 by auto
  have "quiet w"
    using assms(5) by (simp add: healthy_def)
  have "tracked pl x ?d1" "(\<forall>a. is_ok (pl_Marshal pl (telemetry_of a x))) \<Longrightarrow> sent pl x (dv_log d')"
    if x: "x \<in> set (rb_list rb) \<or> x \<in> set (concat (map published ps))" for x
  proof -
    have "tracked pl x d \<or> x \<in> set (concat (map published ps))"
      using x assms(2) same_reading_refl unfolding tracked_def by blast
    then show now: "tracked pl x ?d1"
      using run by blast
    show "sent pl x (dv_log d')" if ok: "\<forall>a. is_ok (pl_Marshal pl (telemetry_of a x))"
    proof -
      have "tracked pl x d'"
        using now replay_tracked(2) [of ?cap w 0 ?d1 pl x tc] run \<open>quiet w\<close> assms(9) by simp
      then have "settled pl x (dv_log d')"
        using empty by (auto simp: tracked_def)
      then show ?thesis
        using ok by (auto simp: settled_def) (metis is_ok_simps(2))
    qed
  qed
  with e empty show ?thesis by blast
qed

theorem telemetry_reaches_hub_witness:
  "(let d = telemetry_run demo_cfg demo_protocol [Tick ''a1'' zero_sample (demo_world False), Tick ''a2'' zero_sample (demo_world False)] demo_delivery;
        d' = snd (snd (replayBufferedTelemetry demo_cfg demo_protocol (demo_world True) d))
    in length (rb_list (the (dv_buffer d))) = 3 \<and> (\<exists>rb'. dv_buffer d' = Some rb' \<and> rb_list rb' = [])
       \<and> sent demo_protocol zero_sample (dv_log d'))"
proof -
  let ?ps = "[Tick ''a1'' zero_sample (demo_world False), Tick ''a2'' zero_sample (demo_world False)]"
  let ?rb = "Push zero_sample (NewRingBuffer zero_sample 3)"
  let ?d = "telemetry_run demo_cfg demo_protocol ?ps demo_delivery"
  obtain err line d' where run: "replayBufferedTelemetry demo_cfg demo_protocol (demo_world True) ?d = (err, line, d')"
    by (cases "replayBufferedTelemetry demo_cfg demo_protocol (demo_world True) ?d")
  have three: "length (rb_list (the (dv_buffer ?d))) = 3"
    by code_simp
  have t: "dv_transport ?d = Some (the (dv_transport ?d))" "ready (the (dv_transport ?d))"
    by code_simp+
  have q: "quiet (demo_world ok)" "world_pushes cap (demo_world ok) = 0" for ok cap
    by (simp_all add: quiet_def demo_world_def pushes_only_def world_pushes_def turns_pushes_def turn_pushes_def)
  then have h: "healthy (demo_world True)" and pq: "list_all op_quiet ?ps"
    by (simp_all add: healthy_def demo_world_def)
  have rb: "rb_wf ?rb" "rb_size ?rb + sum_list (map (op_pushes (rb_cap ?rb)) ?ps) + world_pushes (rb_cap ?rb) (demo_world True) \<le> rb_cap ?rb"
    by (auto simp: q Push_def NewRingBuffer_def Let_def rb_wf_def)
  have d: "dv_transport demo_delivery \<noteq> None" "dv_buffer demo_delivery = Some ?rb"
    by (simp_all add: demo_delivery_def)
  have x: "zero_sample \<in> set (concat (map published ?ps))" and ok: "is_ok (pl_Marshal demo_protocol (telemetry_of a zero_sample))" for a
    by (simp_all add: zero_sample_def demo_protocol_def telemetry_of_def)
  from telemetry_reaches_hub [OF d rb(1) pq h rb(2) t run] x ok three run show ?thesis
    by (auto simp: Let_def)
qed

end
