(* ===== verification/GoBase64.thy ===== *)
theory GoBase64
  imports GoStrings
begin

text \<open>
  Go's \<open>base64.StdEncoding\<close>, which carries file chunks in messages: \<open>EncodeToString\<close>, \<open>DecodeString\<close>
  (which skips line breaks and does not look at the unused low bits of the last digit) and
  \<open>EncodedLen\<close>. A byte string is a \<open>string\<close>.
\<close>

definition b64_alphabet :: string where
  "b64_alphabet = ''ABCDEFGHIJKLMNOPQRSTUVWXYZabcdefghijklmnopqrstuvwxyz0123456789+/''"

definition enc6 :: "nat \<Rightarrow> char" where
  "enc6 n = b64_alphabet ! n"

fun find_index :: "char \<Rightarrow> string \<Rightarrow> nat option" where
  "find_index c [] = None"
| "find_index c (x # xs) = (if x = c then Some 0 else map_option Suc (find_index c xs))"

definition dec6 :: "char \<Rightarrow> nat option" where
  "dec6 c = find_index c b64_alphabet"

definition byte :: "char \<Rightarrow> nat" where "byte = of_char"
definition to_byte :: "nat \<Rightarrow> char" where "to_byte = char_of"

fun EncodeToString :: "string \<Rightarrow> string" where
  "EncodeToString [] = []"
| "EncodeToString [a] = [enc6 (byte a div 4), enc6 (byte a mod 4 * 16), CHR ''='', CHR ''='']"
| "EncodeToString [a, b] =
     [enc6 (byte a div 4), enc6 (byte a mod 4 * 16 + byte b div 16), enc6 (byte b mod 16 * 4), CHR ''='']"
| "EncodeToString (a # b # c # rest) =
     [enc6 (byte a div 4), enc6 (byte a mod 4 * 16 + byte b div 16), enc6 (byte b mod 16 * 4 + byte c div 64), enc6 (byte c mod 64)]
     @ EncodeToString rest"

fun decode_quanta :: "string \<Rightarrow> string option" where
  "decode_quanta [] = Some []"
| "decode_quanta (a # b # c # d # rest) =
     (case dec6 a of None \<Rightarrow> None | Some x \<Rightarrow>
      case dec6 b of None \<Rightarrow> None | Some y \<Rightarrow>
      if c = CHR ''='' then
        (if d = CHR ''='' \<and> rest = [] then Some [to_byte (x * 4 + y div 16)] else None)
      else
        case dec6 c of None \<Rightarrow> None | Some z \<Rightarrow>
        if d = CHR ''='' then
          (if rest = [] then Some [to_byte (x * 4 + y div 16), to_byte (y mod 16 * 16 + z div 4)] else None)
        else
          case dec6 d of None \<Rightarrow> None | Some w \<Rightarrow>
          map_option (\<lambda>bs. to_byte (x * 4 + y div 16) # to_byte (y mod 16 * 16 + z div 4) # to_byte (z mod 4 * 64 + w) # bs)
            (decode_quanta rest))"
| "decode_quanta _ = None"

definition DecodeString :: "string \<Rightarrow> string option" where
  "DecodeString s = decode_quanta (filter (\<lambda>c. c \<noteq> CHR 0x0A \<and> c \<noteq> CHR 0x0D) s)"

definition EncodedLen :: "nat \<Rightarrow> nat" where
  "EncodedLen n = (n + 2) div 3 * 4"

section \<open>Lemmas\<close>

lemma length_alphabet: "length b64_alphabet = 64"
  by (simp add: b64_alphabet_def)

lemma distinct_alphabet: "distinct b64_alphabet"
  by (simp add: b64_alphabet_def)

lemma special_not_in_alphabet: "CHR ''='' \<notin> set b64_alphabet" "CHR 0x0A \<notin> set b64_alphabet" "CHR 0x0D \<notin> set b64_alphabet"
  by (simp_all add: b64_alphabet_def)

lemma find_index_nth: "distinct xs \<Longrightarrow> i < length xs \<Longrightarrow> find_index (xs ! i) xs = Some i"
proof (induction xs arbitrary: i)
  case (Cons x xs)
  then show ?case by (cases i) (auto simp: nth_mem)
qed simp

lemma dec6_enc6 [simp]: "n < 64 \<Longrightarrow> dec6 (enc6 n) = Some n"
  unfolding dec6_def enc6_def by (rule find_index_nth) (simp_all add: distinct_alphabet length_alphabet)

lemma enc6_in_alphabet: "n < 64 \<Longrightarrow> enc6 n \<in> set b64_alphabet"
  by (simp add: enc6_def length_alphabet)

lemma enc6_special [simp]:
  assumes "n < 64"
  shows "enc6 n \<noteq> CHR ''=''" "enc6 n \<noteq> CHR 0x0A" "enc6 n \<noteq> CHR 0x0D"
  using enc6_in_alphabet [OF assms] special_not_in_alphabet by fastforce+

lemma byte_less [simp]: "byte c < 256"
  unfolding byte_def by (rule nat_of_char_less_256)

lemma to_byte_byte [simp]: "to_byte (byte c) = c"
  by (simp add: to_byte_def byte_def)

lemma byte_div:
  "byte a div 4 < 64" "byte a div 16 < 16" "byte a div 64 < 4"
  using byte_less [of a] by (simp_all add: less_mult_imp_div_less)

lemma digits_less [simp]:
  "byte a div 4 < 64" "byte a mod 4 * 16 < 64" "byte a mod 4 * 16 + byte b div 16 < 64"
  "byte b mod 16 * 4 < 64" "byte b mod 16 * 4 + byte c div 64 < 64" "byte c mod 64 < 64"
  using byte_div(1) [of a] byte_div(2) [of b] byte_div(3) [of c]
    mod_less_divisor [of 4 "byte a"] mod_less_divisor [of 16 "byte b"] mod_less_divisor [of 64 "byte c"]
  by linarith+

lemma digits_join [simp]:
  "byte b div 16 div 16 = 0" "byte b div 16 mod 16 = byte b div 16"
  "byte c div 64 div 4 = 0" "byte c div 64 mod 4 = byte c div 64"
  "byte b div 16 * 16 + byte b mod 16 = byte b" "byte c div 64 * 64 + byte c mod 64 = byte c"
  using byte_div [of b] byte_div [of c] by simp_all

lemma filter_EncodeToString:
  "filter (\<lambda>c. c \<noteq> CHR 0x0A \<and> c \<noteq> CHR 0x0D) (EncodeToString s) = EncodeToString s"
  by (induction s rule: EncodeToString.induct) simp_all

lemma decode_quanta_encode: "decode_quanta (EncodeToString s) = Some s"
  by (induction s rule: EncodeToString.induct) simp_all

lemma DecodeString_EncodeToString [simp]: "DecodeString (EncodeToString s) = Some s"
  by (simp add: DecodeString_def filter_EncodeToString decode_quanta_encode)

lemma length_EncodeToString: "length (EncodeToString s) = EncodedLen (length s)"
proof (induction s rule: EncodeToString.induct)
  case (4 a b c rest)
  have "(length (a # b # c # rest) + 2) div 3 = (length rest + 2) div 3 + 1"
    using div_add_self2 [of 3 "length rest + 2"] by (simp add: ac_simps)
  with 4 show ?case
    unfolding EncodedLen_def by (simp only: EncodeToString.simps length_append) simp
qed (simp_all add: EncodedLen_def)

lemma EncodedLen_mono: "m \<le> n \<Longrightarrow> EncodedLen m \<le> EncodedLen n"
  by (simp add: EncodedLen_def div_le_mono)

end
