(* ===== verification/GoEncoding.thy ===== *)
theory GoEncoding
  imports GoBase64 GoURL
begin

text \<open>
  More of Go's encodings and of \<open>net/url\<close>, for the updater: \<open>encoding/hex\<close>, the unpadded base64
  alphabets, \<open>URL.ResolveReference\<close> and query strings.
\<close>

section \<open>Hexadecimal\<close>

definition hex_lower :: "nat \<Rightarrow> char" where
  "hex_lower n = ''0123456789abcdef'' ! (n mod 16)"

definition HexEncode :: "string \<Rightarrow> string" where
  "HexEncode s = concat (map (\<lambda>c. [hex_lower (byte c div 16), hex_lower (byte c)]) s)"

fun HexDecode :: "string \<Rightarrow> string option" where
  "HexDecode [] = Some []"
| "HexDecode [a] = None"
| "HexDecode (a # b # s) =
     (if is_hex a \<and> is_hex b then map_option (\<lambda>t. to_byte (unhex a * 16 + unhex b) # t) (HexDecode s) else None)"

section \<open>Unpadded base64\<close>

definition b64url_alphabet :: string where
  "b64url_alphabet = ''ABCDEFGHIJKLMNOPQRSTUVWXYZabcdefghijklmnopqrstuvwxyz0123456789-_''"

fun decode_raw :: "string \<Rightarrow> string \<Rightarrow> string option" where
  "decode_raw alpha [] = Some []"
| "decode_raw alpha [a] = None"
| "decode_raw alpha [a, b] =
     (case (find_index a alpha, find_index b alpha) of
        (Some x, Some y) \<Rightarrow> Some [to_byte (x * 4 + y div 16)]
      | _ \<Rightarrow> None)"
| "decode_raw alpha [a, b, c] =
     (case (find_index a alpha, find_index b alpha, find_index c alpha) of
        (Some x, Some y, Some z) \<Rightarrow> Some [to_byte (x * 4 + y div 16), to_byte (y mod 16 * 16 + z div 4)]
      | _ \<Rightarrow> None)"
| "decode_raw alpha (a # b # c # d # rest) =
     (case (find_index a alpha, find_index b alpha, find_index c alpha, find_index d alpha) of
        (Some x, Some y, Some z, Some w) \<Rightarrow>
          map_option (\<lambda>bs. to_byte (x * 4 + y div 16) # to_byte (y mod 16 * 16 + z div 4) # to_byte (z mod 4 * 64 + w) # bs)
            (decode_raw alpha rest)
      | _ \<Rightarrow> None)"

definition RawStdDecode :: "string \<Rightarrow> string option" where
  "RawStdDecode s = decode_raw b64_alphabet (filter (\<lambda>c. c \<noteq> CHR 0x0A \<and> c \<noteq> CHR 0x0D) s)"

definition RawURLDecode :: "string \<Rightarrow> string option" where
  "RawURLDecode s = decode_raw b64url_alphabet (filter (\<lambda>c. c \<noteq> CHR 0x0A \<and> c \<noteq> CHR 0x0D) s)"

section \<open>References\<close>

text \<open>
  The loop of \<open>resolvePath\<close> over the elements of a path. \<open>dst\<close> is what was written after the leading
  slash.
\<close>

fun resolve_elems :: "string \<Rightarrow> bool \<Rightarrow> string list \<Rightarrow> string" where
  "resolve_elems dst first [] = dst"
| "resolve_elems dst first (e # es) =
     (if e = ''.'' then resolve_elems dst False es
      else if e = ''..'' then
        (case cut_last (CHR ''/'') dst of
           None \<Rightarrow> resolve_elems [] True es
         | Some (a, _) \<Rightarrow> resolve_elems a first es)
      else resolve_elems (dst @ (if first then [] else ''/'') @ e) False es)"

definition resolvePath :: "string \<Rightarrow> string \<Rightarrow> string" where
  "resolvePath base ref =
     (let full = (if ref = [] then base
                  else if hd ref \<noteq> CHR ''/'' then
                    (case cut_last (CHR ''/'') base of None \<Rightarrow> ref | Some (a, _) \<Rightarrow> a @ ''/'' @ ref)
                  else ref)
      in if full = [] then []
         else let elems = SplitByte (CHR ''/'') full;
                  r = ''/'' @ resolve_elems [] True elems @ (if last elems = ''.'' \<or> last elems = ''..'' then ''/'' else [])
              in if 1 < length r \<and> r ! 1 = CHR ''/'' then tl r else r)"

definition set_path :: "string \<Rightarrow> url \<Rightarrow> url" where
  "set_path p u = (case setPath p u of None \<Rightarrow> u | Some v \<Rightarrow> v)"

definition ResolveReference :: "url \<Rightarrow> url \<Rightarrow> url" where
  "ResolveReference base ref =
     (let u = (if u_scheme ref = [] then ref\<lparr>u_scheme := u_scheme base\<rparr> else ref)
      in if u_scheme ref \<noteq> [] \<or> u_host ref \<noteq> [] \<or> u_user ref \<noteq> None then set_path (resolvePath (EscapedPath ref) []) u
         else if u_opaque ref \<noteq> [] then u\<lparr>u_user := None, u_host := [], u_path := []\<rparr>
         else let bare = u_path ref = [] \<and> \<not> u_force_query ref \<and> u_raw_query ref = [];
                  u1 = (if bare then u\<lparr>u_raw_query := u_raw_query base,
                                      u_fragment := (if u_fragment ref = [] then u_fragment base else u_fragment ref)\<rparr>
                        else u)
              in if u_path ref = [] \<and> u_opaque base \<noteq> []
                 then u1\<lparr>u_opaque := u_opaque base, u_user := None, u_host := [], u_path := []\<rparr>
                 else set_path (resolvePath (EscapedPath base) (EscapedPath ref))
                        (u1\<lparr>u_host := u_host base, u_user := u_user base\<rparr>))"

section \<open>Query strings\<close>

definition query_escape :: "string \<Rightarrow> string" where
  "query_escape s =
     concat (map (\<lambda>c. if c = CHR '' '' then ''+'' else if is_alnum c \<or> c \<in> set ''-_.~'' then [c]
                      else [CHR ''%'', hex_digit (of_char c div 16), hex_digit (of_char c)]) s)"

fun query_unescape :: "string \<Rightarrow> string option" where
  "query_unescape [] = Some []"
| "query_unescape (c # s) =
     (if c = CHR ''%'' then
        (case s of
           a # b # t \<Rightarrow> if is_hex a \<and> is_hex b then map_option (\<lambda>r. char_of (unhex a * 16 + unhex b) # r) (query_unescape t) else None
         | _ \<Rightarrow> None)
      else map_option (\<lambda>r. (if c = CHR ''+'' then CHR '' '' else c) # r) (query_unescape s))"

text \<open>\<open>URL.Query\<close>: the pairs of the query string in order, bad ones left out.\<close>

definition ParseQuery :: "string \<Rightarrow> (string \<times> string) list" where
  "ParseQuery q =
     concat (map (\<lambda>part. if part = [] \<or> CHR '';'' \<in> set part then []
                         else let (k, v) = CutByte (CHR ''='') part
                              in case (query_unescape k, query_unescape v) of
                                   (Some k', Some v') \<Rightarrow> [(k', v')]
                                 | _ \<Rightarrow> [])
               (SplitByte (CHR ''&'') q))"

definition QuerySet :: "string \<Rightarrow> string \<Rightarrow> (string \<times> string) list \<Rightarrow> (string \<times> string) list" where
  "QuerySet k v q = filter (\<lambda>p. fst p \<noteq> k) q @ [(k, v)]"

text \<open>\<open>Values.Encode\<close> sorts by key; the values of one key keep their order.\<close>

fun str_le :: "string \<Rightarrow> string \<Rightarrow> bool" where
  "str_le [] t = True"
| "str_le (a # s) [] = False"
| "str_le (a # s) (b # t) = (byte a < byte b \<or> a = b \<and> str_le s t)"

fun insert_by_key :: "string \<times> string \<Rightarrow> (string \<times> string) list \<Rightarrow> (string \<times> string) list" where
  "insert_by_key p [] = [p]"
| "insert_by_key p (q # qs) = (if str_le (fst p) (fst q) then p # q # qs else q # insert_by_key p qs)"

definition QueryEncode :: "(string \<times> string) list \<Rightarrow> string" where
  "QueryEncode q =
     Join (map (\<lambda>(k, v). query_escape k @ ''='' @ query_escape v) (foldr insert_by_key q [])) ''&''"

section \<open>Lemmas\<close>

lemma hex_lower_lower [simp]: "lower_char (hex_lower n) = hex_lower n"
proof -
  have "n mod 16 \<in> set [0..<16]" by simp
  then have "\<forall>k \<in> set [0..<16]. lower_char (''0123456789abcdef'' ! k) = ''0123456789abcdef'' ! k"
    by (simp add: upt_conv_Cons) code_simp
  then show ?thesis
    by (simp add: hex_lower_def)
qed

lemma ToLower_HexEncode [simp]: "ToLower (HexEncode s) = HexEncode s"
  by (induction s) (simp_all add: HexEncode_def ToLower_def)

lemma hex_lower_not_space [simp]: "\<not> is_space (hex_lower n)"
proof -
  have "\<forall>k \<in> set [0..<16]. \<not> is_space (''0123456789abcdef'' ! k)"
    by (simp add: upt_conv_Cons) code_simp
  then show ?thesis
    by (simp add: hex_lower_def)
qed

lemma HexEncode_not_space: "c \<in> set (HexEncode s) \<Longrightarrow> \<not> is_space c"
  by (auto simp: HexEncode_def)

lemma length_HexEncode [simp]: "length (HexEncode s) = 2 * length s"
  by (induction s) (simp_all add: HexEncode_def)

section \<open>Decimal numbers\<close>

lemma is_digit_iff: "is_digit c \<longleftrightarrow> 48 \<le> (of_char c :: nat) \<and> (of_char c :: nat) \<le> 57"
  by (simp add: is_digit_def Let_def)

lemma dec_val_snoc [simp]: "dec_val (s @ [c]) = 10 * dec_val s + digit_val c"
  by (simp add: dec_val_def)

lemma dec_val_Nil [simp]: "dec_val [] = 0"
  by (simp add: dec_val_def)

lemma digit_val_of [simp]: "n < 10 \<Longrightarrow> digit_val (char_of (48 + n)) = n"
  by (simp add: digit_val_def)

lemma is_digit_of [simp]: "n < 10 \<Longrightarrow> is_digit (char_of (48 + n :: nat))"
  by (simp add: is_digit_iff)

lemma itoa_nat_digits: "list_all is_digit (itoa_nat n)"
  by (induction n rule: itoa_nat.induct) (subst itoa_nat.simps, simp)

lemma dec_val_itoa [simp]: "dec_val (itoa_nat n) = n"
proof (induction n rule: itoa_nat.induct)
  case (1 n)
  show ?case
  proof (cases "n < 10")
    case True
    then show ?thesis
      using dec_val_snoc [of "[]" "char_of (48 + n)"] by (subst itoa_nat.simps) simp
  next
    case False
    with 1 have "dec_val (itoa_nat (n div 10) @ [char_of (48 + n mod 10)]) = n"
      by simp
    with False show ?thesis
      by (subst itoa_nat.simps) simp
  qed
qed

lemma itoa_nat_no_other: "\<not> is_digit c \<Longrightarrow> c \<notin> set (itoa_nat n)"
  using itoa_nat_digits [of n] by (auto simp: list_all_iff)

lemma not_digits [simp]: "\<not> is_digit (CHR ''-'')" "\<not> is_digit (CHR 0x0A)"
  by (simp_all add: is_digit_iff)

lemma itoa_nat_inj: "itoa_nat a = itoa_nat b \<Longrightarrow> a = b"
  by (metis dec_val_itoa)

lemma Itoa_inj:
  assumes "Itoa m = Itoa n"
  shows "m = n"
proof (cases "m < 0 \<longleftrightarrow> n < 0")
  case True
  with assms have "nat \<bar>m\<bar> = nat \<bar>n\<bar>"
    by (cases "m < 0") (auto simp: Itoa_def dest!: itoa_nat_inj)
  with True show ?thesis by (auto simp: abs_if split: if_splits)
next
  case False
  with assms have "CHR ''-'' \<in> set (itoa_nat (nat m)) \<or> CHR ''-'' \<in> set (itoa_nat (nat n))"
    by (auto simp: Itoa_def split: if_splits) (metis list.set_intros(1))+
  then show ?thesis by (simp add: itoa_nat_no_other)
qed

lemma Itoa_no_newline: "CHR 0x0A \<notin> set (Itoa n)"
  by (simp add: Itoa_def itoa_nat_no_other)

lemma digit_val_less: "is_digit a \<Longrightarrow> is_digit b \<Longrightarrow> byte a < byte b \<longleftrightarrow> digit_val a < digit_val b"
  by (auto simp: is_digit_iff digit_val_def byte_def)

lemma digit_val_le_9: "is_digit a \<Longrightarrow> digit_val a \<le> 9"
  by (auto simp: is_digit_iff digit_val_def)

lemma digit_val_inj: "is_digit a \<Longrightarrow> is_digit b \<Longrightarrow> digit_val a = digit_val b \<Longrightarrow> a = b"
  using eq_diff_iff [of 48 "of_char a" "of_char b :: nat"] by (simp add: is_digit_iff digit_val_def)

lemma str_le_refl [simp]: "str_le s s"
  by (induction s) auto

end
