(* ===== verification/SelfUpdate.thy ===== *)
theory SelfUpdate
  imports GoEncoding GoPath
begin

text \<open>
  The decisions of the self-updater: \<open>internal/agentcore/self_update.go\<close>,
  \<open>self_update_verification.go\<close> and \<open>self_update_download.go\<close>. Which URL is asked, which requests carry
  the Hub token, what release metadata is accepted, what its signature covers, and which versions
  count as a downgrade. Installing and rolling back are in \<open>SelfUpdateInstall\<close>.

  The environment, the platform, the compiled-in key, the two cryptographic functions and the JSON
  decoder are fields of a record; replies of the network are arguments.
\<close>

section \<open>Data\<close>

record release =
  r_Version :: string
  r_OS :: string
  r_Arch :: string
  r_SHA256 :: string
  r_URL :: string
  r_SizeBytes :: int
  r_Signature :: string

text \<open>The outcome of the two \<open>Decode\<close> calls on the metadata reply.\<close>

datatype json_outcome = JSONBad string | JSONTrailing | JSONTrailingData string | JSONRelease release

record update_host =
  h_Getenv :: "string \<Rightarrow> string"
  h_GOOS :: string
  h_GOARCH :: string
  h_builtinKey :: string
  h_Verify :: "string \<Rightarrow> string \<Rightarrow> string \<Rightarrow> bool"
  h_Sha256 :: "string \<Rightarrow> string"
  h_Decode :: "string \<Rightarrow> json_outcome"

text \<open>The fields of \<open>RuntimeConfig\<close> the updater reads.\<close>

record update_cfg =
  uc_Version :: string
  uc_APIToken :: string
  uc_APIBaseURL :: string
  uc_WSBaseURL :: string
  uc_AutoUpdateCheckURL :: string
  uc_AutoUpdateEnabled :: bool

text \<open>A network reply: the status, the announced length, the body and how reading it ended.\<close>

datatype reply = ReplyFailed string | Reply int int string "string option"

datatype update_error =
    ExecutablePathUnknown string
  | FetchURL
  | FetchFailed string
  | FetchStatus int
  | FetchTooLarge
  | FetchDecode string
  | FetchTrailing
  | MissingDownloadURL
  | EmptyDownloadURL
  | InvalidVersion | InvalidOS | InvalidArch
  | URLTooLong | SignatureTooLong
  | MissingSHA | InvalidSHA
  | NegativeSize | SizeTooLarge
  | OtherOrigin
  | KeyNotConfigured | KeyUndecodable | SignatureMissing | SignatureUndecodable | SignatureInvalid
  | OtherOS | OtherArch | NotStableVersion | Downgrade
  | HashLocal string
  | VersionRolledBack string
  | DownloadFailed string
  | DownloadStatus int
  | DownloadTooLarge
  | DownloadSizeMismatch
  | ChecksumMismatch
  | StageFailed | TrialFailed string | TrialWrongVersion | SwapFailed

definition envNativeWrapperParentPID :: string where "envNativeWrapperParentPID = ''LABTETHER_PARENT_PID''"
definition envSelfUpdateTrustedPublicKey :: string where
  "envSelfUpdateTrustedPublicKey = ''LABTETHER_AUTO_UPDATE_TRUSTED_PUBLIC_KEY''"
definition envSelfUpdateAllowExternalDownload :: string where
  "envSelfUpdateAllowExternalDownload = ''LABTETHER_AUTO_UPDATE_ALLOW_EXTERNAL_DOWNLOAD''"
definition envSelfUpdateAcceptUnsigned :: string where
  "envSelfUpdateAcceptUnsigned = ''LABTETHER_AUTO_UPDATE_ACCEPT_UNSIGNED''"
definition envAllowInsecureTransport_core :: string where
  "envAllowInsecureTransport_core = ''LABTETHER_ALLOW_INSECURE_TRANSPORT''"
definition maxSelfUpdateBinarySize :: int where "maxSelfUpdateBinarySize = 100 * 1024 * 1024"
definition maxSelfUpdateMetadataSize :: int where "maxSelfUpdateMetadataSize = 1 * 1024 * 1024"
definition maxSelfUpdateVersionLength :: int where "maxSelfUpdateVersionLength = 128"
definition maxSelfUpdatePlatformLength :: int where "maxSelfUpdatePlatformLength = 128"
definition maxSelfUpdateURLLength :: int where "maxSelfUpdateURLLength = 4096"
definition maxSelfUpdateSignatureLength :: int where "maxSelfUpdateSignatureLength = 512"

text \<open>\<open>parseBoolEnv\<close> of \<open>config_values.go\<close>: the process environment without overrides.\<close>

definition boolEnv :: "update_host \<Rightarrow> string \<Rightarrow> bool \<Rightarrow> bool" where
  "boolEnv h key fallback =
     (let raw = TrimSpace (h_Getenv h key)
      in if raw = [] then fallback
         else case ParseBool raw of None \<Rightarrow> fallback | Some b \<Rightarrow> b)"

definition allowInsecureTransportOptIn :: "update_host \<Rightarrow> bool" where
  "allowInsecureTransportOptIn h = boolEnv h envAllowInsecureTransport_core False"

section \<open>Addresses\<close>

definition releasesPath :: string where "releasesPath = ''/api/v1/agent/releases/latest''"

definition buildAgentReleaseCheckURL :: "update_host \<Rightarrow> update_cfg \<Rightarrow> string" where
  "buildAgentReleaseCheckURL h cfg =
     (let optin = allowInsecureTransportOptIn h;
          custom = TrimSpace (uc_AutoUpdateCheckURL cfg);
          api = TrimSpace (uc_APIBaseURL cfg)
      in if custom \<noteq> [] then normalizeHTTPSURL optin custom
         else if api \<noteq> [] then TrimRight (\<lambda>c. c = CHR ''/'') (normalizeAPIBaseURL optin api) @ releasesPath
         else let ws = normalizeWSBaseURL optin (uc_WSBaseURL cfg)
              in if ws = [] then []
                 else case ParseURL ws of
                        None \<Rightarrow> []
                      | Some p \<Rightarrow>
                          if TrimSpace (u_host p) = [] then []
                          else case map_of [(''wss'', ''https''), (''ws'', ''http''), (''https'', u_scheme p), (''http'', u_scheme p)]
                                      (ToLower (u_scheme p)) of
                                 None \<Rightarrow> []
                               | Some scheme \<Rightarrow>
                                   let base = TrimRight (\<lambda>c. c = CHR ''/'')
                                         (URLString (p\<lparr>u_scheme := scheme, u_path := [], u_raw_path := [], u_raw_query := [], u_fragment := []\<rparr>))
                                   in if base = [] then [] else base @ releasesPath)"

definition sameOrigin :: "string \<Rightarrow> string \<Rightarrow> bool" where
  "sameOrigin leftRaw rightRaw =
     (case ParseURL (TrimSpace leftRaw) of
        None \<Rightarrow> False
      | Some left \<Rightarrow>
          (case ParseURL (TrimSpace rightRaw) of
             None \<Rightarrow> False
           | Some right \<Rightarrow>
               if \<not> EqualFold (TrimSpace (u_scheme left)) (TrimSpace (u_scheme right)) then False
               else EqualFold (TrimSpace (u_host left)) (TrimSpace (u_host right))))"

definition shouldAttachUpdateToken :: "update_host \<Rightarrow> update_cfg \<Rightarrow> string \<Rightarrow> bool" where
  "shouldAttachUpdateToken h cfg endpoint =
     (let canonicalEndpoint = buildAgentReleaseCheckURL h (cfg\<lparr>uc_AutoUpdateCheckURL := []\<rparr>)
      in canonicalEndpoint \<noteq> [] \<and> sameOrigin canonicalEndpoint endpoint)"

definition resolveReleaseDownloadURL :: "string \<Rightarrow> string \<Rightarrow> string" where
  "resolveReleaseDownloadURL checkURL raw =
     (let releaseURL = TrimSpace raw; parsed = ParseURL releaseURL
      in if releaseURL = [] then []
         else case parsed of
                Some p \<Rightarrow>
                  if u_scheme p \<noteq> [] then URLString p
                  else (case ParseURL checkURL of
                          None \<Rightarrow> releaseURL
                        | Some base \<Rightarrow> URLString (ResolveReference base p))
              | None \<Rightarrow> releaseURL)"

definition app_bundle :: "string list \<Rightarrow> bool" where
  "app_bundle parts \<longleftrightarrow>
     list_ex (\<lambda>(p, q). HasSuffix (ToLower p) ''.app'' \<and> EqualFold q ''Contents'') (zip parts (tl parts))"

definition nativeWrapperSelfUpdateBlocked :: "update_host \<Rightarrow> string \<Rightarrow> bool" where
  "nativeWrapperSelfUpdateBlocked h executablePath =
     (if TrimSpace (h_Getenv h envNativeWrapperParentPID) \<noteq> [] then True
      else if \<not> EqualFold (TrimSpace (h_GOOS h)) ''darwin'' then False
      else app_bundle (SplitByte (CHR ''/'') (Clean executablePath)))"

section \<open>Requests\<close>

text \<open>A request is its URL and the token in its \<open>Authorization\<close> header, if any.\<close>

record update_request =
  q_URL :: string
  q_Token :: "string option"

definition update_request_for :: "update_host \<Rightarrow> update_cfg \<Rightarrow> string \<Rightarrow> update_request" where
  "update_request_for h cfg address =
     (let token = TrimSpace (uc_APIToken cfg)
      in \<lparr>q_URL = address, q_Token = (if token \<noteq> [] \<and> shouldAttachUpdateToken h cfg address then Some token else None)\<rparr>)"

text \<open>
  The redirect policy of \<open>newSelfUpdateHTTPClient\<close>. A hop is the target and whether the client copied
  the \<open>Authorization\<close> header of the first request to it; the policy then decides. The result lists
  the requests made.
\<close>

fun follow_redirects :: "update_request \<Rightarrow> nat \<Rightarrow> (string \<times> bool) list \<Rightarrow> update_request list" where
  "follow_redirects first via [] = []"
| "follow_redirects first via ((target, copied) # hops) =
     (if via \<ge> 10 then []
      else \<lparr>q_URL = target,
            q_Token = (if \<not> copied \<or> (via > 0 \<and> \<not> sameOrigin (q_URL first) target) then None else q_Token first)\<rparr>
           # follow_redirects first (Suc via) hops)"

definition requests_made :: "update_request \<Rightarrow> (string \<times> bool) list \<Rightarrow> update_request list" where
  "requests_made first hops = first # follow_redirects first 1 hops"

text \<open>\<open>io.ReadAll(io.LimitReader(body, max + 1))\<close>: a read error counts only if it comes before the limit.\<close>

definition read_limited :: "int \<Rightarrow> string \<Rightarrow> string option \<Rightarrow> (string, string) result" where
  "read_limited limit body err =
     (if limit \<le> int (length body) then Ok (take (nat limit) body)
      else case err of None \<Rightarrow> Ok body | Some e \<Rightarrow> Err e)"

definition metadata_url :: "update_host \<Rightarrow> url \<Rightarrow> string" where
  "metadata_url h u =
     URLString (u\<lparr>u_raw_query :=
       QueryEncode (QuerySet ''arch'' (h_GOARCH h) (QuerySet ''os'' (h_GOOS h) (ParseQuery (u_raw_query u))))\<rparr>)"

definition fetchReleaseMetadata :: "update_host \<Rightarrow> string \<Rightarrow> reply \<Rightarrow> (update_error, release) result" where
  "fetchReleaseMetadata h endpoint rep =
     (case ParseURL endpoint of
        None \<Rightarrow> Err FetchURL
      | Some u \<Rightarrow>
          (case rep of
             ReplyFailed e \<Rightarrow> Err (FetchFailed e)
           | Reply status announced body err \<Rightarrow>
               if status \<ge> 400 then Err (FetchStatus status)
               else if announced > maxSelfUpdateMetadataSize then Err FetchTooLarge
               else case read_limited (maxSelfUpdateMetadataSize + 1) body err of
                      Inl e \<Rightarrow> Err (FetchFailed e)
                    | Inr encoded \<Rightarrow>
                        if int (length encoded) > maxSelfUpdateMetadataSize then Err FetchTooLarge
                        else case h_Decode h encoded of
                               JSONBad e \<Rightarrow> Err (FetchDecode e)
                             | JSONTrailing \<Rightarrow> Err FetchTrailing
                             | JSONTrailingData e \<Rightarrow> Err (FetchDecode e)
                             | JSONRelease r \<Rightarrow> Ok r))"

definition downloadReleaseBinary :: "int \<Rightarrow> reply \<Rightarrow> (update_error, string) result" where
  "downloadReleaseBinary expectedSize rep =
     (case rep of
        ReplyFailed e \<Rightarrow> Err (DownloadFailed e)
      | Reply status announced body err \<Rightarrow>
          if status \<ge> 400 then Err (DownloadStatus status)
          else case read_limited (maxSelfUpdateBinarySize + 1) body err of
                 Inl e \<Rightarrow> Err (DownloadFailed e)
               | Inr payload \<Rightarrow>
                   if int (length payload) > maxSelfUpdateBinarySize then Err DownloadTooLarge
                   else if expectedSize > 0 \<and> int (length payload) \<noteq> expectedSize then Err DownloadSizeMismatch
                   else Ok payload)"

section \<open>Release metadata\<close>

definition validateReleaseMetadata :: "update_host \<Rightarrow> string \<Rightarrow> string \<Rightarrow> release \<Rightarrow> update_error option" where
  "validateReleaseMetadata h checkURL downloadURL r =
     (let sha = TrimSpace (ToLower (r_SHA256 r))
      in if TrimSpace (r_Version r) = [] \<or> int (length (r_Version r)) > maxSelfUpdateVersionLength then Some InvalidVersion
         else if TrimSpace (r_OS r) = [] \<or> int (length (r_OS r)) > maxSelfUpdatePlatformLength then Some InvalidOS
         else if TrimSpace (r_Arch r) = [] \<or> int (length (r_Arch r)) > maxSelfUpdatePlatformLength then Some InvalidArch
         else if int (length (r_URL r)) > maxSelfUpdateURLLength then Some URLTooLong
         else if int (length (r_Signature r)) > maxSelfUpdateSignatureLength then Some SignatureTooLong
         else if sha = [] then Some MissingSHA
         else if HexDecode sha = None \<or> length sha \<noteq> 64 then Some InvalidSHA
         else if r_SizeBytes r < 0 then Some NegativeSize
         else if r_SizeBytes r > maxSelfUpdateBinarySize then Some SizeTooLarge
         else if \<not> boolEnv h envSelfUpdateAllowExternalDownload False \<and> \<not> sameOrigin checkURL downloadURL then Some OtherOrigin
         else None)"

subsection \<open>Versions\<close>

type_synonym stable_version = "string list"

definition normal_number :: "string \<Rightarrow> string" where
  "normal_number part = (let n = TrimLeft (\<lambda>c. c = CHR ''0'') part in if n = [] then ''0'' else n)"

definition parseStableReleaseVersion :: "string \<Rightarrow> stable_version option" where
  "parseStableReleaseVersion raw =
     (let v0 = TrimSpace raw;
          v = (if v0 \<noteq> [] \<and> (hd v0 = CHR ''v'' \<or> hd v0 = CHR ''V'') then tl v0 else v0);
          parts = SplitByte (CHR ''.'') v
      in if length parts \<noteq> 3 then None
         else if list_all (\<lambda>part. part \<noteq> [] \<and> list_all is_digit part) parts then Some (map normal_number parts)
         else None)"

text \<open>Go's \<open><\<close> on strings compares bytes.\<close>

definition str_less :: "string \<Rightarrow> string \<Rightarrow> bool" where
  "str_less s t \<longleftrightarrow> str_le s t \<and> s \<noteq> t"

fun compareStableReleaseVersions :: "stable_version \<Rightarrow> stable_version \<Rightarrow> int" where
  "compareStableReleaseVersions (l # ls) (r # rs) =
     (if length l < length r \<or> (length l = length r \<and> str_less l r) then -1
      else if length l > length r \<or> (length l = length r \<and> str_less r l) then 1
      else compareStableReleaseVersions ls rs)"
| "compareStableReleaseVersions _ _ = 0"

definition validateReleaseTarget :: "update_host \<Rightarrow> update_cfg \<Rightarrow> release \<Rightarrow> update_error option" where
  "validateReleaseTarget h cfg r =
     (if \<not> EqualFold (TrimSpace (r_OS r)) (h_GOOS h) then Some OtherOS
      else if \<not> EqualFold (TrimSpace (r_Arch r)) (h_GOARCH h) then Some OtherArch
      else case parseStableReleaseVersion (r_Version r) of
             None \<Rightarrow> Some NotStableVersion
           | Some releaseVersion \<Rightarrow>
               (case parseStableReleaseVersion (uc_Version cfg) of
                  Some currentVersion \<Rightarrow>
                    if compareStableReleaseVersions releaseVersion currentVersion < 0 then Some Downgrade else None
                | None \<Rightarrow> None))"

subsection \<open>Signatures\<close>

definition SetBuiltinSelfUpdatePublicKey :: "string \<Rightarrow> update_host \<Rightarrow> update_host" where
  "SetBuiltinSelfUpdatePublicKey key h = h\<lparr>h_builtinKey := TrimSpace key\<rparr>"

definition trustedSelfUpdatePublicKey :: "update_host \<Rightarrow> string" where
  "trustedSelfUpdatePublicKey h =
     (let raw = TrimSpace (h_Getenv h envSelfUpdateTrustedPublicKey)
      in if raw \<noteq> [] then raw else if h_builtinKey h \<noteq> [] then h_builtinKey h else [])"

text \<open>\<open>decodeSelfUpdatePublicKey\<close> and \<open>decodeSelfUpdateSignature\<close> differ in the size alone.\<close>

definition sized :: "nat \<Rightarrow> string option \<Rightarrow> string option" where
  "sized n s = (case s of Some b \<Rightarrow> if length b = n then Some b else None | None \<Rightarrow> None)"

definition decode_sized :: "nat \<Rightarrow> string \<Rightarrow> string option" where
  "decode_sized n raw =
     (let trimmed = TrimSpace raw
      in if trimmed = [] then None
         else case sized n (DecodeString trimmed) of Some b \<Rightarrow> Some b
            | None \<Rightarrow> (case sized n (RawStdDecode trimmed) of Some b \<Rightarrow> Some b
            | None \<Rightarrow> (case sized n (RawURLDecode trimmed) of Some b \<Rightarrow> Some b
            | None \<Rightarrow> sized n (HexDecode trimmed))))"

definition decodeSelfUpdatePublicKey :: "string \<Rightarrow> string option" where
  "decodeSelfUpdatePublicKey raw = decode_sized 32 raw"

definition decodeSelfUpdateSignature :: "string \<Rightarrow> string option" where
  "decodeSelfUpdateSignature raw = decode_sized 64 raw"

definition selfUpdateSignaturePayload :: "release \<Rightarrow> string" where
  "selfUpdateSignaturePayload r =
     Join [TrimSpace (r_Version r), TrimSpace (r_OS r), TrimSpace (r_Arch r), ToLower (TrimSpace (r_SHA256 r)), Itoa (r_SizeBytes r)] [CHR 0x0A]"

definition verifyReleaseMetadataSignature :: "update_host \<Rightarrow> release \<Rightarrow> update_error option" where
  "verifyReleaseMetadataSignature h r =
     (let trusted = trustedSelfUpdatePublicKey h
      in if trusted = [] then (if boolEnv h envSelfUpdateAcceptUnsigned False then None else Some KeyNotConfigured)
         else case decodeSelfUpdatePublicKey trusted of
                None \<Rightarrow> Some KeyUndecodable
              | Some key \<Rightarrow>
                  let sig = TrimSpace (r_Signature r)
                  in if sig = [] then Some SignatureMissing
                     else case decodeSelfUpdateSignature sig of
                            None \<Rightarrow> Some SignatureUndecodable
                          | Some signature \<Rightarrow>
                              if \<not> h_Verify h key (selfUpdateSignaturePayload r) signature then Some SignatureInvalid else None)"

definition sha256Hex :: "update_host \<Rightarrow> string \<Rightarrow> string" where
  "sha256Hex h payload = HexEncode (h_Sha256 h payload)"

section \<open>The order of versions\<close>

text \<open>Decimal digits of equal length compare like the numbers they spell.\<close>

lemma dec_val_foldl: "foldl (\<lambda>n c. 10 * n + digit_val c) k s = k * 10 ^ length s + dec_val s"
proof (induction s rule: rev_induct)
  case (snoc c s)
  then show ?case by (simp add: algebra_simps)
qed simp

lemma dec_val_Cons: "dec_val (c # s) = digit_val c * 10 ^ length s + dec_val s"
  using dec_val_foldl [of "digit_val c" s] by (simp add: dec_val_def)

lemma dec_val_bound: "list_all is_digit s \<Longrightarrow> dec_val s < 10 ^ length s"
proof (induction s)
  case (Cons c s)
  then have "dec_val s < 10 ^ length s" and "digit_val c * 10 ^ length s \<le> 9 * 10 ^ length s"
    by (simp_all add: digit_val_le_9)
  then show ?case unfolding dec_val_Cons list.size add_0_right add_Suc_right power_Suc by linarith
qed simp

lemma dec_val_less_same_length:
  "length s = length t \<Longrightarrow> list_all is_digit s \<Longrightarrow> list_all is_digit t \<Longrightarrow> str_less s t \<longleftrightarrow> dec_val s < dec_val t"
proof (induction s t rule: list_induct2)
  case (Cons a s b t)
  let ?p = "10 ^ length s :: nat"
  have dig: "is_digit a" "is_digit b" and bound: "dec_val s < ?p" "dec_val t < ?p"
    using Cons.prems Cons.hyps dec_val_bound [of s] dec_val_bound [of t] by auto
  have lt: "x * ?p + dec_val u < y * ?p + dec_val v" if "x < y" "dec_val u < ?p" for x y u v
    using that mult_le_mono1 [of "Suc x" y ?p] by simp
  consider "digit_val a < digit_val b" | "digit_val b < digit_val a" | "a = b"
    using dig digit_val_inj by (meson linorder_cases)
  then show ?case
  proof cases
    case 1
    then have "byte a < byte b" using dig by (simp add: digit_val_less)
    with 1 lt [of "digit_val a" "digit_val b" s t] bound Cons.hyps show ?thesis
      by (auto simp: str_less_def dec_val_Cons)
  next
    case 2
    then have "byte b < byte a" using dig by (simp add: digit_val_less)
    with 2 lt [of "digit_val b" "digit_val a" t s] bound Cons.hyps show ?thesis
      by (auto simp: str_less_def dec_val_Cons)
  next
    case 3
    with Cons show ?thesis by (auto simp: str_less_def dec_val_Cons)
  qed
qed (simp add: str_less_def)

text \<open>A number without leading zeros.\<close>

definition plain_number :: "string \<Rightarrow> bool" where
  "plain_number s \<longleftrightarrow> s \<noteq> [] \<and> list_all is_digit s \<and> (s = ''0'' \<or> hd s \<noteq> CHR ''0'')"

lemma dec_val_dropWhile: "dec_val (dropWhile (\<lambda>c. c = CHR ''0'') s) = dec_val s"
  by (induction s) (simp_all add: dec_val_Cons digit_val_def)

lemma normal_number_val [simp]: "dec_val (normal_number s) = dec_val s"
proof (cases "dropWhile (\<lambda>c. c = CHR ''0'') s = []")
  case True
  then have "dec_val s = 0" by (metis dec_val_dropWhile dec_val_Nil)
  with True show ?thesis by (simp add: normal_number_def TrimLeft_def dec_val_Cons digit_val_def)
next
  case False
  then have "normal_number s = dropWhile (\<lambda>c. c = CHR ''0'') s"
    by (simp only: normal_number_def TrimLeft_def Let_def if_False)
  then show ?thesis by (simp only: dec_val_dropWhile)
qed

lemma plain_normal_number: "list_all is_digit s \<Longrightarrow> plain_number (normal_number s)"
  using hd_dropWhile [of "\<lambda>c. c = CHR ''0''" s]
  by (auto simp: plain_number_def normal_number_def TrimLeft_def Let_def list_all_iff is_digit_iff dest: set_dropWhileD)

lemma plain_number_lower: "plain_number s \<Longrightarrow> 1 < length s \<Longrightarrow> 10 ^ (length s - 1) \<le> dec_val s"
proof (cases s)
  case (Cons c t)
  assume "plain_number s" "1 < length s"
  with Cons have "is_digit c" "c \<noteq> CHR ''0''" by (auto simp: plain_number_def)
  moreover have "digit_val (CHR ''0'') = 0" "is_digit (CHR ''0'')" by (simp_all add: digit_val_def is_digit_iff)
  ultimately have "1 \<le> digit_val c" using digit_val_inj [of c "CHR ''0''"] by fastforce
  with Cons show ?thesis by (simp add: dec_val_Cons trans_le_add1)
qed simp

lemma plain_number_longer:
  assumes "plain_number s" and "plain_number t" and "length s < length t"
  shows "dec_val s < dec_val t"
proof -
  have "dec_val s < 10 ^ length s"
    using assms(1) by (simp add: plain_number_def dec_val_bound)
  also have "\<dots> \<le> 10 ^ (length t - 1)"
    using assms(3) by (intro power_increasing) auto
  also have "\<dots> \<le> dec_val t"
  proof (rule plain_number_lower [OF assms(2)])
    show "1 < length t" using assms(1,3) by (cases s) (auto simp: plain_number_def)
  qed
  finally show ?thesis .
qed

lemma plain_number_order:
  assumes "plain_number s" and "plain_number t"
  shows "length s < length t \<or> (length s = length t \<and> str_less s t) \<longleftrightarrow> dec_val s < dec_val t"
proof (cases "length s" "length t" rule: linorder_cases)
  case less
  then show ?thesis using plain_number_longer [OF assms] by simp
next
  case equal
  then show ?thesis using assms dec_val_less_same_length [OF equal] by (simp add: plain_number_def)
next
  case greater
  then show ?thesis using plain_number_longer [OF assms(2,1)] by simp
qed

text \<open>The reference: the numbers between the dots, compared from the left.\<close>

definition version_numbers :: "string \<Rightarrow> nat list" where
  "version_numbers raw =
     (let v = TrimSpace raw
      in map dec_val (SplitByte (CHR ''.'') (if HasPrefix v ''v'' \<or> HasPrefix v ''V'' then tl v else v)))"

fun earlier :: "nat list \<Rightarrow> nat list \<Rightarrow> bool" where
  "earlier (m # ms) (n # ns) \<longleftrightarrow> m < n \<or> m = n \<and> earlier ms ns"
| "earlier _ _ \<longleftrightarrow> False"

lemma parseStable_numbers:
  assumes "parseStableReleaseVersion raw = Some v"
  shows "list_all plain_number v \<and> map dec_val v = version_numbers raw \<and> length v = 3"
proof -
  let ?w = "TrimSpace raw"
  have strip: "(?w \<noteq> [] \<and> (hd ?w = CHR ''v'' \<or> hd ?w = CHR ''V'')) \<longleftrightarrow> HasPrefix ?w ''v'' \<or> HasPrefix ?w ''V''"
    by (cases ?w) (auto simp: HasPrefix_def)
  show ?thesis
    using assms unfolding parseStableReleaseVersion_def Let_def strip version_numbers_def
    by (auto simp: list_all_iff comp_def plain_normal_number split: if_splits)
qed

lemma compare_Cons:
  assumes "plain_number l" and "plain_number r"
  shows "compareStableReleaseVersions (l # ls) (r # rs) =
    (if dec_val l < dec_val r then -1 else if dec_val r < dec_val l then 1 else compareStableReleaseVersions ls rs)"
  using plain_number_order [OF assms] plain_number_order [OF assms(2,1)] by (auto simp: eq_commute [of "length l"])

lemma compare_numbers:
  "length l = length r \<Longrightarrow> list_all plain_number l \<Longrightarrow> list_all plain_number r \<Longrightarrow>
     compareStableReleaseVersions l r =
       (if earlier (map dec_val l) (map dec_val r) then -1
        else if earlier (map dec_val r) (map dec_val l) then 1 else 0)"
  by (induction l r rule: list_induct2) (auto simp: compare_Cons simp del: compareStableReleaseVersions.simps(1))

section \<open>Signed text\<close>

lemma hex_decode_hex: "HexDecode s = Some t \<Longrightarrow> list_all is_hex s"
  by (induction s arbitrary: t rule: HexDecode.induct) (auto split: if_splits)

lemma is_hex_no_newline: "list_all is_hex s \<Longrightarrow> CHR 0x0A \<notin> set s"
  by (auto simp: list_all_iff is_hex_def)

lemma lower_newline: "lower_char c = CHR 0x0A \<longleftrightarrow> c = CHR 0x0A"
  by (rule lower_char_eq_iff) simp

lemma EqualFold_no_newline:
  assumes "EqualFold s t" and "CHR 0x0A \<notin> set t"
  shows "CHR 0x0A \<notin> set s"
proof
  assume "CHR 0x0A \<in> set s"
  moreover have "lower_char (CHR 0x0A) = CHR 0x0A" by (simp add: lower_char_def Let_def)
  ultimately have "CHR 0x0A \<in> lower_char ` set s" by (metis image_eqI)
  also have "lower_char ` set s = lower_char ` set t"
    using arg_cong [OF assms(1) [unfolded EqualFold_def ToLower_def], of set] by simp
  finally show False using assms(2) by (metis imageE lower_newline)
qed

lemma set_SplitByte: "set s \<subseteq> insert b (\<Union> (set ` set (SplitByte b s)))"
proof (induction s)
  case (Cons c s)
  then show ?case
    by (cases "SplitByte b s") (auto simp: SplitByte_ne)
qed simp

lemma stable_no_newline:
  assumes "parseStableReleaseVersion raw = Some v"
  shows "CHR 0x0A \<notin> set (TrimSpace raw)"
proof -
  let ?w = "TrimSpace raw"
  let ?u = "if ?w \<noteq> [] \<and> (hd ?w = CHR ''v'' \<or> hd ?w = CHR ''V'') then tl ?w else ?w"
  have "list_all (list_all is_digit) (SplitByte (CHR ''.'') ?u)"
    using assms by (auto simp: parseStableReleaseVersion_def Let_def list_all_iff split: if_splits)
  then have "c = CHR ''.'' \<or> is_digit c" if "c \<in> set ?u" for c
    using that set_SplitByte [of ?u "CHR ''.''"] by (auto simp: list_all_iff)
  then have "CHR 0x0A \<notin> set ?u" by fastforce
  then show ?thesis by (cases ?w) (auto split: if_splits)
qed

definition payload_fields :: "release \<Rightarrow> string list" where
  "payload_fields r = [TrimSpace (r_Version r), TrimSpace (r_OS r), TrimSpace (r_Arch r), ToLower (TrimSpace (r_SHA256 r)), Itoa (r_SizeBytes r)]"

lemma payload_lines:
  assumes "validateReleaseMetadata h u d r = None" and "validateReleaseTarget h cfg r = None"
    and "CHR 0x0A \<notin> set (h_GOOS h)" and "CHR 0x0A \<notin> set (h_GOARCH h)"
  shows "SplitByte (CHR 0x0A) (selfUpdateSignaturePayload r) = payload_fields r"
proof -
  have "HexDecode (ToLower (TrimSpace (r_SHA256 r))) \<noteq> None"
    using assms(1) by (auto simp: validateReleaseMetadata_def Let_def TrimSpace_ToLower split: if_splits)
  then have "CHR 0x0A \<notin> set (ToLower (TrimSpace (r_SHA256 r)))"
    using hex_decode_hex is_hex_no_newline by blast
  moreover have "CHR 0x0A \<notin> set (TrimSpace (r_Version r))"
    using assms(2) by (auto simp: validateReleaseTarget_def stable_no_newline split: if_splits option.splits)
  moreover have "EqualFold (TrimSpace (r_OS r)) (h_GOOS h)" "EqualFold (TrimSpace (r_Arch r)) (h_GOARCH h)"
    using assms(2) by (auto simp: validateReleaseTarget_def split: if_splits)
  ultimately have "\<forall>w \<in> set (payload_fields r). CHR 0x0A \<notin> set w"
    using assms(3,4) by (auto simp: payload_fields_def Itoa_no_newline dest: EqualFold_no_newline)
  then have "SplitByte (CHR 0x0A) (Join (payload_fields r) [CHR 0x0A]) = payload_fields r"
    by (intro SplitByte_Join) (simp_all add: payload_fields_def)
  then show ?thesis
    by (simp add: selfUpdateSignaturePayload_def payload_fields_def)
qed

section \<open>Origins\<close>

lemma sameOrigin_trans: "sameOrigin a b \<Longrightarrow> sameOrigin b c \<Longrightarrow> sameOrigin a c"
  by (auto simp: sameOrigin_def dest: EqualFold_trans split: option.splits if_splits)

lemma follow_redirects_token:
  "q \<in> set (follow_redirects first via hops) \<Longrightarrow> 0 < via \<Longrightarrow> q_Token q = Some tok \<Longrightarrow>
     q_Token first = Some tok \<and> sameOrigin (q_URL first) (q_URL q)"
  by (induction first via hops rule: follow_redirects.induct) (auto split: if_splits)

section \<open>Properties\<close>

definition demo_host :: update_host where
  "demo_host = \<lparr>h_Getenv = (\<lambda>_. []), h_GOOS = ''linux'', h_GOARCH = ''amd64'', h_builtinKey = replicate 43 (CHR ''A'') @ ''='',
     h_Verify = (\<lambda>k p s. p \<noteq> [] \<and> s = replicate 64 (CHR 0x00)), h_Sha256 = (\<lambda>b. replicate 32 (CHR 0x11)), h_Decode = (\<lambda>_. JSONTrailing)\<rparr>"

definition demo_update_cfg :: update_cfg where
  "demo_update_cfg = \<lparr>uc_Version = ''v1.9.0'', uc_APIToken = ''tok'', uc_APIBaseURL = ''https://hub:8443'', uc_WSBaseURL = [],
     uc_AutoUpdateCheckURL = ''https://mirror/latest'', uc_AutoUpdateEnabled = True\<rparr>"

definition demo_release :: release where
  "demo_release = \<lparr>r_Version = '' v1.10.0'', r_OS = ''Linux'', r_Arch = ''amd64'', r_SHA256 = replicate 64 (CHR ''1''),
     r_URL = ''/agent.bin'', r_SizeBytes = 3, r_Signature = replicate 86 (CHR ''A'') @ ''==''\<rparr>"

text \<open>
  Release versions are ordered as numbers. For two accepted version strings, whatever their
  \<open>v\<close> prefix, leading zeros and length, \<open>compareStableReleaseVersions\<close>, which compares digit
  strings and so never overflows, gives the order of the numeric triples from the left.
\<close>

theorem version_order_is_numeric:
  assumes "parseStableReleaseVersion left = Some l" and "parseStableReleaseVersion right = Some r"
  shows "compareStableReleaseVersions l r =
    (if earlier (version_numbers left) (version_numbers right) then -1
     else if earlier (version_numbers right) (version_numbers left) then 1 else 0)"
  using parseStable_numbers [OF assms(1)] parseStable_numbers [OF assms(2)] compare_numbers [of l r] by auto

theorem version_order_is_numeric_witness:
  "compareStableReleaseVersions [''1'', ''10'', ''0''] [''1'', ''9'', ''99''] = 1
   \<and> \<not> earlier (version_numbers ''v1.010.0'') (version_numbers ''1.9.99'')"
proof -
  have p: "parseStableReleaseVersion ''v1.010.0'' = Some [''1'', ''10'', ''0'']"
    "parseStableReleaseVersion ''1.9.99'' = Some [''1'', ''9'', ''99'']"
    and c: "compareStableReleaseVersions [''1'', ''10'', ''0''] [''1'', ''9'', ''99''] = 1"
    by code_simp+
  from version_order_is_numeric [OF p] c show ?thesis
    by (auto split: if_splits)
qed

text \<open>
  C36. One signature covers one release. If two releases are accepted for this platform and have
  the same signed text, they agree in version, operating system, architecture, digest and
  size: no line of one field can be moved into another, although the text is only joined with
  line breaks. (Platform names contain no line break.)
\<close>

theorem signed_payload_binds_release:
  assumes "validateReleaseMetadata h u d r = None" and "validateReleaseTarget h cfg r = None"
    and "validateReleaseMetadata h u' d' r' = None" and "validateReleaseTarget h cfg' r' = None"
    and "CHR 0x0A \<notin> set (h_GOOS h)" and "CHR 0x0A \<notin> set (h_GOARCH h)"
    and "selfUpdateSignaturePayload r = selfUpdateSignaturePayload r'"
  shows "TrimSpace (r_Version r) = TrimSpace (r_Version r') \<and> TrimSpace (r_OS r) = TrimSpace (r_OS r')
    \<and> TrimSpace (r_Arch r) = TrimSpace (r_Arch r') \<and> ToLower (TrimSpace (r_SHA256 r)) = ToLower (TrimSpace (r_SHA256 r'))
    \<and> r_SizeBytes r = r_SizeBytes r'"
  using payload_lines [OF assms(1,2,5,6)] payload_lines [OF assms(3,4,5,6)] assms(7)
  by (auto simp: payload_fields_def dest: Itoa_inj)

theorem signed_payload_binds_release_witness:
  "selfUpdateSignaturePayload demo_release = selfUpdateSignaturePayload (demo_release\<lparr>r_Version := ''v1.10.0  '', r_URL := ''/other''\<rparr>)
   \<and> TrimSpace (r_Version demo_release) = TrimSpace ''v1.10.0  ''"
proof -
  let ?r = "demo_release\<lparr>r_Version := ''v1.10.0  '', r_URL := ''/other''\<rparr>"
  have v: "validateReleaseMetadata demo_host ''https://h'' ''https://h/a'' demo_release = None"
    "validateReleaseTarget demo_host demo_update_cfg demo_release = None"
    "validateReleaseMetadata demo_host ''https://h'' ''https://h/a'' ?r = None"
    "validateReleaseTarget demo_host demo_update_cfg ?r = None"
    by code_simp+
  have n: "CHR 0x0A \<notin> set (h_GOOS demo_host)" "CHR 0x0A \<notin> set (h_GOARCH demo_host)"
    and p: "selfUpdateSignaturePayload demo_release = selfUpdateSignaturePayload ?r"
    by code_simp+
  show ?thesis
    using signed_payload_binds_release [OF v n p] p by simp
qed

text \<open>
  C16. The Hub token stays with the Hub. Whatever update source is configured, whatever address the
  metadata names and wherever the server redirects, every request of the updater that carries
  the token goes to the scheme and host of the configured Hub.
\<close>

theorem update_token_stays_with_hub:
  assumes "q \<in> set (requests_made (update_request_for h cfg address) hops)" and "q_Token q = Some tok"
  shows "tok = TrimSpace (uc_APIToken cfg)
    \<and> sameOrigin (buildAgentReleaseCheckURL h (cfg\<lparr>uc_AutoUpdateCheckURL := []\<rparr>)) (q_URL q)"
proof -
  have first: "tok' = TrimSpace (uc_APIToken cfg) \<and> sameOrigin (buildAgentReleaseCheckURL h (cfg\<lparr>uc_AutoUpdateCheckURL := []\<rparr>)) address"
    if "q_Token (update_request_for h cfg address) = Some tok'" for tok'
    using that by (auto simp: update_request_for_def shouldAttachUpdateToken_def Let_def split: if_splits)
  have url: "q_URL (update_request_for h cfg address) = address"
    by (simp add: update_request_for_def Let_def)
  consider "q = update_request_for h cfg address" | "q \<in> set (follow_redirects (update_request_for h cfg address) 1 hops)"
    using assms(1) by (auto simp: requests_made_def)
  then show ?thesis
  proof cases
    case 1
    with assms(2) first url show ?thesis by simp
  next
    case 2
    from follow_redirects_token [OF this _ assms(2)] first url show ?thesis
      by (auto intro: sameOrigin_trans)
  qed
qed

theorem update_token_stays_with_hub_witness:
  "(let qs = requests_made (update_request_for demo_host demo_update_cfg ''https://hub:8443/x'')
       [(''https://hub:8443/y'', True), (''https://evil/z'', True)]
    in map q_Token qs = [Some ''tok'', Some ''tok'', None]
       \<and> sameOrigin (buildAgentReleaseCheckURL demo_host (demo_update_cfg\<lparr>uc_AutoUpdateCheckURL := []\<rparr>)) (q_URL (qs ! 1)))"
proof -
  let ?qs = "requests_made (update_request_for demo_host demo_update_cfg ''https://hub:8443/x'')
       [(''https://hub:8443/y'', True), (''https://evil/z'', True)]"
  have t: "map q_Token ?qs = [Some ''tok'', Some ''tok'', None]" "length ?qs = 3" "q_Token (?qs ! 1) = Some ''tok''"
    by code_simp+
  then have "?qs ! 1 \<in> set ?qs" by simp
  from update_token_stays_with_hub [OF this t(3)] t(1) show ?thesis
    unfolding Let_def by blast
qed

end
