(* ===== verification/SelfUpdateInstall.thy ===== *)
theory SelfUpdateInstall
  imports SelfUpdate Prelude
begin

text \<open>
  Installing an update and undoing it: \<open>checkAndApplySelfUpdateWithOptions\<close>
  (\<open>internal/agentcore/self_update.go\<close>), \<open>self_update_rollback.go\<close> and \<open>self_update_unix.go\<close>. The
  disk holds the executable, the binary kept for rollback and the state file; every file operation
  has its outcome as an input. The updater is then a transition system over process starts,
  heartbeats that reach the Hub, health deadlines and updates.
\<close>

section \<open>State\<close>

record update_state =
  us_PendingVersion :: string
  us_Starts :: int
  us_RejectedVersion :: string

definition no_update_state :: update_state where
  "no_update_state = \<lparr>us_PendingVersion = [], us_Starts = 0, us_RejectedVersion = []\<rparr>"

text \<open>\<open>ud_state\<close> is \<open>None\<close> when the state file is absent, unreadable or not JSON.\<close>

record update_disk =
  ud_exe :: string
  ud_previous :: "string option"
  ud_state :: "update_state option"

definition readSelfUpdateState :: "update_disk \<Rightarrow> update_state" where
  "readSelfUpdateState d = (case ud_state d of None \<Rightarrow> no_update_state | Some st \<Rightarrow> st)"

definition writeSelfUpdateState :: "bool \<Rightarrow> update_state \<Rightarrow> update_disk \<Rightarrow> update_disk" where
  "writeSelfUpdateState ok st d =
     (if \<not> ok then d else if st = no_update_state then d\<lparr>ud_state := None\<rparr> else d\<lparr>ud_state := Some st\<rparr>)"

section \<open>Installing\<close>

text \<open>How the trial run ended, and how far a copy of the executable came.\<close>

datatype trial = TrialExit string | TrialOutput string

datatype copy_outcome = CopyOk | CopyUnread | CopyPartial string

record install_io =
  ii_stage :: bool
  ii_trial :: trial
  ii_remove :: bool
  ii_link :: bool
  ii_copy :: copy_outcome
  ii_rename :: bool
  ii_state :: bool

definition trialRunStagedExecutable :: "trial \<Rightarrow> string \<Rightarrow> update_error option" where
  "trialRunStagedExecutable t version =
     (case t of
        TrialExit e \<Rightarrow> Some (TrialFailed e)
      | TrialOutput out \<Rightarrow>
          let want = TrimPrefix (TrimPrefix (TrimSpace version) ''v'') ''V''
          in if want \<noteq> [] \<and> \<not> Contains out want then Some TrialWrongVersion else None)"

text \<open>\<open>os.Link\<close> needs a free name, so it fails when the removal did not work.\<close>

definition kept_binary :: "install_io \<Rightarrow> update_disk \<Rightarrow> string option" where
  "kept_binary io d =
     (let prev = (if ii_remove io then None else ud_previous d)
      in if ii_link io \<and> prev = None then Some (ud_exe d)
         else case ii_copy io of
                CopyOk \<Rightarrow> Some (ud_exe d)
              | CopyUnread \<Rightarrow> prev
              | CopyPartial part \<Rightarrow> Some part)"

definition swapExecutable :: "install_io \<Rightarrow> string \<Rightarrow> update_disk \<Rightarrow> update_error option \<times> update_disk" where
  "swapExecutable io staged d =
     (let d1 = d\<lparr>ud_previous := kept_binary io d\<rparr>
      in if ii_rename io then (None, d1\<lparr>ud_exe := staged\<rparr>) else (Some SwapFailed, d1))"

definition installVerifiedExecutable :: "install_io \<Rightarrow> string \<Rightarrow> string \<Rightarrow> update_disk \<Rightarrow> update_error option \<times> update_disk" where
  "installVerifiedExecutable io binary version d =
     (if \<not> ii_stage io then (Some StageFailed, d)
      else case trialRunStagedExecutable (ii_trial io) version of
             Some e \<Rightarrow> (Some e, d)
           | None \<Rightarrow>
               (case swapExecutable io binary d of
                  (Some e, d1) \<Rightarrow> (Some e, d1)
                | (None, d1) \<Rightarrow>
                    (None, writeSelfUpdateState (ii_state io)
                             ((readSelfUpdateState d1)\<lparr>us_PendingVersion := version, us_Starts := 0\<rparr>) d1)))"

definition rejectedSelfUpdateVersion :: "update_disk \<Rightarrow> string \<Rightarrow> update_error option" where
  "rejectedSelfUpdateVersion d version =
     (let rejected = us_RejectedVersion (readSelfUpdateState d)
      in if rejected \<noteq> [] \<and> EqualFold rejected (TrimSpace version) then Some (VersionRolledBack rejected) else None)"

record check_io =
  ci_executable :: "(string, string) result"
  ci_metadata :: reply
  ci_hashLocal :: "string option"
  ci_download :: reply
  ci_install :: install_io

definition nativeWrapperSelfUpdateMessage :: string where
  "nativeWrapperSelfUpdateMessage = ''self-update is managed by the native LabTether app; update the app instead''"
definition selfUpdateEndpointUnavailableMessage :: string where
  "selfUpdateEndpointUnavailableMessage = ''auto-update endpoint unavailable''"

text \<open>From the accepted metadata to the installed binary: the last part of \<open>checkAndApplySelfUpdateWithOptions\<close>.\<close>

definition apply_release :: "update_host \<Rightarrow> bool \<Rightarrow> check_io \<Rightarrow> release \<Rightarrow> update_disk
    \<Rightarrow> (update_error, bool \<times> string) result \<times> update_disk" where
  "apply_release h force io r d =
     (case ci_hashLocal io of
        Some e \<Rightarrow> (Err (HashLocal e), d)
      | None \<Rightarrow>
          if \<not> force \<and> r_SHA256 r \<noteq> [] \<and> EqualFold (sha256Hex h (ud_exe d)) (r_SHA256 r)
          then (Ok (False, ''agent is already up to date''), d)
          else case (if force then None else rejectedSelfUpdateVersion d (r_Version r)) of
                 Some e \<Rightarrow> (Err e, d)
               | None \<Rightarrow>
                   (case downloadReleaseBinary (r_SizeBytes r) (ci_download io) of
                      Inl e \<Rightarrow> (Err e, d)
                    | Inr binary \<Rightarrow>
                        let downloadSHA = sha256Hex h binary;
                            v = TrimSpace (r_Version r);
                            version = (if v = [] then take 12 downloadSHA else v)
                        in if r_SHA256 r \<noteq> [] \<and> \<not> EqualFold downloadSHA (r_SHA256 r) then (Err ChecksumMismatch, d)
                           else case installVerifiedExecutable (ci_install io) binary version d of
                                  (Some e, d1) \<Rightarrow> (Err e, d1)
                                | (None, d1) \<Rightarrow>
                                    (Ok (True, (if force then ''forced update applied to '' else ''updated agent binary to '') @ version), d1)))"

definition checkAndApplySelfUpdateWithOptions :: "update_host \<Rightarrow> update_cfg \<Rightarrow> bool \<Rightarrow> check_io \<Rightarrow> update_disk
    \<Rightarrow> (update_error, bool \<times> string) result \<times> update_disk" where
  "checkAndApplySelfUpdateWithOptions h cfg force io d =
     (if nativeWrapperSelfUpdateBlocked h [] then (Ok (False, nativeWrapperSelfUpdateMessage), d)
      else let checkURL = normalizeHTTPSURL (allowInsecureTransportOptIn h) (buildAgentReleaseCheckURL h cfg)
           in if checkURL = [] then (Ok (False, selfUpdateEndpointUnavailableMessage), d)
              else case ci_executable io of
                     Inl e \<Rightarrow> (Err (ExecutablePathUnknown e), d)
                   | Inr path \<Rightarrow>
                       if nativeWrapperSelfUpdateBlocked h path then (Ok (False, nativeWrapperSelfUpdateMessage), d)
                       else case fetchReleaseMetadata h checkURL (ci_metadata io) of
                              Inl e \<Rightarrow> (Err e, d)
                            | Inr r \<Rightarrow>
                                if TrimSpace (r_URL r) = [] then (Err MissingDownloadURL, d)
                                else let downloadURL = resolveReleaseDownloadURL checkURL (r_URL r)
                                     in if downloadURL = [] then (Err EmptyDownloadURL, d)
                                        else case validateReleaseMetadata h checkURL downloadURL r of
                                               Some e \<Rightarrow> (Err e, d)
                                             | None \<Rightarrow>
                                                 (case verifyReleaseMetadataSignature h r of
                                                    Some e \<Rightarrow> (Err e, d)
                                                  | None \<Rightarrow>
                                                      (case validateReleaseTarget h cfg r of
                                                         Some e \<Rightarrow> (Err e, d)
                                                       | None \<Rightarrow> apply_release h force io r d)))"

datatype startup_outcome = Proceed | StartupError update_error | ExitForRestart

definition maybeAutoUpdateOnStartup :: "update_host \<Rightarrow> update_cfg \<Rightarrow> check_io \<Rightarrow> update_disk \<Rightarrow> startup_outcome \<times> update_disk" where
  "maybeAutoUpdateOnStartup h cfg io d =
     (if \<not> uc_AutoUpdateEnabled cfg then (Proceed, d)
      else case checkAndApplySelfUpdateWithOptions h cfg False io d of
             (Inl e, d1) \<Rightarrow> (StartupError e, d1)
           | (Inr (updated, _), d1) \<Rightarrow> (if updated then ExitForRestart else Proceed, d1))"

section \<open>Rolling back\<close>

text \<open>A process: its disk, \<open>selfUpdateHealthy\<close>, and whether it asked to exit.\<close>

record update_proc =
  up_disk :: update_disk
  up_healthy :: bool
  up_exited :: bool

record rollback_io =
  ri_executable :: bool
  ri_restore :: bool
  ri_state :: bool

definition selfUpdateMaxUnhealthyStarts :: int where "selfUpdateMaxUnhealthyStarts = 3"

definition rejected_only :: "string \<Rightarrow> update_state" where
  "rejected_only v = no_update_state\<lparr>us_RejectedVersion := v\<rparr>"

definition rollBackSelfUpdate :: "rollback_io \<Rightarrow> update_proc \<Rightarrow> update_proc" where
  "rollBackSelfUpdate io p =
     (let d = up_disk p; st = readSelfUpdateState d
      in if us_PendingVersion st = [] \<or> up_healthy p then p
         else case ud_previous d of
                None \<Rightarrow> p\<lparr>up_disk := writeSelfUpdateState (ri_state io) (rejected_only (us_RejectedVersion st)) d\<rparr>
              | Some old \<Rightarrow>
                  if \<not> ri_restore io then p
                  else p\<lparr>up_disk := writeSelfUpdateState (ri_state io) (rejected_only (us_PendingVersion st))
                                      (d\<lparr>ud_exe := old, ud_previous := None\<rparr>),
                         up_exited := True\<rparr>)"

text \<open>The result is whether the health deadline should be watched.\<close>

definition checkPendingSelfUpdate :: "rollback_io \<Rightarrow> update_proc \<Rightarrow> bool \<times> update_proc" where
  "checkPendingSelfUpdate io p =
     (if \<not> ri_executable io then (False, p)
      else let st = readSelfUpdateState (up_disk p)
           in if us_PendingVersion st = [] then (False, p)
              else let st1 = st\<lparr>us_Starts := us_Starts st + 1\<rparr>
                   in if us_Starts st1 > selfUpdateMaxUnhealthyStarts then (False, rollBackSelfUpdate io p)
                      else (True, p\<lparr>up_disk := writeSelfUpdateState (ri_state io) st1 (up_disk p)\<rparr>))"

text \<open>\<open>watchSelfUpdateHealth\<close> once its timer has fired.\<close>

definition watchSelfUpdateHealth :: "rollback_io \<Rightarrow> update_proc \<Rightarrow> update_proc" where
  "watchSelfUpdateHealth io p =
     (if up_healthy p then p else if \<not> ri_executable io then p else rollBackSelfUpdate io p)"

definition confirmSelfUpdateHealthy :: "rollback_io \<Rightarrow> update_proc \<Rightarrow> update_proc" where
  "confirmSelfUpdateHealthy io p =
     (if up_healthy p then p
      else let p1 = p\<lparr>up_healthy := True\<rparr>
           in if \<not> ri_executable io then p1
              else let st = readSelfUpdateState (up_disk p1)
                   in if us_PendingVersion st = [] then p1
                      else p1\<lparr>up_disk := writeSelfUpdateState (ri_state io) (rejected_only (us_RejectedVersion st)) (up_disk p1)\<rparr>)"

text \<open>The life of the agent between two updates: starts, confirmed heartbeats, expired deadlines.\<close>

datatype life_event = StartUp rollback_io | HubReached rollback_io | DeadlinePassed rollback_io

fun life_apply :: "life_event \<Rightarrow> update_proc \<Rightarrow> update_proc" where
  "life_apply (StartUp io) p = snd (checkPendingSelfUpdate io (p\<lparr>up_healthy := False, up_exited := False\<rparr>))"
| "life_apply (HubReached io) p = (if up_exited p then p else confirmSelfUpdateHealthy io p)"
| "life_apply (DeadlinePassed io) p = (if up_exited p then p else watchSelfUpdateHealth io p)"

fun life_run :: "life_event list \<Rightarrow> update_proc \<Rightarrow> update_proc" where
  "life_run [] p = p"
| "life_run (e # es) p = life_run es (life_apply e p)"

interpretation life: event_run life_apply life_run
  by unfold_locales simp_all

section \<open>What an update was checked against\<close>

lemma read_write_state:
  "readSelfUpdateState (writeSelfUpdateState ok st d) = (if ok then st else readSelfUpdateState d)"
  by (simp add: readSelfUpdateState_def writeSelfUpdateState_def)

lemma write_state_files [simp]:
  "ud_exe (writeSelfUpdateState ok st d) = ud_exe d" "ud_previous (writeSelfUpdateState ok st d) = ud_previous d"
  by (simp_all add: writeSelfUpdateState_def)

lemma read_state_frame [simp]:
  "readSelfUpdateState (d\<lparr>ud_exe := x\<rparr>) = readSelfUpdateState d"
  "readSelfUpdateState (d\<lparr>ud_previous := y\<rparr>) = readSelfUpdateState d"
  by (simp_all add: readSelfUpdateState_def)

lemma install_ok:
  assumes "installVerifiedExecutable io binary version d = (None, d')"
  shows "ud_exe d' = binary \<and> trialRunStagedExecutable (ii_trial io) version = None"
  using assms by (auto simp: installVerifiedExecutable_def swapExecutable_def Let_def split: if_splits option.splits prod.splits)

lemma install_state:
  assumes "installVerifiedExecutable io binary version d = (None, d')"
  shows "d' = writeSelfUpdateState (ii_state io) ((readSelfUpdateState d)\<lparr>us_PendingVersion := version, us_Starts := 0\<rparr>)
     (d\<lparr>ud_previous := kept_binary io d, ud_exe := binary\<rparr>)"
  using assms by (auto simp: installVerifiedExecutable_def swapExecutable_def Let_def split: if_splits option.splits prod.splits)

lemma install_error_keeps_exe:
  assumes "installVerifiedExecutable io binary version d = (Some e, d')"
  shows "ud_exe d' = ud_exe d"
  using assms by (auto simp: installVerifiedExecutable_def swapExecutable_def Let_def split: if_splits option.splits prod.splits)

lemma apply_release_ok:
  assumes "apply_release h force io r d = (Ok (True, msg), d')"
  shows "downloadReleaseBinary (r_SizeBytes r) (ci_download io) = Ok (ud_exe d')
    \<and> (r_SHA256 r \<noteq> [] \<longrightarrow> EqualFold (sha256Hex h (ud_exe d')) (r_SHA256 r))
    \<and> (0 < r_SizeBytes r \<longrightarrow> int (length (ud_exe d')) = r_SizeBytes r)
    \<and> (TrimSpace (r_Version r) \<noteq> [] \<longrightarrow> trialRunStagedExecutable (ii_trial (ci_install io)) (TrimSpace (r_Version r)) = None)
    \<and> (\<not> force \<longrightarrow> rejectedSelfUpdateVersion d (r_Version r) = None)"
  using assms
  by (auto simp: apply_release_def downloadReleaseBinary_def Let_def dest!: install_ok
      split: if_splits option.splits sum.splits prod.splits reply.splits)

lemma apply_release_unchanged:
  assumes "apply_release h force io r d = (res, d')" and "\<forall>msg. res \<noteq> Ok (True, msg)"
  shows "ud_exe d' = ud_exe d"
  using assms by (auto simp: apply_release_def Let_def dest: install_error_keeps_exe
      split: if_splits option.splits sum.splits prod.splits)

lemma check_reaches_apply:
  assumes "checkAndApplySelfUpdateWithOptions h cfg force io d = (res, d')" and "ud_exe d' \<noteq> ud_exe d \<or> (\<exists>msg. res = Ok (True, msg))"
  shows "\<exists>u r. u = normalizeHTTPSURL (allowInsecureTransportOptIn h) (buildAgentReleaseCheckURL h cfg) \<and> u \<noteq> []
    \<and> fetchReleaseMetadata h u (ci_metadata io) = Ok r
    \<and> validateReleaseMetadata h u (resolveReleaseDownloadURL u (r_URL r)) r = None \<and> verifyReleaseMetadataSignature h r = None
    \<and> validateReleaseTarget h cfg r = None \<and> apply_release h force io r d = (res, d')"
  using assms
  by (auto simp: checkAndApplySelfUpdateWithOptions_def Let_def split: if_splits option.splits sum.splits)

lemma EqualFold_hex:
  assumes "EqualFold (sha256Hex h b) s"
  shows "ToLower (TrimSpace s) = sha256Hex h b"
proof -
  have "ToLower s = sha256Hex h b"
    using assms by (simp add: EqualFold_def sha256Hex_def)
  moreover have "TrimSpace (sha256Hex h b) = sha256Hex h b"
  proof (cases "sha256Hex h b = []")
    case False
    then show ?thesis
      unfolding sha256Hex_def by (intro TrimSpace_noop HexEncode_not_space [of _ "h_Sha256 h b"] hd_in_set last_in_set)
  qed (simp add: TrimSpace_def TrimLeft_def TrimRight_def)
  ultimately show ?thesis
    by (metis TrimSpace_ToLower)
qed

section \<open>The health check\<close>

definition works :: "rollback_io \<Rightarrow> bool" where
  "works io \<longleftrightarrow> ri_executable io \<and> ri_restore io \<and> ri_state io"

text \<open>A life without contact to the Hub, in which the file operations work.\<close>

fun unreached :: "life_event \<Rightarrow> bool" where
  "unreached (StartUp io) = works io"
| "unreached (DeadlinePassed io) = works io"
| "unreached (HubReached io) = False"

fun is_start :: "life_event \<Rightarrow> bool" where
  "is_start (StartUp io) = True"
| "is_start _ = False"

definition starts :: "life_event list \<Rightarrow> nat" where
  "starts es = length (filter is_start es)"

definition on_trial :: "string \<Rightarrow> string \<Rightarrow> int \<Rightarrow> update_proc \<Rightarrow> bool" where
  "on_trial v old k p \<longleftrightarrow> v \<noteq> [] \<and> k \<le> selfUpdateMaxUnhealthyStarts \<and> ud_previous (up_disk p) = Some old
     \<and> us_PendingVersion (readSelfUpdateState (up_disk p)) = v \<and> us_Starts (readSelfUpdateState (up_disk p)) = k"

definition rolled_back :: "string \<Rightarrow> string \<Rightarrow> update_proc \<Rightarrow> bool" where
  "rolled_back v old p \<longleftrightarrow> ud_exe (up_disk p) = old \<and> us_PendingVersion (readSelfUpdateState (up_disk p)) = []
     \<and> us_RejectedVersion (readSelfUpdateState (up_disk p)) = v"

lemma rejected_only_fields [simp]: "us_PendingVersion (rejected_only v) = []" "us_RejectedVersion (rejected_only v) = v"
  by (simp_all add: rejected_only_def no_update_state_def)

lemma rollback_on_trial:
  "on_trial v old k p \<Longrightarrow> works io \<Longrightarrow> \<not> up_healthy p \<Longrightarrow> rolled_back v old (rollBackSelfUpdate io p)"
  by (simp add: on_trial_def rolled_back_def rollBackSelfUpdate_def works_def Let_def read_write_state)

lemma rolled_back_stays: "rolled_back v old p \<Longrightarrow> unreached e \<Longrightarrow> rolled_back v old (life_apply e p)"
  by (cases e) (auto simp: rolled_back_def checkPendingSelfUpdate_def watchSelfUpdateHealth_def rollBackSelfUpdate_def Let_def)

lemma on_trial_frame [simp]: "on_trial v old k (p\<lparr>up_healthy := b, up_exited := c\<rparr>) = on_trial v old k p"
  by (simp add: on_trial_def)

lemma on_trial_start:
  assumes "on_trial v old k p" and "works io"
  shows "on_trial v old (k + 1) (life_apply (StartUp io) p) \<or> rolled_back v old (life_apply (StartUp io) p)"
proof (cases "k + 1 > selfUpdateMaxUnhealthyStarts")
  case True
  with assms rollback_on_trial [of v old k "p\<lparr>up_healthy := False, up_exited := False\<rparr>" io] show ?thesis
    by (auto simp: checkPendingSelfUpdate_def on_trial_def works_def Let_def)
next
  case False
  with assms show ?thesis
    by (auto simp: checkPendingSelfUpdate_def on_trial_def works_def Let_def read_write_state)
qed

lemma on_trial_deadline:
  assumes "on_trial v old k p" and "works io"
  shows "on_trial v old k (life_apply (DeadlinePassed io) p) \<or> rolled_back v old (life_apply (DeadlinePassed io) p)"
  using assms rollback_on_trial [OF assms] by (auto simp: watchSelfUpdateHealth_def)

lemma rolled_back_run: "rolled_back v old p \<Longrightarrow> list_all unreached es \<Longrightarrow> rolled_back v old (life_run es p)"
  by (rule life.run_keeps [where ok = unreached]) (simp_all add: rolled_back_stays del: life_apply.simps)

lemma trial_run:
  "on_trial v old k p \<Longrightarrow> list_all unreached es \<Longrightarrow>
     on_trial v old (k + int (starts es)) (life_run es p) \<or> rolled_back v old (life_run es p)"
proof (induction es arbitrary: p k)
  case (Cons e es)
  show ?case
  proof (cases e)
    case (StartUp io)
    with Cons on_trial_start [of v old k p io] rolled_back_run [of v old "life_apply e p" es] show ?thesis
      by (fastforce simp: starts_def algebra_simps simp del: life_apply.simps)
  next
    case (DeadlinePassed io)
    with Cons on_trial_deadline [of v old k p io] rolled_back_run [of v old "life_apply e p" es] show ?thesis
      by (fastforce simp: starts_def simp del: life_apply.simps)
  qed (use Cons in auto)
qed (simp add: starts_def)

text \<open>Once nothing is pending, no event of the agent's life touches the executable.\<close>

definition settled_exe :: "string \<Rightarrow> update_proc \<Rightarrow> bool" where
  "settled_exe x p \<longleftrightarrow> ud_exe (up_disk p) = x \<and> us_PendingVersion (readSelfUpdateState (up_disk p)) = []"

lemma settled_exe_apply: "settled_exe x p \<Longrightarrow> settled_exe x (life_apply e p)"
  by (cases e)
    (auto simp: settled_exe_def checkPendingSelfUpdate_def watchSelfUpdateHealth_def rollBackSelfUpdate_def confirmSelfUpdateHealthy_def Let_def)

lemma settled_exe_run: "settled_exe x p \<Longrightarrow> settled_exe x (life_run es p)"
  by (rule life.run_keeps [where ok = "\<lambda>_. True"]) (simp_all add: settled_exe_apply list_all_iff del: life_apply.simps)

text \<open>
  A copy of the old binary that broke off is still found by the rollback: \<open>swapExecutable\<close> leaves the
  truncated file, and \<open>rollBackSelfUpdate\<close> only tests that it exists.
\<close>

lemma truncated_copy_is_restored:
  assumes "installVerifiedExecutable (io\<lparr>ii_link := False, ii_copy := CopyPartial part, ii_state := True\<rparr>) binary v d = (None, d')"
    and "v \<noteq> []" and "up_disk p = d'" and "\<not> up_healthy p" and "works rio"
  shows "ud_exe (up_disk (rollBackSelfUpdate rio p)) = part"
  using install_state [OF assms(1)] assms(2-)
  by (simp add: kept_binary_def Let_def rollBackSelfUpdate_def works_def read_write_state)

section \<open>Properties\<close>

definition demo_install :: install_io where
  "demo_install = \<lparr>ii_stage = True, ii_trial = TrialOutput ''labtether-agent 1.10.0'', ii_remove = True, ii_link = True,
     ii_copy = CopyUnread, ii_rename = True, ii_state = True\<rparr>"

definition demo_check :: check_io where
  "demo_check = \<lparr>ci_executable = Ok ''/usr/bin/agent'', ci_metadata = Reply 200 9 ''{release}'' None, ci_hashLocal = None,
     ci_download = Reply 200 3 ''new'' None, ci_install = demo_install\<rparr>"

definition demo_disk :: update_disk where
  "demo_disk = \<lparr>ud_exe = ''old'', ud_previous = None, ud_state = None\<rparr>"

definition demo_update_host :: update_host where
  "demo_update_host = demo_host\<lparr>h_Decode := (\<lambda>_. JSONRelease demo_release),
     h_Sha256 := (\<lambda>b. if b = ''new'' then replicate 32 (CHR 0x11) else replicate 32 (CHR 0x22))\<rparr>"

definition demo_rollback :: rollback_io where
  "demo_rollback = \<lparr>ri_executable = True, ri_restore = True, ri_state = True\<rparr>"

text \<open>
  C11. Only a verified binary is ever installed. If a check for updates, forced or not, changes the
  executable, then the bytes now installed were downloaded for a release whose metadata was fetched from
  the check URL and passed every check: it names the SHA-256 digest of exactly these bytes, signed or
  not, is for this operating system and architecture, is not an older version than the running one,
  and gives their size if it gives one. With a trusted key (set in the environment or built in) a
  signature that is valid under it covers version, system, architecture, that digest and the size;
  without one the operator accepted unsigned releases. And the new binary has been run once and
  reported that version.
\<close>

theorem installed_update_is_verified:
  assumes "checkAndApplySelfUpdateWithOptions h cfg force io d = (res, d')" and "ud_exe d' \<noteq> ud_exe d"
  shows "\<exists>checkURL r. checkURL = normalizeHTTPSURL (allowInsecureTransportOptIn h) (buildAgentReleaseCheckURL h cfg)
       \<and> fetchReleaseMetadata h checkURL (ci_metadata io) = Ok r
       \<and> validateReleaseMetadata h checkURL (resolveReleaseDownloadURL checkURL (r_URL r)) r = None
       \<and> downloadReleaseBinary (r_SizeBytes r) (ci_download io) = Ok (ud_exe d')
       \<and> ToLower (TrimSpace (r_SHA256 r)) = sha256Hex h (ud_exe d')
       \<and> (if trustedSelfUpdatePublicKey h = [] then boolEnv h envSelfUpdateAcceptUnsigned False
         else \<exists>key sig. decodeSelfUpdatePublicKey (trustedSelfUpdatePublicKey h) = Some key
           \<and> decodeSelfUpdateSignature (TrimSpace (r_Signature r)) = Some sig
           \<and> h_Verify h key (Join [TrimSpace (r_Version r), TrimSpace (r_OS r), TrimSpace (r_Arch r),
                sha256Hex h (ud_exe d'), Itoa (r_SizeBytes r)] [CHR 0x0A]) sig)
       \<and> validateReleaseTarget h cfg r = None
       \<and> (0 < r_SizeBytes r \<longrightarrow> int (length (ud_exe d')) = r_SizeBytes r)
       \<and> trialRunStagedExecutable (ii_trial (ci_install io)) (TrimSpace (r_Version r)) = None"
proof -
  obtain u r where r: "u = normalizeHTTPSURL (allowInsecureTransportOptIn h) (buildAgentReleaseCheckURL h cfg)"
      "fetchReleaseMetadata h u (ci_metadata io) = Ok r"
      "validateReleaseMetadata h u (resolveReleaseDownloadURL u (r_URL r)) r = None" "verifyReleaseMetadataSignature h r = None"
      "validateReleaseTarget h cfg r = None" "apply_release h force io r d = (res, d')"
    using check_reaches_apply [OF assms(1)] assms(2) by blast
  then obtain msg where ok: "apply_release h force io r d = (Ok (True, msg), d')"
    using apply_release_unchanged [OF r(6)] assms(2) by metis
  have v: "r_SHA256 r \<noteq> []" "TrimSpace (r_Version r) \<noteq> []"
    using r(3) by (auto simp: validateReleaseMetadata_def Let_def ToLower_def TrimSpace_def TrimLeft_def TrimRight_def split: if_splits)
  have sha: "ToLower (TrimSpace (r_SHA256 r)) = sha256Hex h (ud_exe d')"
    using apply_release_ok [OF ok] v(1) by (blast intro: EqualFold_hex)
  have signed: "if trustedSelfUpdatePublicKey h = [] then boolEnv h envSelfUpdateAcceptUnsigned False
         else \<exists>key sig. decodeSelfUpdatePublicKey (trustedSelfUpdatePublicKey h) = Some key
           \<and> decodeSelfUpdateSignature (TrimSpace (r_Signature r)) = Some sig
           \<and> h_Verify h key (Join [TrimSpace (r_Version r), TrimSpace (r_OS r), TrimSpace (r_Arch r),
                sha256Hex h (ud_exe d'), Itoa (r_SizeBytes r)] [CHR 0x0A]) sig"
    using r(4) by (auto simp: verifyReleaseMetadataSignature_def selfUpdateSignaturePayload_def sha Let_def split: if_splits option.splits)
  show ?thesis
    using r(1,2,3,5) sha signed apply_release_ok [OF ok] v(2) by blast
qed

theorem installed_update_is_verified_witness:
  "(let (res, d') = checkAndApplySelfUpdateWithOptions demo_update_host demo_update_cfg False demo_check demo_disk
    in res = Ok (True, ''updated agent binary to v1.10.0'') \<and> ud_exe d' = ''new''
       \<and> (\<exists>(r :: release) key sig. h_Verify demo_update_host key (Join [TrimSpace (r_Version r), TrimSpace (r_OS r), TrimSpace (r_Arch r),
                sha256Hex demo_update_host ''new'', Itoa (r_SizeBytes r)] [CHR 0x0A]) sig))"
proof -
  let ?run = "checkAndApplySelfUpdateWithOptions demo_update_host (demo_update_cfg) False demo_check demo_disk"
  obtain res d' where run: "?run = (res, d')" by (cases ?run)
  have "fst ?run = Ok (True, ''updated agent binary to v1.10.0'')" "ud_exe (snd ?run) = ''new''" "ud_exe demo_disk = ''old''"
    "trustedSelfUpdatePublicKey demo_update_host \<noteq> []"
    by code_simp+
  with run have res: "res = Ok (True, ''updated agent binary to v1.10.0'')" "ud_exe d' = ''new''" "ud_exe d' \<noteq> ud_exe demo_disk"
    and key: "trustedSelfUpdatePublicKey demo_update_host \<noteq> []"
    by simp_all
  have "\<exists>(r :: release) key sig. h_Verify demo_update_host key (Join [TrimSpace (r_Version r), TrimSpace (r_OS r), TrimSpace (r_Arch r),
                sha256Hex demo_update_host ''new'', Itoa (r_SizeBytes r)] [CHR 0x0A]) sig"
    using installed_update_is_verified [OF run res(3)] unfolding res(2) if_not_P [OF key] by blast
  with run res show ?thesis by simp
qed

text \<open>
  C17. An update that never reaches the Hub is undone. After an install that kept the old binary and
  recorded the pending version, take any sequence of process starts and expired health deadlines
  in which no heartbeat reaches the Hub and the file operations work. At the fourth start at the
  latest the old binary is back, and from then on an unforced update to that version is refused.
\<close>

theorem unhealthy_update_rolls_back:
  assumes "installVerifiedExecutable io binary (TrimSpace v) d = (None, d')" and "TrimSpace v \<noteq> []"
    and "ii_remove io" and "ii_link io" and "ii_state io"
    and "up_disk p = d'" and "list_all unreached es" and "4 \<le> starts es"
  shows "ud_exe (up_disk (life_run es p)) = ud_exe d
    \<and> rejectedSelfUpdateVersion (up_disk (life_run es p)) v = Some (VersionRolledBack (TrimSpace v))"
proof -
  have "on_trial (TrimSpace v) (ud_exe d) 0 p"
    using install_state [OF assms(1)] assms(2-6)
    by (simp add: on_trial_def kept_binary_def read_write_state selfUpdateMaxUnhealthyStarts_def)
  from trial_run [OF this assms(7)] assms(8) have "rolled_back (TrimSpace v) (ud_exe d) (life_run es p)"
    by (auto simp: on_trial_def selfUpdateMaxUnhealthyStarts_def)
  with assms(2) show ?thesis
    by (simp add: rolled_back_def rejectedSelfUpdateVersion_def Let_def)
qed

theorem unhealthy_update_rolls_back_witness:
  "(let d' = snd (installVerifiedExecutable demo_install ''new'' (TrimSpace ''1.10.0'') demo_disk);
        p = life_run (replicate 4 (StartUp demo_rollback)) \<lparr>up_disk = d', up_healthy = True, up_exited = True\<rparr>
    in ud_exe d' = ''new'' \<and> ud_exe (up_disk p) = ''old'')"
proof -
  let ?d' = "snd (installVerifiedExecutable demo_install ''new'' (TrimSpace ''1.10.0'') demo_disk)"
  let ?p = "\<lparr>up_disk = ?d', up_healthy = True, up_exited = True\<rparr>"
  have i: "installVerifiedExecutable demo_install ''new'' (TrimSpace ''1.10.0'') demo_disk = (None, ?d')"
    by (rule prod_eqI; code_simp)
  have "TrimSpace ''1.10.0'' \<noteq> []" "ii_remove demo_install" "ii_link demo_install" "ii_state demo_install" "ud_exe ?d' = ''new''"
    "list_all unreached (replicate 4 (StartUp demo_rollback))" "4 \<le> starts (replicate 4 (StartUp demo_rollback))"
    by code_simp+
  with unhealthy_update_rolls_back [OF i, of ?p "replicate 4 (StartUp demo_rollback)"] show ?thesis
    by (simp add: Let_def demo_disk_def)
qed

text \<open>
  An update that reached the Hub is kept. Once a heartbeat of the new process got through and
  the pending record could be cleared, no later sequence of starts, deadlines and heartbeats,
  whatever file operations fail, replaces the executable.
\<close>

theorem confirmed_update_is_kept:
  assumes "\<not> up_healthy p" and "\<not> up_exited p" and "works io"
  shows "ud_exe (up_disk (life_run (HubReached io # es) p)) = ud_exe (up_disk p)"
proof -
  have "settled_exe (ud_exe (up_disk p)) (life_apply (HubReached io) p)"
    using assms by (auto simp: settled_exe_def confirmSelfUpdateHealthy_def works_def Let_def read_write_state)
  from settled_exe_run [OF this, of es] show ?thesis
    by (simp add: settled_exe_def)
qed

theorem confirmed_update_is_kept_witness:
  "(let d' = snd (installVerifiedExecutable demo_install ''new'' ''1.10.0'' demo_disk);
        p = \<lparr>up_disk = d', up_healthy = False, up_exited = False\<rparr>
    in us_PendingVersion (readSelfUpdateState d') = ''1.10.0''
       \<and> ud_exe (up_disk (life_run (HubReached demo_rollback # replicate 5 (StartUp demo_rollback)) p)) = ''new'')"
proof -
  let ?d' = "snd (installVerifiedExecutable demo_install ''new'' ''1.10.0'' demo_disk)"
  let ?p = "\<lparr>up_disk = ?d', up_healthy = False, up_exited = False\<rparr>"
  have d: "us_PendingVersion (readSelfUpdateState ?d') = ''1.10.0''" "ud_exe ?d' = ''new''" "works demo_rollback"
    by code_simp+
  show ?thesis
    using confirmed_update_is_kept [of ?p demo_rollback "replicate 5 (StartUp demo_rollback)"] d by (simp add: Let_def)
qed

end
