(* ===== verification/GoNet.thy ===== *)
theory GoNet
  imports GoURL
begin

text \<open>
  The part of Go's package \<open>net\<close> the outbound policy uses: \<open>ParseIP\<close>, \<open>ParseCIDR\<close> with \<open>Contains\<close>,
  \<open>SplitHostPort\<close> and the address classes. An address is its eight 16-bit groups; as in Go, an IPv4
  address is the same value as its IPv4-mapped IPv6 form. Numbers are \<open>int\<close> so that they compute.
\<close>

type_synonym ip = "int list"

definition mapped_prefix :: ip where
  "mapped_prefix = [0, 0, 0, 0, 0, 65535]"

definition IPv4 :: "int \<Rightarrow> int \<Rightarrow> int \<Rightarrow> int \<Rightarrow> ip" where
  "IPv4 a b c d = mapped_prefix @ [a * 256 + b, c * 256 + d]"

definition is_v4 :: "ip \<Rightarrow> bool" where
  "is_v4 p \<longleftrightarrow> take 6 p = mapped_prefix"

definition octet :: "ip \<Rightarrow> nat \<Rightarrow> int" where
  "octet p i = (let g = p ! (i div 2) in if even i then g div 256 else g mod 256)"

section \<open>Address classes\<close>

definition IsLoopback :: "ip \<Rightarrow> bool" where
  "IsLoopback p = (if is_v4 p then octet p 12 = 127 else p = [0, 0, 0, 0, 0, 0, 0, 1])"

definition IsPrivate :: "ip \<Rightarrow> bool" where
  "IsPrivate p =
     (if is_v4 p then octet p 12 = 10 \<or> (octet p 12 = 172 \<and> octet p 13 div 16 = 1) \<or> (octet p 12 = 192 \<and> octet p 13 = 168)
      else octet p 0 div 2 = 126)"

definition IsLinkLocalUnicast :: "ip \<Rightarrow> bool" where
  "IsLinkLocalUnicast p =
     (if is_v4 p then octet p 12 = 169 \<and> octet p 13 = 254 else octet p 0 = 254 \<and> octet p 1 div 64 = 2)"

definition IsLinkLocalMulticast :: "ip \<Rightarrow> bool" where
  "IsLinkLocalMulticast p =
     (if is_v4 p then octet p 12 = 224 \<and> octet p 13 = 0 \<and> octet p 14 = 0 else octet p 0 = 255 \<and> octet p 1 mod 16 = 2)"

definition IsUnspecified :: "ip \<Rightarrow> bool" where
  "IsUnspecified p \<longleftrightarrow> p = IPv4 0 0 0 0 \<or> p = [0, 0, 0, 0, 0, 0, 0, 0]"

section \<open>Parsing addresses\<close>

fun position :: "char \<Rightarrow> string \<Rightarrow> int option" where
  "position c [] = None"
| "position c (x # xs) = (if x = c then Some 0 else map_option (\<lambda>n. n + 1) (position c xs))"

definition hex_value :: "char \<Rightarrow> int option" where
  "hex_value c = position (lower_char c) ''0123456789abcdef''"

definition dec_value :: "string \<Rightarrow> int" where
  "dec_value s = foldl (\<lambda>n c. n * 10 + (case hex_value c of None \<Rightarrow> 0 | Some d \<Rightarrow> d)) 0 s"

text \<open>A field of a dotted quad: one to three digits, no leading zero, at most 255.\<close>

definition parse_octet :: "string \<Rightarrow> int option" where
  "parse_octet s =
     (if s = [] \<or> length s > 3 \<or> \<not> list_all is_digit s \<or> (length s > 1 \<and> hd s = CHR ''0'') \<or> dec_value s > 255 then None
      else Some (dec_value s))"

definition parseIPv4 :: "string \<Rightarrow> (int \<times> int \<times> int \<times> int) option" where
  "parseIPv4 s =
     (case map parse_octet (SplitByte (CHR ''.'') s) of
        [Some a, Some b, Some c, Some d] \<Rightarrow> Some (a, b, c, d)
      | _ \<Rightarrow> None)"

fun hex_run :: "string \<Rightarrow> int list \<times> string" where
  "hex_run [] = ([], [])"
| "hex_run (c # s) =
     (case hex_value c of None \<Rightarrow> ([], c # s) | Some d \<Rightarrow> (let (ds, rest) = hex_run s in (d # ds, rest)))"

text \<open>
  The groups still to read are counted down by \<open>k\<close>; \<open>gs\<close> are those read and \<open>ell\<close> the place of the
  double colon. The result is the groups, that place, and the text left over.
\<close>

fun parse_groups :: "nat \<Rightarrow> int list \<Rightarrow> nat option \<Rightarrow> string \<Rightarrow> (int list \<times> nat option \<times> string) option" where
  "parse_groups 0 gs ell s = Some (gs, ell, s)"
| "parse_groups (Suc k) gs ell s =
     (case hex_run s of (ds, rest) \<Rightarrow>
        if ds = [] \<or> length ds > 4 then None
        else if HasPrefix rest ''.'' then
          (if (ell = None \<and> length gs \<noteq> 6) \<or> length gs > 6 then None
           else case parseIPv4 s of
                  None \<Rightarrow> None
                | Some (a, b, c, d) \<Rightarrow> Some (gs @ [a * 256 + b, c * 256 + d], ell, []))
        else
          let gs1 = gs @ [foldl (\<lambda>n d. n * 16 + d) 0 ds]
          in if rest = [] then Some (gs1, ell, [])
             else if hd rest \<noteq> CHR '':'' \<or> tl rest = [] then None
             else if hd (tl rest) = CHR '':'' then
               (if ell \<noteq> None then None
                else if tl (tl rest) = [] then Some (gs1, Some (length gs1), [])
                else parse_groups k gs1 (Some (length gs1)) (tl (tl rest)))
             else parse_groups k gs1 ell (tl rest))"

definition expand_groups :: "int list \<times> nat option \<times> string \<Rightarrow> ip option" where
  "expand_groups r =
     (case r of (gs, ell, rest) \<Rightarrow>
        if rest \<noteq> [] then None
        else if length gs < 8 then
          (case ell of None \<Rightarrow> None | Some e \<Rightarrow> Some (take e gs @ replicate (8 - length gs) 0 @ drop e gs))
        else if ell \<noteq> None then None else Some gs)"

definition parseIPv6 :: "string \<Rightarrow> ip option" where
  "parseIPv6 s =
     (if HasPrefix s ''::'' then
        (if s = ''::'' then Some (replicate 8 0)
         else case parse_groups 8 [] (Some 0) (drop 2 s) of None \<Rightarrow> None | Some r \<Rightarrow> expand_groups r)
      else case parse_groups 8 [] None s of None \<Rightarrow> None | Some r \<Rightarrow> expand_groups r)"

text \<open>The first of \<open>.\<close>, \<open>:\<close> and \<open>%\<close> decides the form; \<open>ParseIP\<close> takes no zone.\<close>

definition ParseIP :: "string \<Rightarrow> ip option" where
  "ParseIP s =
     (case dropWhile (\<lambda>c. c \<noteq> CHR ''.'' \<and> c \<noteq> CHR '':'' \<and> c \<noteq> CHR ''%'') s of
        [] \<Rightarrow> None
      | c # _ \<Rightarrow>
          if c = CHR ''.'' then (case parseIPv4 s of None \<Rightarrow> None | Some (a, b, c, d) \<Rightarrow> Some (IPv4 a b c d))
          else if c = CHR '':'' \<and> CHR ''%'' \<notin> set s then parseIPv6 s
          else None)"

section \<open>Networks\<close>

fun bits_of :: "nat \<Rightarrow> int \<Rightarrow> bool list" where
  "bits_of 0 g = []"
| "bits_of (Suc n) g = bits_of n (g div 2) @ [g mod 2 = 1]"

definition ip_bits :: "ip \<Rightarrow> bool list" where
  "ip_bits p = concat (map (bits_of 16) p)"

text \<open>A network: its address and its prefix length, counted in the 128-bit form.\<close>

definition ParseCIDR :: "string \<Rightarrow> (ip \<times> nat) option" where
  "ParseCIDR s =
     (if CHR ''/'' \<notin> set s then None
      else let (addr, mask) = CutByte (CHR ''/'') s; width = (if CHR '':'' \<in> set addr then 128 else 32); n = dec_value mask
           in case ParseIP addr of
                None \<Rightarrow> None
              | Some p \<Rightarrow>
                  if mask = [] \<or> \<not> list_all is_digit mask \<or> n > width then None
                  else Some (p, nat (n + (128 - width))))"

definition NetContains :: "ip \<times> nat \<Rightarrow> ip \<Rightarrow> bool" where
  "NetContains net p =
     (if snd net < 96 \<and> is_v4 p then False else take (snd net) (ip_bits p) = take (snd net) (ip_bits (fst net)))"

section \<open>Host and port\<close>

definition SplitHostPort :: "string \<Rightarrow> (string \<times> string) option" where
  "SplitHostPort hp =
     (case cut_last (CHR '':'') hp of
        None \<Rightarrow> None
      | Some (pre, port) \<Rightarrow>
          if HasPrefix hp ''['' then
            (let (inside, after) = CutByte (CHR '']'') hp
             in if CHR '']'' \<notin> set hp \<or> after = [] \<or> inside @ '']'' \<noteq> pre then None
                else if CHR ''['' \<in> set (tl hp) \<or> CHR '']'' \<in> set after then None
                else Some (tl inside, port))
          else if CHR '':'' \<in> set pre \<or> CHR ''['' \<in> set hp \<or> CHR '']'' \<in> set hp then None
          else Some (pre, port))"

section \<open>Lemmas\<close>

lemma parse_octet_range: "parse_octet s = Some n \<Longrightarrow> n \<le> 255"
  by (auto simp: parse_octet_def split: if_splits)

lemma is_v4_IPv4 [simp]: "is_v4 (IPv4 a b c d)"
  by (simp add: is_v4_def IPv4_def mapped_prefix_def)

lemma octet_IPv4 [simp]:
  assumes "0 \<le> b" "b < 256" "0 \<le> d" "d < 256"
  shows "octet (IPv4 a b c d) 12 = a" "octet (IPv4 a b c d) 13 = b" "octet (IPv4 a b c d) 14 = c" "octet (IPv4 a b c d) 15 = d"
  using assms by (simp_all add: octet_def IPv4_def mapped_prefix_def Let_def)

end
