(* ===== verification/CommandLine.thy ===== *)
theory CommandLine
  imports GoPath
begin

text \<open>
  The command-line parser and allowlist rule matcher of
  \<open>internal/securityruntime/command_parse.go\<close>. Go ranges over the runes of a string, and a byte that
  is not part of valid UTF-8 is the rune U+FFFD; \<open>runes\<close> is that range, with every rune given by its
  UTF-8 encoding. \<open>EqualFoldRunes\<close> is \<open>strings.EqualFold\<close>: two runes beyond ASCII fold to ASCII letters
  (U+017F to \<open>s\<close>, U+212A to \<open>k\<close>); the case pairs among runes beyond ASCII are outside the model, so it is
  exact when one of the two strings is ASCII.
\<close>

section \<open>Runes\<close>

type_synonym rune = string

definition rune_error :: rune where
  "rune_error = [CHR 0xEF, CHR 0xBF, CHR 0xBD]"

definition byte_in :: "nat \<Rightarrow> nat \<Rightarrow> char \<Rightarrow> bool" where
  "byte_in lo hi c \<longleftrightarrow> lo \<le> of_char c \<and> of_char c \<le> hi"

abbreviation continuation :: "char \<Rightarrow> bool" where
  "continuation \<equiv> byte_in 0x80 0xBF"

text \<open>The length of the UTF-8 sequence at the start of a string, 0 when it is not valid there.\<close>

definition rune_len :: "string \<Rightarrow> nat" where
  "rune_len s =
     (case s of
        [] \<Rightarrow> 0
      | a # s' \<Rightarrow>
          if is_ascii a then 1
          else case s' of
            [] \<Rightarrow> 0
          | b # s'' \<Rightarrow>
              if byte_in 0xC2 0xDF a \<and> continuation b then 2
              else case s'' of
                [] \<Rightarrow> 0
              | c # s3 \<Rightarrow>
                  if (byte_in 0xE0 0xE0 a \<and> byte_in 0xA0 0xBF b \<or> byte_in 0xED 0xED a \<and> byte_in 0x80 0x9F b
                      \<or> (byte_in 0xE1 0xEC a \<or> byte_in 0xEE 0xEF a) \<and> continuation b) \<and> continuation c then 3
                  else case s3 of
                    [] \<Rightarrow> 0
                  | d # s4 \<Rightarrow>
                      if (byte_in 0xF0 0xF0 a \<and> byte_in 0x90 0xBF b \<or> byte_in 0xF1 0xF3 a \<and> continuation b
                          \<or> byte_in 0xF4 0xF4 a \<and> byte_in 0x80 0x8F b) \<and> continuation c \<and> continuation d then 4 else 0)"

function runes :: "string \<Rightarrow> rune list" where
  "runes [] = []"
| "runes (a # s) =
     (case rune_len (a # s) of
        0 \<Rightarrow> rune_error # runes s
      | Suc n \<Rightarrow> (a # take n s) # runes (drop n s))"
  by pat_completeness auto
termination
  by (relation "measure length") auto

definition valid_utf8 :: "string \<Rightarrow> bool" where
  "valid_utf8 s \<longleftrightarrow> concat (runes s) = s"

definition fold_rune :: "rune \<Rightarrow> rune" where
  "fold_rune r =
     (if r = [CHR 0xC5, CHR 0xBF] then ''s'' else if r = [CHR 0xE2, CHR 0x84, CHR 0xAA] then ''k'' else ToLower r)"

definition EqualFoldRunes :: "string \<Rightarrow> string \<Rightarrow> bool" where
  "EqualFoldRunes s t \<longleftrightarrow> map fold_rune (runes s) = map fold_rune (runes t)"

section \<open>Errors\<close>

datatype policy_error =
    CommandTooLong | CommandNul | CommandMultiline | ShellOperator rune
  | IncompleteEscape | UnterminatedQuote | CommandRequired
  | CmdEchoLimited | CmdEchoEmpty | CmdEchoChars
  | ExecBlocked string | ExecAllowlistOff string | ExecNotAllowlisted string
  | ShellBlocked | ShellAllowlistOff | ShellNotAllowlisted
  | JournalctlChanges string | GrepRecursive | ReadProtected string

section \<open>Names\<close>

definition normalizeExecutableName :: "string \<Rightarrow> string" where
  "normalizeExecutableName name =
     (let trimmed = TrimSpace name
      in if trimmed = [] then []
         else let trimmed = TrimSpace (Base (ReplaceByte (CHR 0x5C) slash trimmed))
              in if trimmed = [] then []
                 else let normalized = ToLower trimmed
                      in if HasSuffix normalized ''.exe'' then TrimSuffix normalized ''.exe''
                         else normalized)"

definition normalizeShellCommand :: "string \<Rightarrow> string" where
  "normalizeShellCommand raw =
     (let parts = Fields (ToLower (TrimSpace raw)) in if parts = [] then [] else Join parts '' '')"

section \<open>The parser\<close>

record parse_state =
  ps_args :: "string list"
  ps_current :: string
  ps_quote :: "rune option"
  ps_escaped :: bool
  ps_haveToken :: bool

definition parse_init :: parse_state where
  "parse_init = \<lparr>ps_args = [], ps_current = [], ps_quote = None, ps_escaped = False, ps_haveToken = False\<rparr>"

definition parse_flush :: "parse_state \<Rightarrow> parse_state" where
  "parse_flush s =
     (if ps_haveToken s
      then s\<lparr>ps_args := ps_args s @ [ps_current s], ps_current := [], ps_haveToken := False\<rparr>
      else s)"

definition parse_write :: "rune \<Rightarrow> parse_state \<Rightarrow> parse_state" where
  "parse_write r s = s\<lparr>ps_current := ps_current s @ r, ps_haveToken := True\<rparr>"

definition is_newline :: "rune \<Rightarrow> bool" where
  "is_newline r \<longleftrightarrow> r = [CHR 0x0A] \<or> r = [CHR 0x0D]"

abbreviation backslash :: char where "backslash \<equiv> CHR 0x5C"
abbreviation dquote :: char where "dquote \<equiv> CHR 0x22"
abbreviation squote :: char where "squote \<equiv> CHR 0x27"

definition is_operator :: "rune \<Rightarrow> bool" where
  "is_operator r \<longleftrightarrow> r \<in> set ['';'', ''|'', ''&'', ''<'', ''>'', [CHR 0x60]]"

definition parse_step :: "rune \<Rightarrow> parse_state \<Rightarrow> (policy_error, parse_state) result" where
  "parse_step r s =
     (if ps_escaped s then
        (if is_newline r then Err CommandMultiline
         else Ok ((parse_write r s)\<lparr>ps_escaped := False\<rparr>))
      else case ps_quote s of
        Some q \<Rightarrow>
          (if r = q then Ok (s\<lparr>ps_quote := None, ps_haveToken := True\<rparr>)
           else if r = [backslash] \<and> q = [dquote] then Ok (s\<lparr>ps_escaped := True\<rparr>)
           else if is_newline r then Err CommandMultiline
           else Ok (parse_write r s))
      | None \<Rightarrow>
          (if r = [squote] \<or> r = [dquote] then Ok (s\<lparr>ps_quote := Some r, ps_haveToken := True\<rparr>)
           else if r = [backslash] then Ok (s\<lparr>ps_escaped := True, ps_haveToken := True\<rparr>)
           else if r = [CHR 0x20] \<or> r = [CHR 0x09] then Ok (parse_flush s)
           else if is_newline r then Err CommandMultiline
           else if is_operator r then Err (ShellOperator r)
           else Ok (parse_write r s)))"

fun parse_loop :: "rune list \<Rightarrow> parse_state \<Rightarrow> (policy_error, parse_state) result" where
  "parse_loop [] s = Ok s"
| "parse_loop (r # rs) s =
     (case parse_step r s of Inl e \<Rightarrow> Err e | Inr s' \<Rightarrow> parse_loop rs s')"

definition maxCommandBytes :: nat where "maxCommandBytes = 64 * 1024"

definition parse_finish :: "parse_state \<Rightarrow> (policy_error, string list) result" where
  "parse_finish s =
     (if ps_escaped s then Err IncompleteEscape
      else if ps_quote s \<noteq> None then Err UnterminatedQuote
      else case ps_args (parse_flush s) of
             [] \<Rightarrow> Err CommandRequired
           | a # as \<Rightarrow> if TrimSpace a = [] then Err CommandRequired else Ok (a # as))"

definition ParseCommandLine :: "string \<Rightarrow> (policy_error, string list) result" where
  "ParseCommandLine raw =
     (if maxCommandBytes < length raw then Err CommandTooLong
      else if IndexByte raw (CHR 0x00) \<noteq> None then Err CommandNul
      else case parse_loop (runes raw) parse_init of
             Inl e \<Rightarrow> Err e
           | Inr s \<Rightarrow> parse_finish s)"

text \<open>The same with the bound compared as an integer, so that closed terms evaluate quickly.\<close>

lemma ParseCommandLine_code [code]:
  "ParseCommandLine raw =
     (if 65536 < int (length raw) then Err CommandTooLong
      else if IndexByte raw (CHR 0x00) \<noteq> None then Err CommandNul
      else case parse_loop (runes raw) parse_init of Inl e \<Rightarrow> Err e | Inr s \<Rightarrow> parse_finish s)"
  by (simp add: ParseCommandLine_def maxCommandBytes_def)

section \<open>Allowlist rules\<close>

fun args_fold_eq :: "string list \<Rightarrow> string list \<Rightarrow> bool" where
  "args_fold_eq (a # as) (p # ps) \<longleftrightarrow> EqualFoldRunes a p \<and> args_fold_eq as ps"
| "args_fold_eq as [] \<longleftrightarrow> True"
| "args_fold_eq [] (p # ps) \<longleftrightarrow> False"

definition commandArgsHavePrefix :: "string list \<Rightarrow> string list \<Rightarrow> bool" where
  "commandArgsHavePrefix args prefixArgs \<longleftrightarrow>
     prefixArgs \<noteq> [] \<and> length prefixArgs \<le> length args \<and> args_fold_eq args prefixArgs"

definition interpreters :: "string list" where
  "interpreters = [''sh'', ''bash'', ''zsh'', ''dash'', ''ash'', ''cmd'', ''powershell'', ''pwsh'', ''osascript'']"

definition isCommandInterpreter :: "string \<Rightarrow> bool" where
  "isCommandInterpreter program \<longleftrightarrow> normalizeExecutableName program \<in> set interpreters"

definition echo_char :: "char \<Rightarrow> bool" where
  "echo_char c \<longleftrightarrow> is_alnum c \<or> c \<in> set [CHR ''.'', CHR ''_'', CHR ''-'', CHR '':'']"

fun echo_values :: "string list \<Rightarrow> (policy_error, unit) result" where
  "echo_values [] = Ok ()"
| "echo_values (a # as) =
     (if a = [] then Err CmdEchoEmpty
      else if \<not> list_all echo_char a then Err CmdEchoChars
      else echo_values as)"

definition validateWindowsCmdEcho :: "string list \<Rightarrow> (policy_error, unit) result" where
  "validateWindowsCmdEcho args =
     (if length args < 4 \<or> normalizeExecutableName (args ! 0) \<noteq> ''cmd''
         \<or> \<not> EqualFoldRunes (args ! 1) ''/c'' \<or> \<not> EqualFoldRunes (args ! 2) ''echo''
      then Err CmdEchoLimited
      else echo_values (drop 3 args))"

text \<open>A rule that matches may still reject its values, so the result is a match or an error.\<close>

definition shellRuleMatches :: "string list \<Rightarrow> string \<Rightarrow> (policy_error, bool) result" where
  "shellRuleMatches args rule0 =
     (let rule = TrimSpace rule0;
          exact = HasPrefix rule ''=''
      in case ParseCommandLine (TrimPrefix rule ''='') of
           Inl _ \<Rightarrow> Ok False
         | Inr ruleArgs \<Rightarrow>
             if \<not> commandArgsHavePrefix args ruleArgs then Ok False
             else if \<not> exact \<and> 3 \<le> length ruleArgs \<and> normalizeExecutableName (ruleArgs ! 0) = ''cmd''
                  \<and> EqualFoldRunes (ruleArgs ! 1) ''/c'' \<and> EqualFoldRunes (ruleArgs ! 2) ''echo''
             then (case validateWindowsCmdEcho args of Inl e \<Rightarrow> Err e | Inr _ \<Rightarrow> Ok True)
             else if length args \<noteq> length ruleArgs \<and> (exact \<or> isCommandInterpreter (ruleArgs ! 0))
             then Ok False
             else Ok True)"

definition containsCommandToken :: "string \<Rightarrow> string \<Rightarrow> bool" where
  "containsCommandToken normalizedCmd token \<longleftrightarrow> token \<in> set (Fields normalizedCmd)"

section \<open>Names and case\<close>

lemma Base_ToLower: "Base (ToLower p) = ToLower (Base p)"
proof -
  have f: "lower_char c = slash \<longleftrightarrow> c = slash" for c by (rule lower_char_eq_iff) simp
  then have "(\<lambda>c. c = slash) \<circ> lower_char = (\<lambda>c. c = slash)" "(\<lambda>c. c \<noteq> slash) \<circ> lower_char = (\<lambda>c. c \<noteq> slash)"
    by (auto simp: fun_eq_iff)
  moreover have "ToLower dot = dot" "ToLower ''/'' = ''/''" by code_simp+
  ultimately show ?thesis
    unfolding Base_def TrimRight_def ToLower_def Let_def
    by (simp add: dropWhile_map takeWhile_map rev_map)
qed

lemma ReplaceByte_ToLower: "ReplaceByte backslash slash (ToLower s) = ToLower (ReplaceByte backslash slash s)"
proof -
  have "lower_char c = CHR 0x5C \<longleftrightarrow> c = CHR 0x5C" for c
  proof (cases "65 \<le> (of_char c :: nat) \<and> of_char c \<le> (90 :: nat)")
    case True
    then have "of_char (lower_char c) = of_char c + (32 :: nat)" by (simp add: lower_char_def Let_def)
    with True show ?thesis by auto
  qed (auto simp: lower_char_def Let_def)
  moreover have "lower_char slash = slash" by code_simp
  ultimately show ?thesis by (simp add: ReplaceByte_def ToLower_def)
qed

lemma normalizeExecutableName_ToLower: "normalizeExecutableName (ToLower s) = normalizeExecutableName s"
  unfolding normalizeExecutableName_def
  by (simp add: TrimSpace_ToLower ReplaceByte_ToLower Base_ToLower)

lemma normalizeExecutableName_fold: "EqualFold a b \<Longrightarrow> normalizeExecutableName a = normalizeExecutableName b"
  unfolding EqualFold_def by (metis normalizeExecutableName_ToLower)

section \<open>What the parser accepts\<close>

text \<open>The bytes collected so far, in order.\<close>

definition ps_content :: "parse_state \<Rightarrow> string" where
  "ps_content s = concat (ps_args s) @ ps_current s"

lemma ps_content_flush [simp]: "ps_content (parse_flush s) = ps_content s"
  by (simp add: ps_content_def parse_flush_def)

lemma ps_content_write [simp]: "ps_content (parse_write r s) = ps_content s @ r"
  by (simp add: ps_content_def parse_write_def)

lemma ps_content_simps [simp]:
  "ps_content (s\<lparr>ps_escaped := b\<rparr>) = ps_content s"
  "ps_content (s\<lparr>ps_haveToken := b\<rparr>) = ps_content s"
  "ps_content (s\<lparr>ps_quote := q\<rparr>) = ps_content s"
  by (simp_all add: ps_content_def)

lemma parse_step_content:
  "parse_step r s = Ok s' \<Longrightarrow> ps_content s' = ps_content s \<or> ps_content s' = ps_content s @ r"
  by (auto simp: parse_step_def split: if_splits option.splits)

lemma parse_step_newline: "parse_step r s = Ok s' \<Longrightarrow> ps_quote s \<noteq> Some r \<Longrightarrow> \<not> is_newline r"
  by (auto simp: parse_step_def is_newline_def split: if_splits option.splits)

lemma parse_step_quote:
  "parse_step r s = Ok s' \<Longrightarrow> ps_quote s \<in> {None, Some [squote], Some [dquote]} \<Longrightarrow>
     ps_quote s' \<in> {None, Some [squote], Some [dquote]}"
  by (cases "ps_escaped s"; cases "ps_quote s")
    (auto simp: parse_step_def parse_write_def parse_flush_def simp del: char.inject split: if_splits)

lemma parse_loop_content:
  "parse_loop rs s = Ok s' \<Longrightarrow> subseq (ps_content s') (ps_content s @ concat rs)"
proof (induction rs arbitrary: s)
  case (Cons r rs)
  then obtain s1 where s1: "parse_step r s = Ok s1" "parse_loop rs s1 = Ok s'"
    by (auto split: sum.splits)
  have "subseq (ps_content s1) (ps_content s @ r)"
    using parse_step_content [OF s1(1)] by (auto intro: list_emb_append2)
  then have "subseq (ps_content s1 @ concat rs) ((ps_content s @ r) @ concat rs)"
    by (rule list_emb_append_mono) simp
  then show ?case
    using Cons.IH [OF s1(2)] by (metis append.assoc concat.simps(2) subseq_order.trans)
qed simp

lemma parse_loop_newline:
  "parse_loop rs s = Ok s' \<Longrightarrow> ps_quote s \<in> {None, Some [squote], Some [dquote]} \<Longrightarrow>
     r \<in> set rs \<Longrightarrow> \<not> is_newline r"
proof (induction rs arbitrary: s)
  case (Cons c rs)
  then obtain s1 where s1: "parse_step c s = Ok s1" "parse_loop rs s1 = Ok s'"
    by (auto split: sum.splits)
  have "\<not> is_newline c"
    using parse_step_newline [OF s1(1)] Cons.prems(2) by (cases "ps_quote s = Some c") (auto simp: is_newline_def)
  then show ?case
    using Cons.IH [OF s1(2) parse_step_quote [OF s1(1) Cons.prems(2)]] Cons.prems(3) by auto
qed simp

lemma ParseCommandLine_Ok:
  assumes "ParseCommandLine raw = Ok args"
  obtains s where "parse_loop (runes raw) parse_init = Ok s" "\<not> ps_escaped s" "ps_quote s = None"
    "args = ps_args (parse_flush s)" "args \<noteq> []" "TrimSpace (hd args) \<noteq> []"
    "length raw \<le> maxCommandBytes" "CHR 0x00 \<notin> set raw"
proof -
  have nul: "IndexByte raw (CHR 0x00) = None \<Longrightarrow> CHR 0x00 \<notin> set raw"
    by (induction raw) (auto split: if_splits)
  from assms that nul show ?thesis
    by (auto simp: ParseCommandLine_def parse_finish_def not_less split: if_splits sum.splits list.splits)
qed

text \<open>The runes of an input that stand outside quotes and are not escaped.\<close>

fun bare :: "rune option \<Rightarrow> bool \<Rightarrow> rune list \<Rightarrow> rune list" where
  "bare q esc [] = []"
| "bare q True (r # rs) = bare q False rs"
| "bare (Some q) False (r # rs) =
     (if r = q then bare None False rs
      else bare (Some q) (r = [backslash] \<and> q = [dquote]) rs)"
| "bare None False (r # rs) =
     (if r = [squote] \<or> r = [dquote] then bare (Some r) False rs
      else if r = [backslash] then bare None True rs
      else r # bare None False rs)"

lemma bare_step:
  assumes "parse_step c s = Ok s1"
  shows "bare (ps_quote s) (ps_escaped s) (c # rs) = bare (ps_quote s1) (ps_escaped s1) rs
    \<or> bare (ps_quote s) (ps_escaped s) (c # rs) = c # bare (ps_quote s1) (ps_escaped s1) rs \<and> \<not> is_operator c"
proof (cases "ps_escaped s")
  case True
  with assms show ?thesis
    by (cases "is_newline c") (simp_all add: parse_step_def parse_write_def, force)
next
  case esc: False
  show ?thesis
  proof (cases "ps_quote s")
    case None
    consider "c = [squote] \<or> c = [dquote]" | "c = [backslash]"
      | "c \<noteq> [squote]" "c \<noteq> [dquote]" "c \<noteq> [backslash]" by blast
    then show ?thesis
    proof cases
      case 3
      with esc None assms show ?thesis
        by (simp add: parse_step_def parse_write_def parse_flush_def is_operator_def split: if_splits) force+
    qed (use esc None assms in \<open>auto simp: parse_step_def\<close>)
  next
    case (Some q)
    with esc assms show ?thesis
      by (simp add: parse_step_def parse_write_def split: if_splits) force+
  qed
qed

lemma parse_loop_bare:
  "parse_loop rs s = Ok s' \<Longrightarrow> r \<in> set (bare (ps_quote s) (ps_escaped s) rs) \<Longrightarrow> \<not> is_operator r"
proof (induction rs arbitrary: s)
  case (Cons c rs)
  then obtain s1 where s1: "parse_step c s = Ok s1" "parse_loop rs s1 = Ok s'"
    by (auto split: sum.splits)
  with bare_step [OF s1(1), of rs] Cons.IH [OF s1(2)] Cons.prems(2) show ?case
    by auto
qed simp

section \<open>Quoting\<close>

text \<open>A way to write any argument: in double quotes, with quotes and backslashes escaped.\<close>

definition quote_char :: "char \<Rightarrow> string" where
  "quote_char c = (if c = dquote \<or> c = backslash then [backslash, c] else [c])"

definition quote_arg :: "string \<Rightarrow> string" where
  "quote_arg a = [dquote] @ concat (map quote_char a) @ [dquote]"

lemma parse_loop_append:
  "parse_loop (xs @ ys) s = (case parse_loop xs s of Inl e \<Rightarrow> Err e | Inr s' \<Rightarrow> parse_loop ys s')"
  by (induction xs arbitrary: s) (auto split: sum.splits)

text \<open>An ASCII string, rune by rune.\<close>

abbreviation bytes :: "string \<Rightarrow> rune list" where
  "bytes \<equiv> map (\<lambda>c. [c])"

lemma runes_ascii: "list_all is_ascii s \<Longrightarrow> runes s = bytes s"
  by (induction s) (simp_all add: rune_len_def)

lemma parse_quoted_char:
  assumes "ps_quote s = Some [dquote]" "\<not> ps_escaped s" "ps_haveToken s" "\<not> is_newline [c]"
  shows "parse_loop (bytes (quote_char c)) s = Ok (s\<lparr>ps_current := ps_current s @ [c]\<rparr>)"
proof (cases s)
  case (fields as cur q e h)
  have "\<not> is_newline [dquote]" "\<not> is_newline [backslash]" by (simp_all add: is_newline_def)
  with assms fields show ?thesis
    by (cases "c = dquote"; cases "c = backslash")
      (auto simp: quote_char_def parse_step_def parse_write_def)
qed

lemma parse_quoted_body:
  "ps_quote s = Some [dquote] \<Longrightarrow> \<not> ps_escaped s \<Longrightarrow> ps_haveToken s \<Longrightarrow> \<forall>c \<in> set a. \<not> is_newline [c] \<Longrightarrow>
     parse_loop (bytes (concat (map quote_char a))) s = Ok (s\<lparr>ps_current := ps_current s @ a\<rparr>)"
  by (induction a arbitrary: s) (auto simp: parse_loop_append parse_quoted_char)

definition token_state :: "string list \<Rightarrow> string \<Rightarrow> bool \<Rightarrow> parse_state" where
  "token_state as cur have_tok =
     \<lparr>ps_args = as, ps_current = cur, ps_quote = None, ps_escaped = False, ps_haveToken = have_tok\<rparr>"

lemma parse_quoted_arg:
  assumes "\<forall>c \<in> set a. \<not> is_newline [c]"
  shows "parse_loop (bytes (quote_arg a)) (token_state as [] False) = Ok (token_state as a True)"
  using assms by (simp add: quote_arg_def parse_step_def token_state_def parse_loop_append parse_quoted_body)

lemma parse_space:
  "parse_step [CHR 0x20] (token_state as cur True) = Ok (token_state (as @ [cur]) [] False)"
  by (simp add: parse_step_def token_state_def parse_flush_def)

lemma parse_quoted_args:
  "\<forall>a \<in> set (a0 # args). \<forall>c \<in> set a. \<not> is_newline [c] \<Longrightarrow>
     parse_loop (bytes (Join (map quote_arg (a0 # args)) '' '')) (token_state as [] False)
       = Ok (token_state (as @ butlast (a0 # args)) (last (a0 # args)) True)"
proof (induction args arbitrary: a0 as)
  case (Cons a args)
  then have "parse_loop (bytes (Join (map quote_arg (a0 # a # args)) '' '')) (token_state as [] False)
      = parse_loop (bytes (Join (map quote_arg (a # args)) '' '')) (token_state (as @ [a0]) [] False)"
    by (simp add: parse_loop_append parse_quoted_arg parse_space)
  with Cons show ?case by simp
qed (simp add: parse_quoted_arg)

lemma rune_len_tail:
  assumes "rune_len (a # s) = Suc n" and "n \<noteq> 0"
  shows "\<not> is_ascii a \<and> (\<forall>c \<in> set (take n s). \<not> is_ascii c)"
  using assms by (auto simp: rune_len_def is_ascii_def byte_in_def split: list.splits if_splits)

text \<open>An ASCII byte is a rune of its own wherever it stands.\<close>

lemma ascii_rune: "c \<in> set raw \<Longrightarrow> is_ascii c \<Longrightarrow> [c] \<in> set (runes raw)"
proof (induction raw rule: runes.induct)
  case (2 a s)
  show ?case
  proof (cases "rune_len (a # s)")
    case 0
    then have "\<not> is_ascii a" by (simp add: rune_len_def split: if_splits)
    then have "c \<in> set s" using "2.prems" by auto
    then show ?thesis using "2.IH"(1) [OF 0] "2.prems"(2) 0 by simp
  next
    case (Suc n)
    have cases: "c = a \<or> c \<in> set (take n s) \<or> c \<in> set (drop n s)"
      using "2.prems"(1) by (metis Un_iff append_take_drop_id set_ConsD set_append)
    show ?thesis
    proof (cases "n = 0")
      case True
      then show ?thesis using cases "2.IH"(2) [OF Suc] "2.prems"(2) Suc by auto
    next
      case False
      then have "c \<in> set (drop n s)"
        using cases rune_len_tail [OF Suc False] "2.prems"(2) by blast
      then show ?thesis using "2.IH"(2) [OF Suc] "2.prems"(2) Suc by simp
    qed
  qed
qed simp

text \<open>The arguments are bytes of what the loop read, in order.\<close>

lemma ParseCommandLine_content:
  assumes "ParseCommandLine raw = Ok args"
  shows "subseq (concat args) (concat (runes raw))"
proof -
  obtain s where s: "parse_loop (runes raw) parse_init = Ok s" "args = ps_args (parse_flush s)"
    using assms by (rule ParseCommandLine_Ok)
  have "subseq (concat args) (ps_content (parse_flush s))"
    unfolding s(2) ps_content_def by (rule list_emb_prefix) simp
  moreover have "ps_content parse_init = []"
    by (simp add: parse_init_def ps_content_def)
  ultimately show ?thesis
    using parse_loop_content [OF s(1)] by (metis append_Nil ps_content_flush subseq_order.trans)
qed

lemma ParseCommandLine_ascii:
  assumes "ParseCommandLine raw = Ok args" and "list_all is_ascii raw" and "a \<in> set args"
  shows "list_all is_ascii a"
proof -
  have "concat (bytes raw) = raw" by (induction raw) auto
  then have "subseq (concat args) raw"
    using ParseCommandLine_content [OF assms(1)] runes_ascii [OF assms(2)] by simp
  then have "x \<in> set (concat args) \<Longrightarrow> x \<in> set raw" for x by (erule list_emb_set) auto
  then show ?thesis using assms(2,3) by (auto simp: list_all_iff)
qed

section \<open>Properties\<close>

text \<open>
  C9. An accepted command line is literal. The arguments are made of the bytes of the input in their
  order, where Go reads every byte that is not valid UTF-8 as U+FFFD, so of bytes of the input itself
  when it is valid; nothing is expanded or substituted. No line break or NUL byte occurs anywhere in
  the input, no shell control operator stands outside quotes and escapes, and there is a first argument
  that is not blank.
\<close>

theorem ParseCommandLine_literal:
  assumes "ParseCommandLine raw = Ok args"
  shows "subseq (concat args) (concat (runes raw))
    \<and> (valid_utf8 raw \<longrightarrow> subseq (concat args) raw)
    \<and> (\<forall>c \<in> set raw. c \<noteq> CHR 0x0A \<and> c \<noteq> CHR 0x0D \<and> c \<noteq> CHR 0x00)
    \<and> (\<forall>r \<in> set (bare None False (runes raw)). \<not> is_operator r)
    \<and> args \<noteq> [] \<and> TrimSpace (hd args) \<noteq> []"
proof (intro conjI impI)
  obtain s where s: "parse_loop (runes raw) parse_init = Ok s" "args = ps_args (parse_flush s)"
    and ne: "args \<noteq> []" "TrimSpace (hd args) \<noteq> []" and nul: "CHR 0x00 \<notin> set raw"
    using assms by (rule ParseCommandLine_Ok)
  have init: "ps_content parse_init = []" "ps_quote parse_init = None" "\<not> ps_escaped parse_init"
    by (simp_all add: parse_init_def ps_content_def)
  show sub: "subseq (concat args) (concat (runes raw))"
    by (rule ParseCommandLine_content [OF assms])
  then show "subseq (concat args) raw" if "valid_utf8 raw"
    using that by (simp add: valid_utf8_def)
  have "\<not> is_newline [c]" if "c \<in> set raw" "is_ascii c" for c
    using parse_loop_newline [OF s(1) _ ascii_rune [OF that]] init by simp
  moreover have "is_ascii (CHR 0x0A)" "is_ascii (CHR 0x0D)"
    by code_simp+
  ultimately show "\<forall>c \<in> set raw. c \<noteq> CHR 0x0A \<and> c \<noteq> CHR 0x0D \<and> c \<noteq> CHR 0x00"
    using nul by (auto simp: is_newline_def)
  show "\<forall>r \<in> set (bare None False (runes raw)). \<not> is_operator r"
    using parse_loop_bare [OF s(1)] init by simp
  show "args \<noteq> []" and "TrimSpace (hd args) \<noteq> []"
    by (rule ne)+
qed

theorem ParseCommandLine_literal_witness:
  "ParseCommandLine ''grep 'a;b' x'' = Ok [''grep'', ''a;b'', ''x'']
   \<and> subseq (concat [''grep'', ''a;b'', ''x'']) ''grep 'a;b' x''"
proof -
  have "ParseCommandLine ''grep 'a;b' x'' = Ok [''grep'', ''a;b'', ''x'']" "valid_utf8 ''grep 'a;b' x''"
    by code_simp+
  with ParseCommandLine_literal [OF this(1)] show ?thesis by blast
qed

text \<open>A byte that is not UTF-8 does not survive: the argument has U+FFFD in its place.\<close>

lemma invalid_byte_replaced: "ParseCommandLine [CHR ''a'', CHR 0xFF] = Ok [CHR ''a'' # rune_error]"
  by code_simp

text \<open>
  Every ASCII argument vector can be sent: writing each argument in double quotes with quotes and
  backslashes escaped and joining them with spaces parses back to exactly that vector, for any
  arguments without line breaks and NUL bytes whose first is not blank, within the length limit.
\<close>

theorem ParseCommandLine_quote_roundtrip:
  assumes "args \<noteq> []" and "TrimSpace (hd args) \<noteq> []"
    and "\<forall>a \<in> set args. \<forall>c \<in> set a. \<not> is_newline [c]"
    and "list_all is_ascii (Join (map quote_arg args) '' '')"
    and "CHR 0x00 \<notin> set (Join (map quote_arg args) '' '')"
    and "length (Join (map quote_arg args) '' '') \<le> maxCommandBytes"
  shows "ParseCommandLine (Join (map quote_arg args) '' '') = Ok args"
proof -
  obtain a0 rest where args: "args = a0 # rest"
    using assms(1) by (cases args) auto
  have nul: "IndexByte xs (CHR 0x00) = None" if "CHR 0x00 \<notin> set xs" for xs
    using that by (induction xs) auto
  have init: "parse_init = token_state [] [] False"
    by (simp add: parse_init_def token_state_def)
  have loop: "parse_loop (runes (Join (map quote_arg args) '' '')) parse_init =
      Ok (token_state (butlast args) (last args) True)"
    unfolding init args runes_ascii [OF assms(4) [unfolded args]] using parse_quoted_args [of a0 rest "[]"] assms(3) args by simp
  have "ps_args (parse_flush (token_state (butlast args) (last args) True)) = args"
    using assms(1) by (simp add: token_state_def parse_flush_def)
  then have "parse_finish (token_state (butlast args) (last args) True) = Ok args"
    using assms(2) args by (simp add: parse_finish_def token_state_def)
  with loop assms nul show ?thesis
    by (simp add: ParseCommandLine_def)
qed

theorem ParseCommandLine_quote_roundtrip_witness:
  "ParseCommandLine (Join (map quote_arg [''echo'', [dquote, backslash, CHR ''|'']]) '' '')
     = Ok [''echo'', [dquote, backslash, CHR ''|'']]"
proof (rule ParseCommandLine_quote_roundtrip)
  show "length (Join (map quote_arg [''echo'', [dquote, backslash, CHR ''|'']]) '' '') \<le> maxCommandBytes"
    by (simp add: quote_arg_def quote_char_def maxCommandBytes_def)
qed code_simp+

lemma EqualFoldRunes_ascii:
  assumes "list_all is_ascii s" and "list_all is_ascii t"
  shows "EqualFoldRunes s t \<longleftrightarrow> EqualFold s t"
proof -
  have "map fold_rune (bytes u) = bytes (ToLower u)" for u
    by (simp add: fold_rune_def ToLower_def)
  then show ?thesis
    using assms by (simp add: EqualFoldRunes_def runes_ascii EqualFold_def inj_map_eq_map inj_def)
qed

lemma EqualFoldRunes_refl [simp]: "EqualFoldRunes s s"
  by (simp add: EqualFoldRunes_def)

end
