(* ===== verification/CommandPolicy.thy ===== *)
theory CommandPolicy
  imports CommandLine
begin

text \<open>
  The execution policy of \<open>internal/securityruntime\<close>: runtime overrides of the environment and
  the binary and shell allowlists (\<open>command.go\<close>), the read-only rules for allowlisted readers
  (\<open>command_readonly.go\<close>) and the environment of child processes (\<open>child_env.go\<close>), for the Unix
  build (\<open>runtime.GOOS\<close> is not \<open>windows\<close>).

  What the operating system answers is a field of \<open>host\<close>: the process environment, the working
  directory and \<open>filepath.EvalSymlinks\<close>. The two package-level variables the policy keeps, the
  runtime overrides and the protected read paths, are fields too. Error messages are
  constructors of \<open>policy_error\<close>.
\<close>

section \<open>Tables\<close>

definition defaultAllowedExecBinaries :: "string list" where
  "defaultAllowedExecBinaries = [
    ''apk'', ''apt'', ''apt-get'', ''ash'', ''bash'', ''brew'', ''cat'', ''choco'', ''cmd'',
    ''dash'', ''defaults'', ''df'', ''dnf'', ''docker'', ''docker-compose'', ''dpkg-query'',
    ''dscl'', ''du'', ''ffmpeg'', ''free'', ''grep'', ''gst-inspect-1.0'', ''gst-launch-1.0'',
    ''head'', ''hostname'', ''ifconfig'', ''ip'', ''ipconfig'', ''istats'', ''journalctl'',
    ''launchctl'', ''loginctl'', ''log'', ''ls'', ''lscpu'', ''netplan'', ''netsh'',
    ''netstat'', ''networksetup'', ''needs-restarting'', ''nmcli'', ''osascript'',
    ''osx-cpu-temp'', ''pacman'', ''pbcopy'', ''pbpaste'', ''ping'', ''plutil'',
    ''powershell'', ''ps'', ''pwsh'', ''route'', ''rpm'', ''sc'', ''sensors'', ''sh'',
    ''sysctl'', ''systeminfo'', ''system_profiler'', ''systemctl'', ''schtasks'',
    ''tailscale'', ''tail'', ''tasklist'', ''tmux'', ''top'', ''uname'', ''uptime'',
    ''vncserver'', ''tvnserver'', ''wevtutil'', ''winget'', ''winvnc4'', ''who'', ''whoami'',
    ''wl-copy'', ''wl-paste'', ''xvfb'', ''x11vnc'', ''xauth'', ''xsetroot'', ''xterm'',
    ''yum'', ''xclip'', ''xdotool'', ''xmodmap'', ''labtether-x11-input'', ''ydotool'',
    ''xrandr'', ''xsel'', ''xset'', ''zsh'', ''zypper'']"

definition defaultShellAllowlistPrefixes :: "string list" where
  "defaultShellAllowlistPrefixes = [
    ''cmd /c echo'', ''uptime'', ''uname'', ''df'', ''du'', ''free'', ''ps'', ''top'',
    ''journalctl'', ''systemctl status'', ''docker ps'', ''docker images'', ''ls'', ''cat'',
    ''grep'', ''tail'', ''head'', ''whoami'', ''=hostname'', ''=ipconfig'',
    ''=ipconfig /all'', ''systeminfo'', ''tasklist'', ''=cmd /c ver'',
    ''=powershell -Command Get-Date'']"

definition defaultShellBlockedSubstrings :: "string list" where
  "defaultShellBlockedSubstrings = [
    ''rm -rf /'', '':(){ :|:& };:'', ''mkfs'', ''systemctl poweroff'', ''systemctl reboot'',
    ''systemctl halt'']"

definition defaultShellBlockedTokens :: "string list" where
  "defaultShellBlockedTokens = [''shutdown'', ''reboot'', ''halt'', ''poweroff'', ''init'']"

definition journalctlChangingOptions :: "string list" where
  "journalctlChangingOptions = [
    ''--vacuum-size'', ''--vacuum-time'', ''--vacuum-files'', ''--rotate'', ''--flush'',
    ''--sync'', ''--relinquish-var'', ''--smart-relinquish-var'', ''--setup-keys'',
    ''--update-catalog'', ''--cursor-file'']"

definition builtinProtectedReadPaths :: "string list" where
  "builtinProtectedReadPaths = [
    ''/etc/shadow'', ''/etc/shadow-'', ''/etc/gshadow'', ''/etc/gshadow-'', ''/etc/sudoers'',
    ''/etc/sudoers.d'', ''/etc/master.passwd'', ''/etc/spwd.db'']"

definition allowedChildEnv :: "string list" where
  "allowedChildEnv = [
    ''ALLUSERSPROFILE'', ''APPDATA'', ''COLORTERM'', ''COMMONPROGRAMFILES'',
    ''COMMONPROGRAMFILES(X86)'', ''COMMONPROGRAMW6432'', ''COMPUTERNAME'', ''COMSPEC'',
    ''DBUS_SESSION_BUS_ADDRESS'', ''DESKTOP_SESSION'', ''DISPLAY'', ''HOME'', ''HOMEDRIVE'',
    ''HOMEPATH'', ''LANG'', ''LANGUAGE'', ''LOCALAPPDATA'', ''LOGNAME'', ''NO_COLOR'',
    ''NUMBER_OF_PROCESSORS'', ''OS'', ''PATH'', ''PATHEXT'', ''PROCESSOR_ARCHITECTURE'',
    ''PROCESSOR_IDENTIFIER'', ''PROCESSOR_LEVEL'', ''PROCESSOR_REVISION'', ''PROGRAMDATA'',
    ''PROGRAMFILES'', ''PROGRAMFILES(X86)'', ''PROGRAMW6432'', ''PUBLIC'', ''PWD'', ''SHELL'',
    ''SYSTEMDRIVE'', ''SYSTEMROOT'', ''TEMP'', ''TERM'', ''TMP'', ''TMPDIR'', ''TZ'',
    ''USER'', ''USERDOMAIN'', ''USERDOMAIN_ROAMINGPROFILE'', ''USERNAME'', ''USERPROFILE'',
    ''WAYLAND_DISPLAY'', ''WINDIR'', ''XAUTHORITY'', ''XDG_CURRENT_DESKTOP'',
    ''XDG_RUNTIME_DIR'', ''XDG_SESSION_TYPE'']"

section \<open>Runtime environment\<close>

record host =
  h_environ :: "string list"
  h_overrides :: "(string \<rightharpoonup> string) option"
  h_protected :: "string list"
  h_getwd :: "string option"
  h_evalSymlinks :: "string \<Rightarrow> string option"

text \<open>\<open>os.LookupEnv\<close>: the first \<open>key=value\<close> entry of the environment with that key.\<close>

definition env_key :: "string \<Rightarrow> string" where
  "env_key entry = takeWhile (\<lambda>c. c \<noteq> CHR ''='') entry"

definition LookupEnv :: "string list \<Rightarrow> string \<Rightarrow> string option" where
  "LookupEnv environ key =
     map_option (\<lambda>e. drop (length key + 1) e)
       (find (\<lambda>e. env_key e = key \<and> CHR ''='' \<in> set e) environ)"

text \<open>The map argument is given by its entries, in the order Go happens to visit them.\<close>

fun clone_overrides :: "(string \<times> string) list \<Rightarrow> (string \<rightharpoonup> string) \<Rightarrow> (string \<rightharpoonup> string)" where
  "clone_overrides [] m = m"
| "clone_overrides ((rawKey, rawValue) # kvs) m =
     (let key = TrimSpace rawKey
      in clone_overrides kvs (if key = [] then m else m(key \<mapsto> TrimSpace rawValue)))"

definition SetRuntimeEnvOverrides :: "(string \<times> string) list \<Rightarrow> host \<Rightarrow> host" where
  "SetRuntimeEnvOverrides values h =
     h\<lparr>h_overrides := (if list_all (\<lambda>(k, _). TrimSpace k = []) values then None
                       else Some (clone_overrides values Map.empty))\<rparr>"

definition lookupEnv :: "host \<Rightarrow> string \<Rightarrow> string option" where
  "lookupEnv h key =
     (case h_overrides h of
        None \<Rightarrow> LookupEnv (h_environ h) key
      | Some m \<Rightarrow> (case m key of Some v \<Rightarrow> Some v | None \<Rightarrow> LookupEnv (h_environ h) key))"

text \<open>The raw value with Go's zero value for an absent key, trimmed.\<close>

definition env_raw :: "host \<Rightarrow> string \<Rightarrow> string" where
  "env_raw h key = TrimSpace (case lookupEnv h key of None \<Rightarrow> [] | Some v \<Rightarrow> v)"

definition parseBoolEnv :: "host \<Rightarrow> string \<Rightarrow> bool \<Rightarrow> bool" where
  "parseBoolEnv h key fallback =
     (let raw = env_raw h key
      in if raw = [] then fallback
         else case ParseBool raw of None \<Rightarrow> fallback | Some v \<Rightarrow> v)"

definition parseBoolEnvWithPresence :: "host \<Rightarrow> string \<Rightarrow> bool \<Rightarrow> bool \<times> bool" where
  "parseBoolEnvWithPresence h key fallback =
     (let raw = env_raw h key; present = (lookupEnv h key \<noteq> None)
      in if raw = [] then (fallback, False)
         else case ParseBool raw of None \<Rightarrow> (fallback, present) | Some v \<Rightarrow> (v, present))"

definition parseCSVEnv :: "host \<Rightarrow> string \<Rightarrow> string list \<Rightarrow> string list" where
  "parseCSVEnv h key fallback =
     (let raw = env_raw h key
      in if raw = [] then fallback
         else let out = filter (\<lambda>s. s \<noteq> []) (map TrimSpace (SplitByte (CHR '','') raw))
              in if out = [] then fallback else out)"

definition toSet :: "string list \<Rightarrow> (string \<Rightarrow> string) \<Rightarrow> string set" where
  "toSet values norm_fn = set (filter (\<lambda>s. s \<noteq> []) (map norm_fn values))"

definition envExecAllowlistMode :: string where "envExecAllowlistMode = ''LABTETHER_EXEC_ALLOWLIST_MODE''"
definition envExecAllowlistAcceptRisk :: string where "envExecAllowlistAcceptRisk = ''LABTETHER_EXEC_ALLOWLIST_ACCEPT_RISK''"
definition envExecAllowedBinaries :: string where "envExecAllowedBinaries = ''LABTETHER_EXEC_ALLOWED_BINARIES''"
definition envExecBlockedBinaries :: string where "envExecBlockedBinaries = ''LABTETHER_EXEC_BLOCKED_BINARIES''"
definition envShellAllowlistMode :: string where "envShellAllowlistMode = ''LABTETHER_SHELL_COMMAND_ALLOWLIST_MODE''"
definition envShellAllowlistAcceptRisk :: string where "envShellAllowlistAcceptRisk = ''LABTETHER_SHELL_COMMAND_ALLOWLIST_ACCEPT_RISK''"
definition envShellAllowlistPrefixes :: string where "envShellAllowlistPrefixes = ''LABTETHER_SHELL_COMMAND_ALLOWLIST_PREFIXES''"
definition envShellBlockedSubstrings :: string where "envShellBlockedSubstrings = ''LABTETHER_SHELL_COMMAND_BLOCKED_SUBSTRINGS''"

section \<open>Child processes\<close>

definition isAllowedChildEnvKey :: "string \<Rightarrow> bool" where
  "isAllowedChildEnvKey key \<longleftrightarrow>
     (let upper = ToUpper (TrimSpace key) in upper \<in> set allowedChildEnv \<or> HasPrefix upper ''LC_'')"

definition SanitizedChildEnv :: "host \<Rightarrow> string list" where
  "SanitizedChildEnv h =
     filter (\<lambda>e. CHR ''='' \<in> set e \<and> isAllowedChildEnvKey (env_key e)) (h_environ h)"

section \<open>Executable allowlist\<close>

definition ValidateExecBinary :: "host \<Rightarrow> string \<Rightarrow> (policy_error, unit) result" where
  "ValidateExecBinary h name =
     (let normalized = normalizeExecutableName name
      in if normalized = [] then Err CommandRequired
         else if normalized \<in> toSet (parseCSVEnv h envExecBlockedBinaries []) normalizeExecutableName
         then Err (ExecBlocked normalized)
         else if \<not> parseBoolEnv h envExecAllowlistMode True
         then (if \<not> parseBoolEnv h envExecAllowlistAcceptRisk False
               then Err (ExecAllowlistOff normalized) else Ok ())
         else if normalized \<in> toSet (parseCSVEnv h envExecAllowedBinaries defaultAllowedExecBinaries)
                   normalizeExecutableName
         then Ok ()
         else Err (ExecNotAllowlisted normalized))"

section \<open>Read-only rules\<close>

definition SetProtectedReadPaths :: "string list \<Rightarrow> host \<Rightarrow> host" where
  "SetProtectedReadPaths paths h =
     h\<lparr>h_protected := map Clean (filter (\<lambda>p. p \<noteq> [] \<and> IsAbs p) (map TrimSpace paths))\<rparr>"

definition readerPathCandidates :: "string \<Rightarrow> string \<Rightarrow> string list" where
  "readerPathCandidates name arg =
     (if \<not> HasPrefix arg ''-'' then [arg]
      else case IndexByte arg (CHR ''='') of
        Some index \<Rightarrow> [drop (index + 1) arg]
      | None \<Rightarrow>
          if name = ''grep'' \<and> \<not> HasPrefix arg ''--''
          then (case IndexByte arg (CHR ''f'') of
                  Some index \<Rightarrow> if 0 < index \<and> index + 1 < length arg then [drop (index + 1) arg] else []
                | None \<Rightarrow> [])
          else [])"

text \<open>The short options of one \<open>grep\<close> argument, read from the left; \<open>nxt\<close> is the next argument.\<close>

fun grep_flags :: "string option \<Rightarrow> string \<Rightarrow> bool" where
  "grep_flags nxt [] \<longleftrightarrow> False"
| "grep_flags nxt (flag # rest) \<longleftrightarrow>
     (if flag = CHR ''r'' \<or> flag = CHR ''R'' then True
      else if flag = CHR ''d''
      then (case (rest, nxt) of ([], Some n) \<Rightarrow> n | _ \<Rightarrow> rest) = ''recurse''
      else if flag \<in> set ''efmABCD'' then False
      else grep_flags nxt rest)"

definition grepArgRecurses :: "string \<Rightarrow> string option \<Rightarrow> bool" where
  "grepArgRecurses arg nxt \<longleftrightarrow>
     (if arg = ''--recursive'' \<or> arg = ''--dereference-recursive'' then True
      else if HasPrefix arg ''--directories''
      then (let value = TrimPrefix (TrimPrefix arg ''--directories'') ''=''
            in (case (value, nxt) of ([], Some n) \<Rightarrow> n | _ \<Rightarrow> value) = ''recurse'')
      else if HasPrefix arg ''-'' \<and> \<not> HasPrefix arg ''--'' then grep_flags nxt (tl arg)
      else False)"

definition pathWithin :: "string \<Rightarrow> string \<Rightarrow> bool" where
  "pathWithin path root \<longleftrightarrow> path = root \<or> HasPrefix path (TrimSuffix root ''/'' @ ''/'')"

definition secretPathByName :: "string \<Rightarrow> bool" where
  "secretPathByName path \<longleftrightarrow>
     (let base = Base path; parent = Base (Dir path)
      in HasPrefix path ''/proc/'' \<and> (base = ''environ'' \<or> base = ''mem'')
         \<or> HasPrefix base ''ssh_host_'' \<and> HasSuffix base ''_key''
         \<or> parent = ''.ssh'' \<and> HasPrefix base ''id_'' \<and> \<not> HasSuffix base ''.pub'')"

text \<open>A path and, when it resolves to another one, what it resolves to.\<close>

definition with_resolved :: "host \<Rightarrow> string \<Rightarrow> string list" where
  "with_resolved h p =
     p # (case h_evalSymlinks h p of Some r \<Rightarrow> if r \<noteq> p then [r] else [] | None \<Rightarrow> [])"

definition readTarget :: "host \<Rightarrow> string \<Rightarrow> string" where
  "readTarget h candidate =
     Clean (if IsAbs candidate then candidate
            else case h_getwd h of Some wd \<Rightarrow> JoinPath [wd, candidate] | None \<Rightarrow> candidate)"

definition readPathProtected :: "host \<Rightarrow> string \<Rightarrow> bool" where
  "readPathProtected h candidate \<longleftrightarrow>
     (if candidate = [] \<or> candidate = ''-'' then False
      else let targets = with_resolved h (readTarget h candidate);
               roots = builtinProtectedReadPaths @ h_protected h
           in list_ex (\<lambda>root. list_ex (\<lambda>target. list_ex (\<lambda>rootTarget. pathWithin target rootTarget)
                  (with_resolved h root)) targets) roots
              \<or> list_ex secretPathByName targets)"

fun journalctl_check :: "string list \<Rightarrow> (policy_error, unit) result" where
  "journalctl_check [] = Ok ()"
| "journalctl_check (arg # args) =
     (let option = ToLower (takeWhile (\<lambda>c. c \<noteq> CHR ''='') arg)
      in if option \<in> set journalctlChangingOptions then Err (JournalctlChanges option)
         else journalctl_check args)"

fun reader_check :: "host \<Rightarrow> string \<Rightarrow> string list \<Rightarrow> (policy_error, unit) result" where
  "reader_check h name [] = Ok ()"
| "reader_check h name (arg # args) =
     (if name = ''grep'' \<and> grepArgRecurses arg (case args of [] \<Rightarrow> None | n # _ \<Rightarrow> Some n)
      then Err GrepRecursive
      else case find (readPathProtected h) (readerPathCandidates name arg) of
             Some candidate \<Rightarrow> Err (ReadProtected candidate)
           | None \<Rightarrow> reader_check h name args)"

definition validateReadOnlyCommand :: "host \<Rightarrow> string list \<Rightarrow> (policy_error, unit) result" where
  "validateReadOnlyCommand h args =
     (let name = normalizeExecutableName (hd args)
      in if name = ''journalctl'' then journalctl_check (tl args)
         else if name \<in> set [''cat'', ''head'', ''tail'', ''grep''] then reader_check h name (tl args)
         else Ok ())"

section \<open>Shell command policy\<close>

fun match_rules :: "host \<Rightarrow> string list \<Rightarrow> string list \<Rightarrow> (policy_error, unit) result" where
  "match_rules h args [] = Err ShellNotAllowlisted"
| "match_rules h args (rule # rules) =
     (case shellRuleMatches args rule of
        Inl e \<Rightarrow> Err e
      | Inr matched \<Rightarrow> if matched then validateReadOnlyCommand h args else match_rules h args rules)"

definition ValidateShellCommand :: "host \<Rightarrow> string \<Rightarrow> (policy_error, unit) result" where
  "ValidateShellCommand h command =
     (case ParseCommandLine command of
        Inl e \<Rightarrow> Err e
      | Inr args \<Rightarrow>
          let normalized = normalizeShellCommand (Join args '' '')
          in if list_ex (\<lambda>blocked. let token = normalizeShellCommand blocked
                           in token \<noteq> [] \<and> Contains normalized token)
                (parseCSVEnv h envShellBlockedSubstrings defaultShellBlockedSubstrings)
             then Err ShellBlocked
             else if list_ex (\<lambda>tok. let normTok = ToLower (TrimSpace tok)
                           in normTok \<noteq> [] \<and> containsCommandToken normalized normTok)
                defaultShellBlockedTokens
             then Err ShellBlocked
             else if \<not> parseBoolEnv h envShellAllowlistMode True
             then (if \<not> parseBoolEnv h envShellAllowlistAcceptRisk False
                   then Err ShellAllowlistOff else Ok ())
             else match_rules h args (parseCSVEnv h envShellAllowlistPrefixes defaultShellAllowlistPrefixes))"

text \<open>The command that would be started: the program, its arguments and its environment.\<close>

record exec_cmd =
  cmd_name :: string
  cmd_args :: "string list"
  cmd_env :: "string list"

definition NewCommand :: "host \<Rightarrow> string \<Rightarrow> string list \<Rightarrow> (policy_error, exec_cmd) result" where
  "NewCommand h name args =
     (case ValidateExecBinary h name of
        Inl e \<Rightarrow> Err e
      | Inr _ \<Rightarrow> Ok \<lparr>cmd_name = name, cmd_args = args, cmd_env = SanitizedChildEnv h\<rparr>)"

definition NewValidatedShellCommandContext :: "host \<Rightarrow> string \<Rightarrow> (policy_error, exec_cmd) result" where
  "NewValidatedShellCommandContext h command =
     (case ValidateShellCommand h command of
        Inl e \<Rightarrow> Err e
      | Inr _ \<Rightarrow>
          (case ParseCommandLine command of
             Inl e \<Rightarrow> Err e
           | Inr args \<Rightarrow> NewCommand h (hd args) (tl args)))"

section \<open>Lemmas\<close>

lemma Fields_normalizeShellCommand:
  "set (Fields (normalizeShellCommand raw)) = ToLower ` set (Fields raw)"
proof -
  have "Fields (ToLower (TrimSpace raw)) = map ToLower (Fields raw)"
    by (simp add: Fields_ToLower)
  then show ?thesis
    using Fields_Join_Fields [of "ToLower (TrimSpace raw)"]
    by (auto simp: normalizeShellCommand_def Let_def Fields_def)
qed

lemma containsCommandToken_iff:
  "containsCommandToken (normalizeShellCommand (Join args '' '')) t \<longleftrightarrow>
     (\<exists>a \<in> set args. \<exists>w \<in> set (Fields a). ToLower w = t)"
  by (auto simp: containsCommandToken_def Fields_normalizeShellCommand Fields_Join)

lemma blocked_tokens_plain:
  "list_all (\<lambda>t. ToLower (TrimSpace t) = t \<and> t \<noteq> [] \<and> list_all (\<lambda>c. \<not> is_space c) t) defaultShellBlockedTokens"
  by code_simp

lemma blocked_token_found:
  assumes "t \<in> set defaultShellBlockedTokens" and "a \<in> set args" and "ToLower a = t"
  shows "containsCommandToken (normalizeShellCommand (Join args '' '')) t"
proof -
  have t: "ToLower t = t" "t \<noteq> []" "\<forall>c \<in> set t. \<not> is_space c"
    using blocked_tokens_plain assms(1,3) by (auto simp: list_all_iff)
  have "EqualFold a t"
    using assms(3) t(1) by (simp add: EqualFold_def)
  then have "Fields a = [a]"
    using t by (intro EqualFold_space_free)
  with assms show ?thesis
    by (auto simp: containsCommandToken_iff intro!: bexI [of _ a])
qed

lemma match_rules_Ok:
  "match_rules h args rules = Ok u \<Longrightarrow>
     (\<exists>rule \<in> set rules. shellRuleMatches args rule = Ok True) \<and> validateReadOnlyCommand h args = Ok ()"
  by (induction rules) (auto split: sum.splits if_splits)

lemma ValidateShellCommand_Ok:
  assumes "ValidateShellCommand h command = Ok u" and "ParseCommandLine command = Ok args"
  shows "(\<forall>a \<in> set args. ToLower a \<notin> set defaultShellBlockedTokens)
    \<and> (if parseBoolEnv h envShellAllowlistMode True
       then (\<exists>rule \<in> set (parseCSVEnv h envShellAllowlistPrefixes defaultShellAllowlistPrefixes).
               shellRuleMatches args rule = Ok True) \<and> validateReadOnlyCommand h args = Ok ()
       else parseBoolEnv h envShellAllowlistAcceptRisk False)"
proof -
  have "\<not> containsCommandToken (normalizeShellCommand (Join args '' '')) t"
    if "t \<in> set defaultShellBlockedTokens" for t
  proof -
    have "ToLower (TrimSpace t) = t \<and> t \<noteq> []"
      using blocked_tokens_plain that by (auto simp: list_all_iff)
    moreover have "\<not> list_ex (\<lambda>tok. ToLower (TrimSpace tok) \<noteq> [] \<and> containsCommandToken
        (normalizeShellCommand (Join args '' '')) (ToLower (TrimSpace tok))) defaultShellBlockedTokens"
      using assms unfolding ValidateShellCommand_def Let_def by (simp split: if_splits)
    ultimately show ?thesis
      using that unfolding list_ex_iff by metis
  qed
  then have "\<forall>a \<in> set args. ToLower a \<notin> set defaultShellBlockedTokens"
    using blocked_token_found by blast
  moreover have "if parseBoolEnv h envShellAllowlistMode True
       then match_rules h args (parseCSVEnv h envShellAllowlistPrefixes defaultShellAllowlistPrefixes) = Ok u
       else parseBoolEnv h envShellAllowlistAcceptRisk False"
    using assms by (auto simp: ValidateShellCommand_def Let_def split: if_splits)
  ultimately show ?thesis
    using match_rules_Ok [of h args _ u] by (simp split: if_splits)
qed

lemma echo_values_Ok: "echo_values vs = Ok u \<Longrightarrow> \<forall>v \<in> set vs. v \<noteq> [] \<and> list_all echo_char v"
  by (induction vs) (auto split: if_splits)

lemma args_fold_eq_hd: "args_fold_eq as ps \<Longrightarrow> ps \<noteq> [] \<Longrightarrow> as \<noteq> [] \<and> EqualFoldRunes (hd as) (ps ! 0)"
  by (cases as; cases ps) auto

text \<open>The arguments of the echo probe, which \<open>validateWindowsCmdEcho\<close> has checked.\<close>

definition echo_probe :: "string list \<Rightarrow> bool" where
  "echo_probe args \<longleftrightarrow> 4 \<le> length args \<and> normalizeExecutableName (hd args) = ''cmd'' \<and>
     EqualFoldRunes (args ! 1) ''/c'' \<and> EqualFoldRunes (args ! 2) ''echo'' \<and>
     (\<forall>v \<in> set (drop 3 args). v \<noteq> [] \<and> list_all echo_char v)"

lemma validateWindowsCmdEcho_Ok: "validateWindowsCmdEcho args = Ok u \<Longrightarrow> echo_probe args"
  by (cases args) (auto simp: validateWindowsCmdEcho_def echo_probe_def dest: echo_values_Ok split: if_splits)

text \<open>A matched rule, in terms of its own tokens.\<close>

lemma shellRuleMatches_True:
  assumes "shellRuleMatches args rule = Ok True"
  obtains ruleArgs where
    "ParseCommandLine (TrimPrefix (TrimSpace rule) ''='') = Ok ruleArgs"
    "ruleArgs \<noteq> []" "args_fold_eq args ruleArgs" "length ruleArgs \<le> length args"
    "\<not> HasPrefix (TrimSpace rule) ''='' \<and> 3 \<le> length ruleArgs \<and> echo_probe args
     \<or> length args = length ruleArgs
     \<or> \<not> HasPrefix (TrimSpace rule) ''='' \<and> \<not> isCommandInterpreter (ruleArgs ! 0)"
  using assms that
  by (auto simp: shellRuleMatches_def commandArgsHavePrefix_def Let_def
      dest: validateWindowsCmdEcho_Ok split: sum.splits if_splits)

lemma last_of_comps:
  assumes "clean_list True rs" and "rs \<noteq> []"
  shows "TrimSuffix (of_comps True rs) ''/'' = of_comps True rs"
proof -
  have "Join rs ''/'' \<noteq> []" "last (Join rs ''/'') \<noteq> slash"
    using Join_slash_last [OF assms(2)] clean_listD(1) [OF assms(1)] by blast+
  then have "last (of_comps True rs) \<noteq> slash"
    by (simp add: of_comps_def)
  then have "\<not> HasSuffix (of_comps True rs) ''/''"
    unfolding HasSuffix_iff by (metis last_snoc)
  then show ?thesis by (simp only: TrimSuffix_def if_False)
qed

lemma pathWithin_prefix:
  assumes "clean_list True cs" and "clean_list True rs"
  shows "pathWithin (of_comps True cs) (of_comps True rs) \<longleftrightarrow> prefix rs cs"
proof (cases "rs = []")
  case True
  have "TrimSuffix (of_comps True []) ''/'' @ ''/'' = ''/''" by code_simp
  with True show ?thesis
    by (simp add: pathWithin_def HasPrefix_iff of_comps_def)
next
  case False
  have "HasPrefix (of_comps True cs) (of_comps True rs @ ''/'') \<longleftrightarrow> strict_prefix rs cs"
    using HasPrefix_Join_iff [OF assms False] by (auto simp: HasPrefix_iff of_comps_def)
  then show ?thesis
    using False assms by (auto simp: pathWithin_def last_of_comps of_comps_inj strict_prefix_def)
qed

lemma builtin_clean: "list_all (\<lambda>r. IsAbs r \<and> Clean r = r) builtinProtectedReadPaths"
  by code_simp

text \<open>The files and folders no allowlisted reader may open, by their components.\<close>

lemma readPathProtected_root:
  assumes "Clean root \<in> set (builtinProtectedReadPaths @ h_protected h)" and "IsAbs root"
    and "IsAbs a" and "prefix (comps root) (comps a)"
  shows "readPathProtected h a"
proof -
  have "a \<noteq> []" "a \<noteq> ''-''"
    using assms(3) by (auto simp: IsAbs_def HasPrefix_def)
  moreover have "pathWithin (Clean a) (Clean root)"
    using assms pathWithin_prefix [of "comps a" "comps root"] clean_list_comps [of a] clean_list_comps [of root]
    by (metis Clean_def)
  ultimately show ?thesis
    using assms(1,3) by (auto simp: readPathProtected_def readTarget_def with_resolved_def Let_def list_ex_iff
        intro: bexI [of _ "Clean root"])
qed

lemma reader_check_candidates:
  "reader_check h name args = Ok u \<Longrightarrow> a \<in> set args \<Longrightarrow> c \<in> set (readerPathCandidates name a) \<Longrightarrow>
     \<not> readPathProtected h c"
  by (induction args) (auto split: if_splits option.splits simp: find_None_iff)

lemma validateReadOnlyCommand_reads:
  assumes "validateReadOnlyCommand h args = Ok u"
    and "normalizeExecutableName (hd args) \<in> set [''cat'', ''head'', ''tail'', ''grep'']"
    and "a \<in> set (tl args)" and "IsAbs a"
  shows "\<not> readPathProtected h a"
proof -
  have "normalizeExecutableName (hd args) \<noteq> ''journalctl''"
    using assms(2) by auto
  then have "reader_check h (normalizeExecutableName (hd args)) (tl args) = Ok u"
    using assms(1,2) by (simp only: validateReadOnlyCommand_def Let_def if_True if_False)
  moreover have "a \<in> set (readerPathCandidates (normalizeExecutableName (hd args)) a)"
    using assms(4) by (cases a) (auto simp: readerPathCandidates_def IsAbs_def HasPrefix_def)
  ultimately show ?thesis
    using reader_check_candidates assms(3) by blast
qed

lemma SetProtectedReadPaths_lookup [simp]: "lookupEnv (SetProtectedReadPaths ps h) k = lookupEnv h k"
  by (simp add: SetProtectedReadPaths_def lookupEnv_def split: option.splits)

lemma SetProtectedReadPaths_env [simp]:
  "parseBoolEnv (SetProtectedReadPaths ps h) k b = parseBoolEnv h k b"
  by (simp add: parseBoolEnv_def env_raw_def)

lemma child_env_no_agent_keys:
  "list_all (\<lambda>k. \<not> HasPrefix k ''LABTETHER'') allowedChildEnv"
  by code_simp

lemma SanitizedChildEnv_entries:
  "e \<in> set (SanitizedChildEnv h) \<Longrightarrow>
     e \<in> set (h_environ h) \<and> \<not> HasPrefix (ToUpper (TrimSpace (env_key e))) ''LABTETHER''"
proof -
  have "\<not> (HasPrefix u ''LC_'' \<and> HasPrefix u ''LABTETHER'')" for u
    by (auto simp: HasPrefix_iff)
  then show "e \<in> set (SanitizedChildEnv h) \<Longrightarrow> ?thesis"
    using child_env_no_agent_keys
    by (auto simp: SanitizedChildEnv_def isAllowedChildEnvKey_def Let_def list_all_iff)
qed

section \<open>Properties\<close>

text \<open>
  The shell command gate. An accepted command never has an argument that is \<open>shutdown\<close>,
  \<open>reboot\<close>, \<open>halt\<close>, \<open>poweroff\<close> or \<open>init\<close> in any case, whatever the configuration. With the
  allowlist on, some allowlist rule matched its arguments and the read-only rules passed; with
  it off, the risk was acknowledged by the second setting.
\<close>

theorem ValidateShellCommand_gate:
  assumes "ValidateShellCommand h command = Ok u" and "ParseCommandLine command = Ok args"
  shows "(\<forall>a \<in> set args. ToLower a \<notin> set [''shutdown'', ''reboot'', ''halt'', ''poweroff'', ''init''])
    \<and> (if parseBoolEnv h envShellAllowlistMode True
       then (\<exists>rule \<in> set (parseCSVEnv h envShellAllowlistPrefixes defaultShellAllowlistPrefixes).
               shellRuleMatches args rule = Ok True) \<and> validateReadOnlyCommand h args = Ok ()
       else parseBoolEnv h envShellAllowlistAcceptRisk False)"
  using ValidateShellCommand_Ok [OF assms] by (simp only: defaultShellBlockedTokens_def)

text \<open>A host with a short rule list, for the concrete instances.\<close>

definition plain_host :: host where
  "plain_host = \<lparr>h_environ = [''PATH=/bin'', ''LABTETHER_TOKEN=x''],
     h_overrides = Some [envShellAllowlistPrefixes \<mapsto> ''tail,=cmd /c ver'', envShellBlockedSubstrings \<mapsto> ''mkfs''],
     h_protected = [], h_getwd = Some ''/'', h_evalSymlinks = (\<lambda>_. None)\<rparr>"

lemma plain_host_modes:
  "parseBoolEnv plain_host envShellAllowlistMode True"
  "parseCSVEnv plain_host envShellAllowlistPrefixes defaultShellAllowlistPrefixes = [''tail'', ''=cmd /c ver'']"
  by code_simp+

theorem ValidateShellCommand_gate_witness:
  "ValidateShellCommand plain_host ''tail -n 5 shutdown.log'' = Ok ()
   \<and> validateReadOnlyCommand plain_host [''tail'', ''-n'', ''5'', ''shutdown.log''] = Ok ()"
proof -
  have v: "ValidateShellCommand plain_host ''tail -n 5 shutdown.log'' = Ok ()"
    and p: "ParseCommandLine ''tail -n 5 shutdown.log'' = Ok [''tail'', ''-n'', ''5'', ''shutdown.log'']"
    by code_simp+
  show ?thesis
    using ValidateShellCommand_gate [OF v p] v by (simp add: plain_host_modes)
qed

text \<open>
  C3. An interpreter never receives arguments of the caller's choosing. When the allowlist is on, its
  rules are written in ASCII, and the program of an accepted command is a command interpreter (\<open>sh\<close>,
  \<open>bash\<close>, \<open>cmd\<close>, \<open>powershell\<close>, ... under any path, case or \<open>.exe\<close> suffix, in ASCII), then some rule names
  that interpreter and the arguments are those of the rule, token by token up to case; the one exception
  is \<open>cmd /c echo\<close> under a rule that is not exact and has these three words, where every further value is
  a non-empty word of letters, digits, dot, underscore, dash, colon. Beyond ASCII the claim fails: see
  \<open>folded_rule_frees_interpreter\<close>.
\<close>

theorem interpreter_arguments_pinned:
  assumes "ValidateShellCommand h command = Ok u" and "ParseCommandLine command = Ok args"
    and "parseBoolEnv h envShellAllowlistMode True" and "isCommandInterpreter (hd args)"
    and "list_all is_ascii (hd args)"
    and "\<forall>rule \<in> set (parseCSVEnv h envShellAllowlistPrefixes defaultShellAllowlistPrefixes). list_all is_ascii rule"
  shows "\<exists>rule \<in> set (parseCSVEnv h envShellAllowlistPrefixes defaultShellAllowlistPrefixes). \<exists>ruleArgs.
     ParseCommandLine (TrimPrefix (TrimSpace rule) ''='') = Ok ruleArgs \<and> args_fold_eq args ruleArgs
     \<and> normalizeExecutableName (hd ruleArgs) = normalizeExecutableName (hd args)
     \<and> (length args = length ruleArgs
        \<or> \<not> HasPrefix (TrimSpace rule) ''='' \<and> 3 \<le> length ruleArgs \<and> 4 \<le> length args
          \<and> normalizeExecutableName (hd args) = ''cmd''
          \<and> EqualFoldRunes (args ! 1) ''/c'' \<and> EqualFoldRunes (args ! 2) ''echo''
          \<and> (\<forall>v \<in> set (drop 3 args). v \<noteq> [] \<and> list_all echo_char v))"
proof -
  obtain rule where r: "rule \<in> set (parseCSVEnv h envShellAllowlistPrefixes defaultShellAllowlistPrefixes)"
    and m: "shellRuleMatches args rule = Ok True"
    using ValidateShellCommand_Ok [OF assms(1,2)] assms(3) by auto
  obtain ruleArgs where ra: "ParseCommandLine (TrimPrefix (TrimSpace rule) ''='') = Ok ruleArgs"
    "ruleArgs \<noteq> []" "args_fold_eq args ruleArgs"
    and c: "\<not> HasPrefix (TrimSpace rule) ''='' \<and> 3 \<le> length ruleArgs \<and> echo_probe args
     \<or> length args = length ruleArgs
     \<or> \<not> HasPrefix (TrimSpace rule) ''='' \<and> \<not> isCommandInterpreter (ruleArgs ! 0)"
    using m by (rule shellRuleMatches_True)
  have "set (TrimPrefix (TrimSpace rule) ''='') \<subseteq> set rule"
    using set_TrimSpace [of rule] by (auto simp: TrimPrefix_def dest: in_set_dropD)
  then have "list_all is_ascii (TrimPrefix (TrimSpace rule) ''='')"
    using assms(6) r by (auto simp: list_all_iff)
  then have "list_all is_ascii (ruleArgs ! 0)"
    using ParseCommandLine_ascii [OF ra(1)] ra(2) by simp
  then have e: "EqualFold (hd args) (ruleArgs ! 0)"
    using args_fold_eq_hd [OF ra(3,2)] EqualFoldRunes_ascii assms(5) by blast
  have hd: "ruleArgs ! 0 = hd ruleArgs"
    using ra(2) by (simp add: hd_conv_nth)
  have n: "normalizeExecutableName (hd ruleArgs) = normalizeExecutableName (hd args)"
    using normalizeExecutableName_fold [OF e] hd by simp
  then have "isCommandInterpreter (ruleArgs ! 0)"
    using assms(4) hd by (simp add: isCommandInterpreter_def)
  with r ra c n show ?thesis
    unfolding echo_probe_def by blast
qed

theorem interpreter_arguments_pinned_witness:
  "\<exists>rule \<in> set [''tail'', ''=cmd /c ver'']. \<exists>ruleArgs.
     ParseCommandLine (TrimPrefix (TrimSpace rule) ''='') = Ok ruleArgs
     \<and> args_fold_eq [''cmd'', ''/c'', ''ver''] ruleArgs \<and> normalizeExecutableName (hd ruleArgs) = ''cmd''"
proof -
  have v: "ValidateShellCommand plain_host ''cmd /c ver'' = Ok ()"
    and p: "ParseCommandLine ''cmd /c ver'' = Ok [''cmd'', ''/c'', ''ver'']"
    and i: "isCommandInterpreter (hd [''cmd'', ''/c'', ''ver''])" "list_all is_ascii (hd [''cmd'', ''/c'', ''ver''])"
    and n: "normalizeExecutableName (hd [''cmd'', ''/c'', ''ver'']) = ''cmd''"
    by code_simp+
  have a: "\<forall>rule \<in> set (parseCSVEnv plain_host envShellAllowlistPrefixes defaultShellAllowlistPrefixes). list_all is_ascii rule"
    unfolding plain_host_modes(2) by code_simp
  show ?thesis
    using interpreter_arguments_pinned [OF v p plain_host_modes(1) i a] n
    unfolding plain_host_modes(2) by metis
qed

text \<open>
  A rule spelled with U+017F names no interpreter, yet \<open>strings.EqualFold\<close> takes it for \<open>bash\<close>, so the
  rule's further arguments are free.
\<close>

lemma folded_rule_frees_interpreter:
  "shellRuleMatches [''bash'', ''-c'', ''x''] (''ba'' @ [CHR 0xC5, CHR 0xBF] @ ''h'') = Ok True"
  "isCommandInterpreter ''bash''"
  by code_simp+

text \<open>
  \<open>pathWithin\<close>, a comparison of strings with a separator appended, decides containment: for
  cleaned absolute paths it holds exactly when the components of the root are the first
  components of the path. \<open>/etc/shadow\<close> does not contain \<open>/etc/shadow2\<close>, and the root directory
  contains everything.
\<close>

theorem pathWithin_iff_components:
  assumes "IsAbs path" and "IsAbs root"
  shows "pathWithin (Clean path) (Clean root) \<longleftrightarrow> prefix (comps root) (comps path)"
  using assms pathWithin_prefix [of "comps path" "comps root"] clean_list_comps [of path] clean_list_comps [of root]
  by (simp add: Clean_def)

theorem pathWithin_iff_components_witness:
  "pathWithin (Clean ''/etc/../etc/shadow/'') (Clean ''/etc/shadow'')"
proof -
  have "IsAbs ''/etc/../etc/shadow/''" "IsAbs ''/etc/shadow''"
    "comps ''/etc/../etc/shadow/'' = [''etc'', ''shadow'']" "comps ''/etc/shadow'' = [''etc'', ''shadow'']"
    by code_simp+
  then show ?thesis
    using pathWithin_iff_components by simp
qed

text \<open>
  C26. Allowlisted readers stay away from secrets. While the allowlist mode is on, an accepted \<open>cat\<close>, \<open>head\<close>,
  \<open>tail\<close> or \<open>grep\<close> command has no absolute path argument inside a built-in protected path
  (\<open>/etc/shadow\<close>, ...) or inside a path registered with \<open>SetProtectedReadPaths\<close>, however the
  path is spelled with \<open>.\<close>, \<open>..\<close> and repeated separators.
\<close>

theorem readers_avoid_protected_paths:
  assumes "ValidateShellCommand (SetProtectedReadPaths ps h) command = Ok u"
    and "ParseCommandLine command = Ok args" and "parseBoolEnv h envShellAllowlistMode True"
    and "normalizeExecutableName (hd args) \<in> set [''cat'', ''head'', ''tail'', ''grep'']"
    and "a \<in> set (tl args)" and "IsAbs a"
    and "root \<in> set (builtinProtectedReadPaths @ map TrimSpace ps)" and "IsAbs root"
  shows "\<not> prefix (comps root) (comps a)"
proof -
  let ?h = "SetProtectedReadPaths ps h"
  have "validateReadOnlyCommand ?h args = Ok ()"
    using ValidateShellCommand_Ok [OF assms(1,2)] assms(3) by simp
  then have "\<not> readPathProtected ?h a"
    using assms(4-6) by (rule validateReadOnlyCommand_reads)
  moreover have "root \<noteq> []"
    using assms(8) by (auto simp: IsAbs_def HasPrefix_def)
  then have "Clean root \<in> set (builtinProtectedReadPaths @ h_protected ?h)"
    using assms(7,8) builtin_clean by (auto simp: SetProtectedReadPaths_def list_all_iff)
  ultimately show ?thesis
    using readPathProtected_root assms(6,8) by blast
qed

theorem readers_avoid_protected_paths_witness:
  "\<not> prefix (comps ''/var/lib/agent/'') (comps ''/var/log/x'')"
proof (rule readers_avoid_protected_paths)
  show "ValidateShellCommand (SetProtectedReadPaths [''/var/lib/agent/''] plain_host) ''tail /var/log/x'' = Ok ()"
    by code_simp
  show "ParseCommandLine ''tail /var/log/x'' = Ok [''tail'', ''/var/log/x'']"
    by code_simp
  show "''/var/lib/agent/'' \<in> set (builtinProtectedReadPaths @ map TrimSpace [''/var/lib/agent/''])"
    by code_simp
qed code_simp+

text \<open>
  What is started is what was checked. A command built for a remote request has as program and
  arguments exactly the parsed words of the request, both gates accepted it, and its environment
  is part of the agent's with no variable of the agent's own \<open>LABTETHER_...\<close> settings.
\<close>

theorem started_command_is_validated:
  assumes "NewValidatedShellCommandContext h command = Ok cmd"
  shows "ParseCommandLine command = Ok (cmd_name cmd # cmd_args cmd)
    \<and> ValidateShellCommand h command = Ok () \<and> ValidateExecBinary h (cmd_name cmd) = Ok ()
    \<and> (\<forall>e \<in> set (cmd_env cmd). e \<in> set (h_environ h) \<and> \<not> HasPrefix (ToUpper (TrimSpace (env_key e))) ''LABTETHER'')"
proof -
  obtain args where p: "ParseCommandLine command = Ok args" "ValidateShellCommand h command = Ok ()"
    and n: "NewCommand h (hd args) (tl args) = Ok cmd"
    using assms by (auto simp: NewValidatedShellCommandContext_def split: sum.splits)
  have "args \<noteq> []"
    using p(1) by (rule ParseCommandLine_Ok)
  then show ?thesis
    using p n SanitizedChildEnv_entries by (auto simp: NewCommand_def split: sum.splits)
qed

theorem started_command_is_validated_witness:
  "\<exists>cmd. NewValidatedShellCommandContext plain_host ''tail x'' = Ok cmd
     \<and> ParseCommandLine ''tail x'' = Ok (cmd_name cmd # cmd_args cmd)"
proof -
  have "NewValidatedShellCommandContext plain_host ''tail x'' =
      Ok \<lparr>cmd_name = ''tail'', cmd_args = [''x''], cmd_env = [''PATH=/bin'']\<rparr>"
    by code_simp
  from this started_command_is_validated [OF this] show ?thesis by blast
qed

end
