(* ===== verification/Outbound.thy ===== *)
theory Outbound
  imports GoNet CommandPolicy
begin

text \<open>
  Which addresses the agent may open connections to: \<open>securityruntime/outbound.go\<close>, with
  \<open>outbound_client.go\<close>, \<open>outbound_stream.go\<close> and \<open>numeric.go\<close>. The settings come from the environment
  record of \<open>CommandPolicy\<close>. Name resolution is the record \<open>dns\<close>, one field per lookup the code makes
  because they happen at different times and may answer differently; a missing answer is an error
  and a missing address a nil one.
\<close>

record dns =
  d_lookupIPAddrs :: "string \<Rightarrow> ip option list option"
  d_lookupIP :: "string \<Rightarrow> ip option list option"

datatype outbound_error =
    HostRequired | LoopbackNotAllowed | PrivateNotAllowed | NotAllowlisted | URLRequired | InvalidURL | NotAbsolute
  | InsecureScheme | SchemeNotAllowed | InvalidPort | BadAddress | NotResolved | LookupFailed | DialFailed | RequestRequired
  | NeedsCancelContext | TooManyRedirects

definition envOutboundAllowlistMode :: string where "envOutboundAllowlistMode = ''LABTETHER_OUTBOUND_ALLOWLIST_MODE''"
definition envOutboundAllowedHosts :: string where "envOutboundAllowedHosts = ''LABTETHER_OUTBOUND_ALLOWED_HOSTS''"
definition envOutboundAllowPrivate :: string where "envOutboundAllowPrivate = ''LABTETHER_OUTBOUND_ALLOW_PRIVATE''"
definition envOutboundAllowLoopback :: string where "envOutboundAllowLoopback = ''LABTETHER_OUTBOUND_ALLOW_LOOPBACK''"
definition envOutboundAllowedSchemes :: string where "envOutboundAllowedSchemes = ''LABTETHER_OUTBOUND_ALLOWED_SCHEMES''"
definition envAllowInsecureTransport :: string where "envAllowInsecureTransport = ''LABTETHER_ALLOW_INSECURE_TRANSPORT''"

definition defaultAllowedOutboundSchemes :: "string list" where
  "defaultAllowedOutboundSchemes = [''https'', ''wss'']"

definition privateHostnameSuffixes :: "string list" where
  "privateHostnameSuffixes = [''.local'', ''.lan'', ''.home'', ''.internal'', ''.home.arpa'']"

section \<open>Host names and patterns\<close>

definition normalizeHostname :: "string \<Rightarrow> string" where
  "normalizeHostname value =
     TrimSuffix (TrimSuffix (TrimPrefix (TrimSpace (ToLower value)) ''['') '']'') ''.''"

definition parseHostPattern :: "string \<Rightarrow> string" where
  "parseHostPattern value =
     (let t0 = TrimSpace (ToLower value)
      in if t0 = [] then []
         else let t1 = (if Contains t0 ''://'' then (case ParseURL t0 of None \<Rightarrow> t0 | Some u \<Rightarrow> Hostname u) else t0);
                  t2 = (case SplitHostPort t1 of Some (h, _) \<Rightarrow> h | None \<Rightarrow> t1)
              in if CHR ''/'' \<in> set t2 \<and> ParseCIDR t2 \<noteq> None then t2 else normalizeHostname t2)"

definition parseAllowedHostPatterns :: "host \<Rightarrow> string list" where
  "parseAllowedHostPatterns h = filter (\<lambda>p. p \<noteq> []) (map parseHostPattern (parseCSVEnv h envOutboundAllowedHosts []))"

definition isPrivateIPAddress :: "ip option \<Rightarrow> bool" where
  "isPrivateIPAddress ip =
     (case ip of None \<Rightarrow> False | Some p \<Rightarrow> IsPrivate p \<or> IsLinkLocalUnicast p \<or> IsLinkLocalMulticast p)"

definition isLikelyPrivateHostname :: "string \<Rightarrow> bool" where
  "isLikelyPrivateHostname hostname =
     (if hostname = [] then False
      else if CHR ''.'' \<notin> set hostname then True
      else list_ex (HasSuffix hostname) privateHostnameSuffixes)"

definition hostMatchesPattern :: "string \<Rightarrow> string \<Rightarrow> bool" where
  "hostMatchesPattern host0 pattern =
     (let hostname = normalizeHostname host0
      in if hostname = [] \<or> pattern = [] then False
         else if CHR ''/'' \<in> set pattern then
           (case ParseIP hostname of
              None \<Rightarrow> False
            | Some p \<Rightarrow> (case ParseCIDR pattern of None \<Rightarrow> False | Some net \<Rightarrow> NetContains net p))
         else if HasPrefix pattern ''*.'' then
           (let suffix = TrimPrefix pattern ''*.'' in if suffix = [] then False else HasSuffix hostname (''.'' @ suffix))
         else EqualFold hostname pattern)"

section \<open>Risk of a host\<close>

definition resolvedHostRisk :: "dns \<Rightarrow> string \<Rightarrow> bool \<times> bool \<times> bool" where
  "resolvedHostRisk d host0 =
     (let hostname = normalizeHostname host0
      in if hostname = [] then (False, False, False)
         else case d_lookupIPAddrs d hostname of
                None \<Rightarrow> (False, False, False)
              | Some [] \<Rightarrow> (False, False, False)
              | Some addrs \<Rightarrow>
                  let ips = map the (filter (\<lambda>a. a \<noteq> None) addrs)
                  in (list_ex IsLoopback ips, list_ex (\<lambda>p. IsLoopback p \<or> isPrivateIPAddress (Some p)) ips, True))"

definition hostRiskProfile :: "dns \<Rightarrow> string \<Rightarrow> bool \<times> bool" where
  "hostRiskProfile d hostname =
     (case ParseIP hostname of
        Some p \<Rightarrow> if IsLoopback p then (True, True) else (False, isPrivateIPAddress (Some p))
      | None \<Rightarrow>
          if EqualFold hostname ''localhost'' then (True, True)
          else (case resolvedHostRisk d hostname of
                  (loopback, private, resolved) \<Rightarrow>
                    if resolved then (loopback, private) else (False, isLikelyPrivateHostname hostname)))"

definition validateResolvedOutboundIP :: "ip option \<Rightarrow> bool \<Rightarrow> bool \<Rightarrow> (outbound_error, unit) result" where
  "validateResolvedOutboundIP ip allowLoopback allowPrivate =
     (case ip of
        None \<Rightarrow> Ok ()
      | Some p \<Rightarrow>
          if IsLoopback p \<and> \<not> allowLoopback then Err LoopbackNotAllowed
          else if isPrivateIPAddress ip \<and> \<not> allowPrivate then Err PrivateNotAllowed
          else Ok ())"

fun validate_all :: "ip option list \<Rightarrow> bool \<Rightarrow> bool \<Rightarrow> (outbound_error, unit) result" where
  "validate_all [] allowLoopback allowPrivate = Ok ()"
| "validate_all (ip # ips) allowLoopback allowPrivate =
     (case validateResolvedOutboundIP ip allowLoopback allowPrivate of
        Inl e \<Rightarrow> Err e
      | Inr _ \<Rightarrow> validate_all ips allowLoopback allowPrivate)"

definition validateResolvedOutboundHost :: "dns \<Rightarrow> string \<Rightarrow> bool \<Rightarrow> bool \<Rightarrow> (outbound_error, unit) result" where
  "validateResolvedOutboundHost d hostname allowLoopback allowPrivate =
     (case ParseIP hostname of
        Some p \<Rightarrow> validateResolvedOutboundIP (Some p) allowLoopback allowPrivate
      | None \<Rightarrow>
          (case d_lookupIP d hostname of
             None \<Rightarrow> Ok ()
           | Some ips \<Rightarrow> validate_all ips allowLoopback allowPrivate))"

definition validateOutboundHostWithPolicy ::
    "host \<Rightarrow> dns \<Rightarrow> string \<Rightarrow> bool \<Rightarrow> bool \<Rightarrow> bool \<Rightarrow> (outbound_error, unit) result" where
  "validateOutboundHostWithPolicy h d host0 enforceAllowlist allowPrivate allowLoopback =
     (let normalized = normalizeHostname host0
      in if normalized = [] then Err HostRequired
         else let allowlisted = (enforceAllowlist \<and> list_ex (hostMatchesPattern normalized) (parseAllowedHostPatterns h));
                  (isLoopbackHost, isPrivateHost) = hostRiskProfile d normalized
              in if isLoopbackHost then
                   (if \<not> allowLoopback then Err LoopbackNotAllowed
                    else if enforceAllowlist \<and> \<not> allowlisted then Err NotAllowlisted else Ok ())
                 else if isPrivateHost then
                   (if \<not> allowPrivate then Err PrivateNotAllowed
                    else if enforceAllowlist \<and> \<not> allowlisted then Err NotAllowlisted else Ok ())
                 else if \<not> enforceAllowlist then validateResolvedOutboundHost d normalized allowLoopback allowPrivate
                 else case validateResolvedOutboundHost d normalized allowLoopback allowPrivate of
                        Inl e \<Rightarrow> Err e
                      | Inr _ \<Rightarrow> if allowlisted then Ok () else Err NotAllowlisted)"

definition validateOutboundHost :: "host \<Rightarrow> dns \<Rightarrow> string \<Rightarrow> (outbound_error, unit) result" where
  "validateOutboundHost h d hostname =
     validateOutboundHostWithPolicy h d hostname (parseBoolEnv h envOutboundAllowlistMode False)
       (parseBoolEnv h envOutboundAllowPrivate False) (parseBoolEnv h envOutboundAllowLoopback False)"

section \<open>URLs\<close>

definition defaultAllowPrivateForScheme :: "string \<Rightarrow> bool" where
  "defaultAllowPrivateForScheme scheme \<longleftrightarrow> EqualFold (TrimSpace scheme) ''https'' \<or> EqualFold (TrimSpace scheme) ''wss''"

definition resolvedOutboundAllowPrivate :: "host \<Rightarrow> string \<Rightarrow> bool" where
  "resolvedOutboundAllowPrivate h scheme =
     (case parseBoolEnvWithPresence h envOutboundAllowPrivate False of
        (value, present) \<Rightarrow> if present then value else defaultAllowPrivateForScheme scheme)"

definition containsStringFold :: "string list \<Rightarrow> string \<Rightarrow> bool" where
  "containsStringFold values candidate = list_ex (\<lambda>v. EqualFold (TrimSpace v) candidate) values"

definition effectiveAllowedOutboundSchemes :: "host \<Rightarrow> string list" where
  "effectiveAllowedOutboundSchemes h =
     (let schemes = parseCSVEnv h envOutboundAllowedSchemes defaultAllowedOutboundSchemes
      in if parseBoolEnv h envAllowInsecureTransport False then
           let s1 = (if containsStringFold schemes ''http'' then schemes else schemes @ [''http''])
           in if containsStringFold s1 ''ws'' then s1 else s1 @ [''ws'']
         else schemes)"

definition ValidateOutboundURL :: "host \<Rightarrow> dns \<Rightarrow> string \<Rightarrow> (outbound_error, url) result" where
  "ValidateOutboundURL h d rawURL =
     (let trimmed = TrimSpace rawURL
      in if trimmed = [] then Err URLRequired
         else case ParseURL trimmed of
                None \<Rightarrow> Err InvalidURL
              | Some parsed \<Rightarrow>
                  if u_scheme parsed = [] then Err NotAbsolute
                  else if TrimSpace (Hostname parsed) = [] then Err HostRequired
                  else let scheme = ToLower (TrimSpace (u_scheme parsed))
                       in if (scheme = ''http'' \<or> scheme = ''ws'') \<and> \<not> parseBoolEnv h envAllowInsecureTransport False then Err InsecureScheme
                          else if scheme \<notin> toSet (effectiveAllowedOutboundSchemes h) ToLower then Err SchemeNotAllowed
                          else case validateOutboundHostWithPolicy h d (Hostname parsed) (parseBoolEnv h envOutboundAllowlistMode False)
                                      (resolvedOutboundAllowPrivate h scheme) (parseBoolEnv h envOutboundAllowLoopback False) of
                                 Inl e \<Rightarrow> Err e
                               | Inr _ \<Rightarrow> Ok parsed)"

section \<open>Dialling\<close>

text \<open>
  \<open>dialOutboundValidated\<close>: \<open>lookup\<close> is the answer of the resolver at this moment and \<open>dials\<close> says which
  addresses accept a connection. The result is the address that was connected to. A nil address
  passes the check and fails to dial.
\<close>

fun dial_first :: "(ip \<Rightarrow> bool) \<Rightarrow> ip option list \<Rightarrow> ip option" where
  "dial_first dials [] = None"
| "dial_first dials (addr # addrs) =
     (case addr of
        None \<Rightarrow> dial_first dials addrs
      | Some p \<Rightarrow> if dials p then Some p else dial_first dials addrs)"

definition dialOutboundValidated ::
    "(string \<Rightarrow> ip option list option) \<Rightarrow> (ip \<Rightarrow> bool) \<Rightarrow> string \<Rightarrow> bool \<Rightarrow> bool \<Rightarrow> (outbound_error, ip) result" where
  "dialOutboundValidated lookup dials address allowLoopback allowPrivate =
     (case SplitHostPort address of
        None \<Rightarrow> Err BadAddress
      | Some (host0, port) \<Rightarrow>
          let hostname = normalizeHostname host0
          in if hostname = [] then Err HostRequired
             else case ParseIP hostname of
                    Some p \<Rightarrow>
                      (case validateResolvedOutboundIP (Some p) allowLoopback allowPrivate of
                         Inl e \<Rightarrow> Err e
                       | Inr _ \<Rightarrow> if dials p then Ok p else Err DialFailed)
                  | None \<Rightarrow>
                      (case lookup hostname of
                         None \<Rightarrow> Err LookupFailed
                       | Some addrs \<Rightarrow>
                           if addrs = [] then Err NotResolved
                           else case validate_all addrs allowLoopback allowPrivate of
                                  Inl e \<Rightarrow> Err e
                                | Inr _ \<Rightarrow> (case dial_first dials addrs of None \<Rightarrow> Err DialFailed | Some p \<Rightarrow> Ok p)))"

definition strictDecimalInt :: "string \<Rightarrow> int option" where
  "strictDecimalInt raw =
     (let trimmed = TrimSpace raw
      in if trimmed = [] then None else if \<not> list_all is_digit trimmed then None else Atoi trimmed)"

definition ValidateOutboundDialTarget :: "host \<Rightarrow> dns \<Rightarrow> string \<Rightarrow> int \<Rightarrow> (outbound_error, unit) result" where
  "ValidateOutboundDialTarget h d hostname port =
     (if TrimSpace hostname = [] then Err HostRequired
      else if port \<le> 0 \<or> port > 65535 then Err InvalidPort
      else validateOutboundHost h d hostname)"

definition ValidateOutboundHostPort :: "host \<Rightarrow> dns \<Rightarrow> string \<Rightarrow> string \<Rightarrow> int \<Rightarrow> (outbound_error, string \<times> int) result" where
  "ValidateOutboundHostPort h d hostname portRaw fallbackPort =
     (let normalizedHost = TrimSpace hostname; trimmedPort = TrimSpace portRaw
      in if normalizedHost = [] then Err HostRequired
         else let parsed = (if trimmedPort = [] then Some fallbackPort else strictDecimalInt trimmedPort)
              in case parsed of
                   None \<Rightarrow> Err InvalidPort
                 | Some port \<Rightarrow>
                     (case ValidateOutboundDialTarget h d normalizedHost port of
                        Inl e \<Rightarrow> Err e
                      | Inr _ \<Rightarrow> Ok (normalizedHost, port)))"

text \<open>
  \<open>DialOutboundTCPTimeout\<close> checks the host and then dials it by name, so the resolver is asked again:
  \<open>lookup\<close> is that second answer.
\<close>

definition dial_by_name :: "(string \<Rightarrow> ip option list option) \<Rightarrow> (ip \<Rightarrow> bool) \<Rightarrow> string \<Rightarrow> (outbound_error, ip) result" where
  "dial_by_name lookup dials hostname =
     (case ParseIP hostname of
        Some p \<Rightarrow> if dials p then Ok p else Err DialFailed
      | None \<Rightarrow>
          (case lookup hostname of
             None \<Rightarrow> Err LookupFailed
           | Some addrs \<Rightarrow> (case dial_first dials addrs of None \<Rightarrow> Err DialFailed | Some p \<Rightarrow> Ok p)))"

definition DialOutboundTCPTimeout ::
    "host \<Rightarrow> dns \<Rightarrow> (string \<Rightarrow> ip option list option) \<Rightarrow> (ip \<Rightarrow> bool) \<Rightarrow> string \<Rightarrow> int \<Rightarrow> (outbound_error, ip) result" where
  "DialOutboundTCPTimeout h d lookup dials hostname port =
     (case ValidateOutboundDialTarget h d hostname port of
        Inl e \<Rightarrow> Err e
      | Inr _ \<Rightarrow> dial_by_name lookup dials (TrimSpace hostname))"

definition OutboundPolicySummary :: "host \<Rightarrow> (string \<times> string) list" where
  "OutboundPolicySummary h =
     [(''allowlist_mode'', FormatBool (parseBoolEnv h envOutboundAllowlistMode False)),
      (''allow_private'', FormatBool (parseBoolEnv h envOutboundAllowPrivate False)),
      (''allow_loopback'', FormatBool (parseBoolEnv h envOutboundAllowLoopback False)),
      (''allow_insecure_transport'', FormatBool (parseBoolEnv h envAllowInsecureTransport False)),
      (''allowed_hosts'', Join (parseAllowedHostPatterns h) '',''),
      (''schemes'', Join (effectiveAllowedOutboundSchemes h) '','')]"

section \<open>HTTP clients\<close>

text \<open>
  The base transport of a client: none, Go's own, or another type. The first two get a dial function
  that checks addresses, with the permissions fixed when the client is made; the last is only
  wrapped by the URL check.
\<close>

datatype base_transport = NoTransport | HTTPTransport | OtherTransport

record dial_permissions =
  dp_allowLoopback :: bool
  dp_allowPrivate :: bool

definition current_permissions :: "host \<Rightarrow> string \<Rightarrow> dial_permissions" where
  "current_permissions h scheme =
     \<lparr>dp_allowLoopback = parseBoolEnv h envOutboundAllowLoopback False, dp_allowPrivate = resolvedOutboundAllowPrivate h scheme\<rparr>"

definition secureOutboundRoundTripper :: "host \<Rightarrow> base_transport \<Rightarrow> string \<Rightarrow> dial_permissions option" where
  "secureOutboundRoundTripper h base scheme =
     (case base of OtherTransport \<Rightarrow> None | _ \<Rightarrow> Some (current_permissions h scheme))"

text \<open>
  What happens in one exchange: the resolver at the redirect check, at the dial and at the round trip
  of a wrapped transport, the address such a transport connects to, and the answer.
\<close>

datatype http_answer = FinalAnswer | RedirectTo url

record http_hop =
  hp_dns :: dns
  hp_lookup :: "string \<Rightarrow> ip option list option"
  hp_dials :: "ip \<Rightarrow> bool"
  hp_tripDNS :: dns
  hp_custom :: "ip option"
  hp_answer :: http_answer

definition canonicalAddr :: "url \<Rightarrow> string" where
  "canonicalAddr u =
     JoinHostPort (Hostname u)
       (if Port u \<noteq> [] then Port u
        else if u_scheme u = ''https'' \<or> u_scheme u = ''wss'' then ''443''
        else if u_scheme u = ''http'' \<or> u_scheme u = ''ws'' then ''80'' else [])"

text \<open>
  The redirect check of \<open>secureOutboundHTTPClient\<close>: \<open>via\<close> requests have been made, \<open>prior\<close> is the
  caller's own check. \<open>Ok False\<close> keeps the last response.
\<close>

definition check_redirect :: "host \<Rightarrow> (url \<Rightarrow> nat \<Rightarrow> bool) option \<Rightarrow> dns \<Rightarrow> url \<Rightarrow> nat \<Rightarrow> (outbound_error, bool) result" where
  "check_redirect h prior d target via =
     (case ValidateOutboundURL h d (URLString target) of
        Inl e \<Rightarrow> Err e
      | Inr _ \<Rightarrow>
          (case prior of
             Some f \<Rightarrow> if f target via then Ok True else Err TooManyRedirects
           | None \<Rightarrow> if via \<ge> 10 then Ok False else Ok True))"

text \<open>
  The requests a client makes, as the connections it opened, the latest last, and how it ended.
  Without an answer the exchange has not finished.
\<close>

definition round_trip :: "host \<Rightarrow> dial_permissions option \<Rightarrow> http_hop \<Rightarrow> url \<Rightarrow> (outbound_error, ip) result" where
  "round_trip h perms hop u =
     (case perms of
        Some q \<Rightarrow> dialOutboundValidated (hp_lookup hop) (hp_dials hop) (canonicalAddr u) (dp_allowLoopback q) (dp_allowPrivate q)
      | None \<Rightarrow>
          (case ValidateOutboundURL h (hp_tripDNS hop) (URLString u) of
             Inl e \<Rightarrow> Err e
           | Inr _ \<Rightarrow> (case hp_custom hop of None \<Rightarrow> Err DialFailed | Some p \<Rightarrow> Ok p)))"

type_synonym connection = "dns \<times> url \<times> ip"

fun follow :: "host \<Rightarrow> (url \<Rightarrow> nat \<Rightarrow> bool) option \<Rightarrow> dial_permissions option \<Rightarrow> dns \<Rightarrow> url \<Rightarrow> connection list \<Rightarrow> http_hop list \<Rightarrow>
     connection list \<times> outbound_error option" where
  "follow h prior perms d u conns [] = (conns, None)"
| "follow h prior perms d u conns (hop # hops) =
     (case round_trip h perms hop u of
        Inl e \<Rightarrow> (conns, Some e)
      | Inr p \<Rightarrow>
          let conns1 = conns @ [(d, u, p)]
          in case hp_answer hop of
               FinalAnswer \<Rightarrow> (conns1, None)
             | RedirectTo target \<Rightarrow>
                 (case check_redirect h prior (hp_dns hop) target (length conns1) of
                    Inl e \<Rightarrow> (conns1, Some e)
                  | Inr False \<Rightarrow> (conns1, None)
                  | Inr True \<Rightarrow> follow h prior perms (hp_dns hop) target conns1 hops))"

definition DoOutboundRequest ::
    "host \<Rightarrow> base_transport \<Rightarrow> (url \<Rightarrow> nat \<Rightarrow> bool) option \<Rightarrow> dns \<Rightarrow> url \<Rightarrow> http_hop list \<Rightarrow> connection list \<times> outbound_error option" where
  "DoOutboundRequest h base prior d u hops =
     (case ValidateOutboundURL h d (URLString u) of
        Inl e \<Rightarrow> ([], Some e)
      | Inr _ \<Rightarrow> follow h prior (secureOutboundRoundTripper h base (ToLower (TrimSpace (u_scheme u)))) d u [] hops)"

definition DoOutboundStreamRequest ::
    "host \<Rightarrow> base_transport \<Rightarrow> (url \<Rightarrow> nat \<Rightarrow> bool) option \<Rightarrow> bool \<Rightarrow> dns \<Rightarrow> url \<Rightarrow> http_hop list \<Rightarrow> connection list \<times> outbound_error option" where
  "DoOutboundStreamRequest h base prior cancellable d u hops =
     (if \<not> cancellable then ([], Some NeedsCancelContext) else DoOutboundRequest h base prior d u hops)"

text \<open>The long-lived client keeps the scheme and permissions of its pool.\<close>

record reusable_transport =
  rt_scheme :: string
  rt_perms :: dial_permissions

definition NewReusableOutboundHTTPClient :: "host \<Rightarrow> string \<Rightarrow> reusable_transport" where
  "NewReusableOutboundHTTPClient h scheme =
     (let s = ToLower (TrimSpace scheme) in \<lparr>rt_scheme = s, rt_perms = current_permissions h s\<rparr>)"

definition reusable_RoundTrip :: "host \<Rightarrow> dns \<Rightarrow> reusable_transport \<Rightarrow> url \<Rightarrow> (outbound_error, dial_permissions) result" where
  "reusable_RoundTrip h d rt u =
     (case ValidateOutboundURL h d (URLString u) of
        Inl e \<Rightarrow> Err e
      | Inr _ \<Rightarrow>
          let scheme = ToLower (TrimSpace (u_scheme u))
          in if scheme \<noteq> rt_scheme rt \<or> resolvedOutboundAllowPrivate h scheme \<noteq> dp_allowPrivate (rt_perms rt) \<or>
                parseBoolEnv h envOutboundAllowLoopback False \<noteq> dp_allowLoopback (rt_perms rt)
             then Ok (current_permissions h scheme)
             else Ok (rt_perms rt))"

section \<open>Lemmas\<close>

definition permitted :: "dial_permissions \<Rightarrow> ip \<Rightarrow> bool" where
  "permitted perms p \<longleftrightarrow> (IsLoopback p \<longrightarrow> dp_allowLoopback perms) \<and> (isPrivateIPAddress (Some p) \<longrightarrow> dp_allowPrivate perms)"

lemma validateResolvedOutboundIP_permitted:
  "validateResolvedOutboundIP (Some p) l a = Ok x \<longleftrightarrow> permitted \<lparr>dp_allowLoopback = l, dp_allowPrivate = a\<rparr> p"
  by (auto simp: validateResolvedOutboundIP_def permitted_def)

lemma validate_all_permitted:
  "validate_all ips l a = Ok x \<Longrightarrow> Some p \<in> set ips \<Longrightarrow> permitted \<lparr>dp_allowLoopback = l, dp_allowPrivate = a\<rparr> p"
  by (induction ips) (auto simp: validateResolvedOutboundIP_permitted split: sum.splits)

lemma dial_first_in: "dial_first dials addrs = Some p \<Longrightarrow> Some p \<in> set addrs \<and> dials p"
  by (induction addrs) (auto split: option.splits if_splits)

lemma dial_permitted:
  assumes "dialOutboundValidated lookup dials address l a = Ok p"
  shows "permitted \<lparr>dp_allowLoopback = l, dp_allowPrivate = a\<rparr> p \<and> dials p"
proof -
  obtain host0 port where sp: "SplitHostPort address = Some (host0, port)"
    using assms by (cases "SplitHostPort address") (auto simp: dialOutboundValidated_def)
  define hostname where "hostname = normalizeHostname host0"
  have ne: "hostname \<noteq> []"
    using assms sp by (cases "hostname = []") (simp_all add: dialOutboundValidated_def hostname_def)
  note unf = assms [unfolded dialOutboundValidated_def sp option.case prod.case Let_def hostname_def [symmetric] if_not_P [OF ne]]
  show ?thesis
  proof (cases "ParseIP hostname")
    case (Some q)
    then show ?thesis
      using unf validateResolvedOutboundIP_permitted [of q l a "()"] by (auto split: sum.splits if_splits)
  next
    case None
    then obtain addrs where a: "validate_all addrs l a = Ok ()" "dial_first dials addrs = Some p"
      using unf by (auto split: option.splits sum.splits if_splits)
    then show ?thesis
      using validate_all_permitted [OF a(1)] dial_first_in [OF a(2)] by blast
  qed
qed

lemma permitted_current:
  "permitted \<lparr>dp_allowLoopback = dp_allowLoopback perms, dp_allowPrivate = dp_allowPrivate perms\<rparr> p = permitted perms p"
  by (simp add: permitted_def)

text \<open>Every connection was to a URL that had been accepted and to a permitted address.\<close>

definition connection_ok :: "host \<Rightarrow> dial_permissions option \<Rightarrow> connection \<Rightarrow> bool" where
  "connection_ok h perms c =
     (case c of (d, u, p) \<Rightarrow> is_ok (ValidateOutboundURL h d (URLString u)) \<and> (\<forall>q. perms = Some q \<longrightarrow> permitted q p))"

lemma round_trip_permitted: "round_trip h (Some q) hop u = Ok p \<Longrightarrow> permitted q p"
  using dial_permitted [of "hp_lookup hop" "hp_dials hop" "canonicalAddr u" "dp_allowLoopback q" "dp_allowPrivate q" p]
  by (simp add: round_trip_def permitted_current)

lemma follow_ok:
  assumes "follow h prior perms d u conns hops = (conns', e)" and "is_ok (ValidateOutboundURL h d (URLString u))"
    and "\<forall>c \<in> set conns. connection_ok h perms c" and "prior = None \<longrightarrow> length conns < 10"
  shows "(\<forall>c \<in> set conns'. connection_ok h perms c) \<and> (prior = None \<longrightarrow> length conns' \<le> 10)"
  using assms
proof (induction h prior perms d u conns hops rule: follow.induct)
  case (1 h prior perms d u conns)
  then show ?case by auto
next
  case (2 h prior perms d u conns hop hops)
  show ?case
  proof (cases "round_trip h perms hop u")
    case (Inl x)
    then show ?thesis using 2(2-5) by auto
  next
    case (Inr p)
    let ?c = "conns @ [(d, u, p)]"
    have ok: "\<forall>c \<in> set ?c. connection_ok h perms c"
      using 2(3,4) Inr round_trip_permitted by (auto simp: connection_ok_def)
    have len: "prior = None \<longrightarrow> length ?c \<le> 10"
      using 2(5) by auto
    show ?thesis
    proof (cases "hp_answer hop")
      case FinalAnswer
      then show ?thesis using 2(2) Inr ok len by simp
    next
      case (RedirectTo target)
      show ?thesis
      proof (cases "check_redirect h prior (hp_dns hop) target (length ?c) = Ok True")
        case True
        then have v: "is_ok (ValidateOutboundURL h (hp_dns hop) (URLString target))" "prior = None \<longrightarrow> length ?c < 10"
          by (auto simp: check_redirect_def split: sum.splits option.splits if_splits)
        have "follow h prior perms (hp_dns hop) target ?c hops = (conns', e)"
          using 2(2) Inr RedirectTo True by simp
        then show ?thesis
          using 2(1) [OF Inr refl RedirectTo True refl] v ok by blast
      next
        case False
        then have "conns' = ?c"
          using 2(2) Inr RedirectTo by (auto simp: Let_def split: sum.splits bool.splits)
        then show ?thesis using ok len by simp
      qed
    qed
  qed
qed

lemma host_accepted:
  assumes "validateOutboundHostWithPolicy h d host0 enforce ap al = Ok x"
  shows "normalizeHostname host0 \<noteq> [] \<and>
    (enforce \<longrightarrow> (\<exists>pattern \<in> set (parseAllowedHostPatterns h). hostMatchesPattern (normalizeHostname host0) pattern)) \<and>
    (fst (hostRiskProfile d (normalizeHostname host0)) \<longrightarrow> al) \<and>
    (\<not> fst (hostRiskProfile d (normalizeHostname host0)) \<longrightarrow> snd (hostRiskProfile d (normalizeHostname host0)) \<longrightarrow> ap)"
  using assms
  by (cases "hostRiskProfile d (normalizeHostname host0)")
    (auto simp: validateOutboundHostWithPolicy_def Let_def list_ex_iff split: if_splits sum.splits)

lemma risk_literal:
  "ParseIP hostname = Some p \<Longrightarrow> hostRiskProfile d hostname = (IsLoopback p, IsLoopback p \<or> isPrivateIPAddress (Some p))"
  by (simp add: hostRiskProfile_def)

lemma loopback_not_private: "IsLoopback p \<Longrightarrow> \<not> isPrivateIPAddress (Some p)"
  by (cases "is_v4 p") (auto simp: IsLoopback_def isPrivateIPAddress_def IsPrivate_def IsLinkLocalUnicast_def IsLinkLocalMulticast_def octet_def)

text \<open>
  The unspecified address is neither a loopback nor a private address for the policy, although a
  connection to it reaches the host itself on common systems: with loopback forbidden it is accepted.
\<close>

lemma unspecified_address_accepted:
  "IsUnspecified (IPv4 0 0 0 0) \<and> permitted \<lparr>dp_allowLoopback = False, dp_allowPrivate = False\<rparr> (IPv4 0 0 0 0) \<and>
   dialOutboundValidated (\<lambda>_. None) (\<lambda>_. True) ''0.0.0.0:8443'' False False = Ok (IPv4 0 0 0 0)"
  by code_simp

text \<open>
  A client keeps the permissions of the scheme it started with. After a redirect from https to http,
  where private addresses are not allowed, it still connects to a private address when the name
  changes its answer between the check of the redirect and the dial.
\<close>

definition demo_env :: host where
  "demo_env = \<lparr>h_environ = [''LABTETHER_ALLOW_INSECURE_TRANSPORT=true''], h_overrides = None, h_protected = [], h_getwd = None,
     h_evalSymlinks = (\<lambda>_. None)\<rparr>"

definition demo_dns :: dns where
  "demo_dns = \<lparr>d_lookupIPAddrs = (\<lambda>_. Some [Some (IPv4 8 8 8 8)]), d_lookupIP = (\<lambda>_. Some [Some (IPv4 8 8 8 8)])\<rparr>"

definition demo_url :: "string \<Rightarrow> url" where
  "demo_url scheme = empty_url\<lparr>u_scheme := scheme, u_host := ''a.example''\<rparr>"

definition demo_hops :: "http_hop list" where
  "demo_hops =
     [\<lparr>hp_dns = demo_dns, hp_lookup = (\<lambda>_. Some [Some (IPv4 8 8 8 8)]), hp_dials = (\<lambda>_. True), hp_tripDNS = demo_dns, hp_custom = None, hp_answer = RedirectTo (demo_url ''http'')\<rparr>,
      \<lparr>hp_dns = demo_dns, hp_lookup = (\<lambda>_. Some [Some (IPv4 10 0 0 1)]), hp_dials = (\<lambda>_. True), hp_tripDNS = demo_dns, hp_custom = None, hp_answer = FinalAnswer\<rparr>]"

lemma redirect_keeps_first_permissions:
  "\<not> permitted (current_permissions demo_env ''http'') (IPv4 10 0 0 1) \<and>
   map (\<lambda>(_, u, p). (u_scheme u, p)) (fst (DoOutboundRequest demo_env NoTransport None demo_dns (demo_url ''https'') demo_hops)) =
     [(''https'', IPv4 8 8 8 8), (''http'', IPv4 10 0 0 1)]"
  by code_simp

text \<open>A TCP target that is checked and then dialled by name can reach a loopback address.\<close>

lemma dial_by_name_rebinds:
  "DialOutboundTCPTimeout demo_env demo_dns (\<lambda>_. Some [Some (IPv4 127 0 0 1)]) (\<lambda>_. True) ''a.example'' 22 = Ok (IPv4 127 0 0 1) \<and>
   parseBoolEnv demo_env envOutboundAllowLoopback False = False"
  by code_simp

section \<open>Properties\<close>

text \<open>
  C25. A request keeps to the permissions it started with. For a client without a transport of its own or
  with Go's, whatever the servers answer and however the resolver changes its mind between checks and
  dials, every connection of a request was opened for a URL that had passed the policy when it was
  looked at, and goes to an address that the permissions for the scheme of the request's first URL
  allow: loopback only when loopback is allowed, private and link-local only when that scheme allows
  private addresses. Without a redirect rule of the caller there are at most ten. (After a redirect to
  a scheme with stricter permissions the first ones still decide: \<open>redirect_keeps_first_permissions\<close>.)
\<close>

theorem outbound_requests_stay_permitted:
  assumes "DoOutboundRequest h base prior d u hops = (conns, e)" and "base \<noteq> OtherTransport"
  shows "(\<forall>(d', u', p) \<in> set conns. is_ok (ValidateOutboundURL h d' (URLString u')) \<and>
      (IsLoopback p \<longrightarrow> parseBoolEnv h envOutboundAllowLoopback False) \<and>
      (isPrivateIPAddress (Some p) \<longrightarrow> resolvedOutboundAllowPrivate h (ToLower (TrimSpace (u_scheme u))))) \<and>
    (prior = None \<longrightarrow> length conns \<le> 10)"
proof (cases "ValidateOutboundURL h d (URLString u)")
  case (Inl x)
  then show ?thesis using assms(1) by (auto simp: DoOutboundRequest_def)
next
  case (Inr x)
  then have "follow h prior (Some (current_permissions h (ToLower (TrimSpace (u_scheme u))))) d u [] hops = (conns, e)"
    using assms by (cases base) (simp_all add: DoOutboundRequest_def secureOutboundRoundTripper_def)
  from follow_ok [OF this] Inr show ?thesis
    by (auto simp: connection_ok_def permitted_def current_permissions_def)
qed

theorem outbound_requests_stay_permitted_witness:
  "length (fst (DoOutboundRequest demo_env NoTransport None demo_dns (demo_url ''https'') demo_hops)) \<le> 10 \<and>
   list_all (\<lambda>c. \<not> IsLoopback (snd (snd c))) (fst (DoOutboundRequest demo_env NoTransport None demo_dns (demo_url ''https'') demo_hops))"
proof -
  have l: "parseBoolEnv demo_env envOutboundAllowLoopback False = False"
    by code_simp
  show ?thesis
    using outbound_requests_stay_permitted [OF surjective_pairing, of NoTransport demo_env None demo_dns "demo_url ''https''" demo_hops, unfolded l]
    unfolding list_all_iff by fastforce
qed

text \<open>
  What an accepted URL is. It parses, its scheme is one of the configured ones and is \<open>http\<close> or \<open>ws\<close>
  only with the insecure-transport opt-in; in allowlist mode its host matches a configured pattern;
  a literal address is one the policy of that scheme permits; and \<open>localhost\<close>, or a name that
  resolved to a loopback address, is accepted only when loopback is allowed.
\<close>

theorem ValidateOutboundURL_gate:
  assumes "ValidateOutboundURL h d rawURL = Ok u"
  shows "ParseURL (TrimSpace rawURL) = Some u \<and> ToLower (TrimSpace (u_scheme u)) \<in> toSet (effectiveAllowedOutboundSchemes h) ToLower \<and>
    (ToLower (TrimSpace (u_scheme u)) \<in> {''http'', ''ws''} \<longrightarrow> parseBoolEnv h envAllowInsecureTransport False) \<and>
    (parseBoolEnv h envOutboundAllowlistMode False \<longrightarrow>
       (\<exists>pattern \<in> set (parseAllowedHostPatterns h). hostMatchesPattern (normalizeHostname (Hostname u)) pattern)) \<and>
    (\<forall>p. ParseIP (normalizeHostname (Hostname u)) = Some p \<longrightarrow> permitted (current_permissions h (ToLower (TrimSpace (u_scheme u)))) p) \<and>
    (ParseIP (normalizeHostname (Hostname u)) = None \<longrightarrow>
       EqualFold (normalizeHostname (Hostname u)) ''localhost'' \<or> fst (resolvedHostRisk d (normalizeHostname (Hostname u))) \<longrightarrow>
       parseBoolEnv h envOutboundAllowLoopback False)"
proof -
  let ?n = "normalizeHostname (Hostname u)" and ?s = "ToLower (TrimSpace (u_scheme u))"
  have a: "ParseURL (TrimSpace rawURL) = Some u" "?s \<in> toSet (effectiveAllowedOutboundSchemes h) ToLower"
      "?s \<in> {''http'', ''ws''} \<longrightarrow> parseBoolEnv h envAllowInsecureTransport False"
      "\<exists>x. validateOutboundHostWithPolicy h d (Hostname u) (parseBoolEnv h envOutboundAllowlistMode False)
         (resolvedOutboundAllowPrivate h ?s) (parseBoolEnv h envOutboundAllowLoopback False) = Ok x"
    using assms by (auto simp: ValidateOutboundURL_def Let_def split: option.splits if_splits sum.splits)
  note v = host_accepted [OF a(4) [THEN someI_ex]]
  have lit: "permitted (current_permissions h ?s) p" if "ParseIP ?n = Some p" for p
    using v loopback_not_private [of p] by (auto simp: risk_literal [OF that] permitted_def current_permissions_def)
  have name: "parseBoolEnv h envOutboundAllowLoopback False"
    if "ParseIP ?n = None" "EqualFold ?n ''localhost'' \<or> fst (resolvedHostRisk d ?n)"
  proof -
    have "snd (snd (resolvedHostRisk d ?n))" if "fst (resolvedHostRisk d ?n)"
      using that by (auto simp: resolvedHostRisk_def Let_def split: if_splits option.splits list.splits)
    then have "fst (hostRiskProfile d ?n)"
      using that by (auto simp: hostRiskProfile_def split: prod.splits)
    with v show ?thesis by blast
  qed
  show ?thesis
    using a(1-3) v lit name by blast
qed

theorem ValidateOutboundURL_gate_witness:
  "\<exists>u. ValidateOutboundURL demo_env demo_dns '' https://10.0.0.1/x '' = Ok u \<and> permitted (current_permissions demo_env ''https'') (IPv4 10 0 0 1)"
proof -
  obtain u where u: "ValidateOutboundURL demo_env demo_dns '' https://10.0.0.1/x '' = Ok u"
      "ParseIP (normalizeHostname (Hostname u)) = Some (IPv4 10 0 0 1)" "ToLower (TrimSpace (u_scheme u)) = ''https''"
  proof -
    define r where "r = ValidateOutboundURL demo_env demo_dns '' https://10.0.0.1/x ''"
    have "is_ok (ValidateOutboundURL demo_env demo_dns '' https://10.0.0.1/x '') \<and>
        ParseIP (normalizeHostname (Hostname (projr (ValidateOutboundURL demo_env demo_dns '' https://10.0.0.1/x '')))) = Some (IPv4 10 0 0 1) \<and>
        ToLower (TrimSpace (u_scheme (projr (ValidateOutboundURL demo_env demo_dns '' https://10.0.0.1/x '')))) = ''https''"
      by code_simp
    then show ?thesis
      using that by (auto elim: is_okE)
  qed
  then show ?thesis
    using ValidateOutboundURL_gate [OF u(1)] by auto
qed

text \<open>
  A long-lived client never uses outdated permissions. However the settings changed since its
  connection pool was made, the permissions under which a round trip dials are those of the current
  settings for the scheme of the request.
\<close>

theorem reusable_client_uses_current_policy:
  assumes "reusable_RoundTrip h d rt u = Ok perms"
  shows "perms = current_permissions h (ToLower (TrimSpace (u_scheme u)))"
  using assms by (auto simp: reusable_RoundTrip_def current_permissions_def Let_def split: sum.splits if_splits)

theorem reusable_client_uses_current_policy_witness:
  "reusable_RoundTrip demo_env demo_dns \<lparr>rt_scheme = ''https'', rt_perms = \<lparr>dp_allowLoopback = True, dp_allowPrivate = True\<rparr>\<rparr> (demo_url ''https'') =
     Ok (current_permissions demo_env ''https'')"
proof -
  have e: "reusable_RoundTrip demo_env demo_dns \<lparr>rt_scheme = ''https'', rt_perms = \<lparr>dp_allowLoopback = True, dp_allowPrivate = True\<rparr>\<rparr> (demo_url ''https'') =
      Ok \<lparr>dp_allowLoopback = False, dp_allowPrivate = True\<rparr>"
    and s: "ToLower (TrimSpace (u_scheme (demo_url ''https''))) = ''https''"
    by code_simp+
  show ?thesis
    using reusable_client_uses_current_policy [OF e] e s by simp
qed

end
