(* ===== verification/GoNetip.thy ===== *)
theory GoNetip
  imports GoNet
begin

text \<open>
  The part of Go's \<open>net/netip\<close> the settings use: \<open>ParsePrefix\<close>, \<open>Prefix.Masked\<close> and
  \<open>Prefix.String\<close>. Unlike package \<open>net\<close>, an IPv4 address is not the same as its IPv4-mapped form, so a
  prefix carries which one it is. The address classes of package \<open>net\<close> apply to both.
\<close>

record prefix =
  px_is4 :: bool
  px_addr :: ip
  px_bits :: int

text \<open>\<open>Itoa\<close> for the small numbers here, on \<open>int\<close> so that it computes.\<close>

definition digits3 :: "int \<Rightarrow> string" where
  "digits3 n =
     (let d = (\<lambda>k. ''0123456789'' ! nat k)
      in if n < 10 then [d n] else if n < 100 then [d (n div 10), d (n mod 10)] else [d (n div 100), d (n div 10 mod 10), d (n mod 10)])"

definition ParsePrefix :: "string \<Rightarrow> prefix option" where
  "ParsePrefix s =
     (case cut_last (CHR ''/'') s of
        None \<Rightarrow> None
      | Some (a, b) \<Rightarrow>
          (case ParseIP a of
             None \<Rightarrow> None
           | Some p \<Rightarrow>
               let is4 = CHR '':'' \<notin> set a; n = dec_value b
               in if b = [] \<or> \<not> list_all is_digit b \<or> (1 < length b \<and> hd b = CHR ''0'') \<or> n > (if is4 then 32 else 128) then None
                  else Some \<lparr>px_is4 = is4, px_addr = p, px_bits = n\<rparr>))"

fun mask_groups :: "int \<Rightarrow> int list \<Rightarrow> int list" where
  "mask_groups n [] = []"
| "mask_groups n (g # gs) =
     (let keep = (if n \<le> 0 then 0 else if n \<ge> 16 then 16 else n); unit = 2 ^ nat (16 - keep)
      in g div unit * unit # mask_groups (n - 16) gs)"

definition Masked :: "prefix \<Rightarrow> prefix" where
  "Masked p = p\<lparr>px_addr := mask_groups (px_bits p + (if px_is4 p then 96 else 0)) (px_addr p)\<rparr>"

definition hex_group :: "int \<Rightarrow> string" where
  "hex_group g =
     (let d = (\<lambda>k. ''0123456789abcdef'' ! nat k);
          s = dropWhile (\<lambda>c. c = CHR ''0'') [d (g div 4096), d (g div 256 mod 16), d (g div 16 mod 16), d (g mod 16)]
      in if s = [] then ''0'' else s)"

text \<open>The longest run of zero groups, the first of equals, if it has at least two.\<close>

fun zero_runs :: "nat \<Rightarrow> int list \<Rightarrow> (nat \<times> nat) list" where
  "zero_runs i [] = []"
| "zero_runs i (g # gs) = (i, length (takeWhile (\<lambda>x. x = 0) (g # gs))) # zero_runs (Suc i) gs"

definition longest_zeros :: "int list \<Rightarrow> nat \<times> nat" where
  "longest_zeros gs =
     foldl (\<lambda>best run. if 2 \<le> snd run \<and> snd best < snd run then run else best) (0, 0) (zero_runs 0 gs)"

definition string4 :: "ip \<Rightarrow> string" where
  "string4 p = Join (map digits3 [octet p 12, octet p 13, octet p 14, octet p 15]) ''.''"

definition string6 :: "ip \<Rightarrow> string" where
  "string6 p =
     (let (s, n) = longest_zeros p; text = (\<lambda>gs. Join (map hex_group gs) '':'')
      in if n = 0 then text p else text (take s p) @ ''::'' @ text (drop (s + n) p))"

definition PrefixString :: "prefix \<Rightarrow> string" where
  "PrefixString p =
     (if px_is4 p then string4 (px_addr p)
      else if is_v4 (px_addr p) then ''::ffff:'' @ string4 (px_addr p)
      else string6 (px_addr p)) @ ''/'' @ digits3 (px_bits p)"

end
