(* ===== verification/Settings.thy ===== *)
theory Settings
  imports Outbound GoNetip GoEncoding
begin

text \<open>
  The agent's settings: \<open>internal/agentcore/sysconfig/settings_definitions.go\<close>, \<open>settings_values.go\<close>,
  \<open>settings_value_validation.go\<close> and \<open>settings_file.go\<close>. The table of settings, how a value is
  checked and brought into its normal form, how the configuration is read and written through the
  table, and the settings file. Labels and descriptions are left out.
\<close>

section \<open>The table\<close>

datatype setting_key =
    KeyCollectIntervalSec
  | KeyHeartbeatIntervalSec
  | KeyDockerEnabled
  | KeyDockerEndpoint
  | KeyDockerDiscoveryIntervalSec
  | KeyServicesDiscoveryDockerEnabled
  | KeyServicesDiscoveryProxyEnabled
  | KeyServicesDiscoveryProxyTraefikEnabled
  | KeyServicesDiscoveryProxyCaddyEnabled
  | KeyServicesDiscoveryProxyNPMEnabled
  | KeyServicesDiscoveryPortScanEnabled
  | KeyServicesDiscoveryPortScanIncludeListening
  | KeyServicesDiscoveryPortScanPorts
  | KeyServicesDiscoveryLANScanEnabled
  | KeyServicesDiscoveryLANScanCIDRs
  | KeyServicesDiscoveryLANScanPorts
  | KeyServicesDiscoveryLANScanMaxHosts
  | KeyFilesRootMode
  | KeyWebRTCEnabled
  | KeyWebRTCSTUNURL
  | KeyWebRTCTURNURL
  | KeyWebRTCTURNUser
  | KeyWebRTCTURNPass
  | KeyWebRTCWaylandExperimentalEnabled
  | KeyWebRTCWaylandPipeWireNodeID
  | KeyWebRTCWaylandInputBackend
  | KeyCaptureFPS
  | KeyAllowRemoteOverrides
  | KeyLogLevel
  | KeyTLSSkipVerify
  | KeyTLSCAFile

fun key_name :: "setting_key \<Rightarrow> string" where
  "key_name KeyCollectIntervalSec = ''collect_interval_sec''"
| "key_name KeyHeartbeatIntervalSec = ''heartbeat_interval_sec''"
| "key_name KeyDockerEnabled = ''docker_enabled''"
| "key_name KeyDockerEndpoint = ''docker_endpoint''"
| "key_name KeyDockerDiscoveryIntervalSec = ''docker_discovery_interval_sec''"
| "key_name KeyServicesDiscoveryDockerEnabled = ''services_discovery_docker_enabled''"
| "key_name KeyServicesDiscoveryProxyEnabled = ''services_discovery_proxy_enabled''"
| "key_name KeyServicesDiscoveryProxyTraefikEnabled = ''services_discovery_proxy_traefik_enabled''"
| "key_name KeyServicesDiscoveryProxyCaddyEnabled = ''services_discovery_proxy_caddy_enabled''"
| "key_name KeyServicesDiscoveryProxyNPMEnabled = ''services_discovery_proxy_npm_enabled''"
| "key_name KeyServicesDiscoveryPortScanEnabled = ''services_discovery_port_scan_enabled''"
| "key_name KeyServicesDiscoveryPortScanIncludeListening = ''services_discovery_port_scan_include_listening''"
| "key_name KeyServicesDiscoveryPortScanPorts = ''services_discovery_port_scan_ports''"
| "key_name KeyServicesDiscoveryLANScanEnabled = ''services_discovery_lan_scan_enabled''"
| "key_name KeyServicesDiscoveryLANScanCIDRs = ''services_discovery_lan_scan_cidrs''"
| "key_name KeyServicesDiscoveryLANScanPorts = ''services_discovery_lan_scan_ports''"
| "key_name KeyServicesDiscoveryLANScanMaxHosts = ''services_discovery_lan_scan_max_hosts''"
| "key_name KeyFilesRootMode = ''files_root_mode''"
| "key_name KeyWebRTCEnabled = ''webrtc_enabled''"
| "key_name KeyWebRTCSTUNURL = ''webrtc_stun_url''"
| "key_name KeyWebRTCTURNURL = ''webrtc_turn_url''"
| "key_name KeyWebRTCTURNUser = ''webrtc_turn_user''"
| "key_name KeyWebRTCTURNPass = ''webrtc_turn_pass''"
| "key_name KeyWebRTCWaylandExperimentalEnabled = ''webrtc_wayland_experimental_enabled''"
| "key_name KeyWebRTCWaylandPipeWireNodeID = ''webrtc_wayland_pipewire_node_id''"
| "key_name KeyWebRTCWaylandInputBackend = ''webrtc_wayland_input_backend''"
| "key_name KeyCaptureFPS = ''capture_fps''"
| "key_name KeyAllowRemoteOverrides = ''allow_remote_overrides''"
| "key_name KeyLogLevel = ''log_level''"
| "key_name KeyTLSSkipVerify = ''tls_skip_verify''"
| "key_name KeyTLSCAFile = ''tls_ca_file''"

definition all_keys :: "setting_key list" where
  "all_keys = [
     KeyCollectIntervalSec, KeyHeartbeatIntervalSec, KeyDockerEnabled, KeyDockerEndpoint, KeyDockerDiscoveryIntervalSec,
     KeyServicesDiscoveryDockerEnabled, KeyServicesDiscoveryProxyEnabled, KeyServicesDiscoveryProxyTraefikEnabled,
     KeyServicesDiscoveryProxyCaddyEnabled, KeyServicesDiscoveryProxyNPMEnabled, KeyServicesDiscoveryPortScanEnabled,
     KeyServicesDiscoveryPortScanIncludeListening, KeyServicesDiscoveryPortScanPorts, KeyServicesDiscoveryLANScanEnabled,
     KeyServicesDiscoveryLANScanCIDRs, KeyServicesDiscoveryLANScanPorts, KeyServicesDiscoveryLANScanMaxHosts,
     KeyFilesRootMode, KeyWebRTCEnabled, KeyWebRTCSTUNURL, KeyWebRTCTURNURL, KeyWebRTCTURNUser, KeyWebRTCTURNPass,
     KeyWebRTCWaylandExperimentalEnabled, KeyWebRTCWaylandPipeWireNodeID, KeyWebRTCWaylandInputBackend, KeyCaptureFPS,
     KeyAllowRemoteOverrides, KeyLogLevel, KeyTLSSkipVerify, KeyTLSCAFile]"

datatype setting_type = TypeString | TypeInt | TypeBool | TypeEnum

record setting_definition =
  sd_Type :: setting_type
  sd_DefaultValue :: string
  sd_MinInt :: int
  sd_MaxInt :: int
  sd_AllowedValues :: "string list"
  sd_RestartRequired :: bool
  sd_HubManaged :: bool
  sd_LocalOnly :: bool

fun definition_of :: "setting_key \<Rightarrow> setting_definition" where
  "definition_of KeyCollectIntervalSec =
     \<lparr>sd_Type = TypeInt, sd_DefaultValue = ''10'', sd_MinInt = 2, sd_MaxInt = 300, sd_AllowedValues = [],
      sd_RestartRequired = False, sd_HubManaged = True, sd_LocalOnly = False\<rparr>"
| "definition_of KeyHeartbeatIntervalSec =
     \<lparr>sd_Type = TypeInt, sd_DefaultValue = ''20'', sd_MinInt = 5, sd_MaxInt = 600, sd_AllowedValues = [],
      sd_RestartRequired = False, sd_HubManaged = True, sd_LocalOnly = False\<rparr>"
| "definition_of KeyDockerEnabled =
     \<lparr>sd_Type = TypeEnum, sd_DefaultValue = ''auto'', sd_MinInt = 0, sd_MaxInt = 0, sd_AllowedValues = [''auto'', ''true'', ''false''],
      sd_RestartRequired = True, sd_HubManaged = True, sd_LocalOnly = False\<rparr>"
| "definition_of KeyDockerEndpoint =
     \<lparr>sd_Type = TypeString, sd_DefaultValue = ''/var/run/docker.sock'', sd_MinInt = 0, sd_MaxInt = 0, sd_AllowedValues = [],
      sd_RestartRequired = True, sd_HubManaged = True, sd_LocalOnly = False\<rparr>"
| "definition_of KeyDockerDiscoveryIntervalSec =
     \<lparr>sd_Type = TypeInt, sd_DefaultValue = ''30'', sd_MinInt = 5, sd_MaxInt = 3600, sd_AllowedValues = [],
      sd_RestartRequired = True, sd_HubManaged = True, sd_LocalOnly = False\<rparr>"
| "definition_of KeyServicesDiscoveryDockerEnabled =
     \<lparr>sd_Type = TypeBool, sd_DefaultValue = ''true'', sd_MinInt = 0, sd_MaxInt = 0, sd_AllowedValues = [],
      sd_RestartRequired = True, sd_HubManaged = True, sd_LocalOnly = False\<rparr>"
| "definition_of KeyServicesDiscoveryProxyEnabled =
     \<lparr>sd_Type = TypeBool, sd_DefaultValue = ''true'', sd_MinInt = 0, sd_MaxInt = 0, sd_AllowedValues = [],
      sd_RestartRequired = True, sd_HubManaged = True, sd_LocalOnly = False\<rparr>"
| "definition_of KeyServicesDiscoveryProxyTraefikEnabled =
     \<lparr>sd_Type = TypeBool, sd_DefaultValue = ''true'', sd_MinInt = 0, sd_MaxInt = 0, sd_AllowedValues = [],
      sd_RestartRequired = True, sd_HubManaged = True, sd_LocalOnly = False\<rparr>"
| "definition_of KeyServicesDiscoveryProxyCaddyEnabled =
     \<lparr>sd_Type = TypeBool, sd_DefaultValue = ''true'', sd_MinInt = 0, sd_MaxInt = 0, sd_AllowedValues = [],
      sd_RestartRequired = True, sd_HubManaged = True, sd_LocalOnly = False\<rparr>"
| "definition_of KeyServicesDiscoveryProxyNPMEnabled =
     \<lparr>sd_Type = TypeBool, sd_DefaultValue = ''true'', sd_MinInt = 0, sd_MaxInt = 0, sd_AllowedValues = [],
      sd_RestartRequired = True, sd_HubManaged = True, sd_LocalOnly = False\<rparr>"
| "definition_of KeyServicesDiscoveryPortScanEnabled =
     \<lparr>sd_Type = TypeBool, sd_DefaultValue = ''true'', sd_MinInt = 0, sd_MaxInt = 0, sd_AllowedValues = [],
      sd_RestartRequired = True, sd_HubManaged = True, sd_LocalOnly = False\<rparr>"
| "definition_of KeyServicesDiscoveryPortScanIncludeListening =
     \<lparr>sd_Type = TypeBool, sd_DefaultValue = ''true'', sd_MinInt = 0, sd_MaxInt = 0, sd_AllowedValues = [],
      sd_RestartRequired = True, sd_HubManaged = True, sd_LocalOnly = False\<rparr>"
| "definition_of KeyServicesDiscoveryPortScanPorts =
     \<lparr>sd_Type = TypeString, sd_DefaultValue = '''', sd_MinInt = 0, sd_MaxInt = 0, sd_AllowedValues = [],
      sd_RestartRequired = True, sd_HubManaged = True, sd_LocalOnly = False\<rparr>"
| "definition_of KeyServicesDiscoveryLANScanEnabled =
     \<lparr>sd_Type = TypeBool, sd_DefaultValue = ''false'', sd_MinInt = 0, sd_MaxInt = 0, sd_AllowedValues = [],
      sd_RestartRequired = True, sd_HubManaged = True, sd_LocalOnly = False\<rparr>"
| "definition_of KeyServicesDiscoveryLANScanCIDRs =
     \<lparr>sd_Type = TypeString, sd_DefaultValue = '''', sd_MinInt = 0, sd_MaxInt = 0, sd_AllowedValues = [],
      sd_RestartRequired = True, sd_HubManaged = True, sd_LocalOnly = False\<rparr>"
| "definition_of KeyServicesDiscoveryLANScanPorts =
     \<lparr>sd_Type = TypeString, sd_DefaultValue = '''', sd_MinInt = 0, sd_MaxInt = 0, sd_AllowedValues = [],
      sd_RestartRequired = True, sd_HubManaged = True, sd_LocalOnly = False\<rparr>"
| "definition_of KeyServicesDiscoveryLANScanMaxHosts =
     \<lparr>sd_Type = TypeInt, sd_DefaultValue = ''64'', sd_MinInt = 1, sd_MaxInt = 1024, sd_AllowedValues = [],
      sd_RestartRequired = True, sd_HubManaged = True, sd_LocalOnly = False\<rparr>"
| "definition_of KeyFilesRootMode =
     \<lparr>sd_Type = TypeEnum, sd_DefaultValue = ''home'', sd_MinInt = 0, sd_MaxInt = 0, sd_AllowedValues = [''home'', ''full''],
      sd_RestartRequired = True, sd_HubManaged = True, sd_LocalOnly = False\<rparr>"
| "definition_of KeyWebRTCEnabled =
     \<lparr>sd_Type = TypeBool, sd_DefaultValue = ''true'', sd_MinInt = 0, sd_MaxInt = 0, sd_AllowedValues = [],
      sd_RestartRequired = True, sd_HubManaged = True, sd_LocalOnly = False\<rparr>"
| "definition_of KeyWebRTCSTUNURL =
     \<lparr>sd_Type = TypeString, sd_DefaultValue = ''stun:stun.l.google.com:19302'', sd_MinInt = 0, sd_MaxInt = 0, sd_AllowedValues = [],
      sd_RestartRequired = False, sd_HubManaged = True, sd_LocalOnly = False\<rparr>"
| "definition_of KeyWebRTCTURNURL =
     \<lparr>sd_Type = TypeString, sd_DefaultValue = '''', sd_MinInt = 0, sd_MaxInt = 0, sd_AllowedValues = [],
      sd_RestartRequired = False, sd_HubManaged = True, sd_LocalOnly = False\<rparr>"
| "definition_of KeyWebRTCTURNUser =
     \<lparr>sd_Type = TypeString, sd_DefaultValue = '''', sd_MinInt = 0, sd_MaxInt = 0, sd_AllowedValues = [],
      sd_RestartRequired = False, sd_HubManaged = True, sd_LocalOnly = False\<rparr>"
| "definition_of KeyWebRTCTURNPass =
     \<lparr>sd_Type = TypeString, sd_DefaultValue = '''', sd_MinInt = 0, sd_MaxInt = 0, sd_AllowedValues = [],
      sd_RestartRequired = False, sd_HubManaged = True, sd_LocalOnly = False\<rparr>"
| "definition_of KeyWebRTCWaylandExperimentalEnabled =
     \<lparr>sd_Type = TypeBool, sd_DefaultValue = ''false'', sd_MinInt = 0, sd_MaxInt = 0, sd_AllowedValues = [],
      sd_RestartRequired = True, sd_HubManaged = True, sd_LocalOnly = False\<rparr>"
| "definition_of KeyWebRTCWaylandPipeWireNodeID =
     \<lparr>sd_Type = TypeString, sd_DefaultValue = '''', sd_MinInt = 0, sd_MaxInt = 0, sd_AllowedValues = [],
      sd_RestartRequired = True, sd_HubManaged = True, sd_LocalOnly = False\<rparr>"
| "definition_of KeyWebRTCWaylandInputBackend =
     \<lparr>sd_Type = TypeEnum, sd_DefaultValue = ''auto'', sd_MinInt = 0, sd_MaxInt = 0, sd_AllowedValues = [''auto'', ''none'', ''ydotool''],
      sd_RestartRequired = True, sd_HubManaged = True, sd_LocalOnly = False\<rparr>"
| "definition_of KeyCaptureFPS =
     \<lparr>sd_Type = TypeInt, sd_DefaultValue = ''30'', sd_MinInt = 5, sd_MaxInt = 120, sd_AllowedValues = [],
      sd_RestartRequired = False, sd_HubManaged = True, sd_LocalOnly = False\<rparr>"
| "definition_of KeyTLSSkipVerify =
     \<lparr>sd_Type = TypeBool, sd_DefaultValue = ''false'', sd_MinInt = 0, sd_MaxInt = 0, sd_AllowedValues = [],
      sd_RestartRequired = True, sd_HubManaged = False, sd_LocalOnly = True\<rparr>"
| "definition_of KeyTLSCAFile =
     \<lparr>sd_Type = TypeString, sd_DefaultValue = '''', sd_MinInt = 0, sd_MaxInt = 0, sd_AllowedValues = [],
      sd_RestartRequired = True, sd_HubManaged = False, sd_LocalOnly = True\<rparr>"
| "definition_of KeyAllowRemoteOverrides =
     \<lparr>sd_Type = TypeBool, sd_DefaultValue = ''true'', sd_MinInt = 0, sd_MaxInt = 0, sd_AllowedValues = [],
      sd_RestartRequired = False, sd_HubManaged = False, sd_LocalOnly = True\<rparr>"
| "definition_of KeyLogLevel =
     \<lparr>sd_Type = TypeEnum, sd_DefaultValue = ''info'', sd_MinInt = 0, sd_MaxInt = 0, sd_AllowedValues = [''debug'', ''info'', ''warn'', ''error''],
      sd_RestartRequired = False, sd_HubManaged = True, sd_LocalOnly = False\<rparr>"

definition find_key :: "string \<Rightarrow> setting_key option" where
  "find_key s = find (\<lambda>k. key_name k = s) all_keys"

definition AgentSettingDefinitionByKey :: "string \<Rightarrow> setting_key option" where
  "AgentSettingDefinitionByKey key = find_key (TrimSpace (ToLower key))"

definition DefaultAgentSettingValues :: "setting_key \<Rightarrow> string" where
  "DefaultAgentSettingValues k = sd_DefaultValue (definition_of k)"

section \<open>The configuration\<close>

text \<open>Durations are nanoseconds.\<close>

definition second :: int where "second = 10 ^ 9"

record settings_cfg =
  sc_CollectInterval :: int
  sc_HeartbeatInterval :: int
  sc_DockerEnabled :: string
  sc_DockerSocket :: string
  sc_DockerDiscoveryInterval :: int
  sc_ServicesDiscoveryDockerEnabled :: bool
  sc_ServicesDiscoveryProxyEnabled :: bool
  sc_ServicesDiscoveryProxyTraefikEnabled :: bool
  sc_ServicesDiscoveryProxyCaddyEnabled :: bool
  sc_ServicesDiscoveryProxyNPMEnabled :: bool
  sc_ServicesDiscoveryPortScanEnabled :: bool
  sc_ServicesDiscoveryPortScanIncludeListening :: bool
  sc_ServicesDiscoveryPortScanPorts :: string
  sc_ServicesDiscoveryLANScanEnabled :: bool
  sc_ServicesDiscoveryLANScanCIDRs :: string
  sc_ServicesDiscoveryLANScanPorts :: string
  sc_ServicesDiscoveryLANScanMaxHosts :: int
  sc_FileRootMode :: string
  sc_WebRTCEnabled :: bool
  sc_WebRTCSTUNURL :: string
  sc_WebRTCTURNURL :: string
  sc_WebRTCTURNUser :: string
  sc_WebRTCTURNPass :: string
  sc_WebRTCWaylandExperimentalEnabled :: bool
  sc_WebRTCWaylandPipeWireNodeID :: string
  sc_WebRTCWaylandInputBackend :: string
  sc_CaptureFPS :: int
  sc_AllowRemoteOverrides :: bool
  sc_LogLevel :: string
  sc_TLSSkipVerify :: bool
  sc_TLSCAFile :: string
  sc_TokenFilePath :: string

definition DurationSeconds :: "int \<Rightarrow> int" where
  "DurationSeconds d = (if d \<le> 0 then 0 else d div second)"

definition or_default :: "string \<Rightarrow> string \<Rightarrow> string" where
  "or_default s d = (if s = [] then d else s)"

fun AgentSettingValuesFromConfig :: "settings_cfg \<Rightarrow> setting_key \<Rightarrow> string" where
  "AgentSettingValuesFromConfig cfg KeyCollectIntervalSec = Itoa (DurationSeconds (sc_CollectInterval cfg))"
| "AgentSettingValuesFromConfig cfg KeyHeartbeatIntervalSec = Itoa (DurationSeconds (sc_HeartbeatInterval cfg))"
| "AgentSettingValuesFromConfig cfg KeyDockerEnabled = or_default (TrimSpace (ToLower (sc_DockerEnabled cfg))) ''auto''"
| "AgentSettingValuesFromConfig cfg KeyDockerEndpoint = or_default (TrimSpace (sc_DockerSocket cfg)) ''/var/run/docker.sock''"
| "AgentSettingValuesFromConfig cfg KeyDockerDiscoveryIntervalSec = Itoa (DurationSeconds (if sc_DockerDiscoveryInterval cfg \<le> 0 then 30 * second else sc_DockerDiscoveryInterval cfg))"
| "AgentSettingValuesFromConfig cfg KeyServicesDiscoveryDockerEnabled = FormatBool (sc_ServicesDiscoveryDockerEnabled cfg)"
| "AgentSettingValuesFromConfig cfg KeyServicesDiscoveryProxyEnabled = FormatBool (sc_ServicesDiscoveryProxyEnabled cfg)"
| "AgentSettingValuesFromConfig cfg KeyServicesDiscoveryProxyTraefikEnabled = FormatBool (sc_ServicesDiscoveryProxyTraefikEnabled cfg)"
| "AgentSettingValuesFromConfig cfg KeyServicesDiscoveryProxyCaddyEnabled = FormatBool (sc_ServicesDiscoveryProxyCaddyEnabled cfg)"
| "AgentSettingValuesFromConfig cfg KeyServicesDiscoveryProxyNPMEnabled = FormatBool (sc_ServicesDiscoveryProxyNPMEnabled cfg)"
| "AgentSettingValuesFromConfig cfg KeyServicesDiscoveryPortScanEnabled = FormatBool (sc_ServicesDiscoveryPortScanEnabled cfg)"
| "AgentSettingValuesFromConfig cfg KeyServicesDiscoveryPortScanIncludeListening = FormatBool (sc_ServicesDiscoveryPortScanIncludeListening cfg)"
| "AgentSettingValuesFromConfig cfg KeyServicesDiscoveryPortScanPorts = TrimSpace (sc_ServicesDiscoveryPortScanPorts cfg)"
| "AgentSettingValuesFromConfig cfg KeyServicesDiscoveryLANScanEnabled = FormatBool (sc_ServicesDiscoveryLANScanEnabled cfg)"
| "AgentSettingValuesFromConfig cfg KeyServicesDiscoveryLANScanCIDRs = TrimSpace (sc_ServicesDiscoveryLANScanCIDRs cfg)"
| "AgentSettingValuesFromConfig cfg KeyServicesDiscoveryLANScanPorts = TrimSpace (sc_ServicesDiscoveryLANScanPorts cfg)"
| "AgentSettingValuesFromConfig cfg KeyServicesDiscoveryLANScanMaxHosts = Itoa (if sc_ServicesDiscoveryLANScanMaxHosts cfg \<le> 0 then 64 else sc_ServicesDiscoveryLANScanMaxHosts cfg)"
| "AgentSettingValuesFromConfig cfg KeyFilesRootMode = or_default (TrimSpace (ToLower (sc_FileRootMode cfg))) ''home''"
| "AgentSettingValuesFromConfig cfg KeyWebRTCEnabled = FormatBool (sc_WebRTCEnabled cfg)"
| "AgentSettingValuesFromConfig cfg KeyWebRTCSTUNURL = or_default (TrimSpace (sc_WebRTCSTUNURL cfg)) ''stun:stun.l.google.com:19302''"
| "AgentSettingValuesFromConfig cfg KeyWebRTCTURNURL = TrimSpace (sc_WebRTCTURNURL cfg)"
| "AgentSettingValuesFromConfig cfg KeyWebRTCTURNUser = TrimSpace (sc_WebRTCTURNUser cfg)"
| "AgentSettingValuesFromConfig cfg KeyWebRTCTURNPass = TrimSpace (sc_WebRTCTURNPass cfg)"
| "AgentSettingValuesFromConfig cfg KeyWebRTCWaylandExperimentalEnabled = FormatBool (sc_WebRTCWaylandExperimentalEnabled cfg)"
| "AgentSettingValuesFromConfig cfg KeyWebRTCWaylandPipeWireNodeID = TrimSpace (sc_WebRTCWaylandPipeWireNodeID cfg)"
| "AgentSettingValuesFromConfig cfg KeyWebRTCWaylandInputBackend = or_default (TrimSpace (ToLower (sc_WebRTCWaylandInputBackend cfg))) ''auto''"
| "AgentSettingValuesFromConfig cfg KeyCaptureFPS = Itoa (if sc_CaptureFPS cfg \<le> 0 then 30 else sc_CaptureFPS cfg)"
| "AgentSettingValuesFromConfig cfg KeyAllowRemoteOverrides = FormatBool (sc_AllowRemoteOverrides cfg)"
| "AgentSettingValuesFromConfig cfg KeyLogLevel = or_default (TrimSpace (ToLower (sc_LogLevel cfg))) ''info''"
| "AgentSettingValuesFromConfig cfg KeyTLSSkipVerify = FormatBool (sc_TLSSkipVerify cfg)"
| "AgentSettingValuesFromConfig cfg KeyTLSCAFile = TrimSpace (sc_TLSCAFile cfg)"

text \<open>The assignments of the \<open>switch\<close> in \<open>applyAgentSettings\<close>, for a value in normal form.\<close>

definition atoi :: "string \<Rightarrow> int" where
  "atoi v = (case Atoi v of Some n \<Rightarrow> n | None \<Rightarrow> 0)"

definition parse_bool :: "string \<Rightarrow> bool" where
  "parse_bool v = (case ParseBool v of Some b \<Rightarrow> b | None \<Rightarrow> False)"

fun assign_setting :: "setting_key \<Rightarrow> string \<Rightarrow> settings_cfg \<Rightarrow> settings_cfg" where
  "assign_setting KeyCollectIntervalSec v cfg = cfg\<lparr>sc_CollectInterval := atoi v * second\<rparr>"
| "assign_setting KeyHeartbeatIntervalSec v cfg = cfg\<lparr>sc_HeartbeatInterval := atoi v * second\<rparr>"
| "assign_setting KeyDockerEnabled v cfg = (if \<not> EqualFold (TrimSpace (sc_DockerEnabled cfg)) v then cfg\<lparr>sc_DockerEnabled := v\<rparr> else cfg)"
| "assign_setting KeyDockerEndpoint v cfg = (if TrimSpace (sc_DockerSocket cfg) \<noteq> v then cfg\<lparr>sc_DockerSocket := v\<rparr> else cfg)"
| "assign_setting KeyDockerDiscoveryIntervalSec v cfg = cfg\<lparr>sc_DockerDiscoveryInterval := atoi v * second\<rparr>"
| "assign_setting KeyServicesDiscoveryDockerEnabled v cfg = cfg\<lparr>sc_ServicesDiscoveryDockerEnabled := parse_bool v\<rparr>"
| "assign_setting KeyServicesDiscoveryProxyEnabled v cfg = cfg\<lparr>sc_ServicesDiscoveryProxyEnabled := parse_bool v\<rparr>"
| "assign_setting KeyServicesDiscoveryProxyTraefikEnabled v cfg = cfg\<lparr>sc_ServicesDiscoveryProxyTraefikEnabled := parse_bool v\<rparr>"
| "assign_setting KeyServicesDiscoveryProxyCaddyEnabled v cfg = cfg\<lparr>sc_ServicesDiscoveryProxyCaddyEnabled := parse_bool v\<rparr>"
| "assign_setting KeyServicesDiscoveryProxyNPMEnabled v cfg = cfg\<lparr>sc_ServicesDiscoveryProxyNPMEnabled := parse_bool v\<rparr>"
| "assign_setting KeyServicesDiscoveryPortScanEnabled v cfg = cfg\<lparr>sc_ServicesDiscoveryPortScanEnabled := parse_bool v\<rparr>"
| "assign_setting KeyServicesDiscoveryPortScanIncludeListening v cfg = cfg\<lparr>sc_ServicesDiscoveryPortScanIncludeListening := parse_bool v\<rparr>"
| "assign_setting KeyServicesDiscoveryPortScanPorts v cfg = (if TrimSpace (sc_ServicesDiscoveryPortScanPorts cfg) \<noteq> v then cfg\<lparr>sc_ServicesDiscoveryPortScanPorts := v\<rparr> else cfg)"
| "assign_setting KeyServicesDiscoveryLANScanEnabled v cfg = cfg\<lparr>sc_ServicesDiscoveryLANScanEnabled := parse_bool v\<rparr>"
| "assign_setting KeyServicesDiscoveryLANScanCIDRs v cfg = (if TrimSpace (sc_ServicesDiscoveryLANScanCIDRs cfg) \<noteq> v then cfg\<lparr>sc_ServicesDiscoveryLANScanCIDRs := v\<rparr> else cfg)"
| "assign_setting KeyServicesDiscoveryLANScanPorts v cfg = (if TrimSpace (sc_ServicesDiscoveryLANScanPorts cfg) \<noteq> v then cfg\<lparr>sc_ServicesDiscoveryLANScanPorts := v\<rparr> else cfg)"
| "assign_setting KeyServicesDiscoveryLANScanMaxHosts v cfg = cfg\<lparr>sc_ServicesDiscoveryLANScanMaxHosts := atoi v\<rparr>"
| "assign_setting KeyFilesRootMode v cfg = (if \<not> EqualFold (TrimSpace (sc_FileRootMode cfg)) v then cfg\<lparr>sc_FileRootMode := v\<rparr> else cfg)"
| "assign_setting KeyWebRTCEnabled v cfg = cfg\<lparr>sc_WebRTCEnabled := parse_bool v\<rparr>"
| "assign_setting KeyWebRTCSTUNURL v cfg = (if TrimSpace (sc_WebRTCSTUNURL cfg) \<noteq> v then cfg\<lparr>sc_WebRTCSTUNURL := v\<rparr> else cfg)"
| "assign_setting KeyWebRTCTURNURL v cfg = (if TrimSpace (sc_WebRTCTURNURL cfg) \<noteq> v then cfg\<lparr>sc_WebRTCTURNURL := v\<rparr> else cfg)"
| "assign_setting KeyWebRTCTURNUser v cfg = (if TrimSpace (sc_WebRTCTURNUser cfg) \<noteq> v then cfg\<lparr>sc_WebRTCTURNUser := v\<rparr> else cfg)"
| "assign_setting KeyWebRTCTURNPass v cfg = (if TrimSpace (sc_WebRTCTURNPass cfg) \<noteq> v then cfg\<lparr>sc_WebRTCTURNPass := v\<rparr> else cfg)"
| "assign_setting KeyWebRTCWaylandExperimentalEnabled v cfg = cfg\<lparr>sc_WebRTCWaylandExperimentalEnabled := parse_bool v\<rparr>"
| "assign_setting KeyWebRTCWaylandPipeWireNodeID v cfg = (if TrimSpace (sc_WebRTCWaylandPipeWireNodeID cfg) \<noteq> v then cfg\<lparr>sc_WebRTCWaylandPipeWireNodeID := v\<rparr> else cfg)"
| "assign_setting KeyWebRTCWaylandInputBackend v cfg = (if \<not> EqualFold (TrimSpace (sc_WebRTCWaylandInputBackend cfg)) v then cfg\<lparr>sc_WebRTCWaylandInputBackend := v\<rparr> else cfg)"
| "assign_setting KeyCaptureFPS v cfg = cfg\<lparr>sc_CaptureFPS := atoi v\<rparr>"
| "assign_setting KeyAllowRemoteOverrides v cfg = cfg\<lparr>sc_AllowRemoteOverrides := parse_bool v\<rparr>"
| "assign_setting KeyLogLevel v cfg = cfg\<lparr>sc_LogLevel := v\<rparr>"
| "assign_setting KeyTLSSkipVerify v cfg = cfg"
| "assign_setting KeyTLSCAFile v cfg = cfg"

section \<open>Normal forms\<close>

datatype setting_error =
    UnknownKey string | LocalOnlyKey string | CannotBeEmpty | MustBeNumber | TooSmall | TooLarge | MustBeBool | MustBeOneOf
  | BadPorts | BadCIDR | NotPrivateCIDR | BadNpipe | NetworkPath | UnixPathRelative | BadEndpoint | EndpointScheme
  | EndpointPolicy outbound_error | NoSettingsPath | WriteFailed | Unreadable

definition is_list_sep :: "char \<Rightarrow> bool" where
  "is_list_sep c \<longleftrightarrow> c \<in> set [CHR '','', CHR '';'', CHR '' '', CHR 0x0A, CHR 0x09]"

fun collect_ports :: "string list \<Rightarrow> int list \<Rightarrow> int list option" where
  "collect_ports [] ports = Some ports"
| "collect_ports (field # rest) ports =
     (let token = TrimSpace field
      in if token = [] then collect_ports rest ports
         else case Atoi token of
                None \<Rightarrow> None
              | Some port \<Rightarrow>
                  if port \<le> 0 \<or> port > 65535 then None
                  else if port \<in> set ports then collect_ports rest ports
                  else collect_ports rest (ports @ [port]))"

definition NormalizeDiscoveryPortListValue :: "string \<Rightarrow> (setting_error, string) result" where
  "NormalizeDiscoveryPortListValue raw =
     (let value = TrimSpace raw
      in if value = [] then Ok []
         else case collect_ports (FieldsFunc is_list_sep value) [] of
                None \<Rightarrow> Err BadPorts
              | Some ports \<Rightarrow> Ok (Join (map Itoa (sort ports)) '',''))"

definition isPrivateOrLocalCIDR :: "prefix \<Rightarrow> bool" where
  "isPrivateOrLocalCIDR p \<longleftrightarrow> IsLoopback (px_addr p) \<or> IsPrivate (px_addr p) \<or> IsLinkLocalUnicast (px_addr p)"

fun collect_cidrs :: "string list \<Rightarrow> string list \<Rightarrow> (setting_error, string list) result" where
  "collect_cidrs [] cidrs = Ok cidrs"
| "collect_cidrs (field # rest) cidrs =
     (let token = TrimSpace field
      in if token = [] then collect_cidrs rest cidrs
         else case ParsePrefix token of
                None \<Rightarrow> Err BadCIDR
              | Some p \<Rightarrow>
                  if \<not> isPrivateOrLocalCIDR p then Err NotPrivateCIDR
                  else let normalized = PrefixString (Masked p)
                       in if normalized \<in> set cidrs then collect_cidrs rest cidrs
                          else collect_cidrs rest (cidrs @ [normalized]))"

fun insert_string :: "string \<Rightarrow> string list \<Rightarrow> string list" where
  "insert_string s [] = [s]"
| "insert_string s (t # ts) = (if str_le s t then s # t # ts else t # insert_string s ts)"

definition sort_strings :: "string list \<Rightarrow> string list" where
  "sort_strings ss = foldr insert_string ss []"

definition NormalizeDiscoveryCIDRListValue :: "string \<Rightarrow> (setting_error, string) result" where
  "NormalizeDiscoveryCIDRListValue raw =
     (let value = TrimSpace raw
      in if value = [] then Ok []
         else case collect_cidrs (FieldsFunc is_list_sep value) [] of
                Inl e \<Rightarrow> Err e
              | Inr cidrs \<Rightarrow> Ok (Join (sort_strings cidrs) '',''))"

definition dockerNpipePrefix :: string where "dockerNpipePrefix = ''npipe:////./pipe/''"

definition isDockerNpipeNameStart :: "char \<Rightarrow> bool" where
  "isDockerNpipeNameStart c \<longleftrightarrow> is_alnum c"

definition isDockerNpipeNameChar :: "char \<Rightarrow> bool" where
  "isDockerNpipeNameChar c \<longleftrightarrow> isDockerNpipeNameStart c \<or> c \<in> set ''_-.''"

text \<open>\<open>None\<close> stands for a value that is not a named pipe at all.\<close>

definition NormalizeDockerNpipeEndpoint :: "string \<Rightarrow> (setting_error, string) result option" where
  "NormalizeDockerNpipeEndpoint raw =
     (let value = TrimSpace raw; name = TrimPrefix value dockerNpipePrefix
      in if length value < 6 \<or> \<not> EqualFold (take 6 value) ''npipe:'' then None
         else if \<not> HasPrefix value dockerNpipePrefix then Some (Err BadNpipe)
         else if name = [] \<or> int (length name) > 128 then Some (Err BadNpipe)
         else if \<not> isDockerNpipeNameStart (hd name) then Some (Err BadNpipe)
         else if Contains name ''..'' \<or> last name = CHR ''.'' then Some (Err BadNpipe)
         else if \<not> list_all isDockerNpipeNameChar (tl name) then Some (Err BadNpipe)
         else Some (Ok (dockerNpipePrefix @ name)))"

definition TrimDockerUnixScheme :: "string \<Rightarrow> string \<times> bool" where
  "TrimDockerUnixScheme value =
     (let trimmed = TrimSpace value
      in if length trimmed < 7 then (trimmed, False)
         else if EqualFold (take 7 trimmed) ''unix://'' then (TrimSpace (drop 7 trimmed), True)
         else (trimmed, False))"

text \<open>The last case of \<open>normalizeDockerEndpointValue\<close>: an HTTP address.\<close>

definition http_endpoint :: "host \<Rightarrow> dns \<Rightarrow> string \<Rightarrow> (setting_error, string) result" where
  "http_endpoint h d value =
     (case ParseURL value of
        None \<Rightarrow> Err BadEndpoint
      | Some parsed \<Rightarrow>
          if u_scheme parsed = [] \<or> u_host parsed = [] then Err BadEndpoint
          else if ToLower (TrimSpace (u_scheme parsed)) \<notin> {''http'', ''https''} then Err EndpointScheme
          else case ValidateOutboundURL h d value of
                 Inl e \<Rightarrow> Err (EndpointPolicy e)
               | Inr validated \<Rightarrow>
                   Ok (TrimRight (\<lambda>c. c = CHR ''/'') (URLString (validated\<lparr>u_raw_query := [], u_fragment := []\<rparr>))))"

definition normalizeDockerEndpointValue :: "host \<Rightarrow> dns \<Rightarrow> string \<Rightarrow> (setting_error, string) result" where
  "normalizeDockerEndpointValue h d raw =
     (let value = TrimSpace raw
      in if value = [] then Err CannotBeEmpty
         else case NormalizeDockerNpipeEndpoint value of
                Some r \<Rightarrow> r
              | None \<Rightarrow>
                  if HasPrefix value ''/'' then
                    (if 1 < length value \<and> (value ! 1 = CHR ''/'' \<or> value ! 1 = CHR 0x5C) then Err NetworkPath else Ok value)
                  else case TrimDockerUnixScheme value of
                         (path, True) \<Rightarrow> if path = [] \<or> \<not> HasPrefix path ''/'' then Err UnixPathRelative else Ok (''unix://'' @ path)
                       | (_, False) \<Rightarrow> http_endpoint h d value)"

definition normal_string :: "host \<Rightarrow> dns \<Rightarrow> setting_key \<Rightarrow> string \<Rightarrow> (setting_error, string) result" where
  "normal_string h d k value =
     (if k = KeyDockerEndpoint then normalizeDockerEndpointValue h d value
      else if k \<in> {KeyWebRTCTURNURL, KeyWebRTCTURNUser, KeyWebRTCTURNPass, KeyWebRTCWaylandPipeWireNodeID, KeyTLSCAFile} then Ok value
      else if k \<in> {KeyServicesDiscoveryPortScanPorts, KeyServicesDiscoveryLANScanPorts} then NormalizeDiscoveryPortListValue value
      else if k = KeyServicesDiscoveryLANScanCIDRs then NormalizeDiscoveryCIDRListValue value
      else if value = [] then Err CannotBeEmpty
      else Ok value)"

definition normal_int :: "setting_definition \<Rightarrow> string \<Rightarrow> (setting_error, string) result" where
  "normal_int def value =
     (case Atoi value of
        None \<Rightarrow> Err MustBeNumber
      | Some parsed \<Rightarrow>
          if sd_MinInt def > 0 \<and> parsed < sd_MinInt def then Err TooSmall
          else if sd_MaxInt def > 0 \<and> parsed > sd_MaxInt def then Err TooLarge
          else Ok (Itoa parsed))"

definition normal_bool :: "string \<Rightarrow> (setting_error, string) result" where
  "normal_bool value = (case ParseBool value of None \<Rightarrow> Err MustBeBool | Some b \<Rightarrow> Ok (FormatBool b))"

definition normal_enum :: "setting_definition \<Rightarrow> string \<Rightarrow> (setting_error, string) result" where
  "normal_enum def value =
     (case find (EqualFold value) (sd_AllowedValues def) of None \<Rightarrow> Err MustBeOneOf | Some allowed \<Rightarrow> Ok allowed)"

definition NormalizeAgentSettingValue :: "host \<Rightarrow> dns \<Rightarrow> string \<Rightarrow> string \<Rightarrow> (setting_error, string) result" where
  "NormalizeAgentSettingValue h d key raw =
     (case AgentSettingDefinitionByKey key of
        None \<Rightarrow> Err (UnknownKey key)
      | Some k \<Rightarrow>
          let value = TrimSpace raw
          in case sd_Type (definition_of k) of
               TypeString \<Rightarrow> normal_string h d k value
             | TypeInt \<Rightarrow> normal_int (definition_of k) value
             | TypeBool \<Rightarrow> normal_bool value
             | TypeEnum \<Rightarrow> normal_enum (definition_of k) value)"

section \<open>The settings file\<close>

text \<open>Its content is the raw key-value pairs in the order they are visited.\<close>

datatype settings_file = NoFile | BadFile | FileValues "(string \<times> string) list"

definition put :: "string \<Rightarrow> string \<Rightarrow> (string \<times> string) list \<Rightarrow> (string \<times> string) list" where
  "put k v kvs = filter (\<lambda>p. fst p \<noteq> k) kvs @ [(k, v)]"

fun load_values :: "host \<Rightarrow> dns \<Rightarrow> (string \<times> string) list \<Rightarrow> (string \<times> string) list \<Rightarrow> (string \<times> string) list" where
  "load_values h d [] vs = vs"
| "load_values h d ((key, raw) # rest) vs =
     (case AgentSettingDefinitionByKey key of
        None \<Rightarrow> load_values h d rest vs
      | Some k \<Rightarrow>
          (case NormalizeAgentSettingValue h d (key_name k) raw of
             Inl e \<Rightarrow> load_values h d rest vs
           | Inr v \<Rightarrow> load_values h d rest (put (key_name k) v vs)))"

definition LoadAgentSettingsFile :: "host \<Rightarrow> dns \<Rightarrow> string \<Rightarrow> settings_file \<Rightarrow> (string \<times> string) list option" where
  "LoadAgentSettingsFile h d path f =
     (if path = [] then Some []
      else case f of NoFile \<Rightarrow> Some [] | BadFile \<Rightarrow> None | FileValues kvs \<Rightarrow> Some (load_values h d kvs []))"

text \<open>\<open>SaveAgentSettingsFile\<close> for the values in the order they are visited; \<open>ok\<close> is the outcome of the file operations.\<close>

fun save_values :: "host \<Rightarrow> dns \<Rightarrow> (string \<times> string) list \<Rightarrow> (setting_error, (string \<times> string) list) result" where
  "save_values h d [] = Ok []"
| "save_values h d ((key, value) # rest) =
     (case AgentSettingDefinitionByKey key of
        None \<Rightarrow> Err (UnknownKey key)
      | Some k \<Rightarrow>
          (case NormalizeAgentSettingValue h d (key_name k) value of
             Inl e \<Rightarrow> Err e
           | Inr v \<Rightarrow>
               (case save_values h d rest of
                  Inl e \<Rightarrow> Err e
                | Inr kvs \<Rightarrow> Ok (if key_name k \<in> set (map fst kvs) then kvs else (key_name k, v) # kvs))))"

definition SaveAgentSettingsFile :: "host \<Rightarrow> dns \<Rightarrow> string \<Rightarrow> bool \<Rightarrow> (string \<times> string) list \<Rightarrow> settings_file
    \<Rightarrow> setting_error option \<times> settings_file" where
  "SaveAgentSettingsFile h d path ok values f =
     (if path = [] then (Some NoSettingsPath, f)
      else case save_values h d values of
             Inl e \<Rightarrow> (Some e, f)
           | Inr kvs \<Rightarrow> if ok then (None, FileValues kvs) else (Some WriteFailed, f))"

section \<open>Lemmas\<close>

lemma set_all_keys: "k \<in> set all_keys"
  by (cases k) (simp_all add: all_keys_def)

lemma find_key_name [simp]: "find_key (key_name k) = Some k"
  by (cases k) (simp_all add: find_key_def all_keys_def)

lemma find_key_Some: "find_key s = Some k \<Longrightarrow> key_name k = s"
  by (auto simp: find_key_def find_Some_iff)

lemma key_name_normal: "TrimSpace (ToLower (key_name k)) = key_name k"
  by (cases k; simp; code_simp)

lemma definition_of_name [simp]: "AgentSettingDefinitionByKey (key_name k) = Some k"
  by (simp add: AgentSettingDefinitionByKey_def key_name_normal)

lemma key_name_inj: "key_name k = key_name k' \<Longrightarrow> k = k'"
  by (metis find_key_name option.inject)

text \<open>Each setting is kept in a field of its own.\<close>

lemma assign_other:
  "k' \<noteq> k \<Longrightarrow> AgentSettingValuesFromConfig (assign_setting k v cfg) k' = AgentSettingValuesFromConfig cfg k'"
  by (cases k; simp; cases k'; simp)

lemma assign_local:
  assumes "\<not> sd_LocalOnly (definition_of k)"
  shows "sc_TLSSkipVerify (assign_setting k v cfg) = sc_TLSSkipVerify cfg"
    "sc_TLSCAFile (assign_setting k v cfg) = sc_TLSCAFile cfg"
    "sc_AllowRemoteOverrides (assign_setting k v cfg) = sc_AllowRemoteOverrides cfg"
  using assms by (cases k; simp)+

section \<open>Values in normal form\<close>

lemma itoa_nat_ne [simp]: "itoa_nat n \<noteq> []"
  by (subst itoa_nat.simps) simp

lemma Atoi_Itoa [simp]:
  assumes "0 \<le> n" and "n \<le> int_max"
  shows "Atoi (Itoa n) = Some n"
proof -
  obtain c s where cs: "itoa_nat (nat n) = c # s"
    by (cases "itoa_nat (nat n)") simp_all
  then have "is_digit c"
    using itoa_nat_digits [of "nat n"] by simp
  then have "c \<noteq> CHR ''-''" "c \<noteq> CHR ''+''"
    by (auto simp: is_digit_iff)
  then have "\<not> HasPrefix (itoa_nat (nat n)) ''-''" "\<not> HasPrefix (itoa_nat (nat n)) ''+''"
    by (simp_all add: cs HasPrefix_def)
  moreover have "int_min \<le> n"
    using assms(1) by (simp add: int_min_def)
  ultimately show ?thesis
    using assms by (simp add: Atoi_def Itoa_def itoa_nat_digits)
qed

lemma atoi_Itoa: "0 \<le> n \<Longrightarrow> n \<le> int_max \<Longrightarrow> atoi (Itoa n) = n"
  by (simp add: atoi_def)

lemma DurationSeconds_whole: "0 \<le> n \<Longrightarrow> DurationSeconds (n * second) = n"
  by (auto simp: DurationSeconds_def second_def)

lemma TrimSpace_eq_Nil: "TrimSpace s = [] \<longleftrightarrow> (\<forall>c \<in> set s. is_space c)"
proof -
  have "TrimSpace s = [] \<longleftrightarrow> (\<forall>c \<in> set (dropWhile is_space s). is_space c)"
    by (simp add: TrimSpace_def TrimLeft_def TrimRight_def)
  also have "\<dots> \<longleftrightarrow> (\<forall>c \<in> set s. is_space c)"
    by (induction s) auto
  finally show ?thesis .
qed

lemma dropWhile_keeps: "c \<in> set s \<Longrightarrow> \<not> p c \<Longrightarrow> c \<in> set (dropWhile p s)"
  by (induction s) auto

lemma TrimRight_keeps: "c \<in> set s \<Longrightarrow> \<not> p c \<Longrightarrow> c \<in> set (TrimRight p s)"
  using dropWhile_keeps [of c "rev s" p] by (simp add: TrimRight_def)

lemma digit_not_space: "is_digit c \<Longrightarrow> \<not> is_space c"
  by (auto simp: is_digit_iff is_space_def)

lemma TrimSpace_no_space: "\<forall>c \<in> set s. \<not> is_space c \<Longrightarrow> TrimSpace s = s"
proof (cases "s = []")
  case False
  assume "\<forall>c \<in> set s. \<not> is_space c"
  with False show ?thesis by (intro TrimSpace_noop) auto
qed (simp add: TrimSpace_def TrimLeft_def TrimRight_def)

lemma TrimSpace_Itoa: "0 \<le> n \<Longrightarrow> TrimSpace (Itoa n) = Itoa n"
  using itoa_nat_digits [of "nat n"] by (intro TrimSpace_no_space) (auto simp: Itoa_def list_all_iff digit_not_space)

lemma normal_int_ok:
  assumes "normal_int def value = Ok v" and "0 < sd_MinInt def" and "0 < sd_MaxInt def" and "sd_MaxInt def \<le> int_max"
  shows "atoi v \<ge> sd_MinInt def \<and> atoi v \<le> sd_MaxInt def \<and> v = Itoa (atoi v) \<and> TrimSpace v = v"
  using assms by (auto simp: normal_int_def atoi_Itoa TrimSpace_Itoa split: option.splits if_splits)

lemma normal_bool_ok: "normal_bool value = Ok v \<Longrightarrow> FormatBool (parse_bool v) = v \<and> TrimSpace v = v"
proof -
  assume "normal_bool value = Ok v"
  then obtain b where "v = FormatBool b" by (auto simp: normal_bool_def split: option.splits)
  moreover have "FormatBool (parse_bool (FormatBool b)) = FormatBool b \<and> TrimSpace (FormatBool b) = FormatBool b"
    by (cases b; simp; code_simp)
  ultimately show ?thesis by simp
qed

lemma normal_enum_ok: "normal_enum def value = Ok v \<Longrightarrow> v \<in> set (sd_AllowedValues def)"
  by (auto simp: normal_enum_def find_Some_iff split: option.splits)

definition plain_word :: "string \<Rightarrow> bool" where
  "plain_word v \<longleftrightarrow> v \<noteq> [] \<and> ToLower v = v \<and> TrimSpace v = v"

lemma enum_words:
  "plain_word ''auto''" "plain_word ''true''" "plain_word ''false''" "plain_word ''home''" "plain_word ''full''" "plain_word ''none''"
  "plain_word ''ydotool''" "plain_word ''debug''" "plain_word ''info''" "plain_word ''warn''" "plain_word ''error''"
  by code_simp+

lemma enum_value_plain: "v \<in> set (sd_AllowedValues (definition_of k)) \<Longrightarrow> plain_word v"
  by (cases k) (auto simp: enum_words)

lemma int_key_bounds:
  "sd_Type (definition_of k) = TypeInt \<Longrightarrow> 0 < sd_MinInt (definition_of k) \<and> 0 < sd_MaxInt (definition_of k) \<and> sd_MaxInt (definition_of k) \<le> int_max"
  by (cases k) (simp_all add: int_max_def)

lemma visible_chars: "\<not> is_space (CHR '':'')" "\<not> is_space (CHR ''/'')"
  by code_simp+

lemma TrimSpace_visible: "c \<in> set s \<Longrightarrow> \<not> is_space c \<Longrightarrow> TrimSpace s \<noteq> []"
  using TrimSpace_eq_Nil by blast

lemma ValidateOutboundURL_scheme: "ValidateOutboundURL h d raw = Ok u \<Longrightarrow> u_scheme u \<noteq> []"
  by (auto simp: ValidateOutboundURL_def Let_def split: if_splits option.splits sum.splits)

lemma endpoint_url_ne:
  assumes "u_scheme u \<noteq> []"
  shows "TrimSpace (TrimRight (\<lambda>c. c = CHR ''/'') (URLString u)) \<noteq> []"
proof -
  have "CHR '':'' \<in> set (URLString u)"
    using assms by (simp add: URLString_def Let_def)
  then have "CHR '':'' \<in> set (TrimRight (\<lambda>c. c = CHR ''/'') (URLString u))"
    by (rule TrimRight_keeps) simp
  then show ?thesis by (rule TrimSpace_visible [OF _ visible_chars(1)])
qed

lemma slash_ne: "HasPrefix s ''/'' \<Longrightarrow> TrimSpace s \<noteq> []"
  by (rule TrimSpace_visible [OF _ visible_chars(2)]) (auto simp: HasPrefix_iff)

lemma npipe_ne: "NormalizeDockerNpipeEndpoint raw = Some (Ok v) \<Longrightarrow> TrimSpace v \<noteq> []"
  by (rule TrimSpace_visible [OF _ visible_chars(1)])
    (auto simp: NormalizeDockerNpipeEndpoint_def Let_def dockerNpipePrefix_def split: if_splits)

lemma unix_ne: "TrimSpace (''unix://'' @ path) \<noteq> []"
  by (rule TrimSpace_visible [OF _ visible_chars(1)]) simp

lemma http_endpoint_ne:
  assumes "http_endpoint h d value = Ok v"
  shows "TrimSpace v \<noteq> []"
proof -
  obtain u where u: "ValidateOutboundURL h d value = Ok u"
    and v: "v = TrimRight (\<lambda>c. c = CHR ''/'') (URLString (u\<lparr>u_raw_query := [], u_fragment := []\<rparr>))"
    using assms by (auto simp: http_endpoint_def split: option.splits if_splits sum.splits)
  show ?thesis
    unfolding v using ValidateOutboundURL_scheme [OF u] by (intro endpoint_url_ne) simp
qed

lemma endpoint_ne:
  assumes ok: "normalizeDockerEndpointValue h d raw = Ok v"
  shows "TrimSpace v \<noteq> []"
proof (cases "NormalizeDockerNpipeEndpoint (TrimSpace raw)")
  case None
  show ?thesis
  proof (cases "HasPrefix (TrimSpace raw) ''/''")
    case True
    with ok None show ?thesis
      by (auto simp: normalizeDockerEndpointValue_def Let_def slash_ne split: if_splits)
  next
    case False
    with ok None show ?thesis
      by (auto simp del: append_Cons simp: normalizeDockerEndpointValue_def Let_def unix_ne http_endpoint_ne
          split: if_splits prod.splits bool.splits)
  qed
next
  case (Some r)
  with ok show ?thesis
    by (auto simp: normalizeDockerEndpointValue_def Let_def npipe_ne split: if_splits)
qed

lemma or_default_ne [simp]: "s \<noteq> [] \<Longrightarrow> or_default s def = s"
  by (simp add: or_default_def)

definition type_value :: "setting_key \<Rightarrow> string \<Rightarrow> bool" where
  "type_value k v \<longleftrightarrow>
     (case sd_Type (definition_of k) of
        TypeString \<Rightarrow> (k = KeyDockerEndpoint \<or> k = KeyWebRTCSTUNURL \<longrightarrow> TrimSpace v \<noteq> [])
      | TypeInt \<Rightarrow> sd_MinInt (definition_of k) \<le> atoi v \<and> atoi v \<le> sd_MaxInt (definition_of k) \<and> v = Itoa (atoi v)
      | TypeBool \<Rightarrow> FormatBool (parse_bool v) = v
      | TypeEnum \<Rightarrow> v \<in> set (sd_AllowedValues (definition_of k)))"

lemma normal_type_value:
  assumes "NormalizeAgentSettingValue h d (key_name k) raw = Ok v"
  shows "type_value k v"
proof (cases "sd_Type (definition_of k)")
  case TypeString
  with assms show ?thesis
    by (auto simp: NormalizeAgentSettingValue_def type_value_def normal_string_def TrimSpace_idem Let_def dest: endpoint_ne split: if_splits)
next
  case TypeInt
  with assms normal_int_ok [of "definition_of k" "TrimSpace raw" v] int_key_bounds [OF TypeInt] show ?thesis
    by (simp add: NormalizeAgentSettingValue_def type_value_def)
next
  case TypeBool
  with assms normal_bool_ok [of "TrimSpace raw" v] show ?thesis
    by (simp add: NormalizeAgentSettingValue_def type_value_def)
next
  case TypeEnum
  with assms normal_enum_ok [of "definition_of k" "TrimSpace raw" v] show ?thesis
    by (simp add: NormalizeAgentSettingValue_def type_value_def)
qed

lemma FormatBool_trim [simp]: "TrimSpace (FormatBool b) = FormatBool b"
  by (cases b; simp; code_simp)

lemma EqualFold_plain:
  assumes "EqualFold (TrimSpace s) v" and "plain_word v"
  shows "TrimSpace (ToLower s) = v"
  using assms by (simp add: EqualFold_def plain_word_def TrimSpace_ToLower)

lemma plain_wordD: "plain_word v \<Longrightarrow> v \<noteq> []" "plain_word v \<Longrightarrow> ToLower v = v" "plain_word v \<Longrightarrow> TrimSpace v = v"
  by (simp_all add: plain_word_def)

lemma assign_enum:
  assumes "plain_word v" and "sd_Type (definition_of k) = TypeEnum"
  shows "AgentSettingValuesFromConfig (assign_setting k v cfg) k = v"
  using assms(2) plain_wordD [OF assms(1)] EqualFold_plain [OF _ assms(1)]
  by (cases k) simp_all

lemma second_le_0: "n * second \<le> 0 \<longleftrightarrow> n \<le> 0"
  by (auto simp: second_def mult_le_0_iff)

lemma assign_int:
  assumes "sd_Type (definition_of k) = TypeInt" and "type_value k v"
  shows "AgentSettingValuesFromConfig (assign_setting k v cfg) k = v"
  using assms by (cases k) (auto simp: type_value_def DurationSeconds_whole second_le_0)

lemma assign_bool:
  assumes "sd_Type (definition_of k) = TypeBool" and "type_value k v" and "\<not> sd_LocalOnly (definition_of k)"
  shows "AgentSettingValuesFromConfig (assign_setting k v cfg) k = v"
  using assms by (cases k) (simp_all add: type_value_def)

lemma assign_string:
  assumes "sd_Type (definition_of k) = TypeString" and "type_value k v" and "\<not> sd_LocalOnly (definition_of k)"
  shows "AgentSettingValuesFromConfig (assign_setting k v cfg) k = TrimSpace v"
  using assms by (cases k) (auto simp: type_value_def TrimSpace_idem)

lemma assign_value:
  assumes "type_value k v" and "\<not> sd_LocalOnly (definition_of k)"
  shows "AgentSettingValuesFromConfig (assign_setting k v cfg) k = (if sd_Type (definition_of k) = TypeString then TrimSpace v else v)"
proof (cases "sd_Type (definition_of k)")
  case TypeEnum
  with assms have "plain_word v" by (simp add: type_value_def enum_value_plain)
  with TypeEnum show ?thesis by (simp add: assign_enum)
qed (use assms in \<open>simp_all add: assign_string assign_int assign_bool\<close>)

section \<open>A normal form is its own normal form\<close>

lemma comma_sep: "is_list_sep (CHR '','')" "\<not> is_space (CHR '','')"
  by code_simp+

lemma digit_not_sep: "is_digit c \<Longrightarrow> \<not> is_list_sep c"
  by (auto simp: is_list_sep_def is_digit_iff)

lemma FieldsFunc_Join:
  assumes "p sep" and "\<forall>w \<in> set ws. w \<noteq> [] \<and> (\<forall>c \<in> set w. \<not> p c)"
  shows "FieldsFunc p (Join ws [sep]) = ws"
  using assms
proof (induction ws "[sep]" rule: Join.induct)
  case (3 w v ws)
  then show ?case
    by (simp add: FieldsFunc_append_sep FieldsFunc_single)
qed (simp_all add: FieldsFunc_single)

lemma set_Join: "set (Join ws sep) \<subseteq> (\<Union>w \<in> set ws. set w) \<union> set sep"
  by (induction ws sep rule: Join.induct) auto

lemma Itoa_digits: "0 \<le> n \<Longrightarrow> list_all is_digit (Itoa n) \<and> Itoa n \<noteq> []"
  by (simp add: Itoa_def itoa_nat_digits)

lemma collect_ports_ok:
  assumes "collect_ports toks ports = Some result"
    and "distinct ports" and "\<forall>p \<in> set ports. 0 < p \<and> p \<le> 65535"
  shows "distinct result \<and> (\<forall>p \<in> set result. 0 < p \<and> p \<le> 65535)"
  using assms
  by (induction toks ports rule: collect_ports.induct) (auto simp: Let_def split: if_splits option.splits)

lemma collect_ports_Itoa:
  assumes "distinct (ports @ ns)" and "\<forall>n \<in> set ns. 0 < n \<and> n \<le> 65535"
  shows "collect_ports (map Itoa ns) ports = Some (ports @ ns)"
  using assms
proof (induction ns arbitrary: ports)
  case (Cons n ns)
  have "n \<le> int_max" using Cons.prems(2) by (simp add: int_max_def)
  moreover have "collect_ports (map Itoa ns) (ports @ [n]) = Some (ports @ n # ns)"
    using Cons by simp
  ultimately show ?case
    using Cons.prems Itoa_digits [of n] by (simp add: TrimSpace_Itoa Let_def)
qed simp

lemma ports_normal:
  assumes "NormalizeDiscoveryPortListValue raw = Ok v"
  obtains ns where "v = Join (map Itoa ns) '',''" and "sorted ns" and "distinct ns"
    and "\<forall>n \<in> set ns. 0 < n \<and> n \<le> 65535"
proof (cases "TrimSpace raw = []")
  case True
  with assms have "v = Join (map Itoa []) '',''" by (simp add: NormalizeDiscoveryPortListValue_def)
  then show ?thesis by (rule that) simp_all
next
  case False
  with assms obtain ports where c: "collect_ports (FieldsFunc is_list_sep (TrimSpace raw)) [] = Some ports"
    and v: "v = Join (map Itoa (sort ports)) '',''"
    by (auto simp: NormalizeDiscoveryPortListValue_def Let_def split: option.splits)
  have "distinct ports \<and> (\<forall>p \<in> set ports. 0 < p \<and> p \<le> 65535)"
    using collect_ports_ok [OF c] by simp
  then show ?thesis by (intro that [OF v]) simp_all
qed

lemma ports_chars:
  assumes "\<forall>n \<in> set ns. 0 < n"
  shows "TrimSpace (Join (map Itoa ns) '','') = Join (map Itoa ns) '',''"
proof (rule TrimSpace_no_space, rule ballI)
  fix c assume "c \<in> set (Join (map Itoa ns) '','')"
  then have "c = CHR '','' \<or> (\<exists>n \<in> set ns. c \<in> set (Itoa n))"
    using set_Join [of "map Itoa ns" "'',''"] by auto
  then show "\<not> is_space c"
    using comma_sep(2) Itoa_digits assms digit_not_space by (auto simp: list_all_iff) (meson less_le)
qed

lemma ports_stable:
  assumes "NormalizeDiscoveryPortListValue raw = Ok v"
  shows "NormalizeDiscoveryPortListValue v = Ok v \<and> TrimSpace v = v"
proof -
  obtain ns where v: "v = Join (map Itoa ns) '',''" and ns: "sorted ns" "distinct ns" "\<forall>n \<in> set ns. 0 < n \<and> n \<le> 65535"
    using ports_normal [OF assms] .
  have words: "\<forall>w \<in> set (map Itoa ns). w \<noteq> [] \<and> (\<forall>c \<in> set w. \<not> is_list_sep c)"
  proof
    fix w assume "w \<in> set (map Itoa ns)"
    then obtain n where "n \<in> set ns" "w = Itoa n" by auto
    then show "w \<noteq> [] \<and> (\<forall>c \<in> set w. \<not> is_list_sep c)"
      using ns(3) Itoa_digits [of n] digit_not_sep by (auto simp: list_all_iff)
  qed
  have trim: "TrimSpace v = v" using ns(3) by (simp add: v ports_chars)
  have "FieldsFunc is_list_sep v = map Itoa ns"
    unfolding v by (rule FieldsFunc_Join [OF comma_sep(1) words])
  then have "collect_ports (FieldsFunc is_list_sep v) [] = Some ns"
    using ns collect_ports_Itoa [of "[]" ns] by simp
  with trim ns(1) v show ?thesis
    by (simp add: NormalizeDiscoveryPortListValue_def sorted_sort_id Let_def)
qed

definition stable_key :: "setting_key \<Rightarrow> bool" where
  "stable_key k \<longleftrightarrow> k \<noteq> KeyDockerEndpoint \<and> k \<noteq> KeyServicesDiscoveryLANScanCIDRs"

lemma enum_found:
  "list_all (\<lambda>k. list_all (\<lambda>v. find (EqualFold v) (sd_AllowedValues (definition_of k)) = Some v)
     (sd_AllowedValues (definition_of k))) all_keys"
  by code_simp

lemma enum_stable:
  "v \<in> set (sd_AllowedValues (definition_of k)) \<Longrightarrow> find (EqualFold v) (sd_AllowedValues (definition_of k)) = Some v"
  using enum_found set_all_keys [of k] by (simp add: list_all_iff)

lemma string_stable:
  assumes "stable_key k" and "normal_string h d k (TrimSpace raw) = Ok v"
  shows "normal_string h' d' k (TrimSpace v) = Ok v \<and> TrimSpace v = v"
  using assms ports_stable by (auto simp: normal_string_def stable_key_def TrimSpace_idem split: if_splits)

text \<open>A value in normal form is its own normal form, whatever the host and the resolver answer then.\<close>

lemma normal_stable:
  assumes "NormalizeAgentSettingValue h d (key_name k) raw = Ok v" and "stable_key k"
  shows "NormalizeAgentSettingValue h' d' (key_name k) v = Ok v \<and> TrimSpace v = v"
proof (cases "sd_Type (definition_of k)")
  case TypeString
  with assms show ?thesis
    using string_stable [of k h d raw v h' d'] by (auto simp: NormalizeAgentSettingValue_def)
next
  case TypeInt
  with normal_type_value [OF assms(1)] have v: "sd_MinInt (definition_of k) \<le> atoi v" "atoi v \<le> sd_MaxInt (definition_of k)" "v = Itoa (atoi v)"
    by (auto simp: type_value_def)
  define n where "n = atoi v"
  have n: "0 \<le> n" "n \<le> int_max" "v = Itoa n"
    using v int_key_bounds [OF TypeInt] by (auto simp: n_def)
  then have "TrimSpace v = v" "Atoi v = Some n" by (simp_all add: TrimSpace_Itoa)
  then show ?thesis
    using TypeInt v(1,2) n(3) by (simp add: NormalizeAgentSettingValue_def normal_int_def atoi_Itoa n)
next
  case TypeBool
  then obtain b where "v = FormatBool b"
    using assms(1) by (auto simp: NormalizeAgentSettingValue_def normal_bool_def split: option.splits)
  moreover have "ParseBool (FormatBool b) = Some b" by (cases b) (simp_all add: FormatBool_def ParseBool_def)
  ultimately show ?thesis using TypeBool by (simp add: NormalizeAgentSettingValue_def normal_bool_def)
next
  case TypeEnum
  with normal_type_value [OF assms(1)] have v: "v \<in> set (sd_AllowedValues (definition_of k))" by (simp add: type_value_def)
  then show ?thesis
    using TypeEnum enum_stable [OF v] enum_value_plain [OF v]
    by (simp add: NormalizeAgentSettingValue_def normal_enum_def plain_word_def)
qed

end
