(* ===== verification/FileScope.thy ===== *)
theory FileScope
  imports GoPath Prelude
begin

text \<open>
  Which paths a file request may reach: \<open>files/scope.go\<close> and \<open>files/paths.go\<close>
  (\<open>internal/agentcore\<close>), for the Unix build. The file system is a record of what the code asks
  it: the kind of an \<open>Lstat\<close> answer, the result of \<open>EvalSymlinks\<close>, and whether a directory is
  writable. Opening an \<open>os.Root\<close> may fail; what happens beneath it is the operating system's.
\<close>

section \<open>Path lemmas\<close>

lemma clean_list_Cons_stack:
  assumes "clean_list rooted (rev stack @ c # cs)" and "c = dotdot"
  shows "\<not> rooted \<and> (\<forall>t \<in> set stack. t = dotdot)"
proof -
  obtain k ds where kd: "rev stack @ c # cs = replicate k dotdot @ ds" "dotdot \<notin> set ds"
    using assms(1) by (auto simp: clean_list_def)
  have "length stack < k"
  proof (rule ccontr)
    assume "\<not> length stack < k"
    then have "c \<in> set ds"
      using kd(1) by (auto simp: append_eq_append_conv2 replicate_append_same append_eq_Cons_conv Cons_eq_append_conv
          dest: arg_cong [where f = length])
    with kd(2) assms(2) show False by simp
  qed
  then have "rev stack = take (length stack) (replicate k dotdot)"
    using arg_cong [OF kd(1), of "take (length stack)"] by simp
  then have "\<forall>t \<in> set (rev stack). t = dotdot"
    by (metis in_set_replicate take_replicate)
  then have all: "\<forall>t \<in> set stack. t = dotdot"
    by simp
  have "dotdot \<in> set (rev stack @ c # cs)"
    using assms(2) by simp
  with all show ?thesis
    using clean_listD(2) [OF assms(1)] by blast
qed

lemma clean_comps_id: "clean_list rooted (rev stack @ cs) \<Longrightarrow> clean_comps rooted stack cs = rev stack @ cs"
proof (induction cs arbitrary: stack)
  case (Cons c cs)
  have ne: "c \<noteq> []" "c \<noteq> dot"
    using clean_listD(1) [OF Cons.prems, of c] by auto
  have rec: "clean_comps rooted (c # stack) cs = rev stack @ c # cs"
    using Cons.IH [of "c # stack"] Cons.prems by simp
  show ?case
  proof (cases "c = dotdot")
    case True
    have s: "\<not> rooted" "\<forall>t \<in> set stack. t = dotdot"
      using clean_list_Cons_stack [OF Cons.prems True] by auto
    then show ?thesis
      using True ne rec by (cases stack) auto
  qed (use ne rec in simp)
qed simp

lemma IsAbs_of_comps [simp]: "IsAbs (of_comps True cs)"
  by (simp add: IsAbs_def of_comps_def HasPrefix_iff)

lemma not_IsAbs_of_comps:
  assumes "clean_list False cs"
  shows "\<not> IsAbs (of_comps False cs)"
proof (cases cs)
  case (Cons c ds)
  then have "c \<noteq> [] \<and> slash \<notin> set c"
    using clean_listD(1) [OF assms, of c] by simp
  then obtain x xs where "c = x # xs" "x \<noteq> slash"
    by (cases c) auto
  then show ?thesis
    using Cons by (cases ds) (auto simp: IsAbs_def of_comps_def HasPrefix_iff)
qed (simp add: IsAbs_def of_comps_def HasPrefix_iff dot_def)

lemma comps_of_comps:
  assumes "clean_list rooted cs"
  shows "comps (of_comps rooted cs) = cs"
proof (cases "cs = []")
  case True
  then show ?thesis
    by (cases rooted) (auto simp: comps_def of_comps_def IsAbs_def HasPrefix_iff dot_def)
next
  case False
  have ns: "\<forall>c \<in> set cs. slash \<notin> set c"
    using clean_listD(1) [OF assms] by blast
  have sp: "SplitByte slash (Join cs ''/'') = cs"
    using SplitByte_Join [OF False ns] by simp
  have id: "clean_comps rooted [] cs = cs"
    using clean_comps_id [of rooted "[]" cs] assms by simp
  show ?thesis
  proof (cases rooted)
    case True
    have "SplitByte slash (of_comps True cs) = [] # cs"
      using sp by (simp add: of_comps_def)
    then show ?thesis
      using True id by (simp add: comps_def)
  next
    case nr: False
    then show ?thesis
      using sp id not_IsAbs_of_comps [of cs] assms False by (simp add: comps_def of_comps_def)
  qed
qed

lemma IsAbs_Clean [simp]: "IsAbs (Clean p) = IsAbs p"
  using not_IsAbs_of_comps [of "comps p"] clean_list_comps [of p] by (cases "IsAbs p") (auto simp: Clean_def)

lemma comps_Clean [simp]: "comps (Clean p) = comps p"
  using comps_of_comps [OF clean_list_comps [of p]] by (simp add: Clean_def)

lemma Clean_Clean [simp]: "Clean (Clean p) = Clean p"
  unfolding Clean_def [of "Clean p"] IsAbs_Clean comps_Clean by (rule Clean_def [symmetric])

lemma comps_no_dotdot: "IsAbs p \<Longrightarrow> dotdot \<notin> set (comps p)"
  using clean_listD(2) [OF clean_list_comps] by blast

text \<open>\<open>strip_common\<close> against a prefix.\<close>

lemma strip_common_eq:
  "strip_common xs ys = (us, vs) \<Longrightarrow> \<exists>zs. xs = zs @ us \<and> ys = zs @ vs \<and> (us = [] \<or> vs = [] \<or> hd us \<noteq> hd vs)"
proof (induction xs ys rule: strip_common.induct)
  case (1 b bs t ts)
  show ?case
  proof (cases "b = t")
    case True
    then obtain zs where "bs = zs @ us" "ts = zs @ vs" "us = [] \<or> vs = [] \<or> hd us \<noteq> hd vs"
      using 1 by auto
    with True show ?thesis by (intro exI [of _ "b # zs"]) simp
  qed (use 1 in auto)
qed auto

lemma strip_common_prefix: "fst (strip_common xs ys) = [] \<longleftrightarrow> prefix xs ys"
proof
  assume "fst (strip_common xs ys) = []"
  then show "prefix xs ys"
    using strip_common_eq [of xs ys "[]" "snd (strip_common xs ys)"] by (cases "strip_common xs ys") (auto simp: prefix_def)
next
  assume "prefix xs ys"
  then obtain zs where "ys = xs @ zs" by (auto simp: prefix_def)
  then show "fst (strip_common xs ys) = []"
    by (induction xs arbitrary: ys) auto
qed

text \<open>A relative path escapes when it is \<open>..\<close> or starts with it as a component.\<close>

definition escapes :: "string \<Rightarrow> bool" where
  "escapes rel \<longleftrightarrow> rel = dotdot \<or> HasPrefix rel (dotdot @ ''/'')"

lemma not_escapes_dot: "\<not> HasPrefix dot (dotdot @ xs)"
  by (simp add: HasPrefix_iff dot_def dotdot_def)

lemma escapes_Join_dotdot: "escapes (Join (dotdot # ws) ''/'')"
  by (cases ws) (auto simp: escapes_def HasPrefix_iff)

lemma not_escapes_Join:
  assumes "ws \<noteq> []" and "\<forall>w \<in> set ws. slash \<notin> set w" and "dotdot \<notin> set ws"
  shows "\<not> escapes (Join ws ''/'')"
proof
  assume e: "escapes (Join ws ''/'')"
  have sp: "SplitByte slash (Join ws ''/'') = ws"
    using SplitByte_Join [OF assms(1,2)] by simp
  have dd: "SplitByte slash dotdot = [dotdot]"
    by (simp add: SplitByte_plain)
  from e consider "Join ws ''/'' = dotdot" | t where "Join ws ''/'' = dotdot @ slash # t"
    by (auto simp: escapes_def HasPrefix_iff)
  then have "dotdot \<in> set ws"
  proof cases
    case 1
    then have "ws = [dotdot]" using sp dd by metis
    then show ?thesis by simp
  next
    case (2 t)
    then have "ws = [dotdot] @ SplitByte slash t"
      using sp dd SplitByte_append_general [of slash dotdot t] by simp
    then show ?thesis by simp
  qed
  with assms(3) show False by simp
qed

text \<open>The verdict of \<open>Rel\<close> on absolute paths: inside exactly when the components extend the base's.\<close>

lemma Rel_abs:
  assumes "IsAbs b" and "IsAbs p"
  shows "if prefix (comps b) (comps p)
    then \<exists>rel. Rel b p = Some rel \<and> \<not> escapes rel \<and> comps p = comps b @ comps rel \<and> \<not> IsAbs rel
    else (\<exists>rel. Rel b p = Some rel \<and> escapes rel)"
proof -
  obtain us vs where sc: "strip_common (comps b) (comps p) = (us, vs)"
    by (cases "strip_common (comps b) (comps p)")
  obtain zs where z: "comps b = zs @ us" "comps p = zs @ vs"
    using strip_common_eq [OF sc] by blast
  have dd: "dotdot \<notin> set us" "dotdot \<notin> set vs"
    using comps_no_dotdot assms z by fastforce+
  have ns: "\<forall>v \<in> set vs. v \<noteq> [] \<and> v \<noteq> dot \<and> slash \<notin> set v"
    using clean_listD(1) [OF clean_list_comps [of p]] z(2) by simp
  have px: "prefix (comps b) (comps p) \<longleftrightarrow> us = []"
    using strip_common_prefix [of "comps b" "comps p"] sc by simp
  show ?thesis
  proof (cases "us = []")
    case True
    have cl: "clean_list False vs"
      using ns dd(2) by (auto intro: clean_listI [of vs False 0 vs])
    have r: "Rel b p = Some (of_comps False vs)"
      using sc True assms by (simp add: Rel_def of_comps_def)
    have c: "comps (of_comps False vs) = vs" and a: "\<not> IsAbs (of_comps False vs)"
      using comps_of_comps [OF cl] not_IsAbs_of_comps [OF cl] by simp_all
    have "\<not> escapes (of_comps False vs)"
      using not_escapes_Join [of vs] ns dd(2)
      by (cases "vs = []") (auto simp: of_comps_def escapes_def HasPrefix_iff dot_def dotdot_def)
    with r c a px True z show ?thesis by simp
  next
    case False
    then obtain u us' where u: "us = u # us'" by (cases us) auto
    have "Rel b p = Some (Join (dotdot # replicate (length us') dotdot @ vs) ''/'')"
      using sc False dd assms u by (simp add: Rel_def)
    then show ?thesis
      using escapes_Join_dotdot px False by simp
  qed
qed

subsection \<open>Walking up with \<open>Dir\<close> ends\<close>

definition weight :: "string list \<Rightarrow> nat" where
  "weight cs = sum_list (map (\<lambda>c. length c + 1) cs)"

lemma weight_simps [simp]: "weight [] = 0" "weight (c # cs) = length c + 1 + weight cs" "weight (rev cs) = weight cs"
  by (simp_all add: weight_def sum_list_rev flip: rev_map)

lemma weight_SplitByte: "weight (SplitByte b s) = length s + 1"
  by (induction s) (auto split: list.splits simp: SplitByte_ne)

lemma weight_clean_comps: "weight (clean_comps rooted stack cs) \<le> weight stack + weight cs"
proof (induction cs arbitrary: stack)
  case (Cons c cs)
  note IH = Cons.IH
  have dd: "length dotdot = 2"
    by (simp add: dotdot_def)
  have push: "weight (clean_comps rooted (c # stack) cs) \<le> length c + 1 + weight stack + weight cs"
    using IH [of "c # stack"] by simp
  show ?case
  proof (cases stack)
    case Nil
    then show ?thesis
      using IH [of "[]"] IH [of "[dotdot]"] push dd by auto
  next
    case (Cons t ts)
    then show ?thesis
      using IH [of stack] IH [of ts] push dd by auto
  qed
qed simp

lemma length_Join: "cs \<noteq> [] \<Longrightarrow> length (Join cs ''/'') + 1 = weight cs"
  by (induction cs "''/''" rule: Join.induct) auto

lemma length_Clean:
  assumes "q \<noteq> []"
  shows "length (Clean q) \<le> length q"
proof (cases "IsAbs q")
  case True
  then obtain t where q: "q = slash # t"
    by (auto simp: IsAbs_def HasPrefix_iff)
  have "comps q = clean_comps True [] (SplitByte slash t)"
    using True q by (simp add: comps_def)
  then have "weight (comps q) \<le> length q"
    using weight_clean_comps [of True "[]" "SplitByte slash t"] q by (simp add: weight_SplitByte)
  then show ?thesis
    using True length_Join [of "comps q"] q by (cases "comps q = []") (auto simp: Clean_def of_comps_def)
next
  case False
  have "weight (comps q) \<le> length q + 1"
    using weight_clean_comps [of False "[]" "SplitByte slash q"] False by (simp add: comps_def weight_SplitByte)
  moreover have "1 \<le> length q"
    using assms by (cases q) auto
  ultimately show ?thesis
    using False length_Join [of "comps q"] by (cases "comps q = []") (auto simp: Clean_def of_comps_def dot_def)
qed

lemma clean_comps_snoc_empty: "clean_comps rooted stack (cs @ [[]]) = clean_comps rooted stack cs"
  by (induction rooted stack cs rule: clean_comps.induct) (auto split: list.splits)

lemma Clean_trailing_slash:
  assumes "s \<noteq> []"
  shows "Clean (s @ [slash]) = Clean s"
proof -
  have "IsAbs (s @ [slash]) = IsAbs s"
    using assms by (cases s) (auto simp: IsAbs_def HasPrefix_iff)
  moreover have "SplitByte slash (s @ [slash]) = SplitByte slash s @ [[]]"
    using SplitByte_append_general [of slash s "[]"] by simp
  ultimately have "comps (s @ [slash]) = comps s"
    by (simp add: comps_def clean_comps_snoc_empty)
  then show ?thesis
    using \<open>IsAbs (s @ [slash]) = IsAbs s\<close> by (simp add: Clean_def)
qed

definition walk_measure :: "string \<Rightarrow> nat" where
  "walk_measure p = (if p = dot then 0 else Suc (length p))"

lemma Dir_smaller:
  assumes "Dir p \<noteq> p"
  shows "walk_measure (Dir p) < walk_measure p"
proof -
  define q where "q = rev (dropWhile (\<lambda>c. c \<noteq> slash) (rev p))"
  have D: "Dir p = Clean q"
    by (simp add: Dir_def q_def)
  define r where "r = rev (takeWhile (\<lambda>c. c \<noteq> slash) (rev p))"
  have pq: "p = q @ r"
    unfolding q_def r_def by (metis rev_append rev_rev_ident takeWhile_dropWhile_id)
  have c0: "Clean [] = dot"
    by (simp add: Clean_def comps_def of_comps_def IsAbs_def HasPrefix_iff)
  show ?thesis
  proof (cases "q = []")
    case True
    then show ?thesis
      using D c0 assms by (auto simp: walk_measure_def)
  next
    case False
    have d: "dropWhile (\<lambda>c. c \<noteq> slash) (rev p) \<noteq> []"
      using False by (simp only: q_def rev_is_Nil_conv not_False_eq_True)
    have lq: "last q = slash"
      using hd_dropWhile [OF d] by (simp only: q_def last_rev not_not)
    have lp: "length q \<le> length p"
      by (subst pq) simp
    have pd: "p \<noteq> dot"
      using False q_def by (auto simp: dot_def)
    have "length (Clean q) < length p \<or> Clean q = dot"
    proof (cases "length q < length p")
      case True
      then show ?thesis
        using length_Clean [OF False] by linarith
    next
      case eq: False
      have "length p = length q + length r"
        unfolding arg_cong [OF pq, of length] by simp
      with eq have "r = []" by simp
      then have "q = p" using pq by (simp only: append_Nil2)
      moreover obtain s where s: "q = s @ [slash]"
        using False lq by (metis append_butlast_last_id)
      moreover have "s \<noteq> []"
      proof
        assume "s = []"
        then have "Clean q = p"
          using s \<open>q = p\<close> by (simp add: Clean_def comps_def of_comps_def IsAbs_def HasPrefix_iff)
        with D assms show False by simp
      qed
      ultimately show ?thesis
        using Clean_trailing_slash [of s] length_Clean [of s] by (metis length_append_singleton less_Suc_eq_le)
    qed
    then show ?thesis
      using D pd by (auto simp: walk_measure_def)
  qed
qed

section \<open>The file system as the code sees it\<close>

datatype lstat = Exists | Missing | StatFailed

record file_system =
  fs_lstat :: "string \<Rightarrow> lstat"
  fs_eval :: "string \<Rightarrow> string option"
  fs_statDir :: "string \<Rightarrow> bool option"
  fs_createTemp :: "string \<Rightarrow> bool"
  fs_openRoot :: "string \<Rightarrow> bool"
  fs_mkdir :: "string \<Rightarrow> bool"
  fs_userHome :: "string option"
  fs_sessionUser :: string
  fs_sessionUID :: int
  fs_homeByName :: "string \<Rightarrow> string option"
  fs_homeByUID :: "string \<Rightarrow> string option"
  fs_tempDir :: string
  fs_getwd :: "string option"

datatype path_error = NoHome | OutsideBase | ResolveFailed | StatError | OpenRootFailed

section \<open>Home and base directories\<close>

text \<open>\<open>Stat\<close> answers whether the path is a directory, or fails; a probe file is made and removed.\<close>

definition IsWritableDirectory :: "file_system \<Rightarrow> string \<Rightarrow> bool" where
  "IsWritableDirectory fs path =
     (if path = [] then False
      else case fs_statDir fs path of
             None \<Rightarrow> False
           | Some isDir \<Rightarrow> if \<not> isDir then False else fs_createTemp fs path)"

definition resolveProcessUserHomeDir :: "file_system \<Rightarrow> string" where
  "resolveProcessUserHomeDir fs = (case fs_userHome fs of None \<Rightarrow> [] | Some home \<Rightarrow> home)"

definition resolveDesktopSessionHomeDir :: "file_system \<Rightarrow> string" where
  "resolveDesktopSessionHomeDir fs =
     (let byName = (if TrimSpace (fs_sessionUser fs) = [] then None else fs_homeByName fs (TrimSpace (fs_sessionUser fs)));
          byUID = (if fs_sessionUID fs > 0 then fs_homeByUID fs (Itoa (fs_sessionUID fs)) else None)
      in if byName \<noteq> None \<and> byName \<noteq> Some [] then the byName
         else if byUID \<noteq> None \<and> byUID \<noteq> Some [] then the byUID
         else [])"

definition stagingHome :: "file_system \<Rightarrow> string" where
  "stagingHome fs = JoinPath [fs_tempDir fs, ''labtether-agent-home'']"

definition ResolveAgentFileHomeDir :: "file_system \<Rightarrow> string" where
  "ResolveAgentFileHomeDir fs =
     (let home = resolveProcessUserHomeDir fs; desk = resolveDesktopSessionHomeDir fs; staging = stagingHome fs
      in if home \<noteq> [] \<and> IsWritableDirectory fs home then Clean home
         else if desk \<noteq> [] \<and> IsWritableDirectory fs desk then Clean desk
         else if fs_mkdir fs staging \<and> IsWritableDirectory fs staging then Clean staging
         else case fs_getwd fs of
                Some cwd \<Rightarrow>
                  if cwd \<noteq> [] \<and> IsWritableDirectory fs cwd then Clean cwd
                  else if home \<noteq> [] then Clean home else ''/''
              | None \<Rightarrow> if home \<noteq> [] then Clean home else ''/'')"

definition VolumeName :: "string \<Rightarrow> string" where
  "VolumeName path = []"

definition FilesystemRootForPath :: "string \<Rightarrow> string" where
  "FilesystemRootForPath path =
     (let volume = VolumeName (Clean path) in if volume \<noteq> [] then volume @ ''/'' else ''/'')"

definition mode_of :: "string \<Rightarrow> string" where
  "mode_of fileRootMode = TrimSpace (ToLower fileRootMode)"

definition ResolveFileBaseDirWithHome :: "file_system \<Rightarrow> string \<Rightarrow> string \<Rightarrow> string" where
  "ResolveFileBaseDirWithHome fs fileRootMode homeDir =
     (let home = (if homeDir = [] then ''/'' else homeDir)
      in if mode_of fileRootMode = ''full'' then FilesystemRootForPath home
         else if home \<noteq> [] then Clean home
         else case fs_getwd fs of
                Some cwd \<Rightarrow> if cwd \<noteq> [] then Clean cwd else ''/''
              | None \<Rightarrow> ''/'')"

definition ResolveFileBaseDir :: "file_system \<Rightarrow> string \<Rightarrow> string" where
  "ResolveFileBaseDir fs fileRootMode = ResolveFileBaseDirWithHome fs fileRootMode (ResolveAgentFileHomeDir fs)"

section \<open>Scopes\<close>

record file_scope =
  sc_base :: string
  sc_home :: string
  sc_roots :: "string list"

record scope_fields =
  fm_BaseDir :: string
  fm_HomeDir :: string
  fm_extraRoots :: "string list option"
  fm_rootMode :: string

definition fixedDriveRoots :: "string list" where "fixedDriveRoots = []"

definition rootsForMode :: "string \<Rightarrow> string list option" where
  "rootsForMode fileRootMode = (if mode_of fileRootMode \<noteq> ''full'' then None else Some fixedDriveRoots)"

definition NewManager :: "file_system \<Rightarrow> string \<Rightarrow> scope_fields" where
  "NewManager fs fileRootMode =
     (let homeDir = ResolveAgentFileHomeDir fs
      in \<lparr>fm_BaseDir = ResolveFileBaseDirWithHome fs fileRootMode homeDir, fm_HomeDir = homeDir,
          fm_extraRoots = rootsForMode fileRootMode, fm_rootMode = mode_of fileRootMode\<rparr>)"

text \<open>\<open>SetRootMode\<close>: the flag says that the mode changed, in which case the code also runs \<open>CloseAll\<close>.\<close>

definition SetRootMode :: "file_system \<Rightarrow> string \<Rightarrow> scope_fields \<Rightarrow> bool \<times> scope_fields" where
  "SetRootMode fs fileRootMode fm =
     (let mode = mode_of fileRootMode; homeDir = ResolveAgentFileHomeDir fs
      in if fm_rootMode fm = mode then (False, fm)
         else (True, \<lparr>fm_BaseDir = ResolveFileBaseDirWithHome fs mode homeDir, fm_HomeDir = homeDir,
                      fm_extraRoots = rootsForMode mode, fm_rootMode = mode\<rparr>))"

definition sameRoot :: "string \<Rightarrow> string \<Rightarrow> bool" where
  "sameRoot left right \<longleftrightarrow> Rel (Clean left) (Clean right) = Some dot"

fun isRoot :: "string list \<Rightarrow> string \<Rightarrow> bool" where
  "isRoot [] path = False"
| "isRoot (root # rest) path = (if sameRoot root path then True else isRoot rest path)"

fun add_roots :: "string list \<Rightarrow> string list \<Rightarrow> string list" where
  "add_roots roots [] = roots"
| "add_roots roots (root # rest) =
     (if root = [] \<or> isRoot roots root then add_roots roots rest else add_roots (roots @ [Clean root]) rest)"

definition scope :: "scope_fields \<Rightarrow> file_scope" where
  "scope fm =
     \<lparr>sc_base = fm_BaseDir fm, sc_home = fm_HomeDir fm,
      sc_roots = (case fm_extraRoots fm of
                    None \<Rightarrow> [Clean (fm_BaseDir fm)]
                  | Some extra \<Rightarrow> add_roots [Clean (fm_BaseDir fm)] extra)\<rparr>"

definition expand :: "file_system \<Rightarrow> file_scope \<Rightarrow> string \<Rightarrow> (path_error, string) result" where
  "expand fs s rawPath =
     (let p0 = (if rawPath = [] then sc_base s else rawPath);
          tilde = HasPrefix p0 ''~/'' \<or> p0 = ''~'';
          home = (if sc_home s = [] then ResolveAgentFileHomeDir fs else sc_home s)
      in if tilde \<and> home = [] then Err NoHome
         else let p1 = (if tilde then JoinPath [home, TrimPrefix p0 ''~''] else p0);
                  p2 = (if IsAbs p1 then p1 else JoinPath [sc_base s, p1])
              in Ok (Clean p2))"

fun rootFor :: "string list \<Rightarrow> string \<Rightarrow> (string \<times> string) option" where
  "rootFor [] path = None"
| "rootFor (base # rest) path =
     (case Rel base path of
        None \<Rightarrow> rootFor rest path
      | Some rel \<Rightarrow> if escapes rel then rootFor rest path else Some (base, rel))"

record scoped_path =
  sp_base :: string
  sp_rel :: string
  sp_display :: string

definition openScopedPath :: "file_system \<Rightarrow> scope_fields \<Rightarrow> string \<Rightarrow> (path_error, scoped_path) result" where
  "openScopedPath fs fm rawPath =
     (case expand fs (scope fm) rawPath of
        Inl e \<Rightarrow> Err e
      | Inr display \<Rightarrow>
          (case rootFor (sc_roots (scope fm)) display of
             None \<Rightarrow> Err OutsideBase
           | Some (base, rel) \<Rightarrow>
               if fs_openRoot fs base then Ok \<lparr>sp_base = base, sp_rel = rel, sp_display = display\<rparr>
               else Err OpenRootFailed))"

definition OpenRootPath :: "file_system \<Rightarrow> scope_fields \<Rightarrow> string \<Rightarrow> (path_error, string \<times> string \<times> string) result" where
  "OpenRootPath fs fm rawPath =
     (case openScopedPath fs fm rawPath of
        Inl e \<Rightarrow> Err e
      | Inr opened \<Rightarrow> Ok (sp_base opened, sp_rel opened, sp_display opened))"

section \<open>Validated paths\<close>

definition PathWithinBaseDir :: "string \<Rightarrow> string \<Rightarrow> bool" where
  "PathWithinBaseDir baseDir path =
     (case Rel (Clean baseDir) (Clean path) of
        None \<Rightarrow> False
      | Some rel \<Rightarrow> if rel = dot then True else if rel = dotdot then False else \<not> HasPrefix rel (dotdot @ ''/''))"

text \<open>\<open>missing\<close> holds the names cut off so far, the innermost first, as the code appends them.\<close>

function resolve_walk :: "file_system \<Rightarrow> string list \<Rightarrow> string \<Rightarrow> (path_error, string) result" where
  "resolve_walk fs missing current =
     (case fs_lstat fs current of
        Exists \<Rightarrow>
          (case fs_eval fs current of
             None \<Rightarrow> Err ResolveFailed
           | Some resolved \<Rightarrow> Ok (foldl (\<lambda>r m. JoinPath [r, m]) resolved (rev missing)))
      | StatFailed \<Rightarrow> Err StatError
      | Missing \<Rightarrow>
          if Dir current = current then Ok current
          else resolve_walk fs (missing @ [Base current]) (Dir current))"
  by pat_completeness auto
termination
  by (relation "measure (\<lambda>(_, _, p). walk_measure p)") (auto simp: Dir_smaller)

declare resolve_walk.simps [simp del]

definition resolveExistingPathForContainment :: "file_system \<Rightarrow> string \<Rightarrow> (path_error, string) result" where
  "resolveExistingPathForContainment fs path = resolve_walk fs [] (Clean path)"

definition resolveParentForContainment :: "file_system \<Rightarrow> string \<Rightarrow> (path_error, string) result" where
  "resolveParentForContainment fs cleaned = resolveExistingPathForContainment fs (Dir cleaned)"

definition resolveBaseForContainment :: "file_system \<Rightarrow> string \<Rightarrow> string" where
  "resolveBaseForContainment fs baseDir =
     (let cleaned = Clean baseDir
      in case fs_eval fs cleaned of
           Some resolved \<Rightarrow> resolved
         | None \<Rightarrow> (case resolveExistingPathForContainment fs cleaned of Inr resolved \<Rightarrow> resolved | Inl _ \<Rightarrow> cleaned))"

fun containsResolved :: "file_system \<Rightarrow> string list \<Rightarrow> string \<Rightarrow> bool" where
  "containsResolved fs [] resolved = False"
| "containsResolved fs (root # rest) resolved =
     (if PathWithinBaseDir (resolveBaseForContainment fs root) resolved then True else containsResolved fs rest resolved)"

definition ValidatePath :: "file_system \<Rightarrow> scope_fields \<Rightarrow> string \<Rightarrow> (path_error, string) result" where
  "ValidatePath fs fm rawPath =
     (case expand fs (scope fm) rawPath of
        Inl e \<Rightarrow> Err e
      | Inr cleaned \<Rightarrow>
          let resolution =
                (case fs_lstat fs cleaned of
                   Exists \<Rightarrow> (case fs_eval fs cleaned of None \<Rightarrow> Err ResolveFailed | Some r \<Rightarrow> Ok r)
                 | Missing \<Rightarrow>
                     (case resolveParentForContainment fs cleaned of
                        Inl e \<Rightarrow> Err e
                      | Inr parent \<Rightarrow> Ok (JoinPath [parent, Base cleaned]))
                 | StatFailed \<Rightarrow> Err StatError)
          in case resolution of
               Inl e \<Rightarrow> Err e
             | Inr resolved \<Rightarrow> if containsResolved fs (sc_roots (scope fm)) resolved then Ok resolved else Err OutsideBase)"

definition ValidatePathNoFollowFinal :: "file_system \<Rightarrow> scope_fields \<Rightarrow> string \<Rightarrow> (path_error, string) result" where
  "ValidatePathNoFollowFinal fs fm rawPath =
     (case expand fs (scope fm) rawPath of
        Inl e \<Rightarrow> Err e
      | Inr cleaned \<Rightarrow>
          if isRoot (sc_roots (scope fm)) cleaned then Ok cleaned
          else case resolveParentForContainment fs cleaned of
                 Inl e \<Rightarrow> Err e
               | Inr parent \<Rightarrow>
                   if fs_lstat fs cleaned = StatFailed then Err StatError
                   else if containsResolved fs (sc_roots (scope fm)) (JoinPath [parent, Base cleaned]) then Ok cleaned
                   else Err OutsideBase)"

section \<open>Roots are absolute\<close>

text \<open>
  What the code relies on from the system: the directories it is told are absolute.
\<close>

definition dirs_absolute :: "file_system \<Rightarrow> bool" where
  "dirs_absolute fs \<longleftrightarrow>
     (\<forall>h. fs_userHome fs = Some h \<longrightarrow> h = [] \<or> IsAbs h) \<and>
     (\<forall>u h. fs_homeByName fs u = Some h \<longrightarrow> h = [] \<or> IsAbs h) \<and>
     (\<forall>u h. fs_homeByUID fs u = Some h \<longrightarrow> h = [] \<or> IsAbs h) \<and>
     (\<forall>d. fs_getwd fs = Some d \<longrightarrow> d = [] \<or> IsAbs d) \<and> IsAbs (fs_tempDir fs)"

lemma IsAbs_root [simp]: "IsAbs ''/''"
  by (simp add: IsAbs_def HasPrefix_iff)

lemma comps_root [simp]: "comps ''/'' = []"
  by (simp add: comps_def)

lemma IsAbs_ne: "IsAbs p \<Longrightarrow> p \<noteq> []"
  by (auto simp: IsAbs_def HasPrefix_iff)

lemma IsAbs_append: "IsAbs p \<Longrightarrow> IsAbs (p @ q)"
  by (auto simp: IsAbs_def HasPrefix_iff)

lemma IsAbs_JoinPath: "IsAbs p \<Longrightarrow> IsAbs (JoinPath (p # ps))"
  using IsAbs_ne [of p] by (cases "filter (\<lambda>p. p \<noteq> []) ps") (auto simp: JoinPath_def Let_def IsAbs_append)

lemma IsAbs_home: "dirs_absolute fs \<Longrightarrow> IsAbs (ResolveAgentFileHomeDir fs)"
proof -
  assume d: "dirs_absolute fs"
  have h: "resolveProcessUserHomeDir fs \<noteq> [] \<Longrightarrow> IsAbs (resolveProcessUserHomeDir fs)"
    using d by (auto simp: dirs_absolute_def resolveProcessUserHomeDir_def split: option.splits)
  have k: "resolveDesktopSessionHomeDir fs \<noteq> [] \<Longrightarrow> IsAbs (resolveDesktopSessionHomeDir fs)"
    using d by (auto simp: dirs_absolute_def resolveDesktopSessionHomeDir_def Let_def split: if_splits)
  have t: "IsAbs (stagingHome fs)"
    using d by (auto simp: dirs_absolute_def stagingHome_def IsAbs_JoinPath)
  have w: "fs_getwd fs = Some c \<Longrightarrow> c \<noteq> [] \<Longrightarrow> IsAbs c" for c
    using d by (auto simp: dirs_absolute_def)
  show ?thesis
    unfolding ResolveAgentFileHomeDir_def Let_def using h k t w by (auto split: option.splits)
qed

definition scope_ok :: "scope_fields \<Rightarrow> bool" where
  "scope_ok fm \<longleftrightarrow> IsAbs (fm_HomeDir fm) \<and>
     (if fm_rootMode fm = ''full'' then fm_BaseDir fm = ''/'' \<and> fm_extraRoots fm = Some []
      else fm_BaseDir fm = Clean (fm_HomeDir fm) \<and> fm_extraRoots fm = None)"

lemma mode_of_idem [simp]: "mode_of (mode_of m) = mode_of m"
  by (simp add: mode_of_def TrimSpace_ToLower)

lemma scope_ok_fields:
  "IsAbs h \<Longrightarrow> scope_ok \<lparr>fm_BaseDir = ResolveFileBaseDirWithHome fs m h, fm_HomeDir = h,
     fm_extraRoots = rootsForMode m, fm_rootMode = mode_of m\<rparr>"
  by (auto simp: scope_ok_def ResolveFileBaseDirWithHome_def rootsForMode_def fixedDriveRoots_def
      FilesystemRootForPath_def VolumeName_def IsAbs_ne Let_def)

lemma scope_ok_New: "dirs_absolute fs \<Longrightarrow> scope_ok (NewManager fs m)"
  unfolding NewManager_def Let_def by (rule scope_ok_fields) (rule IsAbs_home)

lemma scope_ok_SetRootMode:
  assumes "dirs_absolute fs" and "scope_ok fm"
  shows "scope_ok (snd (SetRootMode fs m fm))"
  using assms(2) scope_ok_fields [OF IsAbs_home [OF assms(1)], of fs "mode_of m"] by (simp add: SetRootMode_def Let_def)

lemma managers_ok:
  assumes "\<forall>fs \<in> set (fs0 # map fst changes). dirs_absolute fs"
  shows "scope_ok (foldl (\<lambda>fm (fs, m). snd (SetRootMode fs m fm)) (NewManager fs0 m0) changes) \<and>
    fm_rootMode (foldl (\<lambda>fm (fs, m). snd (SetRootMode fs m fm)) (NewManager fs0 m0) changes) = mode_of (last (m0 # map snd changes))"
  using assms
proof (induction changes rule: rev_induct)
  case Nil
  then show ?case by (simp add: scope_ok_New) (simp add: NewManager_def Let_def)
next
  case (snoc c cs)
  then show ?case
    by (cases c) (auto simp: scope_ok_SetRootMode, simp add: SetRootMode_def Let_def)
qed

lemma scope_ok_roots: "scope_ok fm \<Longrightarrow> sc_roots (scope fm) = [fm_BaseDir fm] \<and> IsAbs (fm_BaseDir fm)"
proof -
  assume ok: "scope_ok fm"
  then have "Clean (fm_BaseDir fm) = fm_BaseDir fm" "IsAbs (fm_BaseDir fm)"
    by (auto simp: scope_ok_def split: if_splits) (simp add: Clean_def of_comps_def)
  with ok show ?thesis
    by (auto simp: scope_ok_def scope_def split: if_splits)
qed

lemma IsAbs_expand: "IsAbs (sc_base s) \<Longrightarrow> expand fs s raw = Ok p \<Longrightarrow> IsAbs p"
  by (auto simp: expand_def Let_def IsAbs_JoinPath split: if_splits)

text \<open>A walk from an absolute path stays among absolute paths.\<close>

definition eval_absolute :: "file_system \<Rightarrow> bool" where
  "eval_absolute fs \<longleftrightarrow> (\<forall>p r. IsAbs p \<longrightarrow> fs_eval fs p = Some r \<longrightarrow> IsAbs r)"

lemma eval_absoluteD: "eval_absolute fs \<Longrightarrow> fs_eval fs p = Some r \<Longrightarrow> IsAbs p \<Longrightarrow> IsAbs r"
  by (auto simp: eval_absolute_def)

lemma IsAbs_Dir:
  assumes "IsAbs p"
  shows "IsAbs (Dir p)"
proof -
  define q where "q = rev (dropWhile (\<lambda>c. c \<noteq> slash) (rev p))"
  obtain t where p: "p = slash # t"
    using assms by (auto simp: IsAbs_def HasPrefix_iff)
  have "dropWhile (\<lambda>c. c \<noteq> slash) (rev t @ [slash]) \<noteq> [] \<and> last (dropWhile (\<lambda>c. c \<noteq> slash) (rev t @ [slash])) = slash"
    by (induction "rev t" arbitrary: t rule: rev_induct) (auto simp: dropWhile_append)
  then have "q \<noteq> []" "hd q = slash"
    unfolding q_def p by (simp_all add: hd_rev)
  then have "IsAbs q"
    by (cases q) (auto simp: IsAbs_def HasPrefix_iff)
  then show ?thesis
    by (simp add: Dir_def q_def)
qed

lemma IsAbs_foldl_join: "IsAbs r \<Longrightarrow> IsAbs (foldl (\<lambda>r m. JoinPath [r, m]) r ms)"
  by (induction ms arbitrary: r) (auto simp: IsAbs_JoinPath)

lemma IsAbs_resolve_walk:
  "resolve_walk fs missing p = Ok r \<Longrightarrow> eval_absolute fs \<Longrightarrow> IsAbs p \<Longrightarrow> IsAbs r"
proof (induction fs missing p rule: resolve_walk.induct)
  case (1 fs missing p)
  have ev: "IsAbs x" if "fs_eval fs p = Some x" for x
    using 1 that by (auto simp: eval_absolute_def)
  with 1 show ?case
    using IsAbs_Dir [of p]
    by (subst (asm) resolve_walk.simps)
      (auto intro!: IsAbs_foldl_join split: lstat.splits option.splits if_splits)
qed

lemma IsAbs_resolveBase:
  assumes "eval_absolute fs" and "IsAbs b"
  shows "IsAbs (resolveBaseForContainment fs b)"
  using assms(2) IsAbs_resolve_walk [OF _ assms(1), of "[]" "Clean b"] eval_absoluteD [OF assms(1), of "Clean b"]
  by (auto simp: resolveBaseForContainment_def resolveExistingPathForContainment_def Let_def
      split: option.splits sum.splits)

section \<open>The deepest existing ancestor\<close>

lemma clean_list_append: "clean_list True (cs @ ds) \<longleftrightarrow> clean_list True cs \<and> clean_list True ds"
  unfolding clean_list_def by (auto intro: exI [of _ "0::nat"])

lemma Dir_Base_snoc:
  assumes "clean_list True (cs @ [c])"
  shows "Dir (of_comps True (cs @ [c])) = of_comps True cs" and "Base (of_comps True (cs @ [c])) = c"
proof -
  define pre where "pre = (if cs = [] then [] else of_comps True cs)"
  have c: "c \<noteq> []" "slash \<notin> set c"
    using clean_listD(1) [OF assms, of c] by simp_all
  have e: "of_comps True (cs @ [c]) = pre @ slash # c"
    by (simp add: pre_def of_comps_def Join_append)
  have r: "rev (pre @ slash # c) = rev c @ slash # rev pre"
    by simp
  have dw: "dropWhile (\<lambda>x. x \<noteq> slash) (rev c @ slash # ys) = slash # ys" for ys
    using c(2) by (subst dropWhile_append2) (auto simp: dropWhile_append2)
  have tw: "takeWhile (\<lambda>x. x \<noteq> slash) (rev c @ slash # ys) = rev c" for ys
    using c(2) by (subst takeWhile_append2) auto
  have "clean_list True cs"
    using assms by (simp add: clean_list_append)
  then have "Clean (pre @ [slash]) = of_comps True cs"
  proof (cases "cs = []")
    case True
    then show ?thesis by (simp add: pre_def Clean_def of_comps_def)
  next
    case False
    then have "pre = of_comps True cs" by (simp add: pre_def)
    moreover have "of_comps True cs \<noteq> []" by (simp add: of_comps_def)
    ultimately show ?thesis
      using \<open>clean_list True cs\<close> Clean_trailing_slash [of "of_comps True cs"] by (simp add: Clean_def comps_of_comps)
  qed
  then show "Dir (of_comps True (cs @ [c])) = of_comps True cs"
    unfolding Dir_def e r dw by simp
  have "last c \<noteq> slash"
    using c last_in_set by fastforce
  then have "TrimRight (\<lambda>x. x = slash) (pre @ slash # c) = pre @ slash # c"
    using c(1) by (cases c rule: rev_cases) (simp_all add: TrimRight_def)
  then show "Base (of_comps True (cs @ [c])) = c"
    unfolding Base_def e Let_def by (simp add: tw)
qed

lemma resolve_walk_up:
  assumes "clean_list True (cs @ ds)"
    and "fs_lstat fs (of_comps True cs) = Exists" and "fs_eval fs (of_comps True cs) = Some r"
    and "\<And>i. 0 < i \<Longrightarrow> i \<le> length ds \<Longrightarrow> fs_lstat fs (of_comps True (cs @ take i ds)) = Missing"
  shows "resolve_walk fs missing (of_comps True (cs @ ds)) = Ok (foldl (\<lambda>r m. JoinPath [r, m]) r (ds @ rev missing))"
  using assms
proof (induction ds arbitrary: missing rule: rev_induct)
  case Nil
  then show ?case by (simp add: resolve_walk.simps)
next
  case (snoc d ds)
  have cl: "clean_list True (cs @ ds)" "clean_list True ((cs @ ds) @ [d])"
    using snoc.prems(1) clean_list_append [of "cs @ ds" "[d]"] by simp_all
  have m: "fs_lstat fs (of_comps True (cs @ ds @ [d])) = Missing"
    using snoc.prems(4) [of "Suc (length ds)"] by simp
  have miss: "fs_lstat fs (of_comps True (cs @ take i ds)) = Missing" if "0 < i" "i \<le> length ds" for i
    using snoc.prems(4) [of i] that by simp
  have db: "Dir (of_comps True (cs @ ds @ [d])) = of_comps True (cs @ ds)" "Base (of_comps True (cs @ ds @ [d])) = d"
    using Dir_Base_snoc [OF cl(2)] by simp_all
  have ne: "of_comps True (cs @ ds) \<noteq> of_comps True (cs @ ds @ [d])"
    using of_comps_inj [OF cl] by simp
  show ?case
    using snoc.IH [OF cl(1) snoc.prems(2,3) miss, of "missing @ [d]"] m db ne by (subst resolve_walk.simps) simp
qed

lemma clean_comps_snoc:
  "c \<noteq> [] \<Longrightarrow> c \<noteq> dot \<Longrightarrow> c \<noteq> dotdot \<Longrightarrow> clean_comps rooted stack (cs @ [c]) = clean_comps rooted stack cs @ [c]"
  by (induction rooted stack cs rule: clean_comps.induct) (auto split: list.splits)

lemma comps_JoinPath_snoc:
  assumes "IsAbs r" and "clean_list True [c]"
  shows "comps (JoinPath [r, c]) = comps r @ [c]"
proof -
  have c: "c \<noteq> []" "c \<noteq> dot" "slash \<notin> set c" "c \<noteq> dotdot"
    using clean_listD(1) [OF assms(2), of c] clean_listD(2) [OF assms(2)] by simp_all
  have "JoinPath [r, c] = Clean (r @ slash # c)"
    using IsAbs_ne [OF assms(1)] c(1) by (simp add: JoinPath_def)
  then have "comps (JoinPath [r, c]) = clean_comps True [] (SplitByte slash r @ [c])"
    using IsAbs_append [OF assms(1), of "slash # c"] c(3)
    by (simp add: comps_def [of "r @ slash # c"] SplitByte_append_general SplitByte_plain)
  then show ?thesis
    using c assms(1) by (simp add: clean_comps_snoc comps_def)
qed

lemma comps_foldl_join:
  "IsAbs r \<Longrightarrow> clean_list True ds \<Longrightarrow> comps (foldl (\<lambda>r m. JoinPath [r, m]) r ds) = comps r @ ds"
proof (induction ds arbitrary: r)
  case (Cons d ds)
  have "clean_list True [d]" "clean_list True ds"
    using Cons.prems(2) clean_list_append [of "[d]" ds] by simp_all
  then show ?case
    using Cons.IH [of "JoinPath [r, d]"] Cons.prems(1) by (simp add: IsAbs_JoinPath comps_JoinPath_snoc)
qed simp

lemma within_prefix:
  "IsAbs b \<Longrightarrow> IsAbs p \<Longrightarrow> PathWithinBaseDir b p \<longleftrightarrow> prefix (comps b) (comps p)"
  using Rel_abs [of "Clean b" "Clean p"]
  by (auto simp: PathWithinBaseDir_def escapes_def not_escapes_dot split: if_splits)

section \<open>Properties\<close>

text \<open>
  \<open>PathWithinBaseDir\<close> on absolute paths is containment of components: a path is inside a base
  directory exactly when its cleaned components start with the base's. \<open>/home/user2\<close> is not inside
  \<open>/home/user\<close>, and no spelling with \<open>..\<close> or doubled separators changes the verdict.
\<close>

theorem PathWithinBaseDir_iff:
  assumes "IsAbs baseDir" and "IsAbs path"
  shows "PathWithinBaseDir baseDir path \<longleftrightarrow> prefix (comps baseDir) (comps path)"
  using assms by (rule within_prefix)

theorem PathWithinBaseDir_iff_witness:
  "PathWithinBaseDir ''/home/user'' ''/home//user/x/../y'' \<longleftrightarrow> prefix (comps ''/home/user'') (comps ''/home//user/x/../y'')"
  by (rule PathWithinBaseDir_iff) code_simp+

text \<open>
  C5. A request path never leaves the directory the file root mode allows. For a manager made at
  startup and switched between modes any number of times, every path \<open>openScopedPath\<close> accepts is
  an absolute path whose components are those of the allowed base directory (\<open>/\<close> in full mode, the
  resolved home otherwise) followed by those of a relative path without \<open>..\<close>, and it is opened
  beneath exactly that base. The mode in force is the last one set.
\<close>

theorem openScopedPath_stays_inside:
  assumes "\<forall>fs \<in> set (fs0 # map fst changes). dirs_absolute fs"
    and "fm = foldl (\<lambda>fm (fs, m). snd (SetRootMode fs m fm)) (NewManager fs0 m0) changes"
    and "openScopedPath fs fm rawPath = Ok sp"
  shows "sp_base sp = (if mode_of (last (m0 # map snd changes)) = ''full'' then ''/'' else Clean (fm_HomeDir fm)) \<and>
    IsAbs (sp_display sp) \<and> comps (sp_display sp) = comps (sp_base sp) @ comps (sp_rel sp) \<and>
    \<not> IsAbs (sp_rel sp) \<and> dotdot \<notin> set (comps (sp_rel sp))"
proof -
  have ok: "scope_ok fm" "fm_rootMode fm = mode_of (last (m0 # map snd changes))"
    using managers_ok [OF assms(1)] assms(2) by simp_all
  have b: "sc_roots (scope fm) = [fm_BaseDir fm]" "IsAbs (fm_BaseDir fm)"
    using scope_ok_roots [OF ok(1)] by simp_all
  obtain rel where d: "expand fs (scope fm) rawPath = Ok (sp_display sp)" "sp_base sp = fm_BaseDir fm"
      "Rel (fm_BaseDir fm) (sp_display sp) = Some (sp_rel sp)" "\<not> escapes (sp_rel sp)"
    using assms(3) b(1) by (auto simp: openScopedPath_def split: sum.splits option.splits if_splits)
  have a: "IsAbs (sp_display sp)"
    using IsAbs_expand [OF _ d(1)] b(2) by (simp add: scope_def)
  have c: "comps (sp_display sp) = comps (fm_BaseDir fm) @ comps (sp_rel sp)" "\<not> IsAbs (sp_rel sp)"
    using Rel_abs [OF b(2) a] d(3,4) by (auto split: if_splits)
  have "dotdot \<notin> set (comps (sp_rel sp))"
    using comps_no_dotdot [OF a] c(1) by simp
  with a c d(2) ok show ?thesis
    by (simp add: scope_ok_def split: if_splits)
qed

text \<open>A small file system for the examples: \<open>/\<close>, \<open>/h\<close> and a link \<open>/h/l\<close> to \<open>/e\<close>.\<close>

definition demo_fs :: file_system where
  "demo_fs =
     \<lparr>fs_lstat = (\<lambda>p. if p = ''/'' \<or> p = ''/h'' \<or> p = ''/h/l'' \<or> p = ''/e'' then Exists else Missing),
      fs_eval = (\<lambda>p. if p = ''/'' \<or> p = ''/h'' \<or> p = ''/e'' then Some p else if p = ''/h/l'' then Some ''/e'' else None),
      fs_statDir = (\<lambda>p. Some True), fs_createTemp = (\<lambda>p. True), fs_openRoot = (\<lambda>p. True), fs_mkdir = (\<lambda>p. True),
      fs_userHome = Some ''/h'', fs_sessionUser = [], fs_sessionUID = 0, fs_homeByName = (\<lambda>u. None),
      fs_homeByUID = (\<lambda>u. None), fs_tempDir = ''/tmp'', fs_getwd = Some ''/''\<rparr>"

definition demo_changes :: "(file_system \<times> string) list" where
  "demo_changes = [(demo_fs, ''full''), (demo_fs, '' Home '')]"

definition demo_manager :: scope_fields where
  "demo_manager = foldl (\<lambda>fm (fs, m). snd (SetRootMode fs m fm)) (NewManager demo_fs ''home'') demo_changes"

lemma demo_dirs: "dirs_absolute demo_fs"
  by (auto simp: dirs_absolute_def demo_fs_def IsAbs_def HasPrefix_iff)

lemma demo_manager_ok: "scope_ok demo_manager"
  using managers_ok [of demo_fs demo_changes "''home''"] demo_dirs by (simp add: demo_manager_def demo_changes_def)

theorem openScopedPath_stays_inside_witness:
  "openScopedPath demo_fs demo_manager ''~/a/../b'' = Ok \<lparr>sp_base = ''/h'', sp_rel = ''b'', sp_display = ''/h/b''\<rparr> \<and>
   comps ''/h/b'' = comps ''/h'' @ comps ''b'' \<and> dotdot \<notin> set (comps ''b'')"
proof -
  have o: "openScopedPath demo_fs demo_manager ''~/a/../b'' = Ok \<lparr>sp_base = ''/h'', sp_rel = ''b'', sp_display = ''/h/b''\<rparr>"
    by code_simp
  show ?thesis
    using openScopedPath_stays_inside [of demo_fs demo_changes demo_manager "''home''", OF _ demo_manager_def o] demo_dirs o
    by (simp add: demo_changes_def)
qed

text \<open>
  C29. \<open>ValidatePath\<close> sees through symbolic links. When it accepts a request path, the path it
  returns is absolute and lies component-wise inside the resolved base directory; if the target
  exists it is the target with every link resolved. The hypothesis is what \<open>EvalSymlinks\<close>
  documents: an absolute path resolves to an absolute path.
\<close>

theorem ValidatePath_contained:
  assumes "scope_ok fm" and "eval_absolute fs" and "ValidatePath fs fm rawPath = Ok r"
  shows "IsAbs r \<and> prefix (comps (resolveBaseForContainment fs (fm_BaseDir fm))) (comps r) \<and>
    (\<exists>cleaned. expand fs (scope fm) rawPath = Ok cleaned \<and>
       (if fs_lstat fs cleaned = Exists then fs_eval fs cleaned = Some r
        else \<exists>parent. resolveParentForContainment fs cleaned = Ok parent \<and> r = JoinPath [parent, Base cleaned]))"
proof -
  have b: "sc_roots (scope fm) = [fm_BaseDir fm]" "IsAbs (fm_BaseDir fm)"
    using scope_ok_roots [OF assms(1)] by simp_all
  obtain cleaned where c: "expand fs (scope fm) rawPath = Ok cleaned"
    using assms(3) by (auto simp: ValidatePath_def split: sum.splits)
  have ca: "IsAbs cleaned"
    using IsAbs_expand [OF _ c] b(2) by (simp add: scope_def)
  have res: "if fs_lstat fs cleaned = Exists then fs_eval fs cleaned = Some r
        else \<exists>parent. resolveParentForContainment fs cleaned = Ok parent \<and> r = JoinPath [parent, Base cleaned]"
    and w: "PathWithinBaseDir (resolveBaseForContainment fs (fm_BaseDir fm)) r"
    using assms(3) c b(1) by (auto simp: ValidatePath_def Let_def split: sum.splits lstat.splits option.splits if_splits)
  have pa: "IsAbs parent" if "resolveParentForContainment fs cleaned = Ok parent" for parent
    using that IsAbs_resolve_walk [OF _ assms(2)] IsAbs_Dir [OF ca]
    by (auto simp: resolveParentForContainment_def resolveExistingPathForContainment_def)
  have ra: "IsAbs r"
    using res assms(2) ca pa by (auto simp: eval_absolute_def IsAbs_JoinPath split: if_splits)
  show ?thesis
    using within_prefix [OF IsAbs_resolveBase [OF assms(2) b(2)] ra] w ra c res by blast
qed

theorem ValidatePath_contained_witness:
  "ValidatePath demo_fs demo_manager ''x/y'' = Ok ''/h/x/y'' \<and> ValidatePath demo_fs demo_manager ''l'' = Err OutsideBase \<and>
   prefix (comps (resolveBaseForContainment demo_fs (fm_BaseDir demo_manager))) (comps ''/h/x/y'')"
proof -
  have v: "ValidatePath demo_fs demo_manager ''x/y'' = Ok ''/h/x/y''" "ValidatePath demo_fs demo_manager ''l'' = Err OutsideBase"
    by code_simp+
  have "eval_absolute demo_fs"
    by (auto simp: eval_absolute_def demo_fs_def IsAbs_def HasPrefix_iff split: if_splits)
  then show ?thesis
    using ValidatePath_contained [OF demo_manager_ok _ v(1)] v by blast
qed

text \<open>
  The walk to the deepest existing ancestor. When the components \<open>cs\<close> of an absolute path exist
  and every longer prefix of it is missing, \<open>resolveExistingPathForContainment\<close> ends, and its result
  names the resolved ancestor followed by exactly the missing components, in order. The walk itself
  ends on every path: each \<open>Dir\<close> is shorter until it is its own parent.
\<close>

theorem resolveExisting_deepest:
  assumes "IsAbs path" and "comps path = cs @ ds"
    and "fs_lstat fs (of_comps True cs) = Exists" and "fs_eval fs (of_comps True cs) = Some r" and "IsAbs r"
    and "\<forall>i \<in> {1..length ds}. fs_lstat fs (of_comps True (cs @ take i ds)) = Missing"
  shows "\<exists>p. resolveExistingPathForContainment fs path = Ok p \<and> IsAbs p \<and> comps p = comps r @ ds"
proof -
  have cl: "clean_list True (cs @ ds)"
    using clean_list_comps [of path] assms(1,2) by simp
  have "resolveExistingPathForContainment fs path = Ok (foldl (\<lambda>r m. JoinPath [r, m]) r ds)"
    using resolve_walk_up [OF cl assms(3,4), of "[]"] assms(1,2,6)
    by (simp add: resolveExistingPathForContainment_def Clean_def)
  moreover have "clean_list True ds"
    using cl by (simp add: clean_list_append)
  ultimately show ?thesis
    using comps_foldl_join [OF assms(5)] IsAbs_foldl_join [OF assms(5)] by auto
qed

theorem resolveExisting_deepest_witness:
  "resolveExistingPathForContainment demo_fs ''/h/l/x/y'' = Ok ''/e/x/y'' \<and>
   (\<exists>p. resolveExistingPathForContainment demo_fs ''/h/l/x/y'' = Ok p \<and> IsAbs p \<and> comps p = comps ''/e'' @ [''x'', ''y''])"
proof -
  have "fs_lstat demo_fs (of_comps True [''h'', ''l'', ''x'']) = Missing"
      "fs_lstat demo_fs (of_comps True [''h'', ''l'', ''x'', ''y'']) = Missing"
    by code_simp+
  moreover have "i = Suc 0 \<or> i = Suc (Suc 0)" if "i \<in> {1..length [''x'', ''y'']}" for i
    using that by auto
  ultimately have "\<forall>i \<in> {1..length [''x'', ''y'']}. fs_lstat demo_fs (of_comps True ([''h'', ''l''] @ take i [''x'', ''y''])) = Missing"
    by fastforce
  moreover have "comps ''/h/l/x/y'' = [''h'', ''l''] @ [''x'', ''y'']" "IsAbs ''/h/l/x/y''" "IsAbs ''/e''"
      "fs_lstat demo_fs (of_comps True [''h'', ''l'']) = Exists" "fs_eval demo_fs (of_comps True [''h'', ''l'']) = Some ''/e''"
      "resolveExistingPathForContainment demo_fs ''/h/l/x/y'' = Ok ''/e/x/y''"
    by code_simp+
  ultimately show ?thesis
    using resolveExisting_deepest [of "''/h/l/x/y''" "[''h'', ''l'']" "[''x'', ''y'']" demo_fs "''/e''"] by blast
qed

end
