(* ===== verification/SettingsApply.thy ===== *)
theory SettingsApply
  imports Settings SelfUpdate FileScope "HOL-Library.Multiset"
begin

text \<open>
  Settings pushed by the Hub: \<open>settings_runtime.go\<close>, \<open>settings_ws_handler.go\<close>, \<open>settings_restart.go\<close>,
  \<open>settings_env_pins.go\<close>, \<open>settings_protocol.go\<close>, \<open>config_persist.go\<close> and the part of \<open>LoadConfig\<close> in
  \<open>config.go\<close> that reads the settings file and picks the saved CA file. The state is what these files share: the configuration,
  the overrides, the file manager that follows one of the settings, the two files on disk and the
  messages sent. A map of values is the list of its entries in the order the loop visits them.
\<close>

section \<open>Settings chosen at install time\<close>

fun installSettingEnvVars :: "setting_key \<Rightarrow> string list" where
  "installSettingEnvVars KeyCollectIntervalSec = [''AGENT_COLLECT_INTERVAL'']"
| "installSettingEnvVars KeyHeartbeatIntervalSec = [''AGENT_HEARTBEAT_INTERVAL'']"
| "installSettingEnvVars KeyDockerEnabled = [''LABTETHER_DOCKER_ENABLED'']"
| "installSettingEnvVars KeyDockerEndpoint = [''LABTETHER_DOCKER_SOCKET'']"
| "installSettingEnvVars KeyDockerDiscoveryIntervalSec = [''LABTETHER_DOCKER_DISCOVERY_INTERVAL'']"
| "installSettingEnvVars KeyServicesDiscoveryDockerEnabled = [''LABTETHER_SERVICES_DISCOVERY_DOCKER_ENABLED'']"
| "installSettingEnvVars KeyServicesDiscoveryProxyEnabled = [''LABTETHER_SERVICES_DISCOVERY_PROXY_ENABLED'', ''LABTETHER_PROXY_DISABLED'']"
| "installSettingEnvVars KeyServicesDiscoveryProxyTraefikEnabled = [''LABTETHER_SERVICES_DISCOVERY_PROXY_TRAEFIK_ENABLED'']"
| "installSettingEnvVars KeyServicesDiscoveryProxyCaddyEnabled = [''LABTETHER_SERVICES_DISCOVERY_PROXY_CADDY_ENABLED'']"
| "installSettingEnvVars KeyServicesDiscoveryProxyNPMEnabled = [''LABTETHER_SERVICES_DISCOVERY_PROXY_NPM_ENABLED'']"
| "installSettingEnvVars KeyServicesDiscoveryPortScanEnabled = [''LABTETHER_SERVICES_DISCOVERY_PORT_SCAN_ENABLED'', ''LABTETHER_WEBSVC_PORTSCAN_DISABLED'']"
| "installSettingEnvVars KeyServicesDiscoveryPortScanIncludeListening = [''LABTETHER_SERVICES_DISCOVERY_PORT_SCAN_INCLUDE_LISTENING'', ''LABTETHER_WEBSVC_PORTSCAN_INCLUDE_LISTENING'']"
| "installSettingEnvVars KeyServicesDiscoveryPortScanPorts = [''LABTETHER_SERVICES_DISCOVERY_PORT_SCAN_PORTS'', ''LABTETHER_WEBSVC_PORTSCAN_PORTS'']"
| "installSettingEnvVars KeyServicesDiscoveryLANScanEnabled = [''LABTETHER_SERVICES_DISCOVERY_LAN_SCAN_ENABLED'']"
| "installSettingEnvVars KeyServicesDiscoveryLANScanCIDRs = [''LABTETHER_SERVICES_DISCOVERY_LAN_SCAN_CIDRS'']"
| "installSettingEnvVars KeyServicesDiscoveryLANScanPorts = [''LABTETHER_SERVICES_DISCOVERY_LAN_SCAN_PORTS'']"
| "installSettingEnvVars KeyServicesDiscoveryLANScanMaxHosts = [''LABTETHER_SERVICES_DISCOVERY_LAN_SCAN_MAX_HOSTS'']"
| "installSettingEnvVars KeyFilesRootMode = [''LABTETHER_FILES_ROOT_MODE'']"
| "installSettingEnvVars KeyWebRTCEnabled = [''LABTETHER_WEBRTC_ENABLED'']"
| "installSettingEnvVars KeyWebRTCSTUNURL = [''LABTETHER_WEBRTC_STUN_URL'']"
| "installSettingEnvVars KeyWebRTCTURNURL = [''LABTETHER_WEBRTC_TURN_URL'']"
| "installSettingEnvVars KeyWebRTCTURNUser = [''LABTETHER_WEBRTC_TURN_USER'']"
| "installSettingEnvVars KeyWebRTCTURNPass = [''LABTETHER_WEBRTC_TURN_PASS'', ''LABTETHER_WEBRTC_TURN_PASS_FILE'']"
| "installSettingEnvVars KeyWebRTCWaylandExperimentalEnabled = [''LABTETHER_WEBRTC_WAYLAND_EXPERIMENTAL_ENABLED'']"
| "installSettingEnvVars KeyWebRTCWaylandPipeWireNodeID = [''LABTETHER_WEBRTC_WAYLAND_PIPEWIRE_NODE_ID'']"
| "installSettingEnvVars KeyWebRTCWaylandInputBackend = [''LABTETHER_WEBRTC_WAYLAND_INPUT_BACKEND'']"
| "installSettingEnvVars KeyCaptureFPS = [''LABTETHER_CAPTURE_FPS'']"
| "installSettingEnvVars KeyLogLevel = [''LABTETHER_LOG_LEVEL'']"
| "installSettingEnvVars KeyAllowRemoteOverrides = []"
| "installSettingEnvVars KeyTLSSkipVerify = []"
| "installSettingEnvVars KeyTLSCAFile = []"

definition lowPowerSettingKeys :: "setting_key list" where
  "lowPowerSettingKeys = [KeyCollectIntervalSec, KeyHeartbeatIntervalSec, KeyDockerDiscoveryIntervalSec,
     KeyServicesDiscoveryPortScanEnabled, KeyServicesDiscoveryPortScanIncludeListening]"

definition envPinnedSettings :: "update_host \<Rightarrow> setting_key list" where
  "envPinnedSettings u =
     filter (\<lambda>k. list_ex (\<lambda>name. TrimSpace (h_Getenv u name) \<noteq> []) (installSettingEnvVars k) \<or>
                 boolEnv u ''LABTETHER_LOW_POWER_MODE'' False \<and> k \<in> set lowPowerSettingKeys) all_keys"

section \<open>The shared state\<close>

text \<open>What the agent answers the Hub with. An error is one of the fixed texts or that of the failed setting.\<close>

datatype apply_failure = OverridesDisabled | FingerprintMismatch | ApplyFailed setting_error

datatype settings_msg =
    ConfigApplied int int
  | SettingsApplied string string "(apply_failure, (string \<times> string) list \<times> bool) result" "string option"
  | SettingsState string "(string \<times> string) list" "string option" bool

text \<open>
  \<open>sr_files\<close> is the file manager behind \<open>applyFileRootMode\<close>; \<open>sr_settings\<close>, \<open>sr_applied\<close> and \<open>sr_record\<close>
  are \<open>agent-config.json\<close>, \<open>applied-config.json\<close> and the restart record, \<open>None\<close> for a file that is
  absent, unreadable or not JSON. \<open>sr_docker\<close> is the pair kept by \<open>connector_discovery.go\<close>, \<open>sr_restarts\<close>
  lists the times restarts were scheduled.
\<close>

record settings_rt =
  sr_cfg :: settings_cfg
  sr_pinned :: "setting_key list"
  sr_path :: string
  sr_collectOverride :: int
  sr_heartbeatOverride :: int
  sr_baseCollect :: int
  sr_baseHeartbeat :: int
  sr_running :: "(setting_key \<times> string) list"
  sr_fingerprint :: "string option"
  sr_canRestart :: bool
  sr_files :: "scope_fields option"
  sr_settings :: settings_file
  sr_applied :: "(int \<times> int) option"
  sr_record :: "((setting_key \<times> string) list \<times> int) option"
  sr_docker :: "string \<times> string"
  sr_restarts :: "int list"
  sr_sent :: "settings_msg list"

text \<open>The answers of the file system, and the order in which the merged map of values is visited.\<close>

record settings_io =
  si_order :: "(string \<times> string) list \<Rightarrow> (string \<times> string) list"
  si_save :: bool
  si_configDir :: bool
  si_remove :: bool
  si_writeApplied :: bool
  si_writeRecord :: bool
  si_connected :: bool
  si_now :: int
  si_savedCA :: bool
  si_hubCA :: bool

section \<open>Reported values and pending restarts\<close>

definition effectiveCollectIntervalSec :: "settings_rt \<Rightarrow> int" where
  "effectiveCollectIntervalSec r =
     (if sr_collectOverride r > 0 then sr_collectOverride r else DurationSeconds (sc_CollectInterval (sr_cfg r)))"

definition effectiveHeartbeatIntervalSec :: "settings_rt \<Rightarrow> int" where
  "effectiveHeartbeatIntervalSec r =
     (if sr_heartbeatOverride r > 0 then sr_heartbeatOverride r else DurationSeconds (sc_HeartbeatInterval (sr_cfg r)))"

definition reported_value :: "settings_rt \<Rightarrow> setting_key \<Rightarrow> string" where
  "reported_value r k =
     (if k = KeyCollectIntervalSec then Itoa (effectiveCollectIntervalSec r)
      else if k = KeyHeartbeatIntervalSec then Itoa (effectiveHeartbeatIntervalSec r)
      else case map_of (sr_running r) k of Some v \<Rightarrow> v | None \<Rightarrow> AgentSettingValuesFromConfig (sr_cfg r) k)"

definition ReportedAgentSettings :: "settings_rt \<Rightarrow> (string \<times> string) list" where
  "ReportedAgentSettings r = map (\<lambda>k. (key_name k, reported_value r k)) all_keys"

definition restartSettingKeys :: "setting_key list" where
  "restartSettingKeys = [KeyDockerEnabled, KeyDockerEndpoint, KeyDockerDiscoveryIntervalSec, KeyServicesDiscoveryDockerEnabled,
     KeyServicesDiscoveryProxyEnabled, KeyServicesDiscoveryProxyTraefikEnabled, KeyServicesDiscoveryProxyCaddyEnabled,
     KeyServicesDiscoveryProxyNPMEnabled, KeyServicesDiscoveryPortScanEnabled, KeyServicesDiscoveryPortScanIncludeListening,
     KeyServicesDiscoveryPortScanPorts, KeyServicesDiscoveryLANScanEnabled, KeyServicesDiscoveryLANScanCIDRs,
     KeyServicesDiscoveryLANScanPorts, KeyServicesDiscoveryLANScanMaxHosts, KeyWebRTCEnabled,
     KeyWebRTCWaylandExperimentalEnabled, KeyWebRTCWaylandPipeWireNodeID, KeyWebRTCWaylandInputBackend]"

definition startupRestartSettings :: "settings_cfg \<Rightarrow> (setting_key \<times> string) list" where
  "startupRestartSettings cfg = map (\<lambda>k. (k, AgentSettingValuesFromConfig cfg k)) restartSettingKeys"

definition pendingRestartSettings :: "settings_rt \<Rightarrow> (setting_key \<times> string) list" where
  "pendingRestartSettings r =
     map (\<lambda>(k, running). (k, AgentSettingValuesFromConfig (sr_cfg r) k))
       (filter (\<lambda>(k, running). AgentSettingValuesFromConfig (sr_cfg r) k \<noteq> running) (sr_running r))"

section \<open>Applying a push\<close>

definition persistAppliedConfig :: "settings_io \<Rightarrow> settings_rt \<Rightarrow> settings_rt" where
  "persistAppliedConfig io r =
     (if \<not> si_configDir io then r
      else if sr_collectOverride r = 0 \<and> sr_heartbeatOverride r = 0
           then (if si_remove io then r\<lparr>sr_applied := None\<rparr> else r)
      else if si_writeApplied io then r\<lparr>sr_applied := Some (sr_collectOverride r, sr_heartbeatOverride r)\<rparr>
      else r)"

definition setConnectorDiscoveryDockerConfig :: "string \<Rightarrow> string \<Rightarrow> settings_rt \<Rightarrow> settings_rt" where
  "setConnectorDiscoveryDockerConfig mode endpoint r =
     r\<lparr>sr_docker := (or_default (TrimSpace (ToLower mode)) ''auto'', or_default (TrimSpace endpoint) ''/var/run/docker.sock'')\<rparr>"

text \<open>The \<open>switch\<close> on the key as it was sent: a spelling other than the setting's own matches no case.\<close>

definition apply_value :: "string \<Rightarrow> string \<Rightarrow> settings_rt \<Rightarrow> settings_rt" where
  "apply_value key v r =
     (case find_key key of
        None \<Rightarrow> r
      | Some k \<Rightarrow>
          let r1 = r\<lparr>sr_cfg := assign_setting k v (sr_cfg r)\<rparr>
          in if k = KeyCollectIntervalSec then r1\<lparr>sr_collectOverride := atoi v, sr_baseCollect := atoi v * second\<rparr>
             else if k = KeyHeartbeatIntervalSec then r1\<lparr>sr_heartbeatOverride := atoi v, sr_baseHeartbeat := atoi v * second\<rparr>
             else r1)"

record apply_acc =
  aa_rt :: settings_rt
  aa_applied :: "(string \<times> string) list"
  aa_write :: bool
  aa_root :: bool
  aa_kept :: "string list"

definition apply_entry :: "string \<Rightarrow> string \<Rightarrow> apply_acc \<Rightarrow> apply_acc" where
  "apply_entry key v a =
     a\<lparr>aa_rt := apply_value key v (aa_rt a),
       aa_applied := aa_applied a @ [(key, v)],
       aa_write := (aa_write a \<or> find_key key \<in> {Some KeyCollectIntervalSec, Some KeyHeartbeatIntervalSec}),
       aa_root := (aa_root a \<or> find_key key = Some KeyFilesRootMode \<and>
                     \<not> EqualFold (TrimSpace (sc_FileRootMode (sr_cfg (aa_rt a)))) v)\<rparr>"

text \<open>The loop returns at the first error and leaves what it changed so far.\<close>

fun apply_loop :: "host \<Rightarrow> dns \<Rightarrow> (string \<times> string) list \<Rightarrow> apply_acc \<Rightarrow> setting_error option \<times> apply_acc" where
  "apply_loop h d [] a = (None, a)"
| "apply_loop h d ((key, raw) # rest) a =
     (case AgentSettingDefinitionByKey key of
        None \<Rightarrow> (Some (UnknownKey key), a)
      | Some k \<Rightarrow>
          if sd_LocalOnly (definition_of k) then (Some (LocalOnlyKey key), a)
          else if k \<in> set (sr_pinned (aa_rt a)) then apply_loop h d rest (a\<lparr>aa_kept := aa_kept a @ [key_name k]\<rparr>)
          else case NormalizeAgentSettingValue h d key raw of
                 Inl e \<Rightarrow> (Some e, a)
               | Inr v \<Rightarrow> apply_loop h d rest (apply_entry key v a))"

definition apply_root_mode :: "file_system \<Rightarrow> bool \<Rightarrow> settings_rt \<Rightarrow> settings_rt" where
  "apply_root_mode fs changed r =
     (if changed then r\<lparr>sr_files := map_option (\<lambda>fm. snd (SetRootMode fs (sc_FileRootMode (sr_cfg r)) fm)) (sr_files r)\<rparr>
      else r)"

definition merge_values :: "(string \<times> string) list \<Rightarrow> (string \<times> string) list \<Rightarrow> (string \<times> string) list" where
  "merge_values applied vs = fold (\<lambda>(k, v). put k v) applied vs"

text \<open>From the applied values to the files: the part of \<open>applyAgentSettings\<close> after the lock is released.\<close>

definition persist_applied :: "host \<Rightarrow> dns \<Rightarrow> settings_io \<Rightarrow> apply_acc \<Rightarrow> settings_rt
    \<Rightarrow> setting_error option \<times> settings_rt" where
  "persist_applied h d io a r =
     (let finish = (\<lambda>r. setConnectorDiscoveryDockerConfig (sc_DockerEnabled (sr_cfg r)) (sc_DockerSocket (sr_cfg r))
                          (if aa_write a then persistAppliedConfig io r else r))
      in case LoadAgentSettingsFile h d (sr_path r) (sr_settings r) of
           None \<Rightarrow> (None, finish r)
         | Some vs \<Rightarrow>
             (case SaveAgentSettingsFile h d (sr_path r) (si_save io) (si_order io (merge_values (aa_applied a) vs)) (sr_settings r) of
                (Some e, f) \<Rightarrow> (Some e, r\<lparr>sr_settings := f\<rparr>)
              | (None, f) \<Rightarrow> (None, finish (r\<lparr>sr_settings := f\<rparr>))))"

definition applyAgentSettings :: "host \<Rightarrow> dns \<Rightarrow> file_system \<Rightarrow> settings_io \<Rightarrow> (string \<times> string) list \<Rightarrow> settings_rt
    \<Rightarrow> (setting_error, (string \<times> string) list \<times> bool) result \<times> settings_rt" where
  "applyAgentSettings h d fs io values r =
     (case apply_loop h d values \<lparr>aa_rt = r, aa_applied = [], aa_write = False, aa_root = False, aa_kept = []\<rparr> of
        (Some e, a) \<Rightarrow> (Err e, aa_rt a)
      | (None, a) \<Rightarrow>
          let restartRequired = pendingRestartSettings (aa_rt a) \<noteq> [];
              r1 = apply_root_mode fs (aa_root a) (aa_rt a)
          in if aa_applied a = [] then (Ok ([], restartRequired), r1)
             else case persist_applied h d io a r1 of
                    (Some e, r2) \<Rightarrow> (Err e, r2)
                  | (None, r2) \<Rightarrow> (Ok (aa_applied a, restartRequired), r2))"

section \<open>Restarting\<close>

definition settingsRestartRepeatWindow :: int where "settingsRestartRepeatWindow = 10 * 60 * second"

definition pendingSettingsSaved :: "host \<Rightarrow> dns \<Rightarrow> string \<Rightarrow> settings_file \<Rightarrow> (setting_key \<times> string) list \<Rightarrow> bool" where
  "pendingSettingsSaved h d path f pending \<longleftrightarrow>
     (case LoadAgentSettingsFile h d path f of
        None \<Rightarrow> False
      | Some saved \<Rightarrow>
          TrimSpace path \<noteq> [] \<and>
          list_all (\<lambda>(k, v). (case map_of saved (key_name k) of Some w \<Rightarrow> w | None \<Rightarrow> []) = v) pending)"

definition restartedForSameSettings :: "int \<Rightarrow> ((setting_key \<times> string) list \<times> int) option \<Rightarrow> (setting_key \<times> string) list \<Rightarrow> bool" where
  "restartedForSameSettings now rec pending \<longleftrightarrow>
     (case rec of
        None \<Rightarrow> False
      | Some (vs, at) \<Rightarrow> now - at < settingsRestartRepeatWindow \<and> set vs = set pending)"

definition restartForSettings :: "host \<Rightarrow> dns \<Rightarrow> settings_io \<Rightarrow> settings_rt \<Rightarrow> settings_rt" where
  "restartForSettings h d io r =
     (let pending = pendingRestartSettings r
      in if pending = [] then r
         else if \<not> sr_canRestart r then r
         else if \<not> pendingSettingsSaved h d (sr_path r) (sr_settings r) pending then r
         else if restartedForSameSettings (si_now io) (sr_record r) pending then r
         else if \<not> si_writeRecord io then r
         else r\<lparr>sr_record := Some (pending, si_now io), sr_restarts := sr_restarts r @ [si_now io]\<rparr>)"

section \<open>Messages from the Hub\<close>

definition redactSensitiveAgentSettingValues :: "(string \<times> string) list \<Rightarrow> (string \<times> string) list" where
  "redactSensitiveAgentSettingValues vs = filter (\<lambda>p. fst p \<noteq> key_name KeyWebRTCTURNPass) vs"

definition send_msg :: "settings_msg \<Rightarrow> settings_rt \<Rightarrow> settings_rt" where
  "send_msg m r = r\<lparr>sr_sent := sr_sent r @ [m]\<rparr>"

definition sendAgentSettingsState :: "settings_io \<Rightarrow> string \<Rightarrow> settings_rt \<Rightarrow> settings_rt" where
  "sendAgentSettingsState io revision r =
     (if \<not> si_connected io then r
      else send_msg (SettingsState revision (redactSensitiveAgentSettingValues (ReportedAgentSettings r))
                       (sr_fingerprint r) (sc_AllowRemoteOverrides (sr_cfg r))) r)"

definition sendLegacyConfigApplied :: "settings_rt \<Rightarrow> settings_rt" where
  "sendLegacyConfigApplied r = send_msg (ConfigApplied (effectiveCollectIntervalSec r) (effectiveHeartbeatIntervalSec r)) r"

text \<open>One interval of \<open>handleConfigUpdate\<close>; the flag is \<open>changed\<close>.\<close>

definition update_collect :: "int option \<Rightarrow> settings_rt \<Rightarrow> bool \<times> settings_rt" where
  "update_collect data r =
     (case data of
        None \<Rightarrow> (False, r)
      | Some v \<Rightarrow>
          if KeyCollectIntervalSec \<in> set (sr_pinned r) then (False, r)
          else if v = 0 then (True, r\<lparr>sr_collectOverride := 0, sr_cfg := (sr_cfg r)\<lparr>sc_CollectInterval := sr_baseCollect r\<rparr>\<rparr>)
          else if 2 \<le> v \<and> v \<le> 300
               then (True, r\<lparr>sr_collectOverride := v, sr_cfg := (sr_cfg r)\<lparr>sc_CollectInterval := v * second\<rparr>\<rparr>)
          else (False, r))"

definition update_heartbeat :: "int option \<Rightarrow> settings_rt \<Rightarrow> bool \<times> settings_rt" where
  "update_heartbeat data r =
     (case data of
        None \<Rightarrow> (False, r)
      | Some v \<Rightarrow>
          if KeyHeartbeatIntervalSec \<in> set (sr_pinned r) then (False, r)
          else if v = 0 then (True, r\<lparr>sr_heartbeatOverride := 0, sr_cfg := (sr_cfg r)\<lparr>sc_HeartbeatInterval := sr_baseHeartbeat r\<rparr>\<rparr>)
          else if 5 \<le> v \<and> v \<le> 600
               then (True, r\<lparr>sr_heartbeatOverride := v, sr_cfg := (sr_cfg r)\<lparr>sc_HeartbeatInterval := v * second\<rparr>\<rparr>)
          else (False, r))"

text \<open>\<open>None\<close> is a message that does not decode.\<close>

definition handleConfigUpdate :: "settings_io \<Rightarrow> (int option \<times> int option) option \<Rightarrow> settings_rt \<Rightarrow> settings_rt" where
  "handleConfigUpdate io msg r =
     (case msg of
        None \<Rightarrow> r
      | Some (collect, heartbeat) \<Rightarrow>
          if \<not> sc_AllowRemoteOverrides (sr_cfg r) then sendLegacyConfigApplied r
          else let (c1, r1) = update_collect collect r;
                   (c2, r2) = update_heartbeat heartbeat r1
               in sendLegacyConfigApplied (if c1 \<or> c2 then persistAppliedConfig io r2 else r2))"

record apply_request =
  ar_RequestID :: string
  ar_Revision :: string
  ar_ExpectedFingerprint :: string
  ar_Values :: "(string \<times> string) list"

definition answer_apply :: "settings_io \<Rightarrow> apply_request \<Rightarrow> (apply_failure, (string \<times> string) list \<times> bool) result
    \<Rightarrow> settings_rt \<Rightarrow> settings_rt" where
  "answer_apply io req outcome r =
     sendAgentSettingsState io (ar_Revision req)
       (send_msg (SettingsApplied (ar_RequestID req) (ar_Revision req) outcome (sr_fingerprint r)) r)"

definition fingerprint_differs :: "apply_request \<Rightarrow> settings_rt \<Rightarrow> bool" where
  "fingerprint_differs req r \<longleftrightarrow>
     (case sr_fingerprint r of
        None \<Rightarrow> False
      | Some fp \<Rightarrow> TrimSpace (ar_ExpectedFingerprint req) \<noteq> [] \<and> \<not> EqualFold (TrimSpace (ar_ExpectedFingerprint req)) fp)"

definition handleAgentSettingsApply :: "host \<Rightarrow> dns \<Rightarrow> file_system \<Rightarrow> settings_io \<Rightarrow> apply_request option \<Rightarrow> settings_rt \<Rightarrow> settings_rt" where
  "handleAgentSettingsApply h d fs io msg r =
     (case msg of
        None \<Rightarrow> r
      | Some req \<Rightarrow>
          if \<not> sc_AllowRemoteOverrides (sr_cfg r) then answer_apply io req (Err OverridesDisabled) r
          else if fingerprint_differs req r then answer_apply io req (Err FingerprintMismatch) r
          else case applyAgentSettings h d fs io (ar_Values req) r of
                 (Inl e, r1) \<Rightarrow> answer_apply io req (Err (ApplyFailed e)) r1
               | (Inr (applied, restartRequired), r1) \<Rightarrow>
                   let r2 = answer_apply io req (Ok (redactSensitiveAgentSettingValues applied, restartRequired)) r1
                   in if restartRequired then restartForSettings h d io r2 else r2)"

section \<open>Starting\<close>

definition durationFromAgentSettingSeconds :: "host \<Rightarrow> dns \<Rightarrow> setting_key \<Rightarrow> string \<Rightarrow> int option" where
  "durationFromAgentSettingSeconds h d k raw =
     (case NormalizeAgentSettingValue h d (key_name k) raw of
        Inl e \<Rightarrow> None
      | Inr normalized \<Rightarrow> map_option (\<lambda>n. n * second) (Atoi normalized))"

definition if_bool :: "string \<Rightarrow> (bool \<Rightarrow> settings_cfg) \<Rightarrow> settings_cfg \<Rightarrow> settings_cfg" where
  "if_bool raw f cfg = (case ParseBool raw of Some b \<Rightarrow> f b | None \<Rightarrow> cfg)"

definition if_int :: "int option \<Rightarrow> (int \<Rightarrow> settings_cfg) \<Rightarrow> settings_cfg \<Rightarrow> settings_cfg" where
  "if_int n f cfg = (case n of Some v \<Rightarrow> f v | None \<Rightarrow> cfg)"

text \<open>A value of the settings file, trimmed; settings other than the free texts are skipped when it is empty.\<close>

fun start_setting :: "host \<Rightarrow> dns \<Rightarrow> setting_key \<Rightarrow> string \<Rightarrow> settings_cfg \<Rightarrow> settings_cfg" where
  "start_setting h d KeyTLSCAFile v cfg = cfg\<lparr>sc_TLSCAFile := v\<rparr>"
| "start_setting h d KeyServicesDiscoveryPortScanPorts v cfg = cfg\<lparr>sc_ServicesDiscoveryPortScanPorts := v\<rparr>"
| "start_setting h d KeyServicesDiscoveryLANScanCIDRs v cfg = cfg\<lparr>sc_ServicesDiscoveryLANScanCIDRs := v\<rparr>"
| "start_setting h d KeyServicesDiscoveryLANScanPorts v cfg = cfg\<lparr>sc_ServicesDiscoveryLANScanPorts := v\<rparr>"
| "start_setting h d KeyWebRTCSTUNURL v cfg = cfg\<lparr>sc_WebRTCSTUNURL := v\<rparr>"
| "start_setting h d KeyWebRTCTURNURL v cfg = cfg\<lparr>sc_WebRTCTURNURL := v\<rparr>"
| "start_setting h d KeyWebRTCTURNUser v cfg = cfg\<lparr>sc_WebRTCTURNUser := v\<rparr>"
| "start_setting h d KeyWebRTCTURNPass v cfg = cfg\<lparr>sc_WebRTCTURNPass := v\<rparr>"
| "start_setting h d KeyWebRTCWaylandPipeWireNodeID v cfg = cfg\<lparr>sc_WebRTCWaylandPipeWireNodeID := v\<rparr>"
| "start_setting h d KeyWebRTCWaylandInputBackend v cfg = cfg\<lparr>sc_WebRTCWaylandInputBackend := TrimSpace (ToLower v)\<rparr>"
| "start_setting h d KeyCollectIntervalSec v cfg = if_int (durationFromAgentSettingSeconds h d KeyCollectIntervalSec v) (\<lambda>n. cfg\<lparr>sc_CollectInterval := n\<rparr>) cfg"
| "start_setting h d KeyHeartbeatIntervalSec v cfg = if_int (durationFromAgentSettingSeconds h d KeyHeartbeatIntervalSec v) (\<lambda>n. cfg\<lparr>sc_HeartbeatInterval := n\<rparr>) cfg"
| "start_setting h d KeyDockerDiscoveryIntervalSec v cfg = if_int (durationFromAgentSettingSeconds h d KeyDockerDiscoveryIntervalSec v) (\<lambda>n. cfg\<lparr>sc_DockerDiscoveryInterval := n\<rparr>) cfg"
| "start_setting h d KeyServicesDiscoveryLANScanMaxHosts v cfg = if_int (Atoi v) (\<lambda>n. cfg\<lparr>sc_ServicesDiscoveryLANScanMaxHosts := n\<rparr>) cfg"
| "start_setting h d KeyCaptureFPS v cfg = if_int (Atoi v) (\<lambda>n. cfg\<lparr>sc_CaptureFPS := n\<rparr>) cfg"
| "start_setting h d KeyServicesDiscoveryDockerEnabled v cfg = if_bool v (\<lambda>b. cfg\<lparr>sc_ServicesDiscoveryDockerEnabled := b\<rparr>) cfg"
| "start_setting h d KeyServicesDiscoveryProxyEnabled v cfg = if_bool v (\<lambda>b. cfg\<lparr>sc_ServicesDiscoveryProxyEnabled := b\<rparr>) cfg"
| "start_setting h d KeyServicesDiscoveryProxyTraefikEnabled v cfg = if_bool v (\<lambda>b. cfg\<lparr>sc_ServicesDiscoveryProxyTraefikEnabled := b\<rparr>) cfg"
| "start_setting h d KeyServicesDiscoveryProxyCaddyEnabled v cfg = if_bool v (\<lambda>b. cfg\<lparr>sc_ServicesDiscoveryProxyCaddyEnabled := b\<rparr>) cfg"
| "start_setting h d KeyServicesDiscoveryProxyNPMEnabled v cfg = if_bool v (\<lambda>b. cfg\<lparr>sc_ServicesDiscoveryProxyNPMEnabled := b\<rparr>) cfg"
| "start_setting h d KeyServicesDiscoveryPortScanEnabled v cfg = if_bool v (\<lambda>b. cfg\<lparr>sc_ServicesDiscoveryPortScanEnabled := b\<rparr>) cfg"
| "start_setting h d KeyServicesDiscoveryPortScanIncludeListening v cfg = if_bool v (\<lambda>b. cfg\<lparr>sc_ServicesDiscoveryPortScanIncludeListening := b\<rparr>) cfg"
| "start_setting h d KeyServicesDiscoveryLANScanEnabled v cfg = if_bool v (\<lambda>b. cfg\<lparr>sc_ServicesDiscoveryLANScanEnabled := b\<rparr>) cfg"
| "start_setting h d KeyWebRTCEnabled v cfg = if_bool v (\<lambda>b. cfg\<lparr>sc_WebRTCEnabled := b\<rparr>) cfg"
| "start_setting h d KeyWebRTCWaylandExperimentalEnabled v cfg = if_bool v (\<lambda>b. cfg\<lparr>sc_WebRTCWaylandExperimentalEnabled := b\<rparr>) cfg"
| "start_setting h d KeyAllowRemoteOverrides v cfg = if_bool v (\<lambda>b. cfg\<lparr>sc_AllowRemoteOverrides := b\<rparr>) cfg"
| "start_setting h d KeyTLSSkipVerify v cfg = if_bool v (\<lambda>b. cfg\<lparr>sc_TLSSkipVerify := b\<rparr>) cfg"
| "start_setting h d KeyDockerEnabled v cfg = (if v = [] then cfg else cfg\<lparr>sc_DockerEnabled := v\<rparr>)"
| "start_setting h d KeyDockerEndpoint v cfg = (if v = [] then cfg else cfg\<lparr>sc_DockerSocket := v\<rparr>)"
| "start_setting h d KeyFilesRootMode v cfg = (if v = [] then cfg else cfg\<lparr>sc_FileRootMode := v\<rparr>)"
| "start_setting h d KeyLogLevel v cfg = (if v = [] then cfg else cfg\<lparr>sc_LogLevel := v\<rparr>)"

definition load_setting :: "host \<Rightarrow> dns \<Rightarrow> (string \<times> string) list \<Rightarrow> setting_key \<Rightarrow> settings_cfg \<Rightarrow> settings_cfg" where
  "load_setting h d vs k cfg =
     (case map_of vs (key_name k) of None \<Rightarrow> cfg | Some raw \<Rightarrow> start_setting h d k (TrimSpace raw) cfg)"

definition load_settings :: "host \<Rightarrow> dns \<Rightarrow> setting_key list \<Rightarrow> string \<Rightarrow> settings_file \<Rightarrow> settings_cfg \<Rightarrow> settings_cfg" where
  "load_settings h d pinned path f cfg =
     (case LoadAgentSettingsFile h d path f of
        None \<Rightarrow> cfg
      | Some vs \<Rightarrow> fold (load_setting h d (filter (\<lambda>p. fst p \<notin> key_name ` set pinned) vs)) all_keys cfg)"

text \<open>The normalisation after the file was read, one setting at a time.\<close>

definition again :: "host \<Rightarrow> dns \<Rightarrow> setting_key \<Rightarrow> string \<Rightarrow> string \<Rightarrow> string" where
  "again h d k fallback value =
     (case NormalizeAgentSettingValue h d (key_name k) value of Inr v \<Rightarrow> v | Inl e \<Rightarrow> fallback)"

definition again_bool :: "host \<Rightarrow> dns \<Rightarrow> setting_key \<Rightarrow> bool \<Rightarrow> bool \<Rightarrow> bool" where
  "again_bool h d k fallback value =
     (case NormalizeAgentSettingValue h d (key_name k) (FormatBool value) of Inr v \<Rightarrow> EqualFold v ''true'' | Inl e \<Rightarrow> fallback)"

definition again_int :: "host \<Rightarrow> dns \<Rightarrow> setting_key \<Rightarrow> int \<Rightarrow> int \<Rightarrow> int" where
  "again_int h d k fallback value =
     (case NormalizeAgentSettingValue h d (key_name k) (Itoa value) of
        Inr v \<Rightarrow> (case Atoi v of Some n \<Rightarrow> n | None \<Rightarrow> value)
      | Inl e \<Rightarrow> fallback)"

definition renormalize :: "host \<Rightarrow> dns \<Rightarrow> settings_cfg \<Rightarrow> settings_cfg" where
  "renormalize h d cfg = cfg\<lparr>
     sc_FileRootMode := again h d KeyFilesRootMode ''home'' (sc_FileRootMode cfg),
     sc_CaptureFPS := again_int h d KeyCaptureFPS 30 (sc_CaptureFPS cfg),
     sc_WebRTCWaylandExperimentalEnabled := again_bool h d KeyWebRTCWaylandExperimentalEnabled False (sc_WebRTCWaylandExperimentalEnabled cfg),
     sc_WebRTCWaylandPipeWireNodeID := again h d KeyWebRTCWaylandPipeWireNodeID [] (sc_WebRTCWaylandPipeWireNodeID cfg),
     sc_WebRTCWaylandInputBackend := again h d KeyWebRTCWaylandInputBackend ''auto'' (sc_WebRTCWaylandInputBackend cfg),
     sc_ServicesDiscoveryDockerEnabled := again_bool h d KeyServicesDiscoveryDockerEnabled True (sc_ServicesDiscoveryDockerEnabled cfg),
     sc_ServicesDiscoveryProxyEnabled := again_bool h d KeyServicesDiscoveryProxyEnabled True (sc_ServicesDiscoveryProxyEnabled cfg),
     sc_ServicesDiscoveryProxyTraefikEnabled := again_bool h d KeyServicesDiscoveryProxyTraefikEnabled True (sc_ServicesDiscoveryProxyTraefikEnabled cfg),
     sc_ServicesDiscoveryProxyCaddyEnabled := again_bool h d KeyServicesDiscoveryProxyCaddyEnabled True (sc_ServicesDiscoveryProxyCaddyEnabled cfg),
     sc_ServicesDiscoveryProxyNPMEnabled := again_bool h d KeyServicesDiscoveryProxyNPMEnabled True (sc_ServicesDiscoveryProxyNPMEnabled cfg),
     sc_ServicesDiscoveryPortScanEnabled := again_bool h d KeyServicesDiscoveryPortScanEnabled True (sc_ServicesDiscoveryPortScanEnabled cfg),
     sc_ServicesDiscoveryPortScanIncludeListening := again_bool h d KeyServicesDiscoveryPortScanIncludeListening True (sc_ServicesDiscoveryPortScanIncludeListening cfg),
     sc_ServicesDiscoveryPortScanPorts := again h d KeyServicesDiscoveryPortScanPorts [] (sc_ServicesDiscoveryPortScanPorts cfg),
     sc_ServicesDiscoveryLANScanEnabled := again_bool h d KeyServicesDiscoveryLANScanEnabled False (sc_ServicesDiscoveryLANScanEnabled cfg),
     sc_ServicesDiscoveryLANScanCIDRs := again h d KeyServicesDiscoveryLANScanCIDRs [] (sc_ServicesDiscoveryLANScanCIDRs cfg),
     sc_ServicesDiscoveryLANScanPorts := again h d KeyServicesDiscoveryLANScanPorts [] (sc_ServicesDiscoveryLANScanPorts cfg),
     sc_ServicesDiscoveryLANScanMaxHosts := again_int h d KeyServicesDiscoveryLANScanMaxHosts 64 (sc_ServicesDiscoveryLANScanMaxHosts cfg),
     sc_DockerSocket := again h d KeyDockerEndpoint ''/var/run/docker.sock'' (sc_DockerSocket cfg)\<rparr>"

text \<open>
  The CA certificate a Hub returned at enrolment is kept in \<open>ca.crt\<close> beside the token file. A start
  uses it when no CA file is configured and it exists (\<open>si_savedCA\<close>); an enrolment at the start whose
  response brings a valid certificate that could be written (\<open>si_hubCA\<close>) does too.
\<close>

definition savedCA :: "settings_cfg \<Rightarrow> string" where
  "savedCA cfg = JoinPath [Dir (sc_TokenFilePath cfg), ''ca.crt'']"

definition load_saved_ca :: "bool \<Rightarrow> settings_cfg \<Rightarrow> settings_cfg" where
  "load_saved_ca found cfg = (if sc_TLSCAFile cfg = [] \<and> found then cfg\<lparr>sc_TLSCAFile := savedCA cfg\<rparr> else cfg)"

definition save_hub_ca :: "bool \<Rightarrow> settings_cfg \<Rightarrow> settings_cfg" where
  "save_hub_ca written cfg =
     (if written \<and> sc_TokenFilePath cfg \<noteq> [] \<and> (sc_TLSCAFile cfg = [] \<or> Clean (sc_TLSCAFile cfg) = Clean (savedCA cfg))
      then cfg\<lparr>sc_TLSCAFile := savedCA cfg\<rparr> else cfg)"

definition loadPersistedConfig :: "settings_io \<Rightarrow> settings_rt \<Rightarrow> settings_rt" where
  "loadPersistedConfig io r =
     (if \<not> si_configDir io then r
      else case sr_applied r of
             None \<Rightarrow> r
           | Some (c, hb) \<Rightarrow>
               let r1 = (if 2 \<le> c \<and> c \<le> 300 \<and> KeyCollectIntervalSec \<notin> set (sr_pinned r)
                         then r\<lparr>sr_collectOverride := c, sr_cfg := (sr_cfg r)\<lparr>sc_CollectInterval := c * second\<rparr>\<rparr> else r)
               in if 5 \<le> hb \<and> hb \<le> 600 \<and> KeyHeartbeatIntervalSec \<notin> set (sr_pinned r)
                  then r1\<lparr>sr_heartbeatOverride := hb, sr_cfg := (sr_cfg r1)\<lparr>sc_HeartbeatInterval := hb * second\<rparr>\<rparr> else r1)"

text \<open>
  A start: \<open>env\<close> is the configuration from the environment, before the settings file is read. The
  two files and the restart record are those the last process left.
\<close>

definition start_agent :: "host \<Rightarrow> dns \<Rightarrow> file_system \<Rightarrow> settings_io \<Rightarrow> update_host \<Rightarrow> settings_cfg \<Rightarrow> settings_rt \<Rightarrow> settings_rt" where
  "start_agent h d fs io u env r =
     (let pinned = envPinnedSettings u;
          cfg = save_hub_ca (si_hubCA io) (load_saved_ca (si_savedCA io)
                  (renormalize h d (load_settings h d pinned (sr_path r) (sr_settings r) env)))
      in loadPersistedConfig io (setConnectorDiscoveryDockerConfig (sc_DockerEnabled cfg) (sc_DockerSocket cfg)
           \<lparr>sr_cfg = cfg, sr_pinned = pinned, sr_path = sr_path r, sr_collectOverride = 0, sr_heartbeatOverride = 0,
            sr_baseCollect = sc_CollectInterval cfg, sr_baseHeartbeat = sc_HeartbeatInterval cfg,
            sr_running = startupRestartSettings cfg, sr_fingerprint = sr_fingerprint r, sr_canRestart = sr_canRestart r,
            sr_files = Some (NewManager fs (sc_FileRootMode cfg)),
            sr_settings = sr_settings r, sr_applied = sr_applied r, sr_record = sr_record r,
            sr_docker = sr_docker r, sr_restarts = sr_restarts r, sr_sent = sr_sent r\<rparr>))"

text \<open>\<open>labtether-agent settings set\<close>, run beside the agent: it changes the settings file only.\<close>

definition settings_set :: "host \<Rightarrow> dns \<Rightarrow> settings_io \<Rightarrow> string \<Rightarrow> string \<Rightarrow> settings_rt \<Rightarrow> setting_error option \<times> settings_rt" where
  "settings_set h d io key value r =
     (case AgentSettingDefinitionByKey (TrimSpace key) of
        None \<Rightarrow> (Some (UnknownKey key), r)
      | Some k \<Rightarrow>
          (case NormalizeAgentSettingValue h d (key_name k) (TrimSpace value) of
             Inl e \<Rightarrow> (Some e, r)
           | Inr v \<Rightarrow>
               (case LoadAgentSettingsFile h d (sr_path r) (sr_settings r) of
                  None \<Rightarrow> (Some Unreadable, r)
                | Some vs \<Rightarrow>
                    (case SaveAgentSettingsFile h d (sr_path r) (si_save io) (si_order io (put (key_name k) v vs)) (sr_settings r) of
                       (e, f) \<Rightarrow> (e, r\<lparr>sr_settings := f\<rparr>)))))"

text \<open>What happens to the settings of one installation: messages of the Hub and starts of the agent.\<close>

datatype settings_event =
    HubUpdate settings_io "(int option \<times> int option) option"
  | HubApply host dns settings_io "apply_request option"
  | Restarted settings_io

record settings_world =
  sw_host :: host
  sw_dns :: dns
  sw_fs :: file_system
  sw_env :: update_host
  sw_cfg :: settings_cfg

fun settings_apply :: "settings_world \<Rightarrow> settings_event \<Rightarrow> settings_rt \<Rightarrow> settings_rt" where
  "settings_apply w (HubUpdate io msg) r = handleConfigUpdate io msg r"
| "settings_apply w (HubApply h d io msg) r = handleAgentSettingsApply h d (sw_fs w) io msg r"
| "settings_apply w (Restarted io) r = start_agent (sw_host w) (sw_dns w) (sw_fs w) io (sw_env w) (sw_cfg w) r"

fun settings_run :: "settings_world \<Rightarrow> settings_event list \<Rightarrow> settings_rt \<Rightarrow> settings_rt" where
  "settings_run w [] r = r"
| "settings_run w (e # es) r = settings_run w es (settings_apply w e r)"

interpretation settings: event_run "settings_apply w" "settings_run w" for w
  by unfold_locales simp_all

section \<open>Fields\<close>

text \<open>The CA file is left open, or is the one kept beside the token file.\<close>

definition hub_ca :: "settings_cfg \<Rightarrow> bool" where
  "hub_ca cfg \<longleftrightarrow> sc_TLSCAFile cfg = [] \<or> Clean (sc_TLSCAFile cfg) = Clean (savedCA cfg)"

lemma hub_ca_cong: "sc_TLSCAFile a = sc_TLSCAFile b \<Longrightarrow> sc_TokenFilePath a = sc_TokenFilePath b \<Longrightarrow> hub_ca a = hub_ca b"
  by (simp add: hub_ca_def savedCA_def)

text \<open>
  Two configurations agree on the field that keeps a setting; for the CA file, up to what the
  enrolment brings.
\<close>

fun same_field :: "setting_key \<Rightarrow> settings_cfg \<Rightarrow> settings_cfg \<Rightarrow> bool" where
  "same_field KeyCollectIntervalSec a b \<longleftrightarrow> sc_CollectInterval a = sc_CollectInterval b"
| "same_field KeyHeartbeatIntervalSec a b \<longleftrightarrow> sc_HeartbeatInterval a = sc_HeartbeatInterval b"
| "same_field KeyDockerEnabled a b \<longleftrightarrow> sc_DockerEnabled a = sc_DockerEnabled b"
| "same_field KeyDockerEndpoint a b \<longleftrightarrow> sc_DockerSocket a = sc_DockerSocket b"
| "same_field KeyDockerDiscoveryIntervalSec a b \<longleftrightarrow> sc_DockerDiscoveryInterval a = sc_DockerDiscoveryInterval b"
| "same_field KeyServicesDiscoveryDockerEnabled a b \<longleftrightarrow> sc_ServicesDiscoveryDockerEnabled a = sc_ServicesDiscoveryDockerEnabled b"
| "same_field KeyServicesDiscoveryProxyEnabled a b \<longleftrightarrow> sc_ServicesDiscoveryProxyEnabled a = sc_ServicesDiscoveryProxyEnabled b"
| "same_field KeyServicesDiscoveryProxyTraefikEnabled a b \<longleftrightarrow> sc_ServicesDiscoveryProxyTraefikEnabled a = sc_ServicesDiscoveryProxyTraefikEnabled b"
| "same_field KeyServicesDiscoveryProxyCaddyEnabled a b \<longleftrightarrow> sc_ServicesDiscoveryProxyCaddyEnabled a = sc_ServicesDiscoveryProxyCaddyEnabled b"
| "same_field KeyServicesDiscoveryProxyNPMEnabled a b \<longleftrightarrow> sc_ServicesDiscoveryProxyNPMEnabled a = sc_ServicesDiscoveryProxyNPMEnabled b"
| "same_field KeyServicesDiscoveryPortScanEnabled a b \<longleftrightarrow> sc_ServicesDiscoveryPortScanEnabled a = sc_ServicesDiscoveryPortScanEnabled b"
| "same_field KeyServicesDiscoveryPortScanIncludeListening a b \<longleftrightarrow> sc_ServicesDiscoveryPortScanIncludeListening a = sc_ServicesDiscoveryPortScanIncludeListening b"
| "same_field KeyServicesDiscoveryPortScanPorts a b \<longleftrightarrow> sc_ServicesDiscoveryPortScanPorts a = sc_ServicesDiscoveryPortScanPorts b"
| "same_field KeyServicesDiscoveryLANScanEnabled a b \<longleftrightarrow> sc_ServicesDiscoveryLANScanEnabled a = sc_ServicesDiscoveryLANScanEnabled b"
| "same_field KeyServicesDiscoveryLANScanCIDRs a b \<longleftrightarrow> sc_ServicesDiscoveryLANScanCIDRs a = sc_ServicesDiscoveryLANScanCIDRs b"
| "same_field KeyServicesDiscoveryLANScanPorts a b \<longleftrightarrow> sc_ServicesDiscoveryLANScanPorts a = sc_ServicesDiscoveryLANScanPorts b"
| "same_field KeyServicesDiscoveryLANScanMaxHosts a b \<longleftrightarrow> sc_ServicesDiscoveryLANScanMaxHosts a = sc_ServicesDiscoveryLANScanMaxHosts b"
| "same_field KeyFilesRootMode a b \<longleftrightarrow> sc_FileRootMode a = sc_FileRootMode b"
| "same_field KeyWebRTCEnabled a b \<longleftrightarrow> sc_WebRTCEnabled a = sc_WebRTCEnabled b"
| "same_field KeyWebRTCSTUNURL a b \<longleftrightarrow> sc_WebRTCSTUNURL a = sc_WebRTCSTUNURL b"
| "same_field KeyWebRTCTURNURL a b \<longleftrightarrow> sc_WebRTCTURNURL a = sc_WebRTCTURNURL b"
| "same_field KeyWebRTCTURNUser a b \<longleftrightarrow> sc_WebRTCTURNUser a = sc_WebRTCTURNUser b"
| "same_field KeyWebRTCTURNPass a b \<longleftrightarrow> sc_WebRTCTURNPass a = sc_WebRTCTURNPass b"
| "same_field KeyWebRTCWaylandExperimentalEnabled a b \<longleftrightarrow> sc_WebRTCWaylandExperimentalEnabled a = sc_WebRTCWaylandExperimentalEnabled b"
| "same_field KeyWebRTCWaylandPipeWireNodeID a b \<longleftrightarrow> sc_WebRTCWaylandPipeWireNodeID a = sc_WebRTCWaylandPipeWireNodeID b"
| "same_field KeyWebRTCWaylandInputBackend a b \<longleftrightarrow> sc_WebRTCWaylandInputBackend a = sc_WebRTCWaylandInputBackend b"
| "same_field KeyCaptureFPS a b \<longleftrightarrow> sc_CaptureFPS a = sc_CaptureFPS b"
| "same_field KeyAllowRemoteOverrides a b \<longleftrightarrow> sc_AllowRemoteOverrides a = sc_AllowRemoteOverrides b"
| "same_field KeyLogLevel a b \<longleftrightarrow> sc_LogLevel a = sc_LogLevel b"
| "same_field KeyTLSSkipVerify a b \<longleftrightarrow> sc_TLSSkipVerify a = sc_TLSSkipVerify b"
| "same_field KeyTLSCAFile a b \<longleftrightarrow>
     sc_TokenFilePath a = sc_TokenFilePath b \<and> (sc_TLSCAFile a = sc_TLSCAFile b \<or> hub_ca a \<and> hub_ca b)"

lemma same_field_refl [simp]: "same_field k a a"
  by (cases k) simp_all

lemma same_field_sym: "same_field k a b \<Longrightarrow> same_field k b a"
  by (cases k) auto

lemma same_field_trans: "same_field k a b \<Longrightarrow> same_field k b c \<Longrightarrow> same_field k a c"
proof (cases "k = KeyTLSCAFile")
  case True
  then show "same_field k a b \<Longrightarrow> same_field k b c \<Longrightarrow> same_field k a c"
    using hub_ca_cong [of a b] hub_ca_cong [of b c] by auto
next
  case False
  then show "same_field k a b \<Longrightarrow> same_field k b c \<Longrightarrow> same_field k a c"
    by (cases k) simp_all
qed

lemma same_field_value:
  "same_field k a b \<Longrightarrow> k \<noteq> KeyTLSCAFile \<Longrightarrow> AgentSettingValuesFromConfig a k = AgentSettingValuesFromConfig b k"
  by (cases k) simp_all

text \<open>The CA certificate of the Hub touches no other setting.\<close>

definition start_ca :: "settings_io \<Rightarrow> settings_cfg \<Rightarrow> settings_cfg" where
  "start_ca io cfg = save_hub_ca (si_hubCA io) (load_saved_ca (si_savedCA io) cfg)"

lemma start_ca_same [simp]: "same_field k (start_ca io cfg) cfg"
  by (cases k) (simp_all add: start_ca_def save_hub_ca_def load_saved_ca_def hub_ca_def savedCA_def)

lemma start_ca_simps [simp]:
  "sc_CollectInterval (start_ca io cfg) = sc_CollectInterval cfg" "sc_HeartbeatInterval (start_ca io cfg) = sc_HeartbeatInterval cfg"
  "sc_FileRootMode (start_ca io cfg) = sc_FileRootMode cfg"
  by (simp_all add: start_ca_def save_hub_ca_def load_saved_ca_def)

lemma interval_frame [simp]:
  "k \<noteq> KeyCollectIntervalSec \<Longrightarrow> same_field k (cfg\<lparr>sc_CollectInterval := x\<rparr>) cfg"
  "k \<noteq> KeyHeartbeatIntervalSec \<Longrightarrow> same_field k (cfg\<lparr>sc_HeartbeatInterval := x\<rparr>) cfg"
  by (cases k; simp)+

lemma assign_frame: "k' \<noteq> k \<Longrightarrow> same_field k (assign_setting k' v cfg) cfg"
  by (cases k'; simp; cases k; simp)

lemma start_frame: "k' \<noteq> k \<Longrightarrow> same_field k (start_setting h d k' v cfg) cfg"
  by (cases k'; simp add: if_bool_def if_int_def split: option.split; cases k; simp)

lemma start_same: "same_field k a b \<Longrightarrow> same_field k (start_setting h d k v a) (start_setting h d k v b)"
  by (cases k) (simp_all add: if_bool_def if_int_def split: option.split)

lemma renormalize_same: "same_field k a b \<Longrightarrow> same_field k (renormalize h d a) (renormalize h d b)"
  using hub_ca_cong [of "renormalize h d a" a] hub_ca_cong [of "renormalize h d b" b]
  by (cases k) (simp_all add: renormalize_def)

lemma load_frame: "k' \<noteq> k \<Longrightarrow> same_field k (load_setting h d vs k' cfg) cfg"
  by (simp add: load_setting_def start_frame split: option.split)

lemma load_same: "same_field k a b \<Longrightarrow> same_field k (load_setting h d vs k a) (load_setting h d vs k b)"
  by (simp add: load_setting_def start_same split: option.split)

lemma load_others: "k \<notin> set ks \<Longrightarrow> same_field k (fold (load_setting h d vs) ks cfg) cfg"
proof (induction ks arbitrary: cfg)
  case (Cons k' ks)
  then show ?case
    using load_frame [of k' k h d vs cfg] by (auto intro: same_field_trans)
qed simp

lemma load_all:
  assumes "k \<in> set ks" and "distinct ks"
  shows "same_field k (fold (load_setting h d vs) ks cfg) (load_setting h d vs k cfg)"
  using assms
proof (induction ks arbitrary: cfg)
  case (Cons k' ks)
  show ?case
  proof (cases "k' = k")
    case True
    with Cons.prems show ?thesis by (simp add: load_others)
  next
    case False
    with Cons have "same_field k (fold (load_setting h d vs) ks (load_setting h d vs k' cfg)) (load_setting h d vs k (load_setting h d vs k' cfg))"
      by auto
    moreover have "same_field k (load_setting h d vs k (load_setting h d vs k' cfg)) (load_setting h d vs k cfg)"
      using False by (intro load_same load_frame)
    ultimately show ?thesis by (auto intro: same_field_trans)
  qed
qed simp

lemma distinct_all_keys: "distinct all_keys"
  by code_simp

text \<open>The field of one setting at a start is decided by the environment and that setting's entry in the file.\<close>

lemma load_settings_field:
  assumes "LoadAgentSettingsFile h d path f = Some vs"
  shows "same_field k (load_settings h d pinned path f cfg)
           (if k \<in> set pinned then cfg else load_setting h d vs k cfg)"
proof -
  let ?vs = "filter (\<lambda>p. fst p \<notin> key_name ` set pinned) vs"
  have "map_of ?vs (key_name k) = (if k \<in> set pinned then None else map_of vs (key_name k))"
    by (induction vs) (auto dest: key_name_inj)
  then have "load_setting h d ?vs k cfg = (if k \<in> set pinned then cfg else load_setting h d vs k cfg)"
    by (simp add: load_setting_def)
  with load_all [OF set_all_keys distinct_all_keys, of k h d ?vs cfg] assms show ?thesis
    by (simp add: load_settings_def)
qed

section \<open>The settings file\<close>

lemma normal_key: "AgentSettingDefinitionByKey key = Some k \<Longrightarrow>
    NormalizeAgentSettingValue h d key raw = NormalizeAgentSettingValue h d (key_name k) raw"
  by (simp add: NormalizeAgentSettingValue_def)

lemma key_name_eq: "key_name k = key_name k' \<longleftrightarrow> k = k'"
  using key_name_inj by blast

lemma find_key_definition: "find_key key = Some k \<Longrightarrow> AgentSettingDefinitionByKey key = Some k"
  using find_key_Some [of key k] by fastforce

lemma map_of_put: "map_of (put k v kvs) x = (if x = k then Some v else map_of kvs x)"
  by (induction kvs) (auto simp: put_def)

lemma set_put: "set (put k v kvs) = insert (k, v) {p \<in> set kvs. fst p \<noteq> k}"
  by (auto simp: put_def)

definition canonical :: "(string \<times> string) list \<Rightarrow> bool" where
  "canonical kvs \<longleftrightarrow> distinct (map fst kvs) \<and> list_all (\<lambda>p. \<exists>k. fst p = key_name k) kvs"

lemma canonical_put:
  assumes "canonical kvs"
  shows "canonical (put (key_name k) v kvs)"
proof -
  have "distinct (map fst (filter (\<lambda>p. fst p \<noteq> key_name k) kvs))"
    using assms by (simp add: canonical_def distinct_map_filter)
  then show ?thesis using assms by (auto simp: canonical_def put_def list_all_iff)
qed

lemma canonical_load: "canonical vs \<Longrightarrow> canonical (load_values h d kvs vs)"
  by (induction h d kvs vs rule: load_values.induct) (auto simp: canonical_put split: option.splits sum.splits)

lemma canonical_key:
  assumes "canonical vs" and "p \<in> set vs" and "AgentSettingDefinitionByKey (fst p) = Some k"
  shows "fst p = key_name k"
  using assms by (auto simp: canonical_def list_all_iff)

text \<open>The last entry of a list that spells a setting.\<close>

fun entry_for :: "setting_key \<Rightarrow> (string \<times> string) list \<Rightarrow> string option" where
  "entry_for k [] = None"
| "entry_for k ((key, raw) # rest) =
     (case entry_for k rest of
        Some v \<Rightarrow> Some v
      | None \<Rightarrow> if AgentSettingDefinitionByKey key = Some k then Some raw else None)"

lemma entry_for_None: "entry_for k kvs = None \<longleftrightarrow> (\<forall>p \<in> set kvs. AgentSettingDefinitionByKey (fst p) \<noteq> Some k)"
  by (induction kvs rule: entry_for.induct) (auto split: option.splits)

lemma entry_for_Some:
  "entry_for k kvs = Some v \<Longrightarrow> \<exists>p \<in> set kvs. AgentSettingDefinitionByKey (fst p) = Some k \<and> snd p = v"
  by (induction k kvs rule: entry_for.induct) (fastforce split: option.splits if_splits)+

lemma entry_for_unique:
  assumes "p \<in> set kvs" and "AgentSettingDefinitionByKey (fst p) = Some k"
    and "\<And>q. q \<in> set kvs \<Longrightarrow> AgentSettingDefinitionByKey (fst q) = Some k \<Longrightarrow> snd q = snd p"
  shows "entry_for k kvs = Some (snd p)"
proof (cases "entry_for k kvs")
  case None
  with assms show ?thesis by (auto simp: entry_for_None)
next
  case (Some v)
  then show ?thesis using entry_for_Some [OF Some] assms(3) by auto
qed

lemma entry_for_canonical:
  assumes "canonical vs"
  shows "entry_for k vs = map_of vs (key_name k)"
proof (cases "map_of vs (key_name k)")
  case None
  have "AgentSettingDefinitionByKey (fst p) \<noteq> Some k" if "p \<in> set vs" for p
    using canonical_key [OF assms that] None that by (force simp: map_of_eq_None_iff)
  with None show ?thesis by (simp add: entry_for_None)
next
  case (Some v)
  have "snd q = v" if q: "q \<in> set vs" "AgentSettingDefinitionByKey (fst q) = Some k" for q
  proof -
    have "fst q = key_name k" using canonical_key [OF assms q] .
    then have "map_of vs (key_name k) = Some (snd q)"
      using assms q(1) by (metis canonical_def map_of_is_SomeI prod.collapse)
    with Some show ?thesis by simp
  qed
  then show ?thesis
    using entry_for_unique [of "(key_name k, v)" vs k] Some by (auto dest: map_of_SomeD)
qed

text \<open>Reading back: bad entries are skipped, later ones win.\<close>

fun good_entry :: "host \<Rightarrow> dns \<Rightarrow> setting_key \<Rightarrow> (string \<times> string) list \<Rightarrow> string option" where
  "good_entry h d k [] = None"
| "good_entry h d k ((key, raw) # rest) =
     (case good_entry h d k rest of
        Some v \<Rightarrow> Some v
      | None \<Rightarrow> if AgentSettingDefinitionByKey key = Some k
                then (case NormalizeAgentSettingValue h d (key_name k) raw of Inl e \<Rightarrow> None | Inr v \<Rightarrow> Some v)
                else None)"

lemma load_lookup:
  "map_of (load_values h d kvs vs) (key_name k) =
     (case good_entry h d k kvs of Some v \<Rightarrow> Some v | None \<Rightarrow> map_of vs (key_name k))"
proof (induction h d kvs vs rule: load_values.induct)
  case (2 h d key raw rest vs)
  then show ?case
    by (auto simp: map_of_put dest: key_name_inj split: option.splits sum.splits)
qed simp

lemma good_entry_normal: "good_entry h d k kvs = Some v \<Longrightarrow> \<exists>raw. NormalizeAgentSettingValue h d (key_name k) raw = Ok v"
  by (induction h d k kvs rule: good_entry.induct) (auto split: option.splits if_splits sum.splits)

lemma good_entry_none: "entry_for k kvs = None \<Longrightarrow> good_entry h d k kvs = None"
  by (induction k kvs rule: entry_for.induct) (auto split: option.splits if_splits)

lemma good_entry_single:
  assumes "canonical kvs" and "map_of kvs (key_name k) = Some raw" and "NormalizeAgentSettingValue h d (key_name k) raw = Ok v"
  shows "good_entry h d k kvs = Some v"
  using assms
proof (induction kvs)
  case (Cons p kvs)
  obtain key x where p: "p = (key, x)" by fastforce
  have c: "canonical kvs" using Cons.prems(1) by (simp add: canonical_def)
  show ?case
  proof (cases "key = key_name k")
    case True
    have "map_of kvs (key_name k) = None"
      using Cons.prems(1) True by (auto simp: canonical_def p map_of_eq_None_iff)
    then have "good_entry h d k kvs = None"
      using entry_for_canonical [OF c, of k] by (intro good_entry_none) simp
    with True Cons.prems show ?thesis by (simp add: p)
  next
    case False
    with Cons c show ?thesis by (simp add: p)
  qed
qed simp

lemma save_ok:
  assumes "save_values h d kvs = Ok out"
  shows "canonical out \<and> (\<forall>k. case entry_for k kvs of
           None \<Rightarrow> map_of out (key_name k) = None
         | Some raw \<Rightarrow> \<exists>v. NormalizeAgentSettingValue h d (key_name k) raw = Ok v \<and> map_of out (key_name k) = Some v)"
  using assms
proof (induction h d kvs arbitrary: out rule: save_values.induct)
  case (1 h d)
  then show ?case by (simp add: canonical_def)
next
  case (2 h d key val rest)
  from 2(2) obtain k v kvs where k: "AgentSettingDefinitionByKey key = Some k"
    and v: "NormalizeAgentSettingValue h d (key_name k) val = Ok v" and s: "save_values h d rest = Ok kvs"
    and out: "out = (if key_name k \<in> set (map fst kvs) then kvs else (key_name k, v) # kvs)"
    by (auto split: option.splits sum.splits)
  note IH = 2(1) [OF k v s] and IHk = spec [OF conjunct2 [OF 2(1) [OF k v s]]]
 
  have c: "canonical out" using IH by (auto simp: out canonical_def)
  have mem: "key_name k \<in> set (map fst kvs) \<longleftrightarrow> map_of kvs (key_name k) \<noteq> None"
    by (simp add: map_of_eq_None_iff)
  have lookup: "map_of out (key_name k') = (case map_of kvs (key_name k') of Some x \<Rightarrow> Some x | None \<Rightarrow> if k' = k then Some v else None)" for k'
    unfolding out mem by (auto simp: key_name_eq split: option.split)
  have "case entry_for k' ((key, val) # rest) of
           None \<Rightarrow> map_of out (key_name k') = None
         | Some raw \<Rightarrow> \<exists>v. NormalizeAgentSettingValue h d (key_name k') raw = Ok v \<and> map_of out (key_name k') = Some v" for k'
  proof (cases "entry_for k' rest")
    case None
    moreover have "map_of kvs (key_name k') = None" using IHk [of k'] None by simp
    ultimately show ?thesis using k v by (auto simp: lookup)
  next
    case (Some raw)
    with IHk [of k'] obtain x where "NormalizeAgentSettingValue h d (key_name k') raw = Ok x" "map_of kvs (key_name k') = Some x"
      by auto
    with Some show ?thesis by (simp add: lookup)
  qed
  with c show ?case by blast
qed

section \<open>Saving a push\<close>

definition spells :: "setting_key \<Rightarrow> string \<Rightarrow> bool" where
  "spells k key \<longleftrightarrow> AgentSettingDefinitionByKey key = Some k"

definition fair_order :: "settings_io \<Rightarrow> bool" where
  "fair_order io \<longleftrightarrow> (\<forall>kvs. mset (si_order io kvs) = mset kvs)"

lemma fair_order_set: "fair_order io \<Longrightarrow> set (si_order io kvs) = set kvs"
  by (metis fair_order_def set_mset_mset)

lemma set_merge:
  "distinct (map fst applied) \<Longrightarrow>
   set (merge_values applied vs) = set applied \<union> {p \<in> set vs. fst p \<notin> fst ` set applied}"
proof (induction applied arbitrary: vs)
  case (Cons p applied)
  obtain key v where p: "p = (key, v)" by fastforce
  from Cons have "set (merge_values applied (put key v vs)) = set applied \<union> {q \<in> set (put key v vs). fst q \<notin> fst ` set applied}"
    by simp
  with Cons.prems show ?case
    by (auto simp: merge_values_def p set_put) force
qed (simp add: merge_values_def)

text \<open>What the saved file says of a setting: the pushed value, or else what it said.\<close>

lemma entry_merge_other:
  assumes "canonical vs" and "distinct (map fst applied)" and "fair_order io"
    and "\<forall>p \<in> set applied. \<not> spells k (fst p)"
  shows "entry_for k (si_order io (merge_values applied vs)) = map_of vs (key_name k)"
proof -
  let ?m = "si_order io (merge_values applied vs)"
  have m: "set ?m = set applied \<union> {p \<in> set vs. fst p \<notin> fst ` set applied}"
    by (simp add: fair_order_set assms set_merge)
  have spelled: "q \<in> set vs" if "q \<in> set ?m" "spells k (fst q)" for q
    using that assms(4) m by auto
  show ?thesis
  proof (cases "map_of vs (key_name k)")
    case None
    have "\<not> spells k (fst q)" if "q \<in> set ?m" for q
    proof
      assume "spells k (fst q)"
      with spelled that have "q \<in> set vs" by simp
      with \<open>spells k (fst q)\<close> have "entry_for k vs \<noteq> None" by (auto simp: entry_for_None spells_def)
      with entry_for_canonical [OF assms(1)] None show False by simp
    qed
    with None show ?thesis by (auto simp: entry_for_None spells_def)
  next
    case (Some v)
    have q: "snd q = v" if "q \<in> set ?m" "AgentSettingDefinitionByKey (fst q) = Some k" for q
    proof -
      have "q \<in> set vs" using spelled that by (simp add: spells_def)
      moreover have "fst q = key_name k" using canonical_key [OF assms(1) \<open>q \<in> set vs\<close> that(2)] .
      ultimately show ?thesis
        using Some assms(1) by (metis canonical_def map_of_is_SomeI option.inject prod.collapse)
    qed
    have "key_name k \<notin> fst ` set applied"
      using assms(4) by (force simp: spells_def)
    then have "(key_name k, v) \<in> set ?m"
      using map_of_SomeD [OF Some] m by auto
    with q Some show ?thesis
      using entry_for_unique [of "(key_name k, v)" ?m k] by simp
  qed
qed

lemma entry_merge_pushed:
  assumes "canonical vs" and "distinct (map fst applied)" and "fair_order io"
    and "(key_name k, v) \<in> set applied" and "\<forall>p \<in> set applied. spells k (fst p) \<longrightarrow> fst p = key_name k"
  shows "entry_for k (si_order io (merge_values applied vs)) = Some v"
proof -
  let ?m = "si_order io (merge_values applied vs)"
  have m: "set ?m = set applied \<union> {p \<in> set vs. fst p \<notin> fst ` set applied}"
    by (simp add: fair_order_set assms set_merge)
  have "snd q = v" if "q \<in> set ?m" "AgentSettingDefinitionByKey (fst q) = Some k" for q
  proof -
    have "fst q = key_name k"
      using that m assms(5) canonical_key [OF assms(1), of q k] by (auto simp: spells_def)
    moreover have "q \<in> set applied"
      using that m assms(4) \<open>fst q = key_name k\<close> by force
    ultimately show ?thesis
      using assms(2,4) by (metis eq_key_imp_eq_value prod.collapse)
  qed
  then show ?thesis
    using entry_for_unique [of "(key_name k, v)" ?m k] assms(4) m by simp
qed

lemma load_canonical: "LoadAgentSettingsFile h d path f = Some vs \<Longrightarrow> canonical vs"
proof -
  have "canonical []" by (simp add: canonical_def)
  then show "LoadAgentSettingsFile h d path f = Some vs \<Longrightarrow> canonical vs"
    by (auto simp: LoadAgentSettingsFile_def canonical_load split: if_splits settings_file.splits)
qed

lemma load_normal:
  "LoadAgentSettingsFile h d path f = Some vs \<Longrightarrow> map_of vs (key_name k) = Some v \<Longrightarrow>
   \<exists>raw. NormalizeAgentSettingValue h d (key_name k) raw = Ok v"
  by (auto simp: LoadAgentSettingsFile_def load_lookup good_entry_normal split: if_splits settings_file.splits option.splits)

text \<open>Reading a file that was just saved gives the normal form of every value that has one.\<close>

lemma load_saved:
  assumes "SaveAgentSettingsFile h d path ok kvs f = (None, g)"
    and "entry_for k kvs = Some v" and "NormalizeAgentSettingValue h d (key_name k) v = Ok v"
    and "NormalizeAgentSettingValue h' d' (key_name k) v = Ok v"
  shows "\<exists>vs. LoadAgentSettingsFile h' d' path g = Some vs \<and> map_of vs (key_name k) = Some v"
proof -
  from assms(1) obtain out where path: "path \<noteq> []" and out: "save_values h d kvs = Ok out" and g: "g = FileValues out"
    by (auto simp: SaveAgentSettingsFile_def split: if_splits sum.splits)
  have "canonical out" "map_of out (key_name k) = Some v"
    using save_ok [OF out] spec [OF conjunct2 [OF save_ok [OF out]], of k] assms(2,3) by auto
  then have "good_entry h' d' k out = Some v"
    using assms(4) by (rule good_entry_single)
  then show ?thesis using path by (simp add: LoadAgentSettingsFile_def g load_lookup)
qed

lemma load_saved_none:
  assumes "SaveAgentSettingsFile h d path ok kvs f = (None, g)" and "entry_for k kvs = None"
  shows "\<exists>vs. LoadAgentSettingsFile h' d' path g = Some vs \<and> map_of vs (key_name k) = None"
proof -
  from assms(1) obtain out where path: "path \<noteq> []" and out: "save_values h d kvs = Ok out" and g: "g = FileValues out"
    by (auto simp: SaveAgentSettingsFile_def split: if_splits sum.splits)
  have "canonical out" "map_of out (key_name k) = None"
    using save_ok [OF out] spec [OF conjunct2 [OF save_ok [OF out]], of k] assms(2) by auto
  then have "good_entry h' d' k out = None"
    using entry_for_canonical [of out k] by (simp add: good_entry_none)
  then show ?thesis using path by (simp add: LoadAgentSettingsFile_def g load_lookup)
qed

section \<open>One push\<close>

lemma apply_value_frame [simp]:
  "sr_pinned (apply_value key v r) = sr_pinned r" "sr_path (apply_value key v r) = sr_path r"
  "sr_running (apply_value key v r) = sr_running r" "sr_files (apply_value key v r) = sr_files r"
  "sr_settings (apply_value key v r) = sr_settings r" "sr_applied (apply_value key v r) = sr_applied r"
  "sr_fingerprint (apply_value key v r) = sr_fingerprint r" "sr_sent (apply_value key v r) = sr_sent r"
  "sr_canRestart (apply_value key v r) = sr_canRestart r" "sr_record (apply_value key v r) = sr_record r"
  "sr_restarts (apply_value key v r) = sr_restarts r"
  by (simp_all add: apply_value_def Let_def split: option.split)

lemma apply_value_field:
  assumes "find_key key \<noteq> Some k"
  shows "same_field k (sr_cfg (apply_value key v r)) (sr_cfg r)"
    "k = KeyCollectIntervalSec \<Longrightarrow> sr_collectOverride (apply_value key v r) = sr_collectOverride r \<and> sr_baseCollect (apply_value key v r) = sr_baseCollect r"
    "k = KeyHeartbeatIntervalSec \<Longrightarrow> sr_heartbeatOverride (apply_value key v r) = sr_heartbeatOverride r \<and> sr_baseHeartbeat (apply_value key v r) = sr_baseHeartbeat r"
  using assms by (auto simp: apply_value_def Let_def assign_frame split: option.split)

lemma apply_value_cfg: "sr_cfg (apply_value (key_name k) v r) = assign_setting k v (sr_cfg r)"
  by (simp add: apply_value_def Let_def)

lemma apply_entry_simps [simp]:
  "aa_rt (apply_entry key v a) = apply_value key v (aa_rt a)"
  "aa_applied (apply_entry key v a) = aa_applied a @ [(key, v)]"
  by (simp_all add: apply_entry_def)

lemma apply_loop_inv:
  assumes "apply_loop h d vals a = (e, b)" and "I a"
    and keep: "\<And>a ks. I a \<Longrightarrow> I (a\<lparr>aa_kept := ks\<rparr>)"
    and entry: "\<And>a key raw v k. I a \<Longrightarrow> (key, raw) \<in> set vals \<Longrightarrow> spells k key \<Longrightarrow> \<not> sd_LocalOnly (definition_of k) \<Longrightarrow>
                  k \<notin> set (sr_pinned (aa_rt a)) \<Longrightarrow> NormalizeAgentSettingValue h d (key_name k) raw = Ok v \<Longrightarrow> I (apply_entry key v a)"
  shows "I b"
  using assms
proof (induction h d vals a rule: apply_loop.induct)
  case (2 h d key raw rest a)
  have rest: "I (apply_entry key' v c)"
    if "I c" "(key', raw') \<in> set rest" "spells k key'" "\<not> sd_LocalOnly (definition_of k)"
      "k \<notin> set (sr_pinned (aa_rt c))" "NormalizeAgentSettingValue h d (key_name k) raw' = Ok v" for c key' raw' v k
    using that(2) by (intro 2(6) [OF that(1) _ that(3-6)]) simp
  show ?case
  proof (cases "AgentSettingDefinitionByKey key")
    case None
    with 2 show ?thesis by simp
  next
    case (Some k)
    consider (local) "sd_LocalOnly (definition_of k)" | (pinned) "\<not> sd_LocalOnly (definition_of k)" "k \<in> set (sr_pinned (aa_rt a))"
      | (free) "\<not> sd_LocalOnly (definition_of k)" "k \<notin> set (sr_pinned (aa_rt a))" by blast
    then show ?thesis
    proof cases
      case local
      with 2 Some show ?thesis by simp
    next
      case pinned
      show ?thesis
      proof (rule 2(1) [OF Some pinned])
        show "apply_loop h d rest (a\<lparr>aa_kept := aa_kept a @ [key_name k]\<rparr>) = (e, b)" using 2(3) Some pinned by simp
      qed (use 2(4,5) rest in blast)+
    next
      case free
      show ?thesis
      proof (cases "NormalizeAgentSettingValue h d key raw")
        case (Inl e)
        with 2 Some free show ?thesis by simp
      next
        case (Inr v)
        have "NormalizeAgentSettingValue h d (key_name k) raw = Ok v"
          using Inr unfolding normal_key [OF Some] .
        then have "I (apply_entry key v a)"
          by (rule 2(6) [OF 2(4) _ _ free, of key raw, rotated 2]) (use Some in \<open>simp_all add: spells_def\<close>)
        moreover have "apply_loop h d rest (apply_entry key v a) = (e, b)"
          using 2(3) Some free Inr by simp
        ultimately show ?thesis
          using 2(2) [OF Some free Inr] 2(5) rest by blast
      qed
    qed
  qed
qed simp

text \<open>What a push never touches, whether it succeeds or stops at an error.\<close>

definition push_frame :: "settings_rt \<Rightarrow> settings_rt \<Rightarrow> bool" where
  "push_frame r r' \<longleftrightarrow>
     sr_pinned r' = sr_pinned r \<and> sr_path r' = sr_path r \<and> sr_running r' = sr_running r \<and> sr_files r' = sr_files r \<and>
     sr_settings r' = sr_settings r \<and> sr_applied r' = sr_applied r \<and> sr_fingerprint r' = sr_fingerprint r \<and>
     sr_sent r' = sr_sent r \<and> sr_canRestart r' = sr_canRestart r \<and> sr_record r' = sr_record r \<and> sr_restarts r' = sr_restarts r"

lemma loop_frame: "apply_loop h d vals a = (e, b) \<Longrightarrow> push_frame (aa_rt a) (aa_rt b)"
  by (erule apply_loop_inv [where I = "\<lambda>b. push_frame (aa_rt a) (aa_rt b)"]) (simp_all add: push_frame_def)

text \<open>The state kept for one setting: its field and, for the two intervals, override and base.\<close>

definition same_setting :: "setting_key \<Rightarrow> settings_rt \<Rightarrow> settings_rt \<Rightarrow> bool" where
  "same_setting k r r' \<longleftrightarrow>
     same_field k (sr_cfg r') (sr_cfg r) \<and>
     (k = KeyCollectIntervalSec \<longrightarrow> sr_collectOverride r' = sr_collectOverride r \<and> sr_baseCollect r' = sr_baseCollect r) \<and>
     (k = KeyHeartbeatIntervalSec \<longrightarrow> sr_heartbeatOverride r' = sr_heartbeatOverride r \<and> sr_baseHeartbeat r' = sr_baseHeartbeat r)"

lemma same_setting_refl [simp]: "same_setting k r r"
  by (simp add: same_setting_def)

lemma same_setting_trans: "same_setting k r s \<Longrightarrow> same_setting k s t \<Longrightarrow> same_setting k r t"
  by (auto simp: same_setting_def intro: same_field_trans)

lemma same_setting_apply: "find_key key \<noteq> Some k \<Longrightarrow> same_setting k r (apply_value key v r)"
  by (simp add: same_setting_def apply_value_field)

lemma loop_other:
  assumes "apply_loop h d vals a = (e, b)"
    and "sd_LocalOnly (definition_of k) \<or> k \<in> set (sr_pinned (aa_rt a)) \<or> key_name k \<notin> fst ` set vals"
  shows "same_setting k (aa_rt a) (aa_rt b)"
proof -
  have "same_setting k (aa_rt a) (aa_rt b) \<and> sr_pinned (aa_rt b) = sr_pinned (aa_rt a)"
    using assms(1)
  proof (rule apply_loop_inv [where I = "\<lambda>b. same_setting k (aa_rt a) (aa_rt b) \<and> sr_pinned (aa_rt b) = sr_pinned (aa_rt a)"])
    fix c :: apply_acc and key raw v k'
    assume c: "same_setting k (aa_rt a) (aa_rt c) \<and> sr_pinned (aa_rt c) = sr_pinned (aa_rt a)"
      and key: "(key, raw) \<in> set vals" "spells k' key" "\<not> sd_LocalOnly (definition_of k')" "k' \<notin> set (sr_pinned (aa_rt c))"
    have "find_key key \<noteq> Some k"
    proof
      assume f: "find_key key = Some k"
      then have "k' = k" using key(2) find_key_definition by (simp add: spells_def)
      moreover have "key_name k \<in> fst ` set vals" using find_key_Some [OF f] key(1) by force
      ultimately show False using assms(2) key c by auto
    qed
    then show "same_setting k (aa_rt a) (aa_rt (apply_entry key v c)) \<and> sr_pinned (aa_rt (apply_entry key v c)) = sr_pinned (aa_rt a)"
      using c same_setting_trans same_setting_apply by fastforce
  qed simp_all
  then show ?thesis ..
qed

lemma loop_distinct:
  "apply_loop h d vals a = (e, b) \<Longrightarrow> distinct (map fst (aa_applied a) @ map fst vals) \<Longrightarrow> distinct (map fst (aa_applied b))"
  by (induction h d vals a rule: apply_loop.induct) (auto split: option.splits if_splits sum.splits)

text \<open>The entries a push applied: each spells a setting that is neither local nor pinned and holds its normal form.\<close>

definition pushable :: "host \<Rightarrow> dns \<Rightarrow> setting_key list \<Rightarrow> (string \<times> string) list \<Rightarrow> string \<times> string \<Rightarrow> bool" where
  "pushable h d pinned vals p \<longleftrightarrow>
     (\<exists>k raw. spells k (fst p) \<and> \<not> sd_LocalOnly (definition_of k) \<and> k \<notin> set pinned \<and>
        (fst p, raw) \<in> set vals \<and> NormalizeAgentSettingValue h d (key_name k) raw = Ok (snd p))"

lemma loop_pushable:
  assumes "apply_loop h d vals a = (e, b)" and "aa_applied a = []"
  shows "\<forall>p \<in> set (aa_applied b). pushable h d (sr_pinned (aa_rt a)) vals p"
proof -
  have "list_all (pushable h d (sr_pinned (aa_rt a)) vals) (aa_applied b) \<and> sr_pinned (aa_rt b) = sr_pinned (aa_rt a)"
    using assms(1)
    by (rule apply_loop_inv [where I = "\<lambda>b. list_all (pushable h d (sr_pinned (aa_rt a)) vals) (aa_applied b) \<and> sr_pinned (aa_rt b) = sr_pinned (aa_rt a)"])
      (auto simp: assms(2) pushable_def)
  then show ?thesis by (simp add: list_all_iff)
qed

text \<open>The value a successful push leaves for a setting it names.\<close>

lemma apply_value_own:
  "sr_collectOverride (apply_value (key_name KeyCollectIntervalSec) v r) = atoi v"
  "sr_heartbeatOverride (apply_value (key_name KeyHeartbeatIntervalSec) v r) = atoi v"
  unfolding apply_value_def find_key_name by (simp_all add: Let_def)

definition holds_value :: "setting_key \<Rightarrow> string \<Rightarrow> settings_rt \<Rightarrow> bool" where
  "holds_value k v r \<longleftrightarrow>
     (\<exists>cfg. same_field k (sr_cfg r) (assign_setting k v cfg)) \<and>
     (k = KeyCollectIntervalSec \<longrightarrow> sr_collectOverride r = atoi v) \<and>
     (k = KeyHeartbeatIntervalSec \<longrightarrow> sr_heartbeatOverride r = atoi v)"

lemma holds_apply: "holds_value k v (apply_value (key_name k) v r)"
  unfolding holds_value_def apply_value_cfg
  using apply_value_own [of v r] by (intro conjI exI [of _ "sr_cfg r"]) (simp_all del: key_name.simps)

lemma holds_same: "holds_value k v r \<Longrightarrow> same_setting k r r' \<Longrightarrow> holds_value k v r'"
  by (auto simp: holds_value_def same_setting_def intro: same_field_trans)

lemma loop_value:
  assumes "apply_loop h d vals a = (None, b)" and "(key_name k, raw) \<in> set vals" and "distinct (map fst vals)"
    and "k \<notin> set (sr_pinned (aa_rt a))"
  shows "\<exists>v. NormalizeAgentSettingValue h d (key_name k) raw = Ok v \<and> (key_name k, v) \<in> set (aa_applied b) \<and>
           \<not> sd_LocalOnly (definition_of k) \<and> holds_value k v (aa_rt b)"
  using assms
proof (induction h d vals a rule: apply_loop.induct)
  case (2 h d key x rest a)
  show ?case
  proof (cases "key = key_name k")
    case True
    then have raw: "raw = x" using 2(4,5) by force
    from 2(3,6) True obtain v where v: "NormalizeAgentSettingValue h d (key_name k) x = Ok v"
      and l: "\<not> sd_LocalOnly (definition_of k)" and rest: "apply_loop h d rest (apply_entry key v a) = (None, b)"
      by (auto split: if_splits sum.splits)
    have "same_setting k (aa_rt (apply_entry key v a)) (aa_rt b)"
      using 2(5) True by (intro loop_other [OF rest]) simp
    then have "holds_value k v (aa_rt b)"
      using holds_apply [of k v "aa_rt a"] True by (auto intro: holds_same)
    moreover have "(key_name k, v) \<in> set (aa_applied b)"
    proof (rule apply_loop_inv [OF rest, where I = "\<lambda>c. (key_name k, v) \<in> set (aa_applied c)"])
    qed (simp_all add: True)
    ultimately show ?thesis using v l raw by blast
  next
    case False
    with 2(4) have "(key_name k, raw) \<in> set rest" by auto
    moreover have "distinct (map fst rest)" using 2(5) by simp
    ultimately show ?thesis using 2(1,2,3,6) by (auto split: option.splits if_splits sum.splits)
  qed
qed simp

section \<open>What the file says\<close>

definition file_setting :: "host \<Rightarrow> dns \<Rightarrow> string \<Rightarrow> settings_file \<Rightarrow> setting_key \<Rightarrow> string option" where
  "file_setting h d path f k =
     (case LoadAgentSettingsFile h d path f of None \<Rightarrow> None | Some vs \<Rightarrow> map_of vs (key_name k))"

lemma normal_env: "stable_key k \<Longrightarrow> NormalizeAgentSettingValue h d (key_name k) raw = NormalizeAgentSettingValue h' d' (key_name k) raw"
  by (auto simp: NormalizeAgentSettingValue_def normal_string_def stable_key_def Let_def split: setting_type.split)

lemma good_entry_env: "stable_key k \<Longrightarrow> good_entry h d k kvs = good_entry h' d' k kvs"
proof (induction kvs)
  case (Cons p kvs)
  then show ?case
    using normal_env [of k h d _ h' d'] by (cases p) (simp split: option.split)
qed simp

lemma file_setting_env: "stable_key k \<Longrightarrow> file_setting h d path f k = file_setting h' d' path f k"
  using good_entry_env [of k h d _ h' d']
  by (auto simp: file_setting_def LoadAgentSettingsFile_def load_lookup split: settings_file.split)

lemma local_stable: "sd_LocalOnly (definition_of k) \<Longrightarrow> stable_key k"
  by (cases k) (simp_all add: stable_key_def)

lemma load_settings_file:
  "same_field k (load_settings h d pinned path f cfg)
     (if k \<in> set pinned then cfg
      else case file_setting h d path f k of None \<Rightarrow> cfg | Some raw \<Rightarrow> start_setting h d k (TrimSpace raw) cfg)"
proof (cases "LoadAgentSettingsFile h d path f")
  case None
  then show ?thesis by (simp add: load_settings_def file_setting_def)
next
  case (Some vs)
  then show ?thesis
    using load_settings_field [OF Some, of k pinned cfg] by (simp add: file_setting_def load_setting_def split: if_splits)
qed

text \<open>Saving a push keeps what the file says of a setting the push does not name, whatever its spelling.\<close>

lemma save_other:
  assumes load: "LoadAgentSettingsFile h d path f = Some vs"
    and save: "SaveAgentSettingsFile h d path ok (si_order io (merge_values applied vs)) f = (None, g)"
    and "fair_order io" and "distinct (map fst applied)" and "stable_key k" and "\<forall>p \<in> set applied. \<not> spells k (fst p)"
  shows "file_setting h' d' path g k = file_setting h' d' path f k"
proof -
  have entry: "entry_for k (si_order io (merge_values applied vs)) = map_of vs (key_name k)"
    using load_canonical [OF load] assms(3,4,6) by (intro entry_merge_other)
  have "file_setting h d path g k = map_of vs (key_name k)"
  proof (cases "map_of vs (key_name k)")
    case None
    with load_saved_none [OF save, of k h d] entry show ?thesis by (auto simp: file_setting_def)
  next
    case (Some v)
    obtain raw where "NormalizeAgentSettingValue h d (key_name k) raw = Ok v"
      using load_normal [OF load Some] by blast
    then have "NormalizeAgentSettingValue h d (key_name k) v = Ok v"
      using normal_stable [of h d k raw v h d] assms(5) by blast
    with load_saved [OF save, of k v h d] entry Some show ?thesis by (auto simp: file_setting_def)
  qed
  then show ?thesis
    using file_setting_env [OF assms(5), of h' d' path _ h d] load by (simp add: file_setting_def)
qed

lemma save_pushed:
  assumes load: "LoadAgentSettingsFile h d path f = Some vs"
    and save: "SaveAgentSettingsFile h d path ok (si_order io (merge_values applied vs)) f = (None, g)"
    and "fair_order io" and "distinct (map fst applied)" and "(key_name k, v) \<in> set applied"
    and "\<forall>p \<in> set applied. spells k (fst p) \<longrightarrow> fst p = key_name k"
    and "NormalizeAgentSettingValue h d (key_name k) v = Ok v" and "NormalizeAgentSettingValue h' d' (key_name k) v = Ok v"
  shows "file_setting h' d' path g k = Some v"
proof -
  have "entry_for k (si_order io (merge_values applied vs)) = Some v"
    using load_canonical [OF load] assms(3-6) by (intro entry_merge_pushed)
  with load_saved [OF save _ assms(7,8)] show ?thesis by (auto simp: file_setting_def)
qed

lemma save_error_keeps: "SaveAgentSettingsFile h d path ok kvs f = (Some e, g) \<Longrightarrow> g = f"
  by (auto simp: SaveAgentSettingsFile_def split: if_splits sum.splits)

end
