(* ===== verification/SettingsHub.thy ===== *)
theory SettingsHub
  imports SettingsApply
begin

text \<open>
  What the Hub's messages and the starts of the agent can do to the settings: the state of a setting
  that belongs to the installation is kept, a pushed value comes back after a restart, the intervals
  stay bounded, the file manager follows its setting. The example states and weak spots of the
  code stand before the properties.
\<close>

section \<open>Settings that belong to the installation\<close>

definition guarded :: "setting_key list \<Rightarrow> setting_key \<Rightarrow> bool" where
  "guarded pinned k \<longleftrightarrow> sd_LocalOnly (definition_of k) \<or> k \<in> set pinned"

text \<open>Nothing of a guarded setting differs between two states of one process or of two.\<close>

definition kept :: "settings_world \<Rightarrow> settings_rt \<Rightarrow> settings_rt \<Rightarrow> bool" where
  "kept w r r' \<longleftrightarrow>
     sr_pinned r' = sr_pinned r \<and> sr_path r' = sr_path r \<and>
     (\<forall>k. sd_LocalOnly (definition_of k) \<longrightarrow>
        file_setting (sw_host w) (sw_dns w) (sr_path r') (sr_settings r') k = file_setting (sw_host w) (sw_dns w) (sr_path r) (sr_settings r) k) \<and>
     (\<forall>k. guarded (sr_pinned r) k \<longrightarrow> same_setting k r r' \<and> map_of (sr_running r') k = map_of (sr_running r) k)"

lemma kept_refl [simp]: "kept w r r"
  by (simp add: kept_def)

lemma kept_trans: "kept w r s \<Longrightarrow> kept w s t \<Longrightarrow> kept w r t"
  unfolding kept_def by (auto intro: same_setting_trans)


text \<open>Steps that leave the settings alone.\<close>

lemma kept_same:
  assumes "sr_cfg r' = sr_cfg r" "sr_pinned r' = sr_pinned r" "sr_path r' = sr_path r" "sr_running r' = sr_running r"
    "sr_settings r' = sr_settings r" "sr_collectOverride r' = sr_collectOverride r" "sr_heartbeatOverride r' = sr_heartbeatOverride r"
    "sr_baseCollect r' = sr_baseCollect r" "sr_baseHeartbeat r' = sr_baseHeartbeat r"
  shows "kept w r r'"
  using assms by (simp add: kept_def same_setting_def)

lemma kept_answer [simp]: "kept w r (answer_apply io req out r)"
  by (rule kept_same) (simp_all add: answer_apply_def sendAgentSettingsState_def send_msg_def)

lemma kept_restart [simp]: "kept w r (restartForSettings h d io r)"
  by (rule kept_same) (simp_all add: restartForSettings_def Let_def)

lemma kept_persist_applied [simp]: "kept w r (persistAppliedConfig io r)"
  by (rule kept_same) (simp_all add: persistAppliedConfig_def)

lemma kept_docker [simp]: "kept w r (setConnectorDiscoveryDockerConfig a b r)"
  by (rule kept_same) (simp_all add: setConnectorDiscoveryDockerConfig_def)

lemma kept_root_mode [simp]: "kept w r (apply_root_mode fs changed r)"
  by (rule kept_same) (simp_all add: apply_root_mode_def)

lemma kept_config_applied [simp]: "kept w r (sendLegacyConfigApplied r)"
  by (rule kept_same) (simp_all add: sendLegacyConfigApplied_def send_msg_def)

lemmas kept_then [simp] = kept_trans [OF _ kept_answer] kept_trans [OF _ kept_restart] kept_trans [OF _ kept_persist_applied]
  kept_trans [OF _ kept_docker] kept_trans [OF _ kept_root_mode] kept_trans [OF _ kept_config_applied]







section \<open>A push keeps them\<close>






section \<open>A start keeps them\<close>



definition fresh :: "settings_world \<Rightarrow> settings_io \<Rightarrow> settings_rt \<Rightarrow> settings_rt" where
  "fresh w io r =
     (let pinned = envPinnedSettings (sw_env w);
          cfg = start_ca io (renormalize (sw_host w) (sw_dns w)
                  (load_settings (sw_host w) (sw_dns w) pinned (sr_path r) (sr_settings r) (sw_cfg w)))
      in setConnectorDiscoveryDockerConfig (sc_DockerEnabled cfg) (sc_DockerSocket cfg)
           \<lparr>sr_cfg = cfg, sr_pinned = pinned, sr_path = sr_path r, sr_collectOverride = 0, sr_heartbeatOverride = 0,
            sr_baseCollect = sc_CollectInterval cfg, sr_baseHeartbeat = sc_HeartbeatInterval cfg,
            sr_running = startupRestartSettings cfg, sr_fingerprint = sr_fingerprint r, sr_canRestart = sr_canRestart r,
            sr_files = Some (NewManager (sw_fs w) (sc_FileRootMode cfg)),
            sr_settings = sr_settings r, sr_applied = sr_applied r, sr_record = sr_record r,
            sr_docker = sr_docker r, sr_restarts = sr_restarts r, sr_sent = sr_sent r\<rparr>)"

lemma start_fresh: "start_agent (sw_host w) (sw_dns w) (sw_fs w) io (sw_env w) (sw_cfg w) r = loadPersistedConfig io (fresh w io r)"
  by (simp add: start_agent_def fresh_def start_ca_def Let_def)

lemma fresh_simps [simp]:
  "sr_pinned (fresh w io r) = envPinnedSettings (sw_env w)" "sr_path (fresh w io r) = sr_path r"
  "sr_settings (fresh w io r) = sr_settings r" "sr_applied (fresh w io r) = sr_applied r"
  "sr_collectOverride (fresh w io r) = 0" "sr_heartbeatOverride (fresh w io r) = 0"
  "sr_baseCollect (fresh w io r) = sc_CollectInterval (sr_cfg (fresh w io r))"
  "sr_baseHeartbeat (fresh w io r) = sc_HeartbeatInterval (sr_cfg (fresh w io r))"
  "sr_running (fresh w io r) = startupRestartSettings (sr_cfg (fresh w io r))"
  "sr_files (fresh w io r) = Some (NewManager (sw_fs w) (sc_FileRootMode (sr_cfg (fresh w io r))))"
  by (simp_all add: fresh_def setConnectorDiscoveryDockerConfig_def Let_def)

lemma fresh_cfg: "sr_cfg (fresh w io r) = start_ca io (renormalize (sw_host w) (sw_dns w)
    (load_settings (sw_host w) (sw_dns w) (envPinnedSettings (sw_env w)) (sr_path r) (sr_settings r) (sw_cfg w)))"
  by (simp add: fresh_def setConnectorDiscoveryDockerConfig_def Let_def)


lemma map_of_graph: "map_of (map (\<lambda>k. (k, f k)) ks) x = (if x \<in> set ks then Some (f x) else None)"
  by (induction ks) auto

lemma running_lookup:
  "map_of (startupRestartSettings cfg) k = (if k \<in> set restartSettingKeys then Some (AgentSettingValuesFromConfig cfg k) else None)"
  by (simp add: startupRestartSettings_def map_of_graph)








section \<open>What a start makes of a saved value\<close>

lemma again_stable [simp]:
  "NormalizeAgentSettingValue h d (key_name k) v = Ok v \<Longrightarrow> again h d k fallback v = v"
  by (simp add: again_def)

lemma FormatBool_true: "EqualFold (FormatBool b) ''true'' = b"
  by (cases b; simp; code_simp)

lemma again_bool_stable:
  assumes "sd_Type (definition_of k) = TypeBool"
  shows "again_bool h d k fallback b = b"
proof -
  have "ParseBool (FormatBool b) = Some b" by (cases b) (simp_all add: FormatBool_def ParseBool_def)
  then have "NormalizeAgentSettingValue h d (key_name k) (FormatBool b) = Ok (FormatBool b)"
    using assms by (simp add: NormalizeAgentSettingValue_def normal_bool_def)
  then show ?thesis by (simp add: again_bool_def FormatBool_true)
qed

lemma again_int_stable:
  "NormalizeAgentSettingValue h d (key_name k) (Itoa n) = Ok (Itoa n) \<Longrightarrow> Atoi (Itoa n) = Some n \<Longrightarrow> again_int h d k fallback n = n"
  by (simp add: again_int_def)

lemma duration_stable:
  "NormalizeAgentSettingValue h d (key_name k) v = Ok v \<Longrightarrow> Atoi v = Some n \<Longrightarrow> durationFromAgentSettingSeconds h d k v = Some (n * second)"
  by (simp add: durationFromAgentSettingSeconds_def)

lemma start_int:
  assumes "sd_Type (definition_of k) = TypeInt" and "Atoi v = Some n" and "v = Itoa n" and "0 < n"
    and "NormalizeAgentSettingValue h d (key_name k) v = Ok v"
  shows "AgentSettingValuesFromConfig (renormalize h d (start_setting h d k v cfg)) k = v"
  using assms(1,2,4) duration_stable [OF assms(5,2)] again_int_stable [OF assms(5) [unfolded assms(3)]]
  by (cases k) (auto simp: renormalize_def if_int_def DurationSeconds_whole second_le_0 assms(3) [symmetric] simp del: key_name.simps)

lemma start_bool:
  assumes "sd_Type (definition_of k) = TypeBool" and "ParseBool v = Some b" and "v = FormatBool b"
  shows "AgentSettingValuesFromConfig (renormalize h d (start_setting h d k v cfg)) k = v"
  using assms(1,2) by (cases k) (simp_all add: renormalize_def if_bool_def again_bool_stable assms(3) [symmetric] del: key_name.simps)

lemma start_enum:
  assumes "sd_Type (definition_of k) = TypeEnum" and "plain_word v"
    and "NormalizeAgentSettingValue h d (key_name k) v = Ok v"
  shows "AgentSettingValuesFromConfig (renormalize h d (start_setting h d k v cfg)) k = v"
  using assms(1,3) plain_wordD [OF assms(2)] by (cases k) (simp_all add: renormalize_def del: key_name.simps)

lemma start_string:
  assumes "sd_Type (definition_of k) = TypeString" and "type_value k v" and "TrimSpace v = v"
    and "NormalizeAgentSettingValue h d (key_name k) v = Ok v"
  shows "AgentSettingValuesFromConfig (renormalize h d (start_setting h d k v cfg)) k = v"
  using assms by (cases k) (simp_all add: renormalize_def type_value_def del: key_name.simps)

lemma start_value:
  assumes v: "type_value k v" and "TrimSpace v = v" and n: "NormalizeAgentSettingValue h d (key_name k) v = Ok v"
  shows "AgentSettingValuesFromConfig (renormalize h d (start_setting h d k v cfg)) k = v"
proof (cases "sd_Type (definition_of k)")
  case TypeString
  with assms show ?thesis by (simp add: start_string)
next
  case TypeInt
  have b: "0 < atoi v" "atoi v \<le> int_max" "v = Itoa (atoi v)"
    using v int_key_bounds [OF TypeInt] by (auto simp: type_value_def TypeInt)
  then have "Atoi v = Some (atoi v)" using Atoi_Itoa [of "atoi v"] by simp
  with TypeInt b n show ?thesis by (intro start_int)
next
  case TypeBool
  then obtain b where "ParseBool v = Some b" "v = FormatBool b"
    using n by (auto simp: NormalizeAgentSettingValue_def normal_bool_def assms(2) split: option.splits)
  with TypeBool show ?thesis by (intro start_bool)
next
  case TypeEnum
  with v have "plain_word v" by (auto simp: type_value_def intro: enum_value_plain)
  with TypeEnum n show ?thesis by (intro start_enum)
qed

section \<open>A push and the next start\<close>

definition interval_key :: "setting_key \<Rightarrow> bool" where
  "interval_key k \<longleftrightarrow> k = KeyCollectIntervalSec \<or> k = KeyHeartbeatIntervalSec"

lemma loop_write:
  assumes "apply_loop h d vals a = (e, b)" and "aa_applied a = []" and "(key_name k, v) \<in> set (aa_applied b)" and "interval_key k"
  shows "aa_write b"
proof -
  have "list_all (\<lambda>p. \<forall>k. interval_key k \<longrightarrow> fst p = key_name k \<longrightarrow> aa_write b) (aa_applied b)"
    using assms(1)
    by (rule apply_loop_inv [where I = "\<lambda>b. list_all (\<lambda>p. \<forall>k. interval_key k \<longrightarrow> fst p = key_name k \<longrightarrow> aa_write b) (aa_applied b)"])
      (auto simp: assms(2) list_all_iff apply_entry_def interval_key_def simp del: key_name.simps)
  with assms(3,4) show ?thesis by (auto simp: list_all_iff)
qed

lemma root_mode_frame [simp]:
  "sr_cfg (apply_root_mode fs c r) = sr_cfg r" "sr_path (apply_root_mode fs c r) = sr_path r"
  "sr_settings (apply_root_mode fs c r) = sr_settings r" "sr_running (apply_root_mode fs c r) = sr_running r"
  "sr_collectOverride (apply_root_mode fs c r) = sr_collectOverride r"
  "sr_heartbeatOverride (apply_root_mode fs c r) = sr_heartbeatOverride r"
  "sr_pinned (apply_root_mode fs c r) = sr_pinned r"
  by (simp_all add: apply_root_mode_def)

text \<open>What a push that was saved leaves behind.\<close>

lemma persist_ok:
  assumes "persist_applied h d io a r = (None, r')" and "LoadAgentSettingsFile h d (sr_path r) (sr_settings r) = Some vs"
  obtains g where
    "SaveAgentSettingsFile h d (sr_path r) (si_save io) (si_order io (merge_values (aa_applied a) vs)) (sr_settings r) = (None, g)"
    and "sr_settings r' = g" and "sr_path r' = sr_path r" and "sr_cfg r' = sr_cfg r" and "sr_running r' = sr_running r"
    and "sr_collectOverride r' = sr_collectOverride r" and "sr_heartbeatOverride r' = sr_heartbeatOverride r"
    and "aa_write a \<and> si_configDir io \<and> si_writeApplied io \<and> (sr_collectOverride r \<noteq> 0 \<or> sr_heartbeatOverride r \<noteq> 0) \<longrightarrow>
         sr_applied r' = Some (sr_collectOverride r, sr_heartbeatOverride r)"
proof -
  obtain x g where s: "SaveAgentSettingsFile h d (sr_path r) (si_save io) (si_order io (merge_values (aa_applied a) vs)) (sr_settings r) = (x, g)"
    by fastforce
  from assms s have "x = None"
    by (cases x) (simp_all add: persist_applied_def Let_def)
  with assms s that show ?thesis
    by (auto simp: persist_applied_def persistAppliedConfig_def setConnectorDiscoveryDockerConfig_def Let_def)
qed

lemma interval_value:
  assumes "interval_key k" and "type_value k v"
  shows "0 < atoi v" "v = Itoa (atoi v)"
    "k = KeyCollectIntervalSec \<Longrightarrow> 2 \<le> atoi v \<and> atoi v \<le> 300" "k = KeyHeartbeatIntervalSec \<Longrightarrow> 5 \<le> atoi v \<and> atoi v \<le> 600"
  using assms by (auto simp: interval_key_def type_value_def)

lemma holds_reported:
  assumes "holds_value k v r" and "type_value k v" and "\<not> sd_LocalOnly (definition_of k)" and "TrimSpace v = v"
    and "map_of (sr_running r) k = None"
  shows "reported_value r k = v"
proof -
  obtain cfg where "same_field k (sr_cfg r) (assign_setting k v cfg)"
    using assms(1) by (auto simp: holds_value_def)
  then have "AgentSettingValuesFromConfig (sr_cfg r) k = v"
    using same_field_value [of k "sr_cfg r" "assign_setting k v cfg"] assign_value [OF assms(2,3), of cfg] assms(3,4)
    by (cases "k = KeyTLSCAFile") (auto split: if_splits)
  moreover have "reported_value r k = v" if "interval_key k"
    using that assms(1) interval_value [OF that assms(2)]
    by (auto simp: interval_key_def holds_value_def reported_value_def effectiveCollectIntervalSec_def effectiveHeartbeatIntervalSec_def)
  ultimately show ?thesis
    using assms(5) by (cases "interval_key k") (auto simp: reported_value_def interval_key_def)
qed

lemma load_persisted_other:
  assumes "\<not> interval_key k"
  shows "same_field k (sr_cfg (loadPersistedConfig io r)) (sr_cfg r)"
    "sr_running (loadPersistedConfig io r) = sr_running r"
  using assms by (auto simp: loadPersistedConfig_def interval_key_def Let_def
      intro: same_field_trans [OF interval_frame(2)] split: option.split)

lemma load_persisted_interval:
  assumes "sr_applied r = Some (c, hb)" and "si_configDir io"
  shows "2 \<le> c \<and> c \<le> 300 \<and> KeyCollectIntervalSec \<notin> set (sr_pinned r) \<Longrightarrow> sr_collectOverride (loadPersistedConfig io r) = c"
    "5 \<le> hb \<and> hb \<le> 600 \<and> KeyHeartbeatIntervalSec \<notin> set (sr_pinned r) \<Longrightarrow> sr_heartbeatOverride (loadPersistedConfig io r) = hb"
  using assms by (simp_all add: loadPersistedConfig_def Let_def)

lemma start_reported:
  assumes "file_setting (sw_host w) (sw_dns w) (sr_path r) (sr_settings r) k = Some v"
    and "k \<notin> set (envPinnedSettings (sw_env w))" and "\<not> interval_key k \<and> k \<noteq> KeyTLSCAFile"
    and "type_value k v" and "TrimSpace v = v" and "NormalizeAgentSettingValue (sw_host w) (sw_dns w) (key_name k) v = Ok v"
  shows "reported_value (settings_apply w (Restarted io) r) k = v"
proof -
  let ?h = "sw_host w" and ?d = "sw_dns w"
  have "same_field k (load_settings ?h ?d (envPinnedSettings (sw_env w)) (sr_path r) (sr_settings r) (sw_cfg w))
      (start_setting ?h ?d k v (sw_cfg w))"
    using load_settings_file [of k ?h ?d "envPinnedSettings (sw_env w)" "sr_path r" "sr_settings r" "sw_cfg w"] assms(1,2,5)
    by simp
  note same = same_field_trans [OF start_ca_same renormalize_same [OF this]]
  have "AgentSettingValuesFromConfig (sr_cfg (fresh w io r)) k = v"
    using same_field_value [OF same] start_value [OF assms(4-6)] assms(3) by (simp add: fresh_cfg)
  then have v: "AgentSettingValuesFromConfig (sr_cfg (loadPersistedConfig io (fresh w io r))) k = v"
    "map_of (sr_running (loadPersistedConfig io (fresh w io r))) k \<in> {None, Some v}"
    using same_field_value [OF load_persisted_other(1)] assms(3) by (auto simp: load_persisted_other(2) running_lookup)
  then show ?thesis
    using assms(3) by (auto simp: start_fresh reported_value_def interval_key_def)
qed

lemma start_reported_interval:
  assumes "interval_key k" and "type_value k v" and "k \<notin> set (envPinnedSettings (sw_env w))" and "si_configDir io"
    and "sr_applied r = Some (c, hb)" and "k = KeyCollectIntervalSec \<longrightarrow> c = atoi v" and "k = KeyHeartbeatIntervalSec \<longrightarrow> hb = atoi v"
  shows "reported_value (settings_apply w (Restarted io) r) k = v"
  using assms interval_value [OF assms(1,2)] load_persisted_interval [of "fresh w io r" c hb io]
  by (auto simp: start_fresh interval_key_def reported_value_def effectiveCollectIntervalSec_def effectiveHeartbeatIntervalSec_def)

section \<open>Intervals\<close>

definition between :: "int \<Rightarrow> int \<Rightarrow> int \<Rightarrow> bool" where
  "between lo hi x \<longleftrightarrow> lo * second \<le> x \<and> x \<le> hi * second"

definition intervals_ok :: "settings_rt \<Rightarrow> bool" where
  "intervals_ok r \<longleftrightarrow>
     (sr_collectOverride r = 0 \<or> 2 \<le> sr_collectOverride r \<and> sr_collectOverride r \<le> 300) \<and>
     (sr_heartbeatOverride r = 0 \<or> 5 \<le> sr_heartbeatOverride r \<and> sr_heartbeatOverride r \<le> 600) \<and>
     between 2 300 (sc_CollectInterval (sr_cfg r)) \<and> between 2 300 (sr_baseCollect r) \<and>
     between 5 600 (sc_HeartbeatInterval (sr_cfg r)) \<and> between 5 600 (sr_baseHeartbeat r)"

lemma between_seconds: "lo \<le> n \<Longrightarrow> n \<le> hi \<Longrightarrow> between lo hi (n * second)"
  by (simp add: between_def second_def)

lemma between_duration: "between lo hi x \<Longrightarrow> 0 < lo \<Longrightarrow> lo \<le> DurationSeconds x \<and> DurationSeconds x \<le> hi"
  by (auto simp: between_def DurationSeconds_def second_def)

lemma intervals_frame:
  assumes "sr_cfg r' = sr_cfg r" "sr_collectOverride r' = sr_collectOverride r" "sr_heartbeatOverride r' = sr_heartbeatOverride r"
    "sr_baseCollect r' = sr_baseCollect r" "sr_baseHeartbeat r' = sr_baseHeartbeat r"
  shows "intervals_ok r' \<longleftrightarrow> intervals_ok r"
  using assms by (simp add: intervals_ok_def)

lemma intervals_same [simp]:
  "intervals_ok (answer_apply io req out r) \<longleftrightarrow> intervals_ok r"
  "intervals_ok (restartForSettings h d io r) \<longleftrightarrow> intervals_ok r"
  "intervals_ok (persistAppliedConfig io r) \<longleftrightarrow> intervals_ok r"
  "intervals_ok (setConnectorDiscoveryDockerConfig m n r) \<longleftrightarrow> intervals_ok r"
  "intervals_ok (apply_root_mode fs c r) \<longleftrightarrow> intervals_ok r"
  "intervals_ok (sendLegacyConfigApplied r) \<longleftrightarrow> intervals_ok r"
  "intervals_ok (r\<lparr>sr_settings := g\<rparr>) \<longleftrightarrow> intervals_ok r"
  by (rule intervals_frame; simp add: answer_apply_def sendAgentSettingsState_def send_msg_def restartForSettings_def
      persistAppliedConfig_def setConnectorDiscoveryDockerConfig_def apply_root_mode_def sendLegacyConfigApplied_def Let_def)+

lemma intervals_update:
  "intervals_ok r \<Longrightarrow> intervals_ok (snd (update_collect c r))"
  "intervals_ok r \<Longrightarrow> intervals_ok (snd (update_heartbeat hb r))"
  by (auto simp: update_collect_def update_heartbeat_def intervals_ok_def between_seconds split: option.split)

lemma intervals_apply_value:
  assumes "intervals_ok r" and "\<And>k. find_key key = Some k \<Longrightarrow> type_value k v"
  shows "intervals_ok (apply_value key v r)"
proof (cases "find_key key")
  case (Some k)
  note v = assms(2) [OF Some]
  show ?thesis
  proof (cases "interval_key k")
    case True
    with Some assms(1) interval_value [OF True v] show ?thesis
      by (auto simp: apply_value_def interval_key_def intervals_ok_def between_seconds)
  next
    case False
    then have "k \<noteq> KeyCollectIntervalSec" "k \<noteq> KeyHeartbeatIntervalSec" by (auto simp: interval_key_def)
    then have "same_field KeyCollectIntervalSec (assign_setting k v (sr_cfg r)) (sr_cfg r)"
      "same_field KeyHeartbeatIntervalSec (assign_setting k v (sr_cfg r)) (sr_cfg r)"
      by (simp_all only: assign_frame not_False_eq_True)
    with Some False assms(1) show ?thesis
      by (simp add: apply_value_def interval_key_def intervals_ok_def Let_def)
  qed
qed (simp add: apply_value_def assms(1))

lemma intervals_loop:
  assumes "apply_loop h d vals a = (e, b)" and "intervals_ok (aa_rt a)"
  shows "intervals_ok (aa_rt b)"
  using assms(1)
proof (rule apply_loop_inv [where I = "\<lambda>b. intervals_ok (aa_rt b)"])
  fix c :: apply_acc and key raw v k
  assume "intervals_ok (aa_rt c)" "spells k key" "NormalizeAgentSettingValue h d (key_name k) raw = Ok v"
  then show "intervals_ok (aa_rt (apply_entry key v c))"
    using normal_type_value find_key_definition by (fastforce simp: spells_def intro: intervals_apply_value)
qed (simp_all add: assms(2))

lemma intervals_persist: "persist_applied h d io a r = (e, r') \<Longrightarrow> intervals_ok r \<Longrightarrow> intervals_ok r'"
  by (auto simp: persist_applied_def Let_def split: option.splits prod.splits)

lemma intervals_apply:
  assumes "applyAgentSettings h d fs io vals r = (res, r')" and "intervals_ok r"
  shows "intervals_ok r'"
proof -
  define a0 where "a0 = \<lparr>aa_rt = r, aa_applied = [], aa_write = False, aa_root = False, aa_kept = []\<rparr>"
  obtain e b where l: "apply_loop h d vals a0 = (e, b)" by fastforce
  have b: "intervals_ok (aa_rt b)" using intervals_loop [OF l] assms(2) by (simp add: a0_def)
  obtain x r2 where p: "persist_applied h d io b (apply_root_mode fs (aa_root b) (aa_rt b)) = (x, r2)" by fastforce
  have "intervals_ok r2" using intervals_persist [OF p] b by simp
  with assms(1) l b p show ?thesis
    by (auto simp: applyAgentSettings_def a0_def [symmetric] Let_def split: if_splits option.splits)
qed

lemma duration_between:
  assumes "durationFromAgentSettingSeconds h d k raw = Some n" and "interval_key k"
  shows "k = KeyCollectIntervalSec \<Longrightarrow> between 2 300 n" "k = KeyHeartbeatIntervalSec \<Longrightarrow> between 5 600 n"
proof -
  obtain v m where v: "NormalizeAgentSettingValue h d (key_name k) raw = Ok v" and m: "Atoi v = Some m" "n = m * second"
    using assms(1) by (auto simp: durationFromAgentSettingSeconds_def split: sum.splits)
  have "atoi v = m" using m by (simp add: atoi_def)
  with interval_value [OF assms(2) normal_type_value [OF v]] m
  show "k = KeyCollectIntervalSec \<Longrightarrow> between 2 300 n" "k = KeyHeartbeatIntervalSec \<Longrightarrow> between 5 600 n"
    by (auto intro: between_seconds)
qed

lemma fresh_intervals:
  assumes "between 2 300 (sc_CollectInterval (sw_cfg w))" and "between 5 600 (sc_HeartbeatInterval (sw_cfg w))"
  shows "between 2 300 (sc_CollectInterval (sr_cfg (fresh w io r)))" "between 5 600 (sc_HeartbeatInterval (sr_cfg (fresh w io r)))"
proof -
  show "between 2 300 (sc_CollectInterval (sr_cfg (fresh w io r)))"
    using load_settings_file [of KeyCollectIntervalSec "sw_host w" "sw_dns w" "envPinnedSettings (sw_env w)" "sr_path r" "sr_settings r" "sw_cfg w"]
      duration_between(1) [of "sw_host w" "sw_dns w" KeyCollectIntervalSec] assms(1)
    by (auto simp: fresh_cfg renormalize_def if_int_def interval_key_def split: if_splits option.splits)
  show "between 5 600 (sc_HeartbeatInterval (sr_cfg (fresh w io r)))"
    using load_settings_file [of KeyHeartbeatIntervalSec "sw_host w" "sw_dns w" "envPinnedSettings (sw_env w)" "sr_path r" "sr_settings r" "sw_cfg w"]
      duration_between(2) [of "sw_host w" "sw_dns w" KeyHeartbeatIntervalSec] assms(2)
    by (auto simp: fresh_cfg renormalize_def if_int_def interval_key_def split: if_splits option.splits)
qed

lemma intervals_start:
  assumes "between 2 300 (sc_CollectInterval (sw_cfg w))" and "between 5 600 (sc_HeartbeatInterval (sw_cfg w))"
  shows "intervals_ok (settings_apply w (Restarted io) r)"
proof -
  have "intervals_ok (fresh w io r)"
    using fresh_intervals [OF assms] by (simp add: intervals_ok_def)
  then have "intervals_ok (loadPersistedConfig io (fresh w io r))"
    by (auto simp: loadPersistedConfig_def intervals_ok_def between_seconds Let_def split: option.split)
  then show ?thesis by (simp add: start_fresh)
qed

lemma intervals_event:
  assumes "between 2 300 (sc_CollectInterval (sw_cfg w))" and "between 5 600 (sc_HeartbeatInterval (sw_cfg w))" and "intervals_ok r"
  shows "intervals_ok (settings_apply w e r)"
proof (cases e)
  case (HubUpdate io msg)
  with assms(3) show ?thesis
    using intervals_update
    by (auto simp: handleConfigUpdate_def Let_def split: option.split prod.split) (metis snd_conv)+
next
  case (HubApply h d io msg)
  with assms(3) show ?thesis
    by (auto simp: handleAgentSettingsApply_def Let_def split: option.split prod.split sum.split dest: intervals_apply)
qed (use intervals_start [OF assms(1,2)] in auto)

section \<open>The file manager follows its setting\<close>

definition files_follow :: "file_system \<Rightarrow> settings_rt \<Rightarrow> bool" where
  "files_follow fs r \<longleftrightarrow> (case sr_files r of None \<Rightarrow> True | Some fm \<Rightarrow> fm = NewManager fs (sc_FileRootMode (sr_cfg r)))"

lemma loop_root:
  assumes "apply_loop h d vals a = (e, b)"
  shows "aa_root b \<or> sc_FileRootMode (sr_cfg (aa_rt b)) = sc_FileRootMode (sr_cfg (aa_rt a))"
  using assms
proof (rule apply_loop_inv [where I = "\<lambda>b. aa_root b \<or> sc_FileRootMode (sr_cfg (aa_rt b)) = sc_FileRootMode (sr_cfg (aa_rt a))"])
  fix c :: apply_acc and key raw v k
  assume c: "aa_root c \<or> sc_FileRootMode (sr_cfg (aa_rt c)) = sc_FileRootMode (sr_cfg (aa_rt a))"
  show "aa_root (apply_entry key v c) \<or> sc_FileRootMode (sr_cfg (aa_rt (apply_entry key v c))) = sc_FileRootMode (sr_cfg (aa_rt a))"
  proof (cases "find_key key = Some KeyFilesRootMode")
    case True
    with c show ?thesis by (auto simp: apply_entry_def apply_value_def Let_def)
  next
    case False
    with c apply_value_field(1) [OF False, of v "aa_rt c"] show ?thesis by (auto simp: apply_entry_def)
  qed
qed simp_all

lemma NewManager_mode: "mode_of m = mode_of n \<Longrightarrow> NewManager fs m = NewManager fs n"
  by (simp add: NewManager_def ResolveFileBaseDirWithHome_def rootsForMode_def)

lemma SetRootMode_New: "snd (SetRootMode fs m (NewManager fs n)) = NewManager fs m"
proof (cases "mode_of n = mode_of m")
  case True
  moreover have "fm_rootMode (NewManager fs n) = mode_of n"
    by (simp add: NewManager_def Let_def)
  ultimately show ?thesis
    using NewManager_mode [of n m fs] by (simp add: SetRootMode_def)
next
  case False
  then show ?thesis
    using NewManager_mode [of "mode_of m" m fs] by (simp add: SetRootMode_def NewManager_def Let_def)
qed

lemma files_follow_persist:
  "persist_applied h d io a r = (e, r') \<Longrightarrow> sr_files r' = sr_files r \<and> sr_cfg r' = sr_cfg r"
  by (auto simp: persist_applied_def persistAppliedConfig_def setConnectorDiscoveryDockerConfig_def Let_def split: option.splits prod.splits)

lemma files_follow_apply:
  assumes "applyAgentSettings h d fs io vals r = (Ok out, r')" and "files_follow fs r"
  shows "files_follow fs r'"
proof -
  define a0 where "a0 = \<lparr>aa_rt = r, aa_applied = [], aa_write = False, aa_root = False, aa_kept = []\<rparr>"
  obtain e b where l: "apply_loop h d vals a0 = (e, b)" by fastforce
  have e: "e = None" using assms(1) l by (cases e) (simp_all add: applyAgentSettings_def a0_def [symmetric])
  let ?r1 = "apply_root_mode fs (aa_root b) (aa_rt b)"
  have "sr_files (aa_rt b) = sr_files r" using loop_frame [OF l] by (simp add: push_frame_def a0_def)
  then have r1: "files_follow fs ?r1"
    using assms(2) loop_root [OF l] by (auto simp: files_follow_def apply_root_mode_def SetRootMode_New a0_def split: option.splits)
  obtain x r2 where p: "persist_applied h d io b ?r1 = (x, r2)" by fastforce
  have "files_follow fs r2" using r1 files_follow_persist [OF p] by (auto simp: files_follow_def split: option.splits)
  with assms(1) l e r1 p show ?thesis
    by (auto simp: applyAgentSettings_def a0_def [symmetric] Let_def split: if_splits option.splits)
qed

lemma files_follow_start: "files_follow (sw_fs w) (settings_apply w (Restarted io) r)"
proof -
  have "same_field KeyFilesRootMode (sr_cfg (loadPersistedConfig io (fresh w io r))) (sr_cfg (fresh w io r))"
    by (rule load_persisted_other(1)) (simp add: interval_key_def)
  moreover have "sr_files (loadPersistedConfig io (fresh w io r)) = sr_files (fresh w io r)"
    by (simp add: loadPersistedConfig_def Let_def split: option.split)
  ultimately show ?thesis by (simp add: start_fresh files_follow_def NewManager_def Let_def)
qed

section \<open>Restarts and the file scope\<close>

lemma restart_saved:
  assumes "sr_restarts (restartForSettings h d io r) \<noteq> sr_restarts r"
  shows "pendingSettingsSaved h d (sr_path r) (sr_settings r) (pendingRestartSettings r)"
    "\<not> restartedForSameSettings (si_now io) (sr_record r) (pendingRestartSettings r)"
    "sr_path (restartForSettings h d io r) = sr_path r" "sr_settings (restartForSettings h d io r) = sr_settings r"
    "sr_record (restartForSettings h d io r) = Some (pendingRestartSettings r, si_now io)"
  using assms by (auto simp: restartForSettings_def Let_def split: if_splits)

fun failed_answer :: "settings_msg \<Rightarrow> bool" where
  "failed_answer (SettingsApplied i revision (Inl (ApplyFailed e)) fp) \<longleftrightarrow> True"
| "failed_answer _ \<longleftrightarrow> False"

lemma answer_sent:
  "\<exists>ms. sr_sent (answer_apply io req out r) = sr_sent r @ SettingsApplied (ar_RequestID req) (ar_Revision req) out (sr_fingerprint r) # ms"
  by (simp add: answer_apply_def sendAgentSettingsState_def send_msg_def)

lemma restart_sent [simp]: "sr_sent (restartForSettings h d io r) = sr_sent r"
  by (simp add: restartForSettings_def Let_def)

lemma persist_sent: "persist_applied h d io a r = (e, r') \<Longrightarrow> sr_sent r' = sr_sent r"
  by (auto simp: persist_applied_def persistAppliedConfig_def setConnectorDiscoveryDockerConfig_def Let_def split: option.splits prod.splits)

lemma apply_sent:
  assumes "applyAgentSettings h d fs io vals r = (res, r')"
  shows "sr_sent r' = sr_sent r"
proof -
  define a0 where "a0 = \<lparr>aa_rt = r, aa_applied = [], aa_write = False, aa_root = False, aa_kept = []\<rparr>"
  obtain e b where l: "apply_loop h d vals a0 = (e, b)" by fastforce
  have b: "sr_sent (aa_rt b) = sr_sent r" using loop_frame [OF l] by (simp add: push_frame_def a0_def)
  have b1: "sr_sent (apply_root_mode fs c (aa_rt b)) = sr_sent r" for c using b by (simp add: apply_root_mode_def)
  obtain x r2 where p: "persist_applied h d io b (apply_root_mode fs (aa_root b) (aa_rt b)) = (x, r2)" by fastforce
  from assms l b b1 p persist_sent [OF p] show ?thesis
    by (auto simp: applyAgentSettings_def a0_def [symmetric] Let_def split: if_splits option.splits)
qed

lemma update_sent [simp]:
  "sr_sent (snd (update_collect c r)) = sr_sent r" "sr_sent (snd (update_heartbeat c r)) = sr_sent r"
  "sr_files (snd (update_collect c r)) = sr_files r" "sr_files (snd (update_heartbeat c r)) = sr_files r"
  "sc_FileRootMode (sr_cfg (snd (update_collect c r))) = sc_FileRootMode (sr_cfg r)"
  "sc_FileRootMode (sr_cfg (snd (update_heartbeat c r))) = sc_FileRootMode (sr_cfg r)"
  by (simp_all add: update_collect_def update_heartbeat_def split: option.split)

lemma persist_config_frame [simp]:
  "sr_sent (persistAppliedConfig io r) = sr_sent r" "sr_files (persistAppliedConfig io r) = sr_files r"
  "sr_cfg (persistAppliedConfig io r) = sr_cfg r"
  by (simp_all add: persistAppliedConfig_def)

lemma legacy_frame [simp]:
  "sr_files (sendLegacyConfigApplied r) = sr_files r" "sr_cfg (sendLegacyConfigApplied r) = sr_cfg r"
  "\<exists>ms. sr_sent (sendLegacyConfigApplied r) = sr_sent r @ ms"
  by (simp_all add: sendLegacyConfigApplied_def send_msg_def)

lemma config_update_cases:
  "handleConfigUpdate io msg r = r \<or> handleConfigUpdate io msg r = sendLegacyConfigApplied r \<or>
   (\<exists>c hb b. handleConfigUpdate io msg r = sendLegacyConfigApplied
      (if b then persistAppliedConfig io (snd (update_heartbeat hb (snd (update_collect c r))))
       else snd (update_heartbeat hb (snd (update_collect c r)))))"
proof (cases msg)
  case (Some p)
  obtain c hb where p: "p = (c, hb)" by fastforce
  obtain c1 r1 c2 r2 where u: "update_collect c r = (c1, r1)" "update_heartbeat hb r1 = (c2, r2)" by fastforce
  show ?thesis
  proof (cases "sc_AllowRemoteOverrides (sr_cfg r)")
    case True
    then have "handleConfigUpdate io msg r = sendLegacyConfigApplied
      (if c1 \<or> c2 then persistAppliedConfig io (snd (update_heartbeat hb (snd (update_collect c r))))
       else snd (update_heartbeat hb (snd (update_collect c r))))"
      using u by (simp add: handleConfigUpdate_def Some p)
    then show ?thesis by blast
  qed (simp add: handleConfigUpdate_def Some p)
qed (simp add: handleConfigUpdate_def)

lemma config_update_frame:
  "\<exists>ms. sr_sent (handleConfigUpdate io msg r) = sr_sent r @ ms" "sr_files (handleConfigUpdate io msg r) = sr_files r"
  "sc_FileRootMode (sr_cfg (handleConfigUpdate io msg r)) = sc_FileRootMode (sr_cfg r)"
  using config_update_cases [of io msg r] by (elim disjE exE; simp add: sendLegacyConfigApplied_def send_msg_def)+

lemma start_sent [simp]: "sr_sent (settings_apply w (Restarted io) r) = sr_sent r"
  by (simp add: start_fresh loadPersistedConfig_def fresh_def setConnectorDiscoveryDockerConfig_def Let_def split: option.split)

lemma files_follow_frame:
  assumes "sr_files r' = sr_files r" and "sc_FileRootMode (sr_cfg r') = sc_FileRootMode (sr_cfg r)"
  shows "files_follow fs r' \<longleftrightarrow> files_follow fs r"
  using assms by (auto simp: files_follow_def split: option.split)

lemma answer_files [simp]:
  "files_follow fs (answer_apply io req out r) \<longleftrightarrow> files_follow fs r" "files_follow fs (restartForSettings h d io r) \<longleftrightarrow> files_follow fs r"
  by (rule files_follow_frame; simp add: answer_apply_def sendAgentSettingsState_def send_msg_def restartForSettings_def Let_def)+

lemma files_follow_handle:
  assumes "files_follow fs r" and "list_all (\<lambda>m. \<not> failed_answer m) (sr_sent (handleAgentSettingsApply h d fs io msg r))"
  shows "files_follow fs (handleAgentSettingsApply h d fs io msg r)"
proof (cases msg)
  case (Some req)
  obtain res r1 where a: "applyAgentSettings h d fs io (ar_Values req) r = (res, r1)" by fastforce
  show ?thesis
  proof (cases "sc_AllowRemoteOverrides (sr_cfg r) \<and> \<not> fingerprint_differs req r")
    case True
    show ?thesis
    proof (cases res)
      case (Inl e)
      have "handleAgentSettingsApply h d fs io msg r = answer_apply io req (Err (ApplyFailed e)) r1"
        using True Some a Inl by (simp add: handleAgentSettingsApply_def)
      with assms(2) answer_sent [of io req "Err (ApplyFailed e)" r1] show ?thesis by auto
    next
      case (Inr out)
      have "files_follow fs r1" using files_follow_apply a assms(1) Inr by blast
      with True Some a Inr show ?thesis by (auto simp: handleAgentSettingsApply_def Let_def split: prod.split)
    qed
  next
    case False
    with Some assms(1) show ?thesis by (auto simp: handleAgentSettingsApply_def)
  qed
qed (simp add: handleAgentSettingsApply_def assms(1))

lemma event_sent: "\<exists>ms. sr_sent (settings_apply w e r) = sr_sent r @ ms"
proof (cases e)
  case (HubApply h d io msg)
  obtain req where "msg = None \<or> msg = Some req" by (cases msg) auto
  moreover obtain res r1 where a: "applyAgentSettings h d (sw_fs w) io (ar_Values req) r = (res, r1)" by fastforce
  ultimately show ?thesis
    using HubApply answer_sent [of io req _ r] answer_sent [of io req _ r1] apply_sent [OF a]
    by (auto simp: handleAgentSettingsApply_def Let_def split: sum.split) (metis append.assoc)+
next
  case (HubUpdate io msg)
  then show ?thesis using config_update_frame(1) by simp
next
  case (Restarted io)
  then show ?thesis using start_sent [of w io r] by (simp del: settings_apply.simps)
qed

lemma run_sent: "\<exists>ms. sr_sent (settings_run w es r) = sr_sent r @ ms"
proof (induction es arbitrary: r)
  case (Cons e es)
  obtain ms ms' where "sr_sent (settings_apply w e r) = sr_sent r @ ms"
    "sr_sent (settings_run w es (settings_apply w e r)) = sr_sent (settings_apply w e r) @ ms'"
    using event_sent Cons by blast
  then show ?case by simp
qed simp

lemma files_follow_run:
  assumes "files_follow (sw_fs w) r" and "list_all (\<lambda>m. \<not> failed_answer m) (sr_sent (settings_run w es r))"
  shows "files_follow (sw_fs w) (settings_run w es r)"
  using assms
proof (induction es arbitrary: r)
  case (Cons e es)
  have "list_all (\<lambda>m. \<not> failed_answer m) (sr_sent (settings_apply w e r))"
    using Cons.prems(2) run_sent [of w es "settings_apply w e r"] by auto
  then have "files_follow (sw_fs w) (settings_apply w e r)"
    using Cons.prems(1) files_follow_handle files_follow_start
      files_follow_frame [OF config_update_frame(2,3)] by (cases e) auto
  with Cons show ?case by simp
qed simp

section \<open>Examples\<close>

definition demo_settings :: settings_cfg where
  "demo_settings =
     \<lparr>sc_CollectInterval = 10 * second, sc_HeartbeatInterval = 20 * second, sc_DockerEnabled = ''auto'', sc_DockerSocket = ''/var/run/docker.sock'',
      sc_DockerDiscoveryInterval = 30 * second, sc_ServicesDiscoveryDockerEnabled = True, sc_ServicesDiscoveryProxyEnabled = True,
      sc_ServicesDiscoveryProxyTraefikEnabled = True, sc_ServicesDiscoveryProxyCaddyEnabled = True, sc_ServicesDiscoveryProxyNPMEnabled = True,
      sc_ServicesDiscoveryPortScanEnabled = True, sc_ServicesDiscoveryPortScanIncludeListening = True, sc_ServicesDiscoveryPortScanPorts = [],
      sc_ServicesDiscoveryLANScanEnabled = False, sc_ServicesDiscoveryLANScanCIDRs = [], sc_ServicesDiscoveryLANScanPorts = [],
      sc_ServicesDiscoveryLANScanMaxHosts = 64, sc_FileRootMode = ''full'', sc_WebRTCEnabled = True, sc_WebRTCSTUNURL = [],
      sc_WebRTCTURNURL = [], sc_WebRTCTURNUser = [], sc_WebRTCTURNPass = [], sc_WebRTCWaylandExperimentalEnabled = False,
      sc_WebRTCWaylandPipeWireNodeID = [], sc_WebRTCWaylandInputBackend = ''auto'', sc_CaptureFPS = 30, sc_AllowRemoteOverrides = True,
      sc_LogLevel = ''debug'', sc_TLSSkipVerify = False, sc_TLSCAFile = [], sc_TokenFilePath = ''/d/token''\<rparr>"

definition demo_settings_world :: settings_world where
  "demo_settings_world =
     \<lparr>sw_host = demo_env, sw_dns = demo_dns, sw_fs = demo_fs,
      sw_env = demo_host\<lparr>h_Getenv := (\<lambda>name. if name = ''LABTETHER_LOG_LEVEL'' then ''debug'' else [])\<rparr>, sw_cfg = demo_settings\<rparr>"

definition demo_settings_io :: settings_io where
  "demo_settings_io = \<lparr>si_order = (\<lambda>kvs. kvs), si_save = True, si_configDir = True, si_remove = True, si_writeApplied = True,
     si_writeRecord = True, si_connected = True, si_now = 0, si_savedCA = False, si_hubCA = False\<rparr>"

definition demo_rt :: settings_rt where
  "demo_rt =
     \<lparr>sr_cfg = demo_settings, sr_pinned = [KeyLogLevel], sr_path = ''/etc/c.json'', sr_collectOverride = 0, sr_heartbeatOverride = 0,
      sr_baseCollect = 10 * second, sr_baseHeartbeat = 20 * second, sr_running = startupRestartSettings demo_settings, sr_fingerprint = None,
      sr_canRestart = False, sr_files = Some (NewManager demo_fs ''full''), sr_settings = NoFile, sr_applied = None, sr_record = None,
      sr_docker = ([], []), sr_restarts = [], sr_sent = []\<rparr>"

definition demo_push :: "(string \<times> string) list \<Rightarrow> settings_rt \<Rightarrow> (setting_error, (string \<times> string) list \<times> bool) result \<times> settings_rt" where
  "demo_push vals r = applyAgentSettings demo_env demo_dns demo_fs demo_settings_io vals r"

text \<open>
  A push that stops at an error keeps the values it had assigned. When one of them was the scope of
  the file manager, the manager is not told, and a later push of the same scope finds nothing to
  change: the agent reports \<open>home\<close> and serves the whole file system.
\<close>

lemma failed_push_hides_root_mode:
  "let (res, r1) = demo_push [(''files_root_mode'', ''home''), (''nope'', ''x'')] demo_rt;
       (res', r2) = demo_push [(''files_root_mode'', ''home'')] r1
   in res = Err (UnknownKey ''nope'') \<and> is_ok res' \<and> reported_value r2 KeyFilesRootMode = ''home'' \<and>
      map_option fm_rootMode (sr_files r2) = Some ''full''"
  by code_simp

text \<open>
  A setting whose name is spelled in another case is saved and reported as applied but not assigned,
  and a password sent under such a name is echoed in the answer.
\<close>

lemma spelled_push_is_not_applied:
  "let (res, r1) = demo_push [(''Capture_FPS'', ''60'')] demo_rt
   in res = Ok ([(''Capture_FPS'', ''60'')], False) \<and> reported_value r1 KeyCaptureFPS = ''30'' \<and>
      sr_settings r1 = FileValues [(''capture_fps'', ''60'')]"
  by code_simp

lemma spelled_password_is_echoed:
  "redactSensitiveAgentSettingValues [(''Webrtc_Turn_Pass'', ''secret''), (''webrtc_turn_pass'', ''secret'')] = [(''Webrtc_Turn_Pass'', ''secret'')] \<and>
   AgentSettingDefinitionByKey ''Webrtc_Turn_Pass'' = Some KeyWebRTCTURNPass"
  by code_simp

text \<open>Only the base address of a range is checked, so a range around it passes in a form that does not pass again.\<close>

lemma wide_range_accepted:
  "NormalizeDiscoveryCIDRListValue ''10.0.0.0/1'' = Ok ''0.0.0.0/1'' \<and> NormalizeDiscoveryCIDRListValue ''0.0.0.0/1'' = Err NotPrivateCIDR"
  by code_simp

text \<open>An interval the Hub pushed once wins over one saved later with the \<open>settings set\<close> command.\<close>

definition demo_local_change :: "setting_error option \<times> settings_rt" where
  "demo_local_change = settings_set demo_env demo_dns demo_settings_io ''collect_interval_sec'' ''60''
     (snd (demo_push [(''collect_interval_sec'', ''30'')] demo_rt))"

lemma demo_unpinned: "KeyCollectIntervalSec \<notin> set (envPinnedSettings (sw_env demo_settings_world))"
  by code_simp

lemma pushed_interval_beats_local_command:
  "fst demo_local_change = None \<and> sr_settings (snd demo_local_change) = FileValues [(''collect_interval_sec'', ''60'')] \<and>
   reported_value (settings_apply demo_settings_world (Restarted demo_settings_io) (snd demo_local_change)) KeyCollectIntervalSec = ''30''"
proof -
  have c: "fst demo_local_change = None \<and> sr_settings (snd demo_local_change) = FileValues [(''collect_interval_sec'', ''60'')] \<and>
      sr_applied (snd demo_local_change) = Some (30, 0)"
    by code_simp
  have v: "type_value KeyCollectIntervalSec ''30'' \<and> atoi ''30'' = 30"
    by code_simp
  have "reported_value (settings_apply demo_settings_world (Restarted demo_settings_io) (snd demo_local_change)) KeyCollectIntervalSec = ''30''"
    by (rule start_reported_interval [where c = 30 and hb = 0])
      (use c v demo_unpinned in \<open>simp_all add: interval_key_def demo_settings_io_def\<close>)
  with c show ?thesis by blast
qed

text \<open>A certificate that a Hub returned at enrolment becomes the CA file, which only the installation can set.\<close>

lemma enrolment_sets_open_ca_file:
  "reported_value (settings_apply demo_settings_world (Restarted demo_settings_io) demo_rt) KeyTLSCAFile = [] \<and>
   reported_value (settings_apply demo_settings_world (Restarted (demo_settings_io\<lparr>si_hubCA := True\<rparr>)) demo_rt) KeyTLSCAFile = ''/d/ca.crt'' \<and>
   reported_value (settings_apply demo_settings_world (Restarted (demo_settings_io\<lparr>si_savedCA := True\<rparr>)) demo_rt) KeyTLSCAFile = ''/d/ca.crt''"
  by code_simp

definition demo_events :: "settings_event list" where
  "demo_events =
     [HubApply demo_env demo_dns demo_settings_io (Some \<lparr>ar_RequestID = ''1'', ar_Revision = ''1'', ar_ExpectedFingerprint = [],
        ar_Values = [(''capture_fps'', ''60''), (''log_level'', ''error''), (''tls_skip_verify'', ''true'')]\<rparr>),
      Restarted demo_settings_io, HubUpdate demo_settings_io (Some (Some 30, None))]"

lemma demo_fair: "fair_order demo_settings_io"
  by (simp add: fair_order_def demo_settings_io_def)

section \<open>Properties\<close>



text \<open>
  C19. A pushed setting other than the Docker endpoint and the scan ranges, named in its own spelling and
  not chosen in the environment, takes effect and survives a restart. When a push with it is accepted,
  every other key of the push that names it does so in that spelling, the settings file could be read
  before and the writes work, then the answer lists its normal form, the agent reports that at once
  where the setting needs no restart, and after the next start, with whatever name resolution and
  value in the environment's configuration, it reports it too. The two settings are left out for
  their normal form need not be its own normal form (\<open>wide_range_accepted\<close>), other spellings for they
  are not applied (\<open>spelled_push_is_not_applied\<close>).
\<close>

theorem pushed_setting_survives_restart:
  assumes "applyAgentSettings h d fs io vals r = (Ok (applied, restartRequired), r')"
    and "(key_name k, raw) \<in> set vals" and "distinct (map fst vals)"
    and "list_all (\<lambda>p. AgentSettingDefinitionByKey (fst p) = Some k \<longrightarrow> fst p = key_name k) vals"
    and "k \<notin> set (sr_pinned r)" and "k \<notin> set (envPinnedSettings (sw_env w))"
    and "k \<noteq> KeyDockerEndpoint" and "k \<noteq> KeyServicesDiscoveryLANScanCIDRs"
    and "LoadAgentSettingsFile h d (sr_path r) (sr_settings r) = Some vs" and "fair_order io"
    and "si_configDir io \<and> si_writeApplied io" and "si_configDir io'"
  shows "\<exists>v. NormalizeAgentSettingValue h d (key_name k) raw = Ok v \<and> (key_name k, v) \<in> set applied \<and>
           (map_of (sr_running r) k = None \<longrightarrow> reported_value r' k = v) \<and>
           reported_value (settings_apply w (Restarted io') r') k = v"
proof -
  define a0 where "a0 = \<lparr>aa_rt = r, aa_applied = [], aa_write = False, aa_root = False, aa_kept = []\<rparr>"
  obtain e b where l0: "apply_loop h d vals a0 = (e, b)" by fastforce
  have l: "apply_loop h d vals a0 = (None, b)"
    using assms(1) l0 by (cases e) (simp_all add: applyAgentSettings_def a0_def [symmetric])
  obtain v where v: "NormalizeAgentSettingValue h d (key_name k) raw = Ok v" "(key_name k, v) \<in> set (aa_applied b)"
    and k: "\<not> sd_LocalOnly (definition_of k)" and holds: "holds_value k v (aa_rt b)"
    using loop_value [OF l assms(2,3)] assms(5) by (auto simp: a0_def)
  have stable: "stable_key k" using assms(7,8) by (simp add: stable_key_def)
  note again = normal_stable [OF v(1) stable] and t = normal_type_value [OF v(1)]
  have frame: "push_frame r (aa_rt b)" using loop_frame [OF l] by (simp add: a0_def)
  define r1 where "r1 = apply_root_mode fs (aa_root b) (aa_rt b)"
  have r1: "sr_path r1 = sr_path r" "sr_settings r1 = sr_settings r" "sr_running r1 = sr_running r"
    "sr_cfg r1 = sr_cfg (aa_rt b)" "sr_collectOverride r1 = sr_collectOverride (aa_rt b)"
    "sr_heartbeatOverride r1 = sr_heartbeatOverride (aa_rt b)"
    using frame by (simp_all add: r1_def push_frame_def)
  have p: "persist_applied h d io b r1 = (None, r')" and applied: "applied = aa_applied b"
    using assms(1) l v(2) by (auto simp: applyAgentSettings_def a0_def [symmetric] r1_def Let_def split: if_splits prod.splits option.splits)
  obtain g where save: "SaveAgentSettingsFile h d (sr_path r) (si_save io) (si_order io (merge_values (aa_applied b) vs)) (sr_settings r) = (None, g)"
    and r': "sr_settings r' = g" "sr_path r' = sr_path r" "sr_cfg r' = sr_cfg (aa_rt b)" "sr_running r' = sr_running r"
      "sr_collectOverride r' = sr_collectOverride (aa_rt b)" "sr_heartbeatOverride r' = sr_heartbeatOverride (aa_rt b)"
      "aa_write b \<and> (sr_collectOverride (aa_rt b) \<noteq> 0 \<or> sr_heartbeatOverride (aa_rt b) \<noteq> 0) \<longrightarrow>
       sr_applied r' = Some (sr_collectOverride (aa_rt b), sr_heartbeatOverride (aa_rt b))"
    by (rule persist_ok [OF p, of vs]) (use assms(9,11) in \<open>simp_all add: r1\<close>)
  have holds': "holds_value k v r'"
    using holds r' by (simp add: holds_value_def)
  have spelled: "\<forall>q \<in> set (aa_applied b). spells k (fst q) \<longrightarrow> fst q = key_name k"
    using loop_pushable [OF l] assms(4) by (fastforce simp: a0_def pushable_def list_all_iff spells_def)
  have distinct: "distinct (map fst (aa_applied b))" using loop_distinct [OF l] assms(3) by (simp add: a0_def)
  have restarted: "reported_value (settings_apply w (Restarted io') r') k = v"
  proof (cases "interval_key k")
    case True
    then have "aa_write b" using loop_write [OF l _ v(2)] by (simp add: a0_def)
    moreover have "sr_collectOverride r' \<noteq> 0 \<or> sr_heartbeatOverride r' \<noteq> 0"
      using holds' True interval_value(1) [OF True t] by (auto simp: holds_value_def interval_key_def)
    ultimately have "sr_applied r' = Some (sr_collectOverride r', sr_heartbeatOverride r')" using r' by simp
    with True t assms(6,12) holds' show ?thesis
      by (intro start_reported_interval) (auto simp: holds_value_def)
  next
    case False
    have "file_setting (sw_host w) (sw_dns w) (sr_path r') (sr_settings r') k = Some v"
      using save_pushed [OF assms(9) save assms(10) distinct v(2) spelled] again r' by simp
    then show ?thesis
      using start_reported [OF _ assms(6) _ t] False k again by force
  qed
  have now: "map_of (sr_running r) k = None \<longrightarrow> reported_value r' k = v"
    using holds_reported [OF holds' t k] again r' by simp
  show ?thesis
    by (rule exI [of _ v], intro conjI) (use v now restarted in \<open>simp_all only: applied\<close>)
qed

theorem pushed_setting_survives_restart_witness:
  "let (res, r') = demo_push [(''capture_fps'', ''060''), (''log_level'', ''error'')] demo_rt
   in res = Ok ([(''capture_fps'', ''60'')], False) \<and> reported_value r' KeyCaptureFPS = ''60'' \<and>
      reported_value (settings_apply demo_settings_world (Restarted demo_settings_io) r') KeyCaptureFPS = ''60''"
proof -
  let ?vals = "[(''capture_fps'', ''060''), (''log_level'', ''error'')]"
  obtain res r' where p: "demo_push ?vals demo_rt = (res, r')" by fastforce
  have "fst (demo_push ?vals demo_rt) = Ok ([(''capture_fps'', ''60'')], False)" by code_simp
  with p have res: "res = Ok ([(''capture_fps'', ''60'')], False)" by simp
  have n: "NormalizeAgentSettingValue demo_env demo_dns (key_name KeyCaptureFPS) ''060'' = Ok ''60''" by code_simp
  have pins: "KeyCaptureFPS \<notin> set (envPinnedSettings (sw_env demo_settings_world))" by code_simp
  have load: "LoadAgentSettingsFile demo_env demo_dns (sr_path demo_rt) (sr_settings demo_rt) = Some []" by code_simp
  have run: "map_of (sr_running demo_rt) KeyCaptureFPS = None" by code_simp
  have "\<exists>v. NormalizeAgentSettingValue demo_env demo_dns (key_name KeyCaptureFPS) ''060'' = Ok v \<and>
      (key_name KeyCaptureFPS, v) \<in> set [(''capture_fps'', ''60'')] \<and>
      (map_of (sr_running demo_rt) KeyCaptureFPS = None \<longrightarrow> reported_value r' KeyCaptureFPS = v) \<and>
      reported_value (settings_apply demo_settings_world (Restarted demo_settings_io) r') KeyCaptureFPS = v"
  proof (rule pushed_setting_survives_restart)
    show "applyAgentSettings demo_env demo_dns demo_fs demo_settings_io ?vals demo_rt = (Ok ([(''capture_fps'', ''60'')], False), r')"
      using p res by (simp add: demo_push_def)
    show "list_all (\<lambda>p. AgentSettingDefinitionByKey (fst p) = Some KeyCaptureFPS \<longrightarrow> fst p = key_name KeyCaptureFPS) ?vals"
      by code_simp
    show "KeyCaptureFPS \<notin> set (sr_pinned demo_rt)" by code_simp
  qed (use load pins demo_fair in \<open>simp_all add: demo_settings_io_def\<close>)
  then obtain v where "NormalizeAgentSettingValue demo_env demo_dns (key_name KeyCaptureFPS) ''060'' = Ok v" "reported_value r' KeyCaptureFPS = v"
      "reported_value (settings_apply demo_settings_world (Restarted demo_settings_io) r') KeyCaptureFPS = v"
    using run by blast
  then have "reported_value r' KeyCaptureFPS = ''60''"
    "reported_value (settings_apply demo_settings_world (Restarted demo_settings_io) r') KeyCaptureFPS = ''60''"
    using n by auto
  then show ?thesis unfolding p res by (simp only: prod.case Let_def simp_thms)
qed

text \<open>
  The reporting intervals stay within their limits. Whatever the Hub sends and whatever the two
  files contain at any start, the collect interval in force is between 2 and 300 seconds and the
  heartbeat interval between 5 and 600, provided the environment's own intervals are.
\<close>

theorem intervals_in_force_bounded:
  assumes "2 * second \<le> sc_CollectInterval (sw_cfg w)" and "sc_CollectInterval (sw_cfg w) \<le> 300 * second"
    and "5 * second \<le> sc_HeartbeatInterval (sw_cfg w)" and "sc_HeartbeatInterval (sw_cfg w) \<le> 600 * second"
  shows "let r' = settings_run w es (settings_apply w (Restarted io) r)
         in 2 \<le> effectiveCollectIntervalSec r' \<and> effectiveCollectIntervalSec r' \<le> 300 \<and>
            5 \<le> effectiveHeartbeatIntervalSec r' \<and> effectiveHeartbeatIntervalSec r' \<le> 600"
proof -
  have w: "between 2 300 (sc_CollectInterval (sw_cfg w))" "between 5 600 (sc_HeartbeatInterval (sw_cfg w))"
    using assms by (simp_all add: between_def)
  have "intervals_ok (settings_run w es (settings_apply w (Restarted io) r))"
    using intervals_start [OF w]
    by (rule settings.run_keeps [where ok = "\<lambda>_. True"]) (simp_all add: list_all_iff intervals_event [OF w] del: settings_apply.simps)
  then show ?thesis
    using between_duration by (auto simp: intervals_ok_def effectiveCollectIntervalSec_def effectiveHeartbeatIntervalSec_def Let_def)
qed

theorem intervals_in_force_bounded_witness:
  "2 * second \<le> sc_CollectInterval (sw_cfg demo_settings_world) \<and>
   effectiveCollectIntervalSec (settings_run demo_settings_world demo_events (settings_apply demo_settings_world (Restarted demo_settings_io) demo_rt)) \<le> 300"
  using intervals_in_force_bounded [of demo_settings_world demo_events demo_settings_io demo_rt]
  by (simp add: demo_settings_world_def demo_settings_def second_def Let_def)

text \<open>
  C20. The file manager enforces the files setting. From a start on, through updates, pushes and
  restarts, as long as no push was answered with a failed setting, the file manager has the scope of
  the mode the configuration names, all of it: the base directory (the root of the file system in full
  mode, else the home directory), the directory \<open>~\<close> stands for and the extra roots are those of that
  mode, so every path is judged as a manager started in that mode would judge it. (After a failed
  push it need not be: see \<open>failed_push_hides_root_mode\<close>.)
\<close>

theorem file_scope_follows_setting:
  assumes "list_all (\<lambda>m. \<not> failed_answer m) (sr_sent (settings_run w es (settings_apply w (Restarted io) r)))"
  shows "let r' = settings_run w es (settings_apply w (Restarted io) r);
             mode = mode_of (sc_FileRootMode (sr_cfg r'));
             home = ResolveAgentFileHomeDir (sw_fs w)
         in case sr_files r' of
              None \<Rightarrow> True
            | Some fm \<Rightarrow> fm_rootMode fm = mode \<and> fm_HomeDir fm = home \<and>
                fm_BaseDir fm = ResolveFileBaseDirWithHome (sw_fs w) mode home \<and> fm_extraRoots fm = rootsForMode mode \<and>
                openScopedPath fs fm raw = openScopedPath fs (NewManager (sw_fs w) mode) raw"
proof -
  let ?r = "settings_run w es (settings_apply w (Restarted io) r)"
  have f: "files_follow (sw_fs w) ?r"
    using files_follow_run [OF files_follow_start assms] .
  have "NewManager (sw_fs w) (sc_FileRootMode (sr_cfg ?r)) = NewManager (sw_fs w) (mode_of (sc_FileRootMode (sr_cfg ?r)))"
    by (rule NewManager_mode) simp
  with f show ?thesis
    by (cases "sr_files ?r") (auto simp: files_follow_def Let_def NewManager_def simp del: settings_apply.simps)
qed

theorem file_scope_follows_setting_witness:
  "let r' = settings_run demo_settings_world [HubUpdate demo_settings_io (Some (Some 30, None))]
        (settings_apply demo_settings_world (Restarted demo_settings_io) demo_rt)
   in (case sr_files r' of None \<Rightarrow> True
       | Some fm \<Rightarrow> fm_BaseDir fm = ResolveFileBaseDirWithHome demo_fs (mode_of (sc_FileRootMode (sr_cfg r'))) (ResolveAgentFileHomeDir demo_fs))"
proof -
  let ?s = "settings_apply demo_settings_world (Restarted demo_settings_io) demo_rt"
  let ?es = "[HubUpdate demo_settings_io (Some (Some 30, None))]"
  have "sr_sent ?s = []" using start_sent [of demo_settings_world demo_settings_io demo_rt] by (simp add: demo_rt_def del: settings_apply.simps)
  then have "list_all (\<lambda>m. \<not> failed_answer m) (sr_sent (handleConfigUpdate demo_settings_io (Some (Some 30, None)) ?s))"
    using config_update_cases [of demo_settings_io "Some (Some 30, None)" ?s]
    by (elim disjE exE) (simp_all add: sendLegacyConfigApplied_def send_msg_def del: settings_apply.simps)
  then have q: "list_all (\<lambda>m. \<not> failed_answer m) (sr_sent (settings_run demo_settings_world ?es ?s))"
    by simp
  have "sw_fs demo_settings_world = demo_fs"
    by (simp add: demo_settings_world_def)
  with file_scope_follows_setting [OF q, of demo_fs "[]"] show ?thesis
    by (auto simp: Let_def simp del: settings_apply.simps settings_run.simps split: option.splits)
qed

end
