(* ===== verification/Reconnect.thy ===== *)
theory Reconnect
  imports Transport
begin

text \<open>
  Reconnecting to the Hub: \<open>ws_reconnect.go\<close> and \<open>ws_connect_reason.go\<close> (\<open>internal/agentcore\<close>).
  A Go error is modelled by its text and by what \<open>errors.As\<close> and \<open>errors.Is\<close> find in its chain.
  One turn of \<open>reconnectLoop\<close> is a function of the loop's state and of everything the turn reads
  from outside: the outcome of the dial, the random number behind the jitter, the clock, and the
  answer of the re-enrollment callback. Durations are nanoseconds.
\<close>

section \<open>Classifying a failed connect\<close>

record go_error =
  ge_text :: string
  ge_opDial :: bool
  ge_unknownAuthority :: bool
  ge_certInvalid :: bool
  ge_hostname :: bool
  ge_certVerification :: bool
  ge_dns :: bool
  ge_refused :: bool
  ge_hostUnreach :: bool
  ge_netUnreach :: bool
  ge_eperm :: bool
  ge_deadline :: bool
  ge_osDeadline :: bool
  ge_etimedout :: bool
  ge_netTimeout :: bool

datatype connectErrorKind = errKindNone | errKindAuth | errKindTransient

fun kind_String :: "connectErrorKind \<Rightarrow> string" where
  "kind_String errKindNone = ''none''"
| "kind_String errKindAuth = auth_failed"
| "kind_String errKindTransient = ''transient''"

text \<open>A failed attempt carries the HTTP status when there was a response.\<close>

definition classifyConnectError :: "go_error option \<Rightarrow> int option \<Rightarrow> connectErrorKind" where
  "classifyConnectError err resp =
     (if err = None then errKindNone
      else case resp of
             Some status \<Rightarrow> if status = 401 \<or> status = 403 then errKindAuth else errKindTransient
           | None \<Rightarrow> errKindTransient)"

fun containsAny :: "string \<Rightarrow> string list \<Rightarrow> bool" where
  "containsAny text [] = False"
| "containsAny text (needle # rest) = (if Contains text needle then True else containsAny text rest)"

definition isTLSTrustError :: "go_error \<Rightarrow> bool" where
  "isTLSTrustError err \<longleftrightarrow>
     (let lower = ToLower (ge_text err)
      in if \<not> Contains lower ''x509:'' then False
         else Contains lower ''unknown authority'' \<or> Contains lower ''failed to verify certificate''
              \<or> Contains lower ''certificate is not trusted'')"

definition isDialError :: "go_error \<Rightarrow> bool" where
  "isDialError err \<longleftrightarrow> ge_opDial err"

definition isCertificateError :: "go_error \<Rightarrow> bool" where
  "isCertificateError err \<longleftrightarrow> ge_unknownAuthority err \<or> ge_certInvalid err \<or> ge_hostname err \<or> ge_certVerification err
     \<or> isTLSTrustError err"

definition isNameLookupError :: "go_error \<Rightarrow> bool" where
  "isNameLookupError err \<longleftrightarrow>
     (if ge_dns err then True
      else let lower = ToLower (ge_text err)
           in Contains lower ''lookup '' \<and> containsAny lower [''no such host'', ''server misbehaving''])"

definition isTimeoutError :: "go_error \<Rightarrow> bool" where
  "isTimeoutError err \<longleftrightarrow> ge_deadline err \<or> ge_osDeadline err \<or> ge_etimedout err \<or> ge_netTimeout err"

definition connectReasonNameLookup :: string where "connectReasonNameLookup = ''name_lookup_failed''"
definition connectReasonRefused :: string where "connectReasonRefused = ''connection_refused''"
definition connectReasonUnreachable :: string where "connectReasonUnreachable = ''host_unreachable''"
definition connectReasonTimedOut :: string where "connectReasonTimedOut = ''timed_out''"
definition connectReasonCertificate :: string where "connectReasonCertificate = ''certificate_untrusted''"
definition connectReasonTokenRejected :: string where "connectReasonTokenRejected = ''token_rejected''"

definition classifyConnectReason :: "go_error option \<Rightarrow> int option \<Rightarrow> string" where
  "classifyConnectReason err resp =
     (case err of
        None \<Rightarrow> []
      | Some e \<Rightarrow>
          if classifyConnectError err resp = errKindAuth then connectReasonTokenRejected
          else let lower = ToLower (ge_text e)
               in if isCertificateError e then connectReasonCertificate
                  else if isNameLookupError e then connectReasonNameLookup
                  else if ge_refused e \<or> containsAny lower [''connection refused'', ''actively refused'']
                    then connectReasonRefused
                  else if ge_hostUnreach e \<or> ge_netUnreach e \<or> ge_eperm e
                       \<or> containsAny lower [''no route to host'', ''host is down'', ''network is unreachable'',
                            ''host is unreachable'', ''unreachable host'', ''unreachable network'']
                    then connectReasonUnreachable
                  else if isTimeoutError e \<or> containsAny lower [''i/o timeout'', ''timed out'', ''did not properly respond'']
                    then connectReasonTimedOut
                  else if isDialError e then connectReasonUnreachable
                  else [])"

section \<open>The loop\<close>

definition second :: int where "second = 1000000000"
definition maxBackoff :: int where "maxBackoff = 60 * second"
definition authBackoff :: int where "authBackoff = 5 * 60 * second"
definition authFailureThreshold :: int where "authFailureThreshold = 3"
definition reEnrollInterval :: int where "reEnrollInterval = 10 * 60 * second"

text \<open>\<open>rnd\<close> is the number \<open>cryptorand.Int\<close> draws, reduced to its range, or \<open>None\<close> for its error.\<close>

definition jitterDuration :: "int option \<Rightarrow> int \<Rightarrow> int" where
  "jitterDuration rnd mx = (if mx \<le> 0 then 0 else case rnd of None \<Rightarrow> 0 | Some n \<Rightarrow> n mod mx)"

text \<open>The float minimum of the code is exact: both values are below \<open>2 ^ 53\<close>.\<close>

definition next_backoff :: "int \<Rightarrow> int" where
  "next_backoff backoff = min (backoff * 2) maxBackoff"

record rc_state =
  rc_t :: transport
  rc_backoff :: int
  rc_canReEnroll :: bool
  rc_calls :: "int list"

record rc_input =
  in_ctxDone :: bool
  in_env :: "nat \<Rightarrow> tr_op list"
  in_dial :: dial_outcome
  in_ctxErr :: bool
  in_writeOk :: bool
  in_error :: "connect_error \<Rightarrow> go_error"
  in_now :: int
  in_rnd :: "int option"
  in_check :: int
  in_reenroll :: "(string, string) result"
  in_reops :: "tr_op list"
  in_done :: int

datatype loop_action = Stop | Sleep int | RetryNow | Online bool

text \<open>The HTTP response that comes with an error: none before the dial, 101 after a successful upgrade.\<close>

fun response_status :: "connect_error \<Rightarrow> int option" where
  "response_status (ConnURL _) = None"
| "response_status (ConnDial s _) = s"
| "response_status _ = Some 101"

definition note_failure :: "rc_input \<Rightarrow> connect_error \<Rightarrow> transport \<Rightarrow> transport" where
  "note_failure i e t =
     t\<lparr>t_lastError := kind_String (classifyConnectError (Some (in_error i e)) (response_status e)),
       t_lastErrorReason := classifyConnectReason (Some (in_error i e)) (response_status e),
       t_lastErrorAt := in_now i,
       t_disconnectedAt := (if t_disconnectedAt t = 0 then in_now i else t_disconnectedAt t)\<rparr>"

text \<open>
  Re-enrollment through the callback: a success replaces the token and disarms the callback, a
  refusal is kept for the status page (\<open>in_reenroll\<close> holds the Hub's words, or nothing).
\<close>

definition try_reenroll :: "rc_input \<Rightarrow> transport_cfg \<Rightarrow> rc_state \<Rightarrow> rc_state \<times> loop_action" where
  "try_reenroll i tc s =
     (let s1 = s\<lparr>rc_t := tr_run tc (in_reops i) (rc_t s), rc_calls := in_check i # rc_calls s\<rparr>
      in case in_reenroll i of
           Inr newToken \<Rightarrow>
             (s1\<lparr>rc_t := (updateToken newToken (rc_t s1))\<lparr>t_lastReEnrollAt := in_done i\<rparr>, rc_backoff := second,
                 rc_canReEnroll := False\<rparr>, RetryNow)
         | Inl refusal \<Rightarrow>
             (s1\<lparr>rc_t := (if refusal \<noteq> [] then setEnrollmentRefusal refusal (rc_t s1) else rc_t s1)
                   \<lparr>t_lastReEnrollAt := in_done i\<rparr>\<rparr>, Sleep authBackoff))"

definition wait_and_double :: "rc_input \<Rightarrow> rc_state \<Rightarrow> rc_state \<times> loop_action" where
  "wait_and_double i s =
     (s\<lparr>rc_backoff := next_backoff (rc_backoff s)\<rparr>,
      Sleep (rc_backoff s + jitterDuration (in_rnd i) (rc_backoff s div 4)))"

definition reconnect_failed :: "rc_input \<Rightarrow> transport_cfg \<Rightarrow> connect_error \<Rightarrow> rc_state \<Rightarrow> rc_state \<times> loop_action" where
  "reconnect_failed i tc e s0 =
     (let s = s0\<lparr>rc_t := note_failure i e (rc_t s0)\<rparr>
      in if classifyConnectError (Some (in_error i e)) (response_status e) = errKindAuth then
           let failures = t_authFailures (rc_t s) + 1;
               s1 = s\<lparr>rc_t := (rc_t s)\<lparr>t_authFailures := failures\<rparr>\<rparr>
           in if failures \<ge> authFailureThreshold then
                (if rc_canReEnroll s1
                    \<and> (t_lastReEnrollAt (rc_t s1) = 0 \<or> in_check i - t_lastReEnrollAt (rc_t s1) > reEnrollInterval)
                 then try_reenroll i tc s1
                 else (s1, Sleep authBackoff))
              else wait_and_double i s1
         else wait_and_double i s)"

definition reconnect_turn :: "rc_input \<Rightarrow> transport_cfg \<Rightarrow> rc_state \<Rightarrow> rc_state \<times> loop_action" where
  "reconnect_turn i tc s =
     (if in_ctxDone i then (s, Stop)
      else if socketOpen (rc_t s) then (s, Sleep second)
      else if waitingAfterRejection (rc_t s) then (s, Sleep (5 * second))
      else case connectWithResponse tc (in_env i) (in_now i) (in_ctxErr i) (in_writeOk i) (in_dial i) (rc_t s) of
             (Some e, t1) \<Rightarrow> reconnect_failed i tc e (s\<lparr>rc_t := t1\<rparr>)
           | (None, t1) \<Rightarrow>
               (s\<lparr>rc_t := t1\<lparr>t_reconnects := t_reconnects t1 + 1\<rparr>, rc_backoff := second\<rparr>, Online (Connected t1)))"

text \<open>A turn of the inner loop that waits for the socket to close, and the deferred cleanup.\<close>

definition online_tick :: "bool \<Rightarrow> int \<Rightarrow> transport \<Rightarrow> transport" where
  "online_tick networkChanged now t =
     (if socketOpen t \<and> networkChanged then markDisconnected now t else t)"

definition reconnect_exit :: "int \<Rightarrow> transport \<Rightarrow> transport" where
  "reconnect_exit now t = markDisconnected now (t\<lparr>t_lastError := [], t_lastErrorReason := []\<rparr>)"

text \<open>
  The loop with what other goroutines do to the transport between its turns. Within a turn the
  clock does not go backwards, and it never shows the zero time.
\<close>

inductive rc_step :: "transport_cfg \<Rightarrow> rc_state \<Rightarrow> loop_action \<Rightarrow> rc_state \<Rightarrow> bool" for tc where
  turn: "reconnect_turn i tc s = (s', a) \<Longrightarrow> in_check i \<le> in_done i \<Longrightarrow> in_done i \<noteq> 0 \<Longrightarrow> rc_step tc s a s'"
| others: "rc_step tc s RetryNow (s\<lparr>rc_t := tr_run tc ps (rc_t s)\<rparr>)"
| online: "rc_step tc s RetryNow (s\<lparr>rc_t := online_tick n now (rc_t s)\<rparr>)"

definition rc_init :: "rc_state \<Rightarrow> bool" where
  "rc_init s \<longleftrightarrow> rc_backoff s = second \<and> rc_calls s = [] \<and> t_lastReEnrollAt (rc_t s) = 0"

section \<open>Bounds of the waits\<close>

definition rc_inv :: "rc_state \<Rightarrow> bool" where
  "rc_inv s \<longleftrightarrow> second \<le> rc_backoff s \<and> rc_backoff s \<le> maxBackoff"

lemma next_backoff_bounds: "second \<le> b \<Longrightarrow> b \<le> maxBackoff \<Longrightarrow> second \<le> next_backoff b \<and> next_backoff b \<le> maxBackoff"
  by (simp add: next_backoff_def maxBackoff_def second_def)

lemma jitterDuration_bounds: "0 \<le> m \<Longrightarrow> 0 \<le> jitterDuration rnd m \<and> jitterDuration rnd m \<le> m"
  by (cases rnd) (auto simp: jitterDuration_def intro: order_less_imp_le pos_mod_bound)

lemma wait_and_double_inv:
  assumes "rc_inv s" and "wait_and_double i s = (s', a)"
  shows "rc_inv s' \<and> (\<exists>d. a = Sleep d \<and> rc_backoff s \<le> d \<and> d \<le> rc_backoff s + rc_backoff s div 4)"
proof -
  have "0 \<le> rc_backoff s div 4"
    using assms(1) by (auto simp: rc_inv_def second_def intro: pos_imp_zdiv_nonneg_iff [THEN iffD2])
  then show ?thesis
    using assms next_backoff_bounds [of "rc_backoff s"] jitterDuration_bounds [of "rc_backoff s div 4" "in_rnd i"]
    by (auto simp: wait_and_double_def rc_inv_def)
qed

lemma rc_inv_t [simp]: "rc_inv (s\<lparr>rc_t := t\<rparr>) = rc_inv s" "rc_inv (s\<lparr>rc_calls := cs\<rparr>) = rc_inv s"
  by (simp_all add: rc_inv_def)

lemma rc_inv_second [simp]: "rc_inv (s\<lparr>rc_backoff := second\<rparr>)"
  by (simp add: rc_inv_def second_def maxBackoff_def)

text \<open>What a failed attempt leads to: either the growing wait, or the five minutes after repeated refusals.\<close>

definition sleep_ok :: "int \<Rightarrow> loop_action \<Rightarrow> bool" where
  "sleep_ok b a \<longleftrightarrow> (case a of Sleep d \<Rightarrow> d = authBackoff \<or> b \<le> d \<and> d \<le> b + b div 4 | _ \<Rightarrow> True)"

lemma reconnect_failed_inv:
  assumes "rc_inv s" and "reconnect_failed i tc e s = (s', a)"
  shows "rc_inv s' \<and> sleep_ok (rc_backoff s) a"
proof -
  let ?s = "s\<lparr>rc_t := note_failure i e (rc_t s)\<rparr>"
  have wd: "rc_inv s'' \<and> sleep_ok (rc_backoff s) b" if "wait_and_double i (?s\<lparr>rc_t := t\<rparr>) = (s'', b)" for t s'' b
    using wait_and_double_inv [OF _ that] assms(1) by (auto simp: sleep_ok_def)
  have wd': "rc_inv s'' \<and> sleep_ok (rc_backoff s) b" if "wait_and_double i ?s = (s'', b)" for s'' b
    using wait_and_double_inv [OF _ that] assms(1) by (auto simp: sleep_ok_def)
  have re: "rc_inv s'' \<and> sleep_ok (rc_backoff s) b" if "try_reenroll i tc (?s\<lparr>rc_t := t\<rparr>) = (s'', b)" for t s'' b
    using that assms(1) by (auto simp: try_reenroll_def Let_def sleep_ok_def rc_inv_def maxBackoff_def second_def split: sum.splits)
  show ?thesis
    using assms wd wd' re
    by (auto simp: reconnect_failed_def Let_def split: if_splits) (auto simp: sleep_ok_def)
qed

lemma reconnect_turn_inv:
  assumes "rc_inv s" and "reconnect_turn i tc s = (s', a)"
  shows "rc_inv s' \<and> (\<forall>d. a = Sleep d \<longrightarrow> second \<le> d \<and> d \<le> authBackoff)"
proof (cases "in_ctxDone i \<or> socketOpen (rc_t s) \<or> waitingAfterRejection (rc_t s)")
  case True
  with assms show ?thesis
    by (auto simp: reconnect_turn_def second_def authBackoff_def split: if_splits)
next
  case False
  obtain r t1 where c: "connectWithResponse tc (in_env i) (in_now i) (in_ctxErr i) (in_writeOk i) (in_dial i) (rc_t s) = (r, t1)"
    by (cases "connectWithResponse tc (in_env i) (in_now i) (in_ctxErr i) (in_writeOk i) (in_dial i) (rc_t s)")
  show ?thesis
  proof (cases r)
    case None
    with False c assms show ?thesis
      by (auto simp: reconnect_turn_def rc_inv_def second_def maxBackoff_def)
  next
    case (Some e)
    then have "reconnect_failed i tc e (s\<lparr>rc_t := t1\<rparr>) = (s', a)"
      using False c assms(2) by (auto simp: reconnect_turn_def)
    from reconnect_failed_inv [OF _ this] assms(1) have "rc_inv s'" "sleep_ok (rc_backoff s) a"
      by simp_all
    with assms(1) show ?thesis
      by (auto simp: sleep_ok_def rc_inv_def second_def maxBackoff_def authBackoff_def)
  qed
qed

interpretation reconnect: invariant_system rc_init "rc_step tc" rc_inv for tc
proof
  show "rc_init s \<Longrightarrow> rc_inv s" for s
    by (simp add: rc_init_def rc_inv_def second_def maxBackoff_def)
  show "rc_inv s \<Longrightarrow> rc_step tc s l t \<Longrightarrow> rc_inv t" for s l t
    by (auto elim!: rc_step.cases dest: reconnect_turn_inv)
qed

section \<open>Re-enrollment\<close>

lemma apply_lastReEnroll: "t_lastReEnrollAt (tr_apply tc p t) = t_lastReEnrollAt t"
  by (cases p)
    (auto simp: ping_tick_def handleEnrollmentRejected_def markEnrollmentRejected_def updateToken_def receive_end_def
      setCredentialPersistenceError_def setEnrollmentRefusal_def setCredentialError_def markDisconnectedIfCurrent_def
      CloseTransport_def teardown_defs Let_def sendOnConnection_def handleEnrollmentApproved_def case_prod_beta
      markDisconnected_def handleEnrollmentChallenge_def split: option.splits sum.splits)

lemma run_lastReEnroll [simp]: "t_lastReEnrollAt (tr_run tc ps t) = t_lastReEnrollAt t"
  by (induction ps arbitrary: t) (simp_all add: apply_lastReEnroll)

lemma disconnect_lastReEnroll [simp]: "t_lastReEnrollAt (markDisconnected now t) = t_lastReEnrollAt t"
  using apply_lastReEnroll [of undefined "OpMarkDisconnected now None" t] by (simp add: markDisconnected_def)

lemma connect_lastReEnroll:
  assumes "connectWithResponse tc env now ctxErr w dial t = (r, t')"
  shows "t_lastReEnrollAt t' = t_lastReEnrollAt t"
proof -
  have a: "t_lastReEnrollAt v = t_lastReEnrollAt u" if "adopt_asset tc w snap x u = (q, v)" for snap x u q v
    using that by (auto simp: adopt_asset_def split: if_splits sum.splits prod.splits)
  have p: "t_lastReEnrollAt v = t_lastReEnrollAt u" if "connect_publish tc env now ctxErr c tok ci u = (q, v)" for c tok ci u q v
    using that by (auto simp: connect_publish_def Let_def closeConn_def publish_def stop_ping_def split: if_splits option.splits)
  show ?thesis
    using assms
    by (auto simp: connectWithResponse_def Let_def closeConn_def register_dial_def
        split: sum.splits dial_outcome.splits if_splits prod.splits dest!: a p)
qed

text \<open>The times of the calls, newest first: each is more than the interval after the one before.\<close>

definition calls_ok :: "rc_state \<Rightarrow> bool" where
  "calls_ok s \<longleftrightarrow> sorted_wrt (\<lambda>a b. a - b > reEnrollInterval) (rc_calls s)
     \<and> (\<forall>x \<in> set (rc_calls s). x \<le> t_lastReEnrollAt (rc_t s) \<and> t_lastReEnrollAt (rc_t s) \<noteq> 0)"

lemma calls_ok_frame:
  "t_lastReEnrollAt t = t_lastReEnrollAt (rc_t s) \<Longrightarrow> calls_ok s \<Longrightarrow> calls_ok (s\<lparr>rc_t := t\<rparr>)"
  "calls_ok s \<Longrightarrow> calls_ok (s\<lparr>rc_backoff := b\<rparr>)" "calls_ok s \<Longrightarrow> calls_ok (s\<lparr>rc_canReEnroll := c\<rparr>)"
  by (simp_all add: calls_ok_def)

lemma try_reenroll_calls:
  assumes "calls_ok s" and "try_reenroll i tc s = (s', a)" and "in_check i \<le> in_done i" and "in_done i \<noteq> 0"
    and "t_lastReEnrollAt (rc_t s) = 0 \<or> in_check i - t_lastReEnrollAt (rc_t s) > reEnrollInterval"
  shows "calls_ok s'"
proof -
  have i: "0 < reEnrollInterval"
    by (simp add: reEnrollInterval_def second_def)
  have gap: "in_check i - x > reEnrollInterval \<and> x \<le> in_done i" if "x \<in> set (rc_calls s)" for x
    using assms(1,3,5) that i unfolding calls_ok_def by fastforce
  have eq: "rc_calls s' = in_check i # rc_calls s" "t_lastReEnrollAt (rc_t s') = in_done i"
    using assms(2) by (auto simp: try_reenroll_def Let_def split: sum.splits)
  show ?thesis
    using assms(1,3,4) gap unfolding calls_ok_def eq by auto
qed

lemma reconnect_turn_calls:
  assumes "calls_ok s" and "reconnect_turn i tc s = (s', a)" and "in_check i \<le> in_done i" and "in_done i \<noteq> 0"
  shows "calls_ok s'"
proof (cases "in_ctxDone i \<or> socketOpen (rc_t s) \<or> waitingAfterRejection (rc_t s)")
  case False
  obtain r t1 where c: "connectWithResponse tc (in_env i) (in_now i) (in_ctxErr i) (in_writeOk i) (in_dial i) (rc_t s) = (r, t1)"
    by (cases "connectWithResponse tc (in_env i) (in_now i) (in_ctxErr i) (in_writeOk i) (in_dial i) (rc_t s)")
  have l: "t_lastReEnrollAt t1 = t_lastReEnrollAt (rc_t s)"
    by (rule connect_lastReEnroll [OF c])
  show ?thesis
  proof (cases r)
    case None
    with False c assms l show ?thesis
      by (auto simp: reconnect_turn_def calls_ok_def)
  next
    case (Some e)
    then have f: "reconnect_failed i tc e (s\<lparr>rc_t := t1\<rparr>) = (s', a)"
      using False c assms(2) by (auto simp: reconnect_turn_def)
    have ok: "calls_ok (s\<lparr>rc_t := t\<rparr>)" if "t_lastReEnrollAt t = t_lastReEnrollAt t1" for t
      using assms(1) l that by (intro calls_ok_frame) auto
    have n: "t_lastReEnrollAt (note_failure i e t) = t_lastReEnrollAt t" for t
      by (simp add: note_failure_def)
    have re: "calls_ok s'" if "try_reenroll i tc (s\<lparr>rc_t := t\<rparr>) = (s', a)" and "t_lastReEnrollAt t = t_lastReEnrollAt t1"
        and "t_lastReEnrollAt t = 0 \<or> in_check i - t_lastReEnrollAt t > reEnrollInterval" for t
      using try_reenroll_calls [OF ok [OF that(2)] that(1) assms(3,4)] that(3) by simp
    have wd: "calls_ok s'" if "wait_and_double i (s\<lparr>rc_t := t\<rparr>) = (s', a)" and "t_lastReEnrollAt t = t_lastReEnrollAt t1" for t
      using ok [OF that(2)] that(1) by (auto simp: wait_and_double_def intro: calls_ok_frame)
    let ?t = "note_failure i e t1"
    let ?t1 = "?t\<lparr>t_authFailures := t_authFailures ?t + 1\<rparr>"
    have l1: "t_lastReEnrollAt ?t = t_lastReEnrollAt t1" "t_lastReEnrollAt ?t1 = t_lastReEnrollAt t1"
      using n by simp_all
    consider "try_reenroll i tc (s\<lparr>rc_t := ?t1\<rparr>) = (s', a)"
          "t_lastReEnrollAt ?t1 = 0 \<or> in_check i - t_lastReEnrollAt ?t1 > reEnrollInterval"
      | "s' = s\<lparr>rc_t := ?t1\<rparr>" | "wait_and_double i (s\<lparr>rc_t := ?t1\<rparr>) = (s', a)" | "wait_and_double i (s\<lparr>rc_t := ?t\<rparr>) = (s', a)"
      using f by (auto simp: reconnect_failed_def Let_def split: if_splits)
    then show ?thesis
      using re [OF _ l1(2)] ok [OF l1(2)] wd [OF _ l1(1)] wd [OF _ l1(2)] by cases auto
  qed
qed (use assms in \<open>auto simp: reconnect_turn_def split: if_splits\<close>)

interpretation reenroll: invariant_system rc_init "rc_step tc" calls_ok for tc
proof
  show "rc_init s \<Longrightarrow> calls_ok s" for s
    by (simp add: rc_init_def calls_ok_def)
  show "calls_ok s \<Longrightarrow> rc_step tc s l t \<Longrightarrow> calls_ok t" for s l t
    by (auto elim!: rc_step.cases dest: reconnect_turn_calls intro!: calls_ok_frame simp: online_tick_def)
qed

section \<open>The schedule of the waits\<close>

fun turns :: "rc_input list \<Rightarrow> transport_cfg \<Rightarrow> rc_state \<Rightarrow> rc_state" where
  "turns [] tc s = s"
| "turns (i # is) tc s = turns is tc (fst (reconnect_turn i tc s))"

text \<open>A turn whose dial fails without a response, and a state in which it is tried.\<close>

definition plain_failure :: "rc_input \<Rightarrow> bool" where
  "plain_failure i \<longleftrightarrow> \<not> in_ctxDone i \<and> in_env i = (\<lambda>_. []) \<and> (\<exists>m. in_dial i = DialFailed None m)"

definition trying :: "transport_cfg \<Rightarrow> rc_state \<Rightarrow> bool" where
  "trying tc s \<longleftrightarrow> \<not> socketOpen (rc_t s) \<and> \<not> waitingAfterRejection (rc_t s)
     \<and> validateWebSocketTransportURL (tc_optin tc) (id_ws (t_identity (rc_t s))) = Ok ()"

lemma plain_turn:
  assumes "plain_failure i" and "trying tc s"
  obtains s' where "reconnect_turn i tc s = (s', Sleep (rc_backoff s + jitterDuration (in_rnd i) (rc_backoff s div 4)))"
    "rc_backoff s' = next_backoff (rc_backoff s)" "trying tc s'"
proof -
  obtain m where m: "in_dial i = DialFailed None m" and e: "in_env i = (\<lambda>_. [])" and c: "\<not> in_ctxDone i"
    using assms(1) by (auto simp: plain_failure_def)
  have conn: "connectWithResponse tc (in_env i) (in_now i) (in_ctxErr i) (in_writeOk i) (in_dial i) (rc_t s)
      = (Some (ConnDial None m), rc_t s)"
    using assms(2) m e by (simp add: connectWithResponse_def trying_def Let_def)
  let ?s = "s\<lparr>rc_t := note_failure i (ConnDial None m) (rc_t s)\<rparr>"
  have "reconnect_turn i tc s = wait_and_double i ?s"
    using assms(2) c conn by (simp add: reconnect_turn_def trying_def reconnect_failed_def Let_def classifyConnectError_def)
  moreover have "trying tc (fst (wait_and_double i ?s))"
    using assms(2) by (simp add: trying_def wait_and_double_def note_failure_def socketOpen_def waitingAfterRejection_def)
  ultimately show thesis
    using that by (simp add: wait_and_double_def)
qed

lemma next_backoff_power: "next_backoff (min (2 ^ n * second) maxBackoff) = min (2 ^ Suc n * second) maxBackoff"
  by (simp add: next_backoff_def maxBackoff_def second_def min_def)

lemma turns_backoff:
  "\<forall>i \<in> set is. plain_failure i \<Longrightarrow> trying tc s \<Longrightarrow> rc_backoff s = min (2 ^ n * second) maxBackoff \<Longrightarrow>
     trying tc (turns is tc s) \<and> rc_backoff (turns is tc s) = min (2 ^ (n + length is) * second) maxBackoff"
proof (induction "is" arbitrary: s n)
  case (Cons i "is")
  have i: "plain_failure i"
    using Cons.prems(1) by simp
  obtain s' a where t: "reconnect_turn i tc s = (s', a)" "rc_backoff s' = next_backoff (rc_backoff s)" "trying tc s'"
    by (rule plain_turn [OF i Cons.prems(2)]) blast
  have "rc_backoff s' = min (2 ^ Suc n * second) maxBackoff"
    using t(2) Cons.prems(3) next_backoff_power by simp
  then show ?case
    using Cons.IH [of s' "Suc n"] Cons.prems(1) t by simp
qed simp

section \<open>Properties\<close>

text \<open>
  The waits follow the documented schedule. After \<open>n\<close> failed dials in a row from a fresh start, the
  next failed dial is followed by a wait of \<open>min (2 ^ n) 60\<close> seconds plus a jitter of at most a
  quarter of that: 1, 2, 4, 8, 16, 32, 60, 60, and so on.
\<close>

theorem backoff_schedule:
  assumes "\<forall>i \<in> set is. plain_failure i" and "plain_failure j" and "trying tc s" and "rc_backoff s = second"
  shows "\<exists>d s'. reconnect_turn j tc (turns is tc s) = (s', Sleep d)
    \<and> min (2 ^ length is * second) (60 * second) \<le> d
    \<and> 4 * d \<le> 5 * min (2 ^ length is * second) (60 * second)"
proof -
  let ?s = "turns is tc s"
  let ?b = "min (2 ^ length is * second) maxBackoff"
  have b: "rc_backoff ?s = ?b" and t: "trying tc ?s"
    using turns_backoff [OF assms(1,3), of 0] assms(4) by (simp_all add: maxBackoff_def second_def)
  obtain s' where r: "reconnect_turn j tc ?s = (s', Sleep (rc_backoff ?s + jitterDuration (in_rnd j) (rc_backoff ?s div 4)))"
    using plain_turn [OF assms(2) t] by blast
  have "0 \<le> ?b" by (simp add: maxBackoff_def second_def)
  then have "0 \<le> ?b div 4" by (simp add: pos_imp_zdiv_nonneg_iff)
  then have "0 \<le> jitterDuration (in_rnd j) (?b div 4)" "jitterDuration (in_rnd j) (?b div 4) \<le> ?b div 4"
    using jitterDuration_bounds by blast+
  moreover have "4 * (?b div 4) \<le> ?b"
    using mult_div_mod_eq [of 4 ?b] pos_mod_sign [of 4 ?b] by linarith
  ultimately show ?thesis
    using r b by (intro exI conjI) (auto simp: maxBackoff_def)
qed

text \<open>
  The reconnect loop neither spins nor gives up. In every reachable state of the loop, each wait
  is between one second and five minutes, and a wait of more than 75 seconds is the five-minute
  back-off after a response with status 401 or 403.
\<close>

theorem reconnect_waits_bounded:
  assumes "reach rc_init (rc_step tc) s" and "reconnect_turn i tc s = (s', Sleep d)"
  shows "second \<le> d \<and> d \<le> 5 * 60 * second
    \<and> (d > 75 * second \<longrightarrow> d = authBackoff \<and>
        (\<exists>e. fst (connectWithResponse tc (in_env i) (in_now i) (in_ctxErr i) (in_writeOk i) (in_dial i) (rc_t s)) = Some e
           \<and> response_status e \<in> {Some 401, Some 403}))"
proof -
  have inv: "rc_inv s"
    using assms(1) by (rule reconnect.reach_inv)
  have b: "second \<le> d \<and> d \<le> authBackoff"
    using reconnect_turn_inv [OF inv assms(2)] by blast
  moreover have "d = authBackoff \<and> (\<exists>e. fst (connectWithResponse tc (in_env i) (in_now i) (in_ctxErr i) (in_writeOk i) (in_dial i) (rc_t s)) = Some e
           \<and> response_status e \<in> {Some 401, Some 403})" if long: "d > 75 * second"
  proof -
    obtain e t1 where c: "connectWithResponse tc (in_env i) (in_now i) (in_ctxErr i) (in_writeOk i) (in_dial i) (rc_t s) = (Some e, t1)"
      and f: "reconnect_failed i tc e (s\<lparr>rc_t := t1\<rparr>) = (s', Sleep d)"
      using assms(2) long by (auto simp: reconnect_turn_def second_def split: if_splits prod.splits option.splits)
    have "sleep_ok (rc_backoff s) (Sleep d)"
      using reconnect_failed_inv [OF _ f] inv by simp
    then have d: "d = authBackoff"
      using long inv by (auto simp: sleep_ok_def rc_inv_def maxBackoff_def second_def)
    have "classifyConnectError (Some (in_error i e)) (response_status e) = errKindAuth"
    proof (rule ccontr)
      assume "\<not> ?thesis"
      then have "wait_and_double i (s\<lparr>rc_t := note_failure i e t1\<rparr>) = (s', Sleep d)"
        using f by (simp add: reconnect_failed_def Let_def)
      from wait_and_double_inv [OF _ this] inv have "d \<le> rc_backoff s + rc_backoff s div 4"
        by auto
      then show False
        using long inv by (auto simp: rc_inv_def maxBackoff_def second_def)
    qed
    then have "response_status e \<in> {Some 401, Some 403}"
      by (auto simp: classifyConnectError_def split: option.splits if_splits)
    with d c show ?thesis by auto
  qed
  ultimately show ?thesis
    by (auto simp: authBackoff_def)
qed

definition no_error :: go_error where
  "no_error = \<lparr>ge_text = [], ge_opDial = False, ge_unknownAuthority = False, ge_certInvalid = False, ge_hostname = False,
     ge_certVerification = False, ge_dns = False, ge_refused = False, ge_hostUnreach = False, ge_netUnreach = False,
     ge_eperm = False, ge_deadline = False, ge_osDeadline = False, ge_etimedout = False, ge_netTimeout = False\<rparr>"

definition demo_input :: "dial_outcome \<Rightarrow> rc_input" where
  "demo_input dial = \<lparr>in_ctxDone = False, in_env = (\<lambda>_. []), in_dial = dial, in_ctxErr = False, in_writeOk = True,
     in_error = (\<lambda>_. no_error), in_now = 5, in_rnd = None, in_check = 7, in_reenroll = Inl [], in_reops = [], in_done = 8\<rparr>"

definition demo_loop :: rc_state where
  "demo_loop = \<lparr>rc_t = demo_new ''tok'', rc_backoff = second, rc_canReEnroll = True, rc_calls = []\<rparr>"

lemma demo_loop_reach: "reach rc_init (rc_step tc) demo_loop"
  by (rule reach_init) (simp add: rc_init_def demo_loop_def demo_new_def newWSTransportWithRuntimeIdentity_def)

theorem backoff_schedule_witness:
  "\<exists>d s'. reconnect_turn (demo_input (DialFailed None [])) demo_cfg
      (turns (replicate 3 (demo_input (DialFailed None []))) demo_cfg demo_loop) = (s', Sleep d) \<and> 8 * second \<le> d \<and> d \<le> 10 * second"
proof -
  let ?i = "demo_input (DialFailed None [])"
  have p: "plain_failure ?i"
    by (simp add: plain_failure_def demo_input_def)
  have "validateWebSocketTransportURL (tc_optin demo_cfg) (id_ws (t_identity (rc_t demo_loop))) = Ok ()"
    "\<not> waitingAfterRejection (rc_t demo_loop)" "\<not> socketOpen (rc_t demo_loop)"
    by code_simp+
  then have t: "trying demo_cfg demo_loop"
    by (simp add: trying_def)
  show ?thesis
    using backoff_schedule [of "replicate 3 ?i" ?i demo_cfg demo_loop] p t
    by (auto simp: demo_loop_def second_def)
qed

theorem reconnect_waits_bounded_witness:
  "snd (reconnect_turn (demo_input (DialFailed None [])) demo_cfg demo_loop) = Sleep second \<and> second \<le> 5 * 60 * second"
proof -
  let ?r = "reconnect_turn (demo_input (DialFailed None [])) demo_cfg demo_loop"
  have a: "snd ?r = Sleep second" by code_simp
  then have "?r = (fst ?r, Sleep second)" by (metis prod.collapse)
  from reconnect_waits_bounded [OF demo_loop_reach this] a show ?thesis by simp
qed

text \<open>
  C31. Re-enrollment is rate limited: over any run of the loop, with any other activity on the
  transport, two calls of the re-enrollment callback are always more than ten minutes apart.
\<close>

theorem reenrollment_rate_limited:
  assumes "reach rc_init (rc_step tc) s"
  shows "sorted_wrt (\<lambda>later earlier. later - earlier > 10 * 60 * second) (rc_calls s)"
  using reenroll.reach_inv [OF assms] by (simp add: calls_ok_def reEnrollInterval_def)

definition demo_twice :: rc_state where
  "demo_twice = demo_loop\<lparr>rc_t := (rc_t demo_loop)\<lparr>t_authFailures := 2\<rparr>\<rparr>"

definition demo_refused :: rc_state where
  "demo_refused = fst (reconnect_turn (demo_input (DialFailed (Some 401) [])) demo_cfg demo_twice)"

lemma demo_twice_reach: "reach rc_init (rc_step tc) demo_twice"
  by (rule reach_init)
    (simp add: rc_init_def demo_twice_def demo_loop_def demo_new_def newWSTransportWithRuntimeIdentity_def)

lemma demo_turn_reach:
  "reach rc_init (rc_step demo_cfg) s \<Longrightarrow> reach rc_init (rc_step demo_cfg) (fst (reconnect_turn (demo_input d) demo_cfg s))"
  by (rule reach_step [where l = "snd (reconnect_turn (demo_input d) demo_cfg s)"])
    (auto intro!: turn [where i = "demo_input d"] simp: demo_input_def)

theorem reenrollment_rate_limited_witness:
  "rc_calls demo_refused = [7] \<and> sorted_wrt (\<lambda>later earlier. later - earlier > 10 * 60 * second) (rc_calls demo_refused)"
proof -
  have "rc_calls demo_refused = [7]" by code_simp
  moreover have "reach rc_init (rc_step demo_cfg) demo_refused"
    unfolding demo_refused_def by (intro demo_turn_reach demo_twice_reach)
  ultimately show ?thesis
    using reenrollment_rate_limited by blast
qed

text \<open>
  C38. The reason shown for a failed connect is one of the six fixed codes or empty, so no address or
  TLS text of the error reaches the status page; it is ``token rejected'' exactly for an error
  that came with status 401 or 403, and empty without an error.
\<close>

theorem connect_reason_is_fixed_code:
  "classifyConnectReason err resp \<in> {[], ''name_lookup_failed'', ''connection_refused'', ''host_unreachable'', ''timed_out'',
     ''certificate_untrusted'', ''token_rejected''}
   \<and> (classifyConnectReason err resp = ''token_rejected'' \<longleftrightarrow> err \<noteq> None \<and> resp \<in> {Some 401, Some 403})"
proof -
  have n: "connectReasonNameLookup \<noteq> ''token_rejected''" "connectReasonRefused \<noteq> ''token_rejected''"
    "connectReasonUnreachable \<noteq> ''token_rejected''" "connectReasonTimedOut \<noteq> ''token_rejected''"
    "connectReasonCertificate \<noteq> ''token_rejected''"
    by code_simp+
  show ?thesis
  proof (cases err)
    case (Some e)
    have k: "classifyConnectError (Some e) resp = errKindAuth \<longleftrightarrow> resp \<in> {Some 401, Some 403}"
      by (auto simp: classifyConnectError_def split: option.splits)
    show ?thesis
    proof (cases "resp \<in> {Some 401, Some 403}")
      case True
      with k Some show ?thesis
        by (simp add: classifyConnectReason_def connectReasonTokenRejected_def)
    next
      case False
      with k have "classifyConnectError (Some e) resp \<noteq> errKindAuth" by simp
      then have "classifyConnectReason err resp \<in> {[], connectReasonNameLookup, connectReasonRefused, connectReasonUnreachable,
          connectReasonTimedOut, connectReasonCertificate}"
        using Some by (simp add: classifyConnectReason_def Let_def del: containsAny.simps)
      with False n show ?thesis
        unfolding connectReasonNameLookup_def connectReasonRefused_def connectReasonUnreachable_def connectReasonTimedOut_def
          connectReasonCertificate_def
        by (elim insertE emptyE) simp_all
    qed
  qed (simp add: classifyConnectReason_def)
qed

end
