(* ===== verification/Upload.thy ===== *)
theory Upload
  imports FileScope GoBase64
begin

text \<open>
  Chunked uploads: \<open>files/upload.go\<close> and \<open>files/mkdir_parent.go\<close> (\<open>internal/agentcore\<close>).

  A \<open>*PendingWrite\<close> is an index into the list of all uploads ever started, so that the pointer
  comparisons of the code are comparisons of indices. The two kinds of lock of the code show in the
  granularity: every function below is one critical section, and \<open>upload_step\<close> interleaves the
  sections of any number of calls. \<open>um_locked\<close> says that a call holds \<open>pw.mu\<close> between its sections.
  What the operating system answers is the record \<open>upload_io\<close>, chosen anew for each section. Paths
  name files directly: links inside a root are not followed.

  The fields \<open>pw_id\<close>, \<open>pw_born\<close>, \<open>pw_chunks\<close>, \<open>um_closes\<close> and \<open>um_leaked\<close> are history: no
  operation reads them.
\<close>

section \<open>Data\<close>

definition FileChunkSize :: nat where "FileChunkSize = 65536"
definition MaxFileSize :: int where "MaxFileSize = 536870912"
definition maxWritePending :: nat where "maxWritePending = 64"
definition maxFileWriteRequestIDLen :: nat where "maxFileWriteRequestIDLen = 256"
definition pendingWriteIdleTTL :: int where "pendingWriteIdleTTL = 300000000000"
definition millisecond :: int where "millisecond = 1000000"

record write_req =
  rq_RequestID :: string
  rq_Path :: string
  rq_Offset :: int
  rq_Data :: string
  rq_Done :: bool

record pending_write =
  pw_base :: string
  pw_hasRoot :: bool
  pw_Path :: string
  pw_RelPath :: string
  pw_TmpPath :: string
  pw_TmpRelPath :: string
  pw_Written :: int
  pw_Closed :: bool
  pw_lastActivity :: int
  pw_idleTimer :: "int option"
  pw_id :: string
  pw_born :: nat
  pw_chunks :: "(int \<times> string) list"

type_synonym context_id = nat

record upload_manager =
  um_scope :: scope_fields
  um_writers :: "(string \<times> nat) list"
  um_writeEpoch :: "64 word"
  um_idleTTL :: int
  um_heap :: "pending_write list"
  um_disk :: "string \<Rightarrow> string option"
  um_cancelled :: "context_id \<Rightarrow> bool"
  um_locked :: "nat \<Rightarrow> bool"
  um_closes :: nat
  um_leaked :: "string list"

datatype open_answer = Opened | AlreadyThere | OpenRefused

record upload_io =
  io_now :: int
  io_isDir :: "string \<Rightarrow> bool"
  io_mkdirAll :: "string \<Rightarrow> bool"
  io_rand :: "nat \<Rightarrow> string option"
  io_open :: "string \<Rightarrow> open_answer"
  io_write :: "nat option"
  io_sync :: bool
  io_close :: bool
  io_rename :: bool
  io_remove :: "string \<Rightarrow> bool"

datatype upload_error =
    Cancelled | IDRequired | IDTooLong | NegativeOffset | ChunkTooLarge | InvalidBase64 | EmptyChunk
  | BadPath path_error | TooManyUploads | MkdirFailed | RandFailed | CreateFailed | NoUniqueName | PathMismatch
  | AlreadyClosed | OffsetMismatch | FileTooLarge | WriteFailed | SyncFailed | CloseFailed | RenameFailed

abbreviation pw_at :: "upload_manager \<Rightarrow> nat \<Rightarrow> pending_write" where
  "pw_at m p \<equiv> um_heap m ! p"

definition set_pw :: "nat \<Rightarrow> pending_write \<Rightarrow> upload_manager \<Rightarrow> upload_manager" where
  "set_pw p pw m = m\<lparr>um_heap := (um_heap m)[p := pw]\<rparr>"

section \<open>Ownership, slots and clean-up\<close>

definition uploadOwnerErrorLocked :: "upload_manager \<Rightarrow> context_id \<Rightarrow> 64 word \<Rightarrow> upload_error option" where
  "uploadOwnerErrorLocked m ctx epoch =
     (if um_cancelled m ctx then Some Cancelled else if um_writeEpoch m \<noteq> epoch then Some Cancelled else None)"

definition removePendingWrite :: "string \<Rightarrow> nat \<Rightarrow> upload_manager \<Rightarrow> upload_manager" where
  "removePendingWrite requestID p m =
     (if map_of (um_writers m) requestID = Some p
      then m\<lparr>um_writers := filter (\<lambda>e. fst e \<noteq> requestID) (um_writers m)\<rparr> else m)"

definition stopPendingWriteTimerLocked :: "pending_write \<Rightarrow> pending_write" where
  "stopPendingWriteTimerLocked pw = pw\<lparr>pw_idleTimer := None\<rparr>"

definition remove_temp :: "upload_io \<Rightarrow> string \<Rightarrow> upload_manager \<Rightarrow> upload_manager" where
  "remove_temp io path m =
     (if io_remove io path then m\<lparr>um_disk := (um_disk m)(path := None)\<rparr> else m\<lparr>um_leaked := path # um_leaked m\<rparr>)"

definition cleanupWriteLocked :: "upload_io \<Rightarrow> string \<Rightarrow> nat \<Rightarrow> upload_manager \<Rightarrow> upload_manager" where
  "cleanupWriteLocked io requestID p m =
     (let pw = pw_at m p
      in if pw_Closed pw then removePendingWrite requestID p m
         else let m1 = set_pw p (stopPendingWriteTimerLocked (pw\<lparr>pw_Closed := True, pw_hasRoot := False\<rparr>)) m;
                  m2 = (if pw_hasRoot pw then remove_temp io (pw_TmpPath pw) m1 else m1)
              in removePendingWrite requestID p m2)"

definition abort_lookup :: "upload_manager \<Rightarrow> context_id \<Rightarrow> 64 word \<Rightarrow> string \<Rightarrow> nat option" where
  "abort_lookup m ctx epoch requestID =
     (if uploadOwnerErrorLocked m ctx epoch \<noteq> None then None else map_of (um_writers m) requestID)"

definition abort_locked ::
    "upload_io \<Rightarrow> context_id \<Rightarrow> 64 word \<Rightarrow> string \<Rightarrow> nat \<Rightarrow> upload_manager \<Rightarrow> upload_manager \<times> int" where
  "abort_locked io ctx epoch requestID p m =
     (if uploadOwnerErrorLocked m ctx epoch = None then cleanupWriteLocked io requestID p m else m, pw_Written (pw_at m p))"

definition abortPendingWriteContext ::
    "upload_io \<Rightarrow> context_id \<Rightarrow> 64 word \<Rightarrow> string \<Rightarrow> upload_manager \<Rightarrow> upload_manager \<times> int" where
  "abortPendingWriteContext io ctx epoch requestID m =
     (case abort_lookup m ctx epoch requestID of
        None \<Rightarrow> (m, 0)
      | Some p \<Rightarrow> abort_locked io ctx epoch requestID p m)"

text \<open>The background context is 0; it is never cancelled.\<close>

definition AbortWrite :: "upload_io \<Rightarrow> string \<Rightarrow> upload_manager \<Rightarrow> upload_manager" where
  "AbortWrite io requestID m = fst (abortPendingWriteContext io 0 (um_writeEpoch m) (TrimSpace requestID) m)"

definition writeIdleTTL :: "upload_manager \<Rightarrow> int" where
  "writeIdleTTL m = (if um_idleTTL m > 0 then um_idleTTL m else pendingWriteIdleTTL)"

definition armPendingWriteExpiryLocked :: "int \<Rightarrow> pending_write \<Rightarrow> pending_write" where
  "armPendingWriteExpiryLocked after pw =
     (if pw_Closed pw then pw else pw\<lparr>pw_idleTimer := Some (if after \<le> 0 then millisecond else after)\<rparr>)"

definition expirePendingWrite :: "upload_io \<Rightarrow> string \<Rightarrow> nat \<Rightarrow> int \<Rightarrow> upload_manager \<Rightarrow> upload_manager \<times> bool" where
  "expirePendingWrite io requestID p now m =
     (let pw = pw_at m p; ttl = writeIdleTTL m; idleFor = max 0 (now - pw_lastActivity pw)
      in if pw_Closed pw then (m, False)
         else if idleFor < ttl then (set_pw p (armPendingWriteExpiryLocked (ttl - idleFor) pw) m, False)
         else (cleanupWriteLocked io requestID p m, True))"

fun expire_all :: "upload_io \<Rightarrow> int \<Rightarrow> (string \<times> nat) list \<Rightarrow> upload_manager \<Rightarrow> upload_manager \<times> nat" where
  "expire_all io now [] m = (m, 0)"
| "expire_all io now ((requestID, p) # rest) m =
     (let (m1, gone) = expirePendingWrite io requestID p now m; (m2, n) = expire_all io now rest m1
      in (m2, if gone then Suc n else n))"

definition cleanupExpiredPendingWrites :: "upload_io \<Rightarrow> int \<Rightarrow> upload_manager \<Rightarrow> upload_manager \<times> nat" where
  "cleanupExpiredPendingWrites io now m = expire_all io now (um_writers m) m"

definition HasPendingWrite :: "string \<Rightarrow> upload_manager \<Rightarrow> bool" where
  "HasPendingWrite requestID m \<longleftrightarrow> map_of (um_writers m) requestID \<noteq> None"

text \<open>\<open>CloseAll\<close> takes every writer out of the map in one section and retires them one by one.\<close>

definition closeall_begin :: "upload_manager \<Rightarrow> upload_manager \<times> (string \<times> nat) list" where
  "closeall_begin m =
     (m\<lparr>um_writeEpoch := um_writeEpoch m + 1, um_writers := [], um_closes := Suc (um_closes m)\<rparr>, um_writers m)"

fun retire_all :: "upload_io \<Rightarrow> (string \<times> nat) list \<Rightarrow> upload_manager \<Rightarrow> upload_manager" where
  "retire_all io [] m = m"
| "retire_all io ((requestID, p) # rest) m = retire_all io rest (cleanupWriteLocked io requestID p m)"

definition CloseAll :: "upload_io \<Rightarrow> upload_manager \<Rightarrow> upload_manager" where
  "CloseAll io m = (let (m1, pending) = closeall_begin m in retire_all io pending m1)"

section \<open>Starting an upload\<close>

definition mkdirIfMissing :: "upload_io \<Rightarrow> string \<Rightarrow> string \<Rightarrow> bool" where
  "mkdirIfMissing io base dir =
     (if dir = [] \<or> dir = dot then True
      else if io_isDir io (JoinPath [base, dir]) then True
      else io_mkdirAll io (JoinPath [base, dir]))"

definition hex_digit :: "nat \<Rightarrow> char" where
  "hex_digit n = ''0123456789abcdef'' ! n"

definition hexEncode :: "string \<Rightarrow> string" where
  "hexEncode bytes = concat (map (\<lambda>c. [hex_digit (byte c div 16), hex_digit (byte c mod 16)]) bytes)"

fun createTempInRoot ::
    "upload_io \<Rightarrow> (string \<Rightarrow> string option) \<Rightarrow> string \<Rightarrow> string \<Rightarrow> nat \<Rightarrow> (upload_error, string) result" where
  "createTempInRoot io disk base dirRel 0 = Err NoUniqueName"
| "createTempInRoot io disk base dirRel (Suc k) =
     (case io_rand io k of
        None \<Rightarrow> Err RandFailed
      | Some random \<Rightarrow>
          let rel = JoinPath [dirRel, ''.lt-upload-'' @ hexEncode random]; path = JoinPath [base, rel]
          in if disk path \<noteq> None \<or> io_open io path = AlreadyThere then createTempInRoot io disk base dirRel k
             else if io_open io path = Opened then Ok rel
             else Err CreateFailed)"

definition new_pending :: "upload_io \<Rightarrow> string \<Rightarrow> scoped_path \<Rightarrow> string \<Rightarrow> upload_manager \<Rightarrow> pending_write" where
  "new_pending io requestID target tmpRel m =
     \<lparr>pw_base = sp_base target, pw_hasRoot = True, pw_Path = sp_display target, pw_RelPath = sp_rel target,
      pw_TmpPath = JoinPath [sp_base target, tmpRel], pw_TmpRelPath = tmpRel, pw_Written = 0, pw_Closed = False,
      pw_lastActivity = io_now io, pw_idleTimer = None, pw_id = requestID, pw_born = um_closes m, pw_chunks = []\<rparr>"

definition add_pending :: "pending_write \<Rightarrow> upload_manager \<Rightarrow> upload_manager" where
  "add_pending pw m =
     m\<lparr>um_heap := um_heap m @ [pw], um_writers := um_writers m @ [(pw_id pw, length (um_heap m))],
       um_disk := (um_disk m)(pw_TmpPath pw := Some [])\<rparr>"

datatype claim = ClaimRefused upload_error | ClaimMismatch nat | Claimed nat

definition claim_writer ::
    "upload_io \<Rightarrow> context_id \<Rightarrow> 64 word \<Rightarrow> string \<Rightarrow> scoped_path \<Rightarrow> upload_manager \<Rightarrow> upload_manager \<times> claim" where
  "claim_writer io ctx epoch requestID target m =
     (case uploadOwnerErrorLocked m ctx epoch of
        Some e \<Rightarrow> (m, ClaimRefused e)
      | None \<Rightarrow>
          (case map_of (um_writers m) requestID of
             Some p \<Rightarrow> if pw_Path (pw_at m p) \<noteq> sp_display target then (m, ClaimMismatch p) else (m, Claimed p)
           | None \<Rightarrow>
               if length (um_writers m) \<ge> maxWritePending then (m, ClaimRefused TooManyUploads)
               else
                 let dirRel = Dir (sp_rel target); base = sp_base target
                 in if \<not> mkdirIfMissing io base dirRel then (m, ClaimRefused MkdirFailed)
                    else case createTempInRoot io (um_disk m) base dirRel 100 of
                           Inl e \<Rightarrow> (m, ClaimRefused e)
                         | Inr tmpRel \<Rightarrow>
                             (add_pending (armPendingWriteExpiryLocked (writeIdleTTL m) (new_pending io requestID target tmpRel m)) m,
                              Claimed (length (um_heap m)))))"

section \<open>One chunk\<close>

datatype chunk_check = Refuse upload_error | AbortWith upload_error | Chunk string

definition check_request :: "write_req \<Rightarrow> chunk_check" where
  "check_request req =
     (let requestID = TrimSpace (rq_RequestID req)
      in if requestID = [] then Refuse IDRequired
         else if length requestID > maxFileWriteRequestIDLen then Refuse IDTooLong
         else if rq_Offset req < 0 then AbortWith NegativeOffset
         else if length (rq_Data req) > EncodedLen FileChunkSize then AbortWith ChunkTooLarge
         else case DecodeString (rq_Data req) of
                None \<Rightarrow> AbortWith InvalidBase64
              | Some decoded \<Rightarrow>
                  if length decoded > FileChunkSize then AbortWith ChunkTooLarge
                  else if length decoded = 0 \<and> \<not> rq_Done req then AbortWith EmptyChunk
                  else Chunk decoded)"

definition append_file :: "string \<Rightarrow> string \<Rightarrow> (string \<Rightarrow> string option) \<Rightarrow> string \<Rightarrow> string option" where
  "append_file path bytes disk = (case disk path of None \<Rightarrow> disk | Some old \<Rightarrow> disk(path := Some (old @ bytes)))"

datatype wrote = WReturn int "upload_error option" | WCommit

text \<open>A call drops the upload and reports what was written so far.\<close>

definition give_up :: "upload_io \<Rightarrow> string \<Rightarrow> nat \<Rightarrow> upload_error \<Rightarrow> upload_manager \<Rightarrow> upload_manager \<times> wrote" where
  "give_up io requestID p e m = (cleanupWriteLocked io requestID p m, WReturn (pw_Written (pw_at m p)) (Some e))"

definition write_chunk :: "upload_io \<Rightarrow> nat \<Rightarrow> int \<Rightarrow> string \<Rightarrow> upload_manager \<Rightarrow> upload_manager" where
  "write_chunk io p offset decoded m =
     (let pw = pw_at m p
      in (set_pw p (pw\<lparr>pw_Written := pw_Written pw + int (length decoded), pw_lastActivity := io_now io,
            pw_chunks := pw_chunks pw @ [(offset, decoded)]\<rparr>) m)
         \<lparr>um_disk := append_file (pw_TmpPath pw) decoded (um_disk m)\<rparr>)"

definition write_locked ::
    "upload_io \<Rightarrow> context_id \<Rightarrow> 64 word \<Rightarrow> string \<Rightarrow> nat \<Rightarrow> write_req \<Rightarrow> string \<Rightarrow> upload_manager \<Rightarrow> upload_manager \<times> wrote" where
  "write_locked io ctx epoch requestID p req decoded m =
     (let pw = pw_at m p
      in case uploadOwnerErrorLocked m ctx epoch of
           Some e \<Rightarrow> give_up io requestID p e m
         | None \<Rightarrow>
             if pw_Closed pw then (m, WReturn (pw_Written pw) (Some AlreadyClosed))
             else if rq_Offset req \<noteq> pw_Written pw then give_up io requestID p OffsetMismatch m
             else if pw_Written pw + int (length decoded) > MaxFileSize then give_up io requestID p FileTooLarge m
             else case io_write io of
                    Some n \<Rightarrow>
                      give_up io requestID p WriteFailed
                        (m\<lparr>um_disk := append_file (pw_TmpPath pw) (take n decoded) (um_disk m)\<rparr>)
                  | None \<Rightarrow>
                      let m1 = write_chunk io p (rq_Offset req) decoded m
                      in if \<not> rq_Done req then (m1, WReturn (pw_Written (pw_at m1 p)) None)
                         else if \<not> io_sync io then give_up io requestID p SyncFailed m1
                         else if \<not> io_close io then give_up io requestID p CloseFailed m1
                         else (m1, WCommit))"

definition rename_file :: "string \<Rightarrow> string \<Rightarrow> (string \<Rightarrow> string option) \<Rightarrow> string \<Rightarrow> string option" where
  "rename_file src dst disk = (disk(src := None))(dst := disk src)"

definition commit_locked ::
    "upload_io \<Rightarrow> context_id \<Rightarrow> 64 word \<Rightarrow> string \<Rightarrow> nat \<Rightarrow> upload_manager \<Rightarrow> upload_manager \<times> int \<times> upload_error option" where
  "commit_locked io ctx epoch requestID p m =
     (let pw = pw_at m p;
          commitErr = (case uploadOwnerErrorLocked m ctx epoch of
                         Some e \<Rightarrow> Some e
                       | None \<Rightarrow> if io_rename io \<and> um_disk m (pw_TmpPath pw) \<noteq> None then None else Some RenameFailed)
      in case commitErr of
           Some e \<Rightarrow> (cleanupWriteLocked io requestID p m, pw_Written pw, Some e)
         | None \<Rightarrow>
             (removePendingWrite requestID p
                ((set_pw p (stopPendingWriteTimerLocked (pw\<lparr>pw_Closed := True, pw_hasRoot := False\<rparr>)) m)
                   \<lparr>um_disk := rename_file (pw_TmpPath pw) (pw_Path pw) (um_disk m)\<rparr>),
              pw_Written pw, None))"

text \<open>The whole call, run without interference.\<close>

definition WriteChunkContext ::
    "upload_io \<Rightarrow> file_system \<Rightarrow> context_id \<Rightarrow> write_req \<Rightarrow> upload_manager \<Rightarrow> upload_manager \<times> int \<times> upload_error option" where
  "WriteChunkContext io fs ctx req m =
     (let epoch = um_writeEpoch m; requestID = TrimSpace (rq_RequestID req)
      in if um_cancelled m ctx then (m, 0, Some Cancelled)
         else case check_request req of
                Refuse e \<Rightarrow> (m, 0, Some e)
              | AbortWith e \<Rightarrow> let (m1, written) = abortPendingWriteContext io ctx epoch requestID m in (m1, written, Some e)
              | Chunk decoded \<Rightarrow>
                  let m1 = fst (cleanupExpiredPendingWrites io (io_now io) m)
                  in case openScopedPath fs (um_scope m1) (rq_Path req) of
                       Inl e \<Rightarrow>
                         let (m2, written) = abortPendingWriteContext io ctx epoch requestID m1 in (m2, written, Some (BadPath e))
                     | Inr target \<Rightarrow>
                         (case claim_writer io ctx epoch requestID target m1 of
                            (m2, ClaimRefused e) \<Rightarrow> (m2, 0, Some e)
                          | (m2, ClaimMismatch p) \<Rightarrow> (cleanupWriteLocked io requestID p m2, 0, Some PathMismatch)
                          | (m2, Claimed p) \<Rightarrow>
                              (case write_locked io ctx epoch requestID p req decoded m2 of
                                 (m3, WReturn written e) \<Rightarrow> (m3, written, e)
                               | (m3, WCommit) \<Rightarrow> commit_locked io ctx epoch requestID p m3)))"

text \<open>The reply: one for every failure and one for the last chunk. A message that does not decode has none.\<close>

definition HandleFileWriteContext ::
    "upload_io \<Rightarrow> file_system \<Rightarrow> context_id \<Rightarrow> write_req option \<Rightarrow> upload_manager \<Rightarrow>
     upload_manager \<times> (string \<times> int \<times> upload_error option) option" where
  "HandleFileWriteContext io fs ctx msg m =
     (case msg of
        None \<Rightarrow> (m, None)
      | Some req \<Rightarrow>
          let (m1, written, err) = WriteChunkContext io fs ctx req m
          in (m1, if err \<noteq> None then Some (rq_RequestID req, written, err)
                  else if rq_Done req then Some (rq_RequestID req, written, None) else None))"

definition NewUploadManager :: "scope_fields \<Rightarrow> (string \<Rightarrow> string option) \<Rightarrow> upload_manager" where
  "NewUploadManager sc disk =
     \<lparr>um_scope = sc, um_writers = [], um_writeEpoch = 0, um_idleTTL = 0, um_heap = [], um_disk = disk,
      um_cancelled = (\<lambda>_. False), um_locked = (\<lambda>_. False), um_closes = 0, um_leaked = []\<rparr>"

end
