(* ===== verification/FileRead.thy ===== *)
theory FileRead
  imports Upload
begin

text \<open>
  Streaming a file to the Hub: \<open>files/handler_read.go\<close>. A turn of the loop sees what the outside
  world answers in it: whether the context has ended at each of the two checks, the bytes and error
  of one \<open>Read\<close>, and whether the \<open>Send\<close> went through. Running out of turns means that the reader
  has not answered yet.
\<close>

datatype read_err = NoReadErr | EndOfFile | ReadError

record read_turn =
  rt_cancelled :: bool
  rt_bytes :: string
  rt_err :: read_err
  rt_cancelledAfter :: bool
  rt_sent :: bool

record file_data =
  fd_Data :: string
  fd_Offset :: int
  fd_Done :: bool

datatype stream_error = StreamCanceled | InvalidCount | ReadLimitExceeded | SendFailed | NoProgress | StreamReadError

definition read_size :: "int \<Rightarrow> int" where
  "read_size remaining =
     (let readSize = int FileChunkSize;
          readSize = (if remaining < readSize then remaining + 1 else readSize)
      in if readSize < 1 then 1 else readSize)"

text \<open>The messages sent, and the offset and error the loop returns.\<close>

type_synonym stream_result = "file_data list \<times> (int \<times> stream_error option) option"

definition emit :: "file_data \<Rightarrow> stream_result \<Rightarrow> stream_result" where
  "emit msg r = (msg # fst r, snd r)"

fun stream_loop :: "int \<Rightarrow> int \<Rightarrow> nat \<Rightarrow> read_turn list \<Rightarrow> stream_result" where
  "stream_loop maxBytes offset emptyReads [] = ([], None)"
| "stream_loop maxBytes offset emptyReads (t # ts) =
     (let remaining = maxBytes - offset; n = int (length (rt_bytes t)); done = (rt_err t = EndOfFile)
      in if rt_cancelled t then ([], Some (offset, Some StreamCanceled))
         else if n > read_size remaining then ([], Some (offset, Some InvalidCount))
         else if rt_cancelledAfter t then ([], Some (offset, Some StreamCanceled))
         else if n > 0 then
           (if n > remaining then ([], Some (offset, Some ReadLimitExceeded))
            else if \<not> rt_sent t then ([], Some (offset, Some SendFailed))
            else emit \<lparr>fd_Data = EncodeToString (rt_bytes t), fd_Offset = offset, fd_Done = done\<rparr>
              (if done then ([], Some (offset + n, None))
               else if rt_err t = ReadError then ([], Some (offset + n, Some StreamReadError))
               else stream_loop maxBytes (offset + n) 0 ts))
         else if rt_err t = NoReadErr then
           (if Suc emptyReads \<ge> 100 then ([], Some (offset, Some NoProgress))
            else stream_loop maxBytes offset (Suc emptyReads) ts)
         else if \<not> done then ([], Some (offset, Some StreamReadError))
         else if \<not> rt_sent t then ([], Some (offset, Some SendFailed))
         else ([\<lparr>fd_Data = [], fd_Offset = offset, fd_Done = True\<rparr>], Some (offset, None)))"

definition streamFileRead :: "int \<Rightarrow> read_turn list \<Rightarrow> stream_result" where
  "streamFileRead maxBytes ts =
     (if maxBytes < 0 then ([], Some (0, Some ReadLimitExceeded)) else stream_loop maxBytes 0 0 ts)"

section \<open>The request\<close>

record file_info =
  fi_isDir :: bool
  fi_regular :: bool
  fi_size :: int

datatype read_reply =
    Silent
  | Failed path_error
  | OpenFailed
  | StatFailedReply
  | IsDirectory
  | NotRegular
  | TooLarge
  | Streamed "file_data list" "(int \<times> stream_error option) option" "int option"

text \<open>
  \<open>HandleFileReadContext\<close>: \<open>cancelled i\<close> is the answer of the \<open>i\<close>-th \<open>ctx.Err()\<close>, \<open>opened\<close> whether the
  file opened without waiting for a peer, \<open>info\<close> the result of \<open>Stat\<close>. After a failed stream the
  last field is the offset of the error message, which a cancelled or broken stream does not send.
\<close>

definition stream_reply :: "stream_result \<Rightarrow> read_reply" where
  "stream_reply r =
     Streamed (fst r) (snd r)
       (case snd r of
          Some (offset, Some e) \<Rightarrow> if e = StreamCanceled \<or> e = SendFailed then None else Some offset
        | _ \<Rightarrow> None)"

definition HandleFileReadContext ::
    "(nat \<Rightarrow> bool) \<Rightarrow> file_system \<Rightarrow> scope_fields \<Rightarrow> (string \<Rightarrow> string \<Rightarrow> bool) \<Rightarrow> file_info option \<Rightarrow> read_turn list \<Rightarrow> string \<Rightarrow> read_reply" where
  "HandleFileReadContext cancelled fs fm opens info ts path =
     (if cancelled 0 then Silent
      else case OpenRootPath fs fm path of
             Inl e \<Rightarrow> if cancelled 1 then Silent else Failed e
           | Inr (base, rel, display) \<Rightarrow>
               if cancelled 1 then Silent
               else if \<not> opens base rel then (if cancelled 2 then Silent else OpenFailed)
               else if cancelled 2 then Silent
               else if cancelled 3 then Silent
               else case info of
                      None \<Rightarrow> StatFailedReply
                    | Some i \<Rightarrow>
                        if fi_isDir i then IsDirectory
                        else if \<not> fi_regular i then NotRegular
                        else if fi_size i > MaxFileSize then TooLarge
                        else stream_reply (streamFileRead MaxFileSize ts))"

section \<open>Lemmas\<close>

text \<open>The bytes the messages carry and whether they follow each other.\<close>

fun decoded_messages :: "file_data list \<Rightarrow> string option" where
  "decoded_messages [] = Some []"
| "decoded_messages (msg # rest) =
     (case DecodeString (fd_Data msg) of None \<Rightarrow> None | Some bs \<Rightarrow> map_option ((@) bs) (decoded_messages rest))"

fun messages_follow :: "int \<Rightarrow> file_data list \<Rightarrow> bool" where
  "messages_follow n [] = True"
| "messages_follow n (msg # rest) \<longleftrightarrow> fd_Offset msg = n \<and>
     (\<exists>bs. fd_Data msg = EncodeToString bs \<and> length bs \<le> FileChunkSize \<and> messages_follow (n + int (length bs)) rest) \<and>
     (fd_Done msg \<longleftrightarrow> rest = []) \<and> (fd_Data msg = [] \<longrightarrow> rest = [])"

definition all_bytes :: "read_turn list \<Rightarrow> string" where
  "all_bytes ts = concat (map rt_bytes ts)"

lemma read_size_le: "0 \<le> r \<Longrightarrow> read_size r \<le> int FileChunkSize"
  by (simp add: read_size_def FileChunkSize_def)

lemma DecodeString_Nil [simp]: "DecodeString [] = Some []"
  by (simp add: DecodeString_def)

lemma EncodeToString_Nil_iff [simp]: "EncodeToString s = [] \<longleftrightarrow> s = []"
  by (cases s rule: EncodeToString.cases) auto

text \<open>The turns a finished stream used are the first ones.\<close>

lemma stream_loop_exact:
  assumes "stream_loop maxBytes offset k ts = (msgs, Some (tot, None))" and "0 \<le> offset" and "offset \<le> maxBytes"
  shows "\<exists>used. prefix used ts \<and> decoded_messages msgs = Some (all_bytes used) \<and> tot = offset + int (length (all_bytes used)) \<and>
    tot \<le> maxBytes \<and> msgs \<noteq> [] \<and> messages_follow offset msgs \<and> rt_err (last used) = EndOfFile \<and> used \<noteq> []"
  using assms
proof (induction maxBytes offset k ts arbitrary: msgs rule: stream_loop.induct)
  case (2 maxBytes offset k t ts)
  let ?n = "int (length (rt_bytes t))" and ?r = "maxBytes - offset"
  let ?msg = "\<lparr>fd_Data = EncodeToString (rt_bytes t), fd_Offset = offset, fd_Done = (rt_err t = EndOfFile)\<rparr>"
  note res = 2(3) [unfolded stream_loop.simps Let_def]
  have nc: "\<not> rt_cancelled t"
    using res by (cases "rt_cancelled t") simp_all
  have nsz: "\<not> ?n > read_size ?r"
    using res nc by (cases "?n > read_size ?r") simp_all
  have nca: "\<not> rt_cancelledAfter t"
    using res nc nsz by (cases "rt_cancelledAfter t") simp_all
  note res2 = res [simplified nc nsz nca, simplified]
  have sz: "length (rt_bytes t) \<le> FileChunkSize"
    using nsz read_size_le [of ?r] 2(5) by simp
  show ?case
  proof (cases "rt_bytes t = []")
    case empty: True
    show ?thesis
    proof (cases "rt_err t")
      case NoReadErr
      then have k: "\<not> Suc k \<ge> 100" "stream_loop maxBytes offset (Suc k) ts = (msgs, Some (tot, None))"
        using res2 empty by (cases "Suc k \<ge> 100"; simp)+
      obtain used where "prefix used ts" "decoded_messages msgs = Some (all_bytes used)"
          "tot = offset + int (length (all_bytes used))" "tot \<le> maxBytes" "msgs \<noteq> []" "messages_follow offset msgs"
          "rt_err (last used) = EndOfFile" "used \<noteq> []"
        using 2(2) [OF refl refl refl nc nsz nca _ NoReadErr k(1) k(2) 2(4,5)] empty by auto
      then show ?thesis
        using empty by (intro exI [of _ "t # used"]) (auto simp: all_bytes_def)
    next
      case EndOfFile
      then have "rt_sent t"
        using res2 empty by (cases "rt_sent t") simp_all
      with EndOfFile show ?thesis
        using res2 empty 2(4,5) by (intro exI [of _ "[t]"]) (auto simp: all_bytes_def intro!: exI [of _ "[] :: string"])
    next
      case ReadError
      then show ?thesis using res2 empty by simp
    qed
  next
    case some: False
    have fits: "?n \<le> ?r"
      using res2 some by (cases "?n > ?r") simp_all
    have sent: "rt_sent t"
      using res2 some fits by (cases "rt_sent t") simp_all
    show ?thesis
    proof (cases "rt_err t")
      case NoReadErr
      then obtain msgs' where m: "msgs = ?msg # msgs'" "stream_loop maxBytes (offset + ?n) 0 ts = (msgs', Some (tot, None))"
        using res2 some fits sent by (cases "stream_loop maxBytes (offset + ?n) 0 ts") (auto simp: emit_def)
      obtain used where "prefix used ts" "decoded_messages msgs' = Some (all_bytes used)"
          "tot = offset + ?n + int (length (all_bytes used))" "tot \<le> maxBytes" "msgs' \<noteq> []" "messages_follow (offset + ?n) msgs'"
          "rt_err (last used) = EndOfFile" "used \<noteq> []"
        using 2(1) [OF refl refl refl nc nsz nca, of msgs'] some fits sent NoReadErr m(2) 2(4) by auto
      then show ?thesis
        using m(1) sz some NoReadErr by (intro exI [of _ "t # used"]) (auto simp: all_bytes_def)
    next
      case EndOfFile
      then show ?thesis
        using res2 some fits sent sz by (intro exI [of _ "[t]"]) (auto simp: all_bytes_def emit_def)
    next
      case ReadError
      then show ?thesis using res2 some fits sent by (simp add: emit_def)
    qed
  qed
qed simp

text \<open>A hundred empty reads in a row end the loop, and every other turn moves the offset.\<close>

lemma stream_loop_ends:
  assumes "0 \<le> offset" and "offset \<le> maxBytes" and "k < 100"
    and "int (length ts) \<ge> (maxBytes - offset) * 100 + (100 - int k)"
  shows "snd (stream_loop maxBytes offset k ts) \<noteq> None"
  using assms
proof (induction maxBytes offset k ts rule: stream_loop.induct)
  case (1 maxBytes offset k)
  then show ?case by simp
next
  case (2 maxBytes offset k t ts)
  let ?n = "int (length (rt_bytes t))" and ?r = "maxBytes - offset"
  have rec1: "snd (stream_loop maxBytes (offset + ?n) 0 ts) \<noteq> None"
    if "\<not> rt_cancelled t" "\<not> ?n > read_size ?r" "\<not> rt_cancelledAfter t" "0 < ?n" "\<not> ?n > ?r" "rt_sent t" "rt_err t \<noteq> EndOfFile" "rt_err t \<noteq> ReadError"
  proof -
    have "(maxBytes - (offset + ?n)) * 100 + (100 - int 0) \<le> int (length ts)"
      using mult_right_mono [of 1 ?n 100] that(4) 2(5,6) by (simp add: algebra_simps del: of_nat_0_less_iff length_greater_0_conv)
    then show ?thesis
      using 2(1) [OF refl refl refl that(1-5)] that(4-8) 2(3) by simp
  qed
  have rec2: "snd (stream_loop maxBytes offset (Suc k) ts) \<noteq> None"
    if "\<not> rt_cancelled t" "\<not> ?n > read_size ?r" "\<not> rt_cancelledAfter t" "\<not> 0 < ?n" "rt_err t = NoReadErr" "\<not> Suc k \<ge> 100"
    using 2(2) [OF refl refl refl that] that 2(3-6) by simp
  show ?case
    unfolding stream_loop.simps Let_def emit_def using rec1 rec2 by simp
qed

section \<open>Properties\<close>

text \<open>
  C32. A stream that ends well carried the file. The messages that were sent decode, in order, to
  exactly the bytes the reader returned up to its end of file; each starts at the offset where the
  one before ended, carries at most 64 KiB, and only the last one is marked done; the total is the
  returned offset and at most the limit.
\<close>

theorem streamFileRead_exact:
  assumes "streamFileRead maxBytes ts = (msgs, Some (tot, None))"
  shows "\<exists>used. prefix used ts \<and> used \<noteq> [] \<and> rt_err (last used) = EndOfFile \<and>
    decoded_messages msgs = Some (all_bytes used) \<and> messages_follow 0 msgs \<and>
    tot = int (length (all_bytes used)) \<and> tot \<le> maxBytes"
proof -
  have "\<not> maxBytes < 0" "stream_loop maxBytes 0 0 ts = (msgs, Some (tot, None))"
    using assms by (auto simp: streamFileRead_def split: if_splits)
  then show ?thesis
    using stream_loop_exact [of maxBytes 0 0 ts msgs tot] by auto
qed

definition demo_turn :: "string \<Rightarrow> read_err \<Rightarrow> read_turn" where
  "demo_turn bytes e = \<lparr>rt_cancelled = False, rt_bytes = bytes, rt_err = e, rt_cancelledAfter = False, rt_sent = True\<rparr>"

theorem streamFileRead_exact_witness:
  "\<exists>msgs used. streamFileRead 9 [demo_turn ''hel'' NoReadErr, demo_turn ''lo'' NoReadErr, demo_turn [] EndOfFile] = (msgs, Some (5, None)) \<and>
     decoded_messages msgs = Some (all_bytes used) \<and> messages_follow 0 msgs"
proof -
  obtain msgs where "streamFileRead 9 [demo_turn ''hel'' NoReadErr, demo_turn ''lo'' NoReadErr, demo_turn [] EndOfFile] = (msgs, Some (5, None))"
    by (simp add: streamFileRead_def demo_turn_def read_size_def FileChunkSize_def emit_def)
  then show ?thesis
    using streamFileRead_exact by blast
qed

text \<open>
  C33. The read loop ends. A reader that keeps answering gets at most one hundred turns per byte of the
  limit, and one hundred more: after that many answers the loop has returned, whatever they were.
\<close>

theorem streamFileRead_ends:
  assumes "int (length ts) \<ge> (maxBytes + 1) * 100"
  shows "\<exists>tot err. snd (streamFileRead maxBytes ts) = Some (tot, err)"
  using stream_loop_ends [of 0 maxBytes 0 ts] assms by (auto simp: streamFileRead_def)

theorem streamFileRead_ends_witness:
  "\<exists>tot err. snd (streamFileRead 0 (replicate 100 (demo_turn [] NoReadErr))) = Some (tot, err)"
  by (rule streamFileRead_ends) simp

end
