(* ===== verification/UploadSteps.thy ===== *)
theory UploadSteps
  imports Upload
begin

text \<open>
  Any number of upload calls, expiry timers, \<open>CloseAll\<close>, \<open>AbortWrite\<close> and \<open>SetRootMode\<close> calls run
  at once. A state is the manager and, for each call in flight, where it stands; a step is one
  critical section of one call. A call that wants \<open>pw.mu\<close> waits while another call holds it across
  its sections. Other programs may change any file except the temporary file of an open upload. A mode
  switch that has replaced the scope and not yet begun its \<open>CloseAll\<close> is at \<open>CSwitch old\<close>, where \<open>old\<close>
  is the scope it replaced; the code keeps no such record, and no step reads it.
\<close>

datatype call_state =
    CChecked context_id "64 word" nat write_req string
  | CAborting context_id "64 word" string
  | CAbort context_id "64 word" string nat
  | COpened context_id "64 word" nat write_req string scoped_path
  | CMismatch string nat
  | CHave context_id "64 word" write_req string nat
  | CCommit context_id "64 word" string nat
  | CSwitch scope_fields
  | CRetire "(string \<times> nat) list"

type_synonym upload_state = "upload_manager \<times> (nat \<Rightarrow> call_state option)"

definition req_id :: "write_req \<Rightarrow> string" where
  "req_id req = TrimSpace (rq_RequestID req)"

text \<open>
  A temporary name holds 128 random bits. The commit step assumes that nobody asked for an upload to
  the temporary file of an upload that is still open.
\<close>

definition name_unguessed :: "upload_manager \<Rightarrow> nat \<Rightarrow> bool" where
  "name_unguessed m p \<longleftrightarrow>
     (\<forall>q < length (um_heap m). \<not> pw_Closed (pw_at m q) \<longrightarrow> pw_Path (pw_at m p) \<noteq> pw_TmpPath (pw_at m q))"

inductive upload_step :: "upload_state \<Rightarrow> nat \<Rightarrow> upload_state \<Rightarrow> bool" where
  step_cancel: "ctx \<noteq> 0 \<Longrightarrow> upload_step (m, cs) c (m\<lparr>um_cancelled := (um_cancelled m)(ctx := True)\<rparr>, cs)"
| step_start: "cs c = None \<Longrightarrow> \<not> um_cancelled m ctx \<Longrightarrow> check_request req = Chunk decoded \<Longrightarrow>
    upload_step (m, cs) c (m, cs(c \<mapsto> CChecked ctx (um_writeEpoch m) (um_closes m) req decoded))"
| step_start_abort: "cs c = None \<Longrightarrow> \<not> um_cancelled m ctx \<Longrightarrow> check_request req = AbortWith e \<Longrightarrow>
    upload_step (m, cs) c (m, cs(c \<mapsto> CAborting ctx (um_writeEpoch m) (req_id req)))"
| step_abort_write: "cs c = None \<Longrightarrow>
    upload_step (m, cs) c (m, cs(c \<mapsto> CAborting 0 (um_writeEpoch m) (TrimSpace requestID)))"
| step_open: "cs c = Some (CChecked ctx epoch born req decoded) \<Longrightarrow> openScopedPath fs (um_scope m) (rq_Path req) = Ok target \<Longrightarrow>
    upload_step (m, cs) c (m, cs(c \<mapsto> COpened ctx epoch born req decoded target))"
| step_open_fails: "cs c = Some (CChecked ctx epoch born req decoded) \<Longrightarrow> openScopedPath fs (um_scope m) (rq_Path req) = Err e \<Longrightarrow>
    upload_step (m, cs) c (m, cs(c \<mapsto> CAborting ctx epoch (req_id req)))"
| step_lookup: "cs c = Some (CAborting ctx epoch requestID) \<Longrightarrow>
    upload_step (m, cs) c (m, cs(c := map_option (CAbort ctx epoch requestID) (abort_lookup m ctx epoch requestID)))"
| step_abort: "cs c = Some (CAbort ctx epoch requestID p) \<Longrightarrow> \<not> um_locked m p \<Longrightarrow>
    upload_step (m, cs) c (fst (abort_locked io ctx epoch requestID p m), cs(c := None))"
| step_claim: "cs c = Some (COpened ctx epoch born req decoded target) \<Longrightarrow>
    claim_writer io ctx epoch (req_id req) target m = (m', r) \<Longrightarrow>
    upload_step (m, cs) c (m', cs(c := (case r of ClaimRefused e \<Rightarrow> None | ClaimMismatch p \<Rightarrow> Some (CMismatch (req_id req) p)
       | Claimed p \<Rightarrow> Some (CHave ctx epoch req decoded p))))"
| step_mismatch: "cs c = Some (CMismatch requestID p) \<Longrightarrow> \<not> um_locked m p \<Longrightarrow>
    upload_step (m, cs) c (cleanupWriteLocked io requestID p m, cs(c := None))"
| step_write: "cs c = Some (CHave ctx epoch req decoded p) \<Longrightarrow> \<not> um_locked m p \<Longrightarrow>
    write_locked io ctx epoch (req_id req) p req decoded m = (m', WReturn written e) \<Longrightarrow>
    upload_step (m, cs) c (m', cs(c := None))"
| step_written: "cs c = Some (CHave ctx epoch req decoded p) \<Longrightarrow> \<not> um_locked m p \<Longrightarrow>
    write_locked io ctx epoch (req_id req) p req decoded m = (m', WCommit) \<Longrightarrow>
    upload_step (m, cs) c (m'\<lparr>um_locked := (um_locked m')(p := True)\<rparr>, cs(c \<mapsto> CCommit ctx epoch (req_id req) p))"
| step_commit: "cs c = Some (CCommit ctx epoch requestID p) \<Longrightarrow> name_unguessed m p \<Longrightarrow>
    commit_locked io ctx epoch requestID p m = (m', written, e) \<Longrightarrow>
    upload_step (m, cs) c (m'\<lparr>um_locked := (um_locked m')(p := False)\<rparr>, cs(c := None))"
| step_expire: "p < length (um_heap m) \<Longrightarrow> \<not> um_locked m p \<Longrightarrow>
    upload_step (m, cs) c (fst (expirePendingWrite io (pw_id (pw_at m p)) p now m), cs)"
| step_close_all: "cs c = None \<Longrightarrow> closeall_begin m = (m', pending) \<Longrightarrow> upload_step (m, cs) c (m', cs(c \<mapsto> CRetire pending))"
| step_switch: "cs c = None \<Longrightarrow> SetRootMode fs mode (um_scope m) = (True, sc) \<Longrightarrow>
    upload_step (m, cs) c (m\<lparr>um_scope := sc\<rparr>, cs(c \<mapsto> CSwitch (um_scope m)))"
| step_switched: "cs c = Some (CSwitch old) \<Longrightarrow> closeall_begin m = (m', pending) \<Longrightarrow>
    upload_step (m, cs) c (m', cs(c \<mapsto> CRetire pending))"
| step_retire: "cs c = Some (CRetire ((requestID, p) # rest)) \<Longrightarrow> \<not> um_locked m p \<Longrightarrow>
    upload_step (m, cs) c (cleanupWriteLocked io requestID p m, cs(c \<mapsto> CRetire rest))"
| step_retired: "cs c = Some (CRetire []) \<Longrightarrow> upload_step (m, cs) c (m, cs(c := None))"
| step_outside: "(\<forall>p < length (um_heap m). \<not> pw_Closed (pw_at m p) \<longrightarrow> d (pw_TmpPath (pw_at m p)) = um_disk m (pw_TmpPath (pw_at m p))) \<Longrightarrow>
    upload_step (m, cs) c (m\<lparr>um_disk := d\<rparr>, cs)"

definition upload_init :: "upload_state \<Rightarrow> bool" where
  "upload_init s \<longleftrightarrow> (\<exists>sc disk. s = (NewUploadManager sc disk, (\<lambda>_. None)))"

section \<open>The invariant of the manager\<close>

fun contiguous :: "int \<Rightarrow> (int \<times> string) list \<Rightarrow> bool" where
  "contiguous n [] = True"
| "contiguous n ((off, bytes) # rest) \<longleftrightarrow> off = n \<and> contiguous (n + int (length bytes)) rest"

definition content :: "pending_write \<Rightarrow> string" where
  "content pw = concat (map snd (pw_chunks pw))"

lemma contiguous_snoc:
  "contiguous n (cs @ [(off, bytes)]) \<longleftrightarrow> contiguous n cs \<and> off = n + int (length (concat (map snd cs)))"
  by (induction n cs rule: contiguous.induct) auto

definition pw_ok :: "pending_write \<Rightarrow> bool" where
  "pw_ok pw \<longleftrightarrow> pw_Written pw = int (length (content pw)) \<and> pw_Written pw \<le> MaxFileSize \<and> contiguous 0 (pw_chunks pw) \<and>
     (\<forall>ch \<in> set (pw_chunks pw). length (snd ch) \<le> FileChunkSize)"

text \<open>The fields of an upload that never change.\<close>

definition pw_static :: "pending_write \<Rightarrow> string \<times> nat \<times> string \<times> string \<times> string \<times> string" where
  "pw_static pw = (pw_id pw, pw_born pw, pw_Path pw, pw_base pw, pw_RelPath pw, pw_TmpPath pw)"

definition writers_ok :: "upload_manager \<Rightarrow> bool" where
  "writers_ok m \<longleftrightarrow> distinct (map fst (um_writers m)) \<and> length (um_writers m) \<le> maxWritePending \<and>
     (\<forall>(requestID, p) \<in> set (um_writers m). p < length (um_heap m) \<and> pw_id (pw_at m p) = requestID \<and>
        \<not> pw_Closed (pw_at m p) \<and> pw_born (pw_at m p) = um_closes m)"

definition temps_ok :: "upload_manager \<Rightarrow> bool" where
  "temps_ok m \<longleftrightarrow>
     (\<forall>p < length (um_heap m). \<not> pw_Closed (pw_at m p) \<longrightarrow>
        pw_hasRoot (pw_at m p) \<and> um_disk m (pw_TmpPath (pw_at m p)) = Some (content (pw_at m p))) \<and>
     (\<forall>p < length (um_heap m). \<forall>q < length (um_heap m). \<not> pw_Closed (pw_at m p) \<longrightarrow> \<not> pw_Closed (pw_at m q) \<longrightarrow>
        pw_TmpPath (pw_at m p) = pw_TmpPath (pw_at m q) \<longrightarrow> p = q)"

definition heap_ok :: "upload_manager \<Rightarrow> bool" where
  "heap_ok m \<longleftrightarrow> um_writeEpoch m = of_nat (um_closes m) \<and>
     (\<forall>p < length (um_heap m). pw_ok (pw_at m p) \<and> pw_born (pw_at m p) \<le> um_closes m)"

definition minv :: "upload_manager \<Rightarrow> bool" where
  "minv m \<longleftrightarrow> heap_ok m \<and> writers_ok m \<and> temps_ok m"

text \<open>What a section that works on upload \<open>p\<close> leaves alone.\<close>

definition frame :: "nat \<Rightarrow> upload_manager \<Rightarrow> upload_manager \<Rightarrow> bool" where
  "frame p m m' \<longleftrightarrow> map pw_static (um_heap m') = map pw_static (um_heap m) \<and>
     (\<forall>q. q \<noteq> p \<longrightarrow> pw_at m' q = pw_at m q) \<and> um_closes m' = um_closes m \<and> um_writeEpoch m' = um_writeEpoch m \<and>
     um_scope m' = um_scope m \<and> (\<forall>q. q \<noteq> p \<longrightarrow> um_locked m' q = um_locked m q) \<and>
     (\<forall>e. snd e \<noteq> p \<longrightarrow> (e \<in> set (um_writers m') \<longleftrightarrow> e \<in> set (um_writers m))) \<and> set (um_writers m') \<subseteq> set (um_writers m) \<and>
     (p < length (um_heap m) \<longrightarrow> pw_Closed (pw_at m p) \<longrightarrow> pw_Closed (pw_at m' p)) \<and>
     (p < length (um_heap m) \<longrightarrow> pw_Closed (pw_at m' p) \<or> um_writers m' = um_writers m)"

lemma frame_refl: "frame p m m"
  by (simp add: frame_def)

lemma frame_static:
  assumes "frame p m m'"
  shows "length (um_heap m') = length (um_heap m)"
    and "q < length (um_heap m) \<Longrightarrow> pw_static (pw_at m' q) = pw_static (pw_at m q)"
proof -
  have e: "map pw_static (um_heap m') = map pw_static (um_heap m)"
    using assms by (simp add: frame_def)
  show l: "length (um_heap m') = length (um_heap m)"
    using arg_cong [OF e, of length] by simp
  show "q < length (um_heap m) \<Longrightarrow> pw_static (pw_at m' q) = pw_static (pw_at m q)"
    using arg_cong [OF e, of "\<lambda>xs. xs ! q"] l by simp
qed

lemma frame_fields:
  assumes "frame p m m'" and "q < length (um_heap m)"
  shows "pw_id (pw_at m' q) = pw_id (pw_at m q)" "pw_born (pw_at m' q) = pw_born (pw_at m q)"
    "pw_Path (pw_at m' q) = pw_Path (pw_at m q)" "pw_base (pw_at m' q) = pw_base (pw_at m q)"
    "pw_RelPath (pw_at m' q) = pw_RelPath (pw_at m q)" "pw_TmpPath (pw_at m' q) = pw_TmpPath (pw_at m q)"
  using frame_static(2) [OF assms] by (simp_all add: pw_static_def)

lemma set_pw_simps [simp]:
  "um_scope (set_pw p pw m) = um_scope m" "um_writers (set_pw p pw m) = um_writers m"
  "um_writeEpoch (set_pw p pw m) = um_writeEpoch m" "um_heap (set_pw p pw m) = (um_heap m)[p := pw]"
  "um_disk (set_pw p pw m) = um_disk m" "um_cancelled (set_pw p pw m) = um_cancelled m"
  "um_locked (set_pw p pw m) = um_locked m" "um_closes (set_pw p pw m) = um_closes m" "um_idleTTL (set_pw p pw m) = um_idleTTL m"
  by (simp_all add: set_pw_def)

lemma removePendingWrite_simps [simp]:
  "um_scope (removePendingWrite i p m) = um_scope m"
  "um_writeEpoch (removePendingWrite i p m) = um_writeEpoch m" "um_heap (removePendingWrite i p m) = um_heap m"
  "um_disk (removePendingWrite i p m) = um_disk m" "um_cancelled (removePendingWrite i p m) = um_cancelled m"
  "um_locked (removePendingWrite i p m) = um_locked m" "um_closes (removePendingWrite i p m) = um_closes m"
  by (simp_all add: removePendingWrite_def)

lemma remove_temp_simps [simp]:
  "um_scope (remove_temp io path m) = um_scope m" "um_writers (remove_temp io path m) = um_writers m"
  "um_writeEpoch (remove_temp io path m) = um_writeEpoch m" "um_heap (remove_temp io path m) = um_heap m"
  "um_cancelled (remove_temp io path m) = um_cancelled m" "um_locked (remove_temp io path m) = um_locked m"
  "um_closes (remove_temp io path m) = um_closes m"
  "q \<noteq> path \<Longrightarrow> um_disk (remove_temp io path m) q = um_disk m q"
  by (simp_all add: remove_temp_def)

section \<open>Every section keeps the invariant\<close>

lemma remove_writers:
  assumes "distinct (map fst (um_writers m))" and "\<forall>e \<in> set (um_writers m). snd e = p \<longrightarrow> fst e = i"
  shows "set (um_writers (removePendingWrite i p m)) = {e \<in> set (um_writers m). snd e \<noteq> p}"
    and "distinct (map fst (um_writers (removePendingWrite i p m)))"
    and "length (um_writers (removePendingWrite i p m)) \<le> length (um_writers m)"
proof -
  show "distinct (map fst (um_writers (removePendingWrite i p m)))"
    "length (um_writers (removePendingWrite i p m)) \<le> length (um_writers m)"
    using assms(1) by (auto simp: removePendingWrite_def distinct_map_filter)
  show "set (um_writers (removePendingWrite i p m)) = {e \<in> set (um_writers m). snd e \<noteq> p}"
  proof (cases "map_of (um_writers m) i = Some p")
    case True
    have "fst e \<noteq> i \<longleftrightarrow> snd e \<noteq> p" if "e \<in> set (um_writers m)" for e
    proof -
      have "map_of (um_writers m) (fst e) = Some (snd e)"
        using that assms(1) by simp
      with True have "fst e = i \<Longrightarrow> snd e = p"
        by (simp only: option.inject)
      moreover have "snd e = p \<Longrightarrow> fst e = i"
        using assms(2) that by blast
      ultimately show ?thesis by blast
    qed
    with True show ?thesis by (auto simp: removePendingWrite_def)
  next
    case False
    then have "(i, p) \<notin> set (um_writers m)"
      using assms(1) by (auto dest: map_of_is_SomeI)
    then have "snd e \<noteq> p" if "e \<in> set (um_writers m)" for e
      using that assms(2) by (cases e) auto
    with False show ?thesis by (auto simp: removePendingWrite_def)
  qed
qed

text \<open>Closing one open upload, whatever happens to its own temporary file.\<close>

lemma minv_close:
  assumes "minv m" and "p < length (um_heap m)"
    and h: "um_heap m' = (um_heap m)[p := pw']" and st: "pw_static pw' = pw_static (pw_at m p)" and ok: "pw_ok pw'"
    and cl: "pw_Closed pw'"
    and w: "um_writers m' = um_writers (removePendingWrite (pw_id (pw_at m p)) p m)"
    and same: "um_closes m' = um_closes m" "um_writeEpoch m' = um_writeEpoch m" "um_scope m' = um_scope m" "um_locked m' = um_locked m"
    and d: "\<And>q. q < length (um_heap m) \<Longrightarrow> q \<noteq> p \<Longrightarrow> \<not> pw_Closed (pw_at m q) \<Longrightarrow>
      um_disk m' (pw_TmpPath (pw_at m q)) = um_disk m (pw_TmpPath (pw_at m q))"
  shows "minv m' \<and> frame p m m'"
proof -
  have inv: "heap_ok m" "writers_ok m" "temps_ok m"
    using assms(1) by (simp_all add: minv_def)
  have at: "pw_at m' q = (if q = p then pw' else pw_at m q)" if "q < length (um_heap m)" for q
    using that by (simp add: h)
  have len: "length (um_heap m') = length (um_heap m)"
    by (simp add: h)
  have ids: "\<forall>e \<in> set (um_writers m). snd e = p \<longrightarrow> fst e = pw_id (pw_at m p)"
    using inv(2) by (auto simp: writers_ok_def)
  have ws: "set (um_writers m') = {e \<in> set (um_writers m). snd e \<noteq> p}"
      "distinct (map fst (um_writers m'))" "length (um_writers m') \<le> length (um_writers m)"
    unfolding w using remove_writers [OF _ ids] inv(2) by (simp_all add: writers_ok_def)
  have "heap_ok m'"
    using inv(1) ok st assms(2) at by (auto simp: heap_ok_def same len pw_static_def)
  moreover have "writers_ok m'"
    using inv(2) ws at by (auto simp: writers_ok_def len same)
  moreover have "temps_ok m'"
    using inv(3) at d cl unfolding temps_ok_def len by auto
  moreover have "frame p m m'"
    using st assms(2) cl ws(1) by (auto simp: frame_def h same map_update list_update_same_conv)
  ultimately show ?thesis by (simp add: minv_def)
qed

lemma closed_not_writer: "minv m \<Longrightarrow> p < length (um_heap m) \<Longrightarrow> pw_Closed (pw_at m p) \<Longrightarrow> (i, p) \<notin> set (um_writers m)"
  by (auto simp: minv_def writers_ok_def)

lemma pw_static_close [simp]:
  "pw_static (stopPendingWriteTimerLocked (pw\<lparr>pw_Closed := c, pw_hasRoot := h\<rparr>)) = pw_static pw"
  "pw_Closed (stopPendingWriteTimerLocked (pw\<lparr>pw_Closed := c, pw_hasRoot := h\<rparr>)) = c"
  "pw_ok (stopPendingWriteTimerLocked (pw\<lparr>pw_Closed := c, pw_hasRoot := h\<rparr>)) = pw_ok pw"
  by (simp_all add: stopPendingWriteTimerLocked_def pw_static_def pw_ok_def content_def)

lemma minv_D:
  assumes "minv m" and "p < length (um_heap m)"
  shows "pw_ok (pw_at m p)" "pw_born (pw_at m p) \<le> um_closes m" "um_writeEpoch m = of_nat (um_closes m)"
    "\<not> pw_Closed (pw_at m p) \<Longrightarrow> pw_hasRoot (pw_at m p)"
    "\<not> pw_Closed (pw_at m p) \<Longrightarrow> um_disk m (pw_TmpPath (pw_at m p)) = Some (content (pw_at m p))"
    "q < length (um_heap m) \<Longrightarrow> \<not> pw_Closed (pw_at m p) \<Longrightarrow> \<not> pw_Closed (pw_at m q) \<Longrightarrow>
       pw_TmpPath (pw_at m p) = pw_TmpPath (pw_at m q) \<Longrightarrow> p = q"
  using assms unfolding minv_def heap_ok_def temps_ok_def by blast+

lemma removePendingWrite_writers: "um_writers m1 = um_writers m \<Longrightarrow> um_writers (removePendingWrite i p m1) = um_writers (removePendingWrite i p m)"
  by (simp add: removePendingWrite_def)

text \<open>
  What the clean-up of an upload gives: everything kept, the upload closed and out of the map. The
  first form also covers a temporary file that a failed write left in any state.
\<close>

lemma cleanup_open:
  assumes "minv m" and "p < length (um_heap m)" and "requestID = pw_id (pw_at m p)" and "\<not> pw_Closed (pw_at m p)"
    and d: "\<And>x. x \<noteq> pw_TmpPath (pw_at m p) \<Longrightarrow> d x = um_disk m x"
  shows "minv (cleanupWriteLocked io requestID p (m\<lparr>um_disk := d\<rparr>)) \<and>
    frame p m (cleanupWriteLocked io requestID p (m\<lparr>um_disk := d\<rparr>)) \<and>
    pw_Closed (pw_at (cleanupWriteLocked io requestID p (m\<lparr>um_disk := d\<rparr>)) p)"
proof -
  define pw' where "pw' = stopPendingWriteTimerLocked ((pw_at m p)\<lparr>pw_Closed := True, pw_hasRoot := False\<rparr>)"
  have eq: "cleanupWriteLocked io requestID p (m\<lparr>um_disk := d\<rparr>) =
      removePendingWrite requestID p (remove_temp io (pw_TmpPath (pw_at m p)) (set_pw p pw' (m\<lparr>um_disk := d\<rparr>)))"
    using assms(4) minv_D(4) [OF assms(1,2,4)] by (simp add: cleanupWriteLocked_def pw'_def Let_def)
  have ok: "pw_ok pw'" "pw_static pw' = pw_static (pw_at m p)" "pw_Closed pw'"
    using minv_D(1) [OF assms(1,2)] by (simp_all add: pw'_def)
  have ne: "pw_TmpPath (pw_at m q) \<noteq> pw_TmpPath (pw_at m p)"
    if "q < length (um_heap m)" "q \<noteq> p" "\<not> pw_Closed (pw_at m q)" for q
    using minv_D(6) [OF assms(1,2) that(1) assms(4) that(3)] that(2) by auto
  have "minv (cleanupWriteLocked io requestID p (m\<lparr>um_disk := d\<rparr>)) \<and> frame p m (cleanupWriteLocked io requestID p (m\<lparr>um_disk := d\<rparr>))"
    unfolding eq using ok ne assms
    by (intro minv_close [where pw' = pw'] removePendingWrite_writers) (auto intro!: removePendingWrite_writers)
  then show ?thesis
    using assms(2) ok(3) by (simp add: eq)
qed

lemma cleanup_ok:
  assumes "minv m" and "p < length (um_heap m)" and "requestID = pw_id (pw_at m p)"
  shows "minv (cleanupWriteLocked io requestID p m) \<and> frame p m (cleanupWriteLocked io requestID p m) \<and>
    pw_Closed (pw_at (cleanupWriteLocked io requestID p m) p)"
proof (cases "pw_Closed (pw_at m p)")
  case True
  then have "map_of (um_writers m) requestID \<noteq> Some p"
    using closed_not_writer [OF assms(1,2)] by (auto dest: map_of_SomeD)
  with True assms(1) show ?thesis
    by (simp add: cleanupWriteLocked_def removePendingWrite_def frame_refl)
next
  case False
  then show ?thesis
    using cleanup_open [OF assms False, of "um_disk m" io] by simp
qed

lemma give_up_ok:
  assumes "minv m" and "p < length (um_heap m)" and "requestID = pw_id (pw_at m p)"
  shows "minv (fst (give_up io requestID p e m)) \<and> frame p m (fst (give_up io requestID p e m))"
  using cleanup_ok [OF assms] by (simp add: give_up_def)

text \<open>Updating an upload in place.\<close>

lemma minv_touch:
  assumes "minv m" and "p < length (um_heap m)"
    and h: "um_heap m' = (um_heap m)[p := pw']" and st: "pw_static pw' = pw_static (pw_at m p)" and ok: "pw_ok pw'"
    and cl: "pw_Closed pw' = pw_Closed (pw_at m p)" "pw_hasRoot pw' = pw_hasRoot (pw_at m p)"
    and same: "um_writers m' = um_writers m" "um_closes m' = um_closes m" "um_writeEpoch m' = um_writeEpoch m"
      "um_scope m' = um_scope m" "um_locked m' = um_locked m"
    and d: "\<not> pw_Closed pw' \<Longrightarrow> um_disk m' (pw_TmpPath pw') = Some (content pw')"
      "\<And>x. x \<noteq> pw_TmpPath (pw_at m p) \<or> pw_Closed pw' \<Longrightarrow> um_disk m' x = um_disk m x"
  shows "minv m' \<and> frame p m m'"
proof -
  have inv: "heap_ok m" "writers_ok m" "temps_ok m"
    using assms(1) by (simp_all add: minv_def)
  have at: "pw_at m' q = (if q = p then pw' else pw_at m q)" if "q < length (um_heap m)" for q
    using that by (simp add: h)
  have len: "length (um_heap m') = length (um_heap m)"
    by (simp add: h)
  have fs: "pw_id pw' = pw_id (pw_at m p)" "pw_born pw' = pw_born (pw_at m p)" "pw_TmpPath pw' = pw_TmpPath (pw_at m p)"
    using st by (simp_all add: pw_static_def)
  have unch: "pw_id (pw_at m' q) = pw_id (pw_at m q)" "pw_born (pw_at m' q) = pw_born (pw_at m q)"
      "pw_Closed (pw_at m' q) = pw_Closed (pw_at m q)" "pw_TmpPath (pw_at m' q) = pw_TmpPath (pw_at m q)"
    if "q < length (um_heap m)" for q
    using at [OF that] fs cl by simp_all
  have "heap_ok m'"
    using inv(1) ok fs at by (auto simp: heap_ok_def same len)
  moreover have "writers_ok m'"
    using inv(2) unch(1-3) unfolding writers_ok_def len same split_beta by simp
  moreover have "temps_ok m'"
  proof -
    have u: "p' = q" if "p' < length (um_heap m)" "q < length (um_heap m)" "\<not> pw_Closed (pw_at m' p')" "\<not> pw_Closed (pw_at m' q)"
      "pw_TmpPath (pw_at m' p') = pw_TmpPath (pw_at m' q)" for p' q
      using minv_D(6) [OF assms(1) that(1,2)] that(3-5) unfolding unch [OF that(1)] unch [OF that(2)] by blast
    have c: "pw_hasRoot (pw_at m' q) \<and> um_disk m' (pw_TmpPath (pw_at m' q)) = Some (content (pw_at m' q))"
      if q: "q < length (um_heap m)" "\<not> pw_Closed (pw_at m' q)" for q
    proof (cases "q = p")
      case True
      then show ?thesis
        using q at cl d(1) minv_D(4) [OF assms(1,2)] by auto
    next
      case False
      then have "pw_at m' q = pw_at m q" "\<not> pw_Closed (pw_at m q)"
        using at q by auto
      moreover from this have "pw_TmpPath (pw_at m q) \<noteq> pw_TmpPath (pw_at m p) \<or> pw_Closed pw'"
        using minv_D(6) [OF assms(1,2) q(1)] cl(1) False by auto
      ultimately show ?thesis
        using d(2) minv_D(4,5) [OF assms(1) q(1)] by simp
    qed
    show ?thesis
      unfolding temps_ok_def len using u c by blast
  qed
  moreover have "frame p m m'"
    using st assms(2) cl by (auto simp: frame_def h same map_update list_update_same_conv)
  ultimately show ?thesis by (simp add: minv_def)
qed

lemma expire_ok:
  assumes "minv m" and "p < length (um_heap m)"
  shows "minv (fst (expirePendingWrite io (pw_id (pw_at m p)) p now m)) \<and> frame p m (fst (expirePendingWrite io (pw_id (pw_at m p)) p now m))"
proof -
  have "minv (set_pw p (armPendingWriteExpiryLocked a (pw_at m p)) m) \<and> frame p m (set_pw p (armPendingWriteExpiryLocked a (pw_at m p)) m)" for a
    using minv_D [OF assms]
    by (intro minv_touch [OF assms, where pw' = "armPendingWriteExpiryLocked a (pw_at m p)"])
      (auto simp: armPendingWriteExpiryLocked_def pw_static_def pw_ok_def content_def)
  then show ?thesis
    using assms(1) cleanup_ok [OF assms refl] by (simp add: expirePendingWrite_def Let_def frame_refl)
qed

lemma write_chunk_ok:
  assumes "minv m" and "p < length (um_heap m)" and open_pw: "\<not> pw_Closed (pw_at m p)"
    and "length decoded \<le> FileChunkSize" and "pw_Written (pw_at m p) + int (length decoded) \<le> MaxFileSize"
    and off: "offset = pw_Written (pw_at m p)"
  shows "minv (write_chunk io p offset decoded m) \<and> frame p m (write_chunk io p offset decoded m)"
proof -
  define pw' where "pw' = (pw_at m p)\<lparr>pw_Written := pw_Written (pw_at m p) + int (length decoded), pw_lastActivity := io_now io,
            pw_chunks := pw_chunks (pw_at m p) @ [(offset, decoded)]\<rparr>"
  have c: "content pw' = content (pw_at m p) @ decoded"
    by (simp add: pw'_def content_def)
  have "pw_ok pw'"
    using minv_D(1) [OF assms(1,2)] assms(4,5) by (auto simp: pw_ok_def c) (auto simp: pw'_def off contiguous_snoc content_def)
  then show ?thesis
    using minv_D(5) [OF assms(1,2) open_pw] open_pw
    by (intro minv_touch [OF assms(1,2), where pw' = pw'])
      (auto simp: write_chunk_def pw'_def [symmetric] Let_def c append_file_def, simp_all add: pw'_def pw_static_def)
qed

lemma frame_trans:
  assumes "frame p m m1" and "frame p m1 m2"
  shows "frame p m m2"
  using assms frame_static(1) [OF assms(1)] unfolding frame_def by (auto simp: subset_iff)

lemma append_file_other: "x \<noteq> path \<Longrightarrow> append_file path bytes d x = d x"
  by (simp add: append_file_def split: option.splits)

lemma pw_at_write_chunk:
  "p < length (um_heap m) \<Longrightarrow> pw_id (pw_at (write_chunk io p offset decoded m) p) = pw_id (pw_at m p) \<and>
    pw_Closed (pw_at (write_chunk io p offset decoded m) p) = pw_Closed (pw_at m p)"
  by (simp add: write_chunk_def Let_def)

lemma give_up_return [simp]: "snd (give_up io requestID p e m) \<noteq> WCommit"
  by (simp add: give_up_def)

lemma give_up_written_ok:
  assumes "minv m" and "p < length (um_heap m)" and "requestID = pw_id (pw_at m p)" and "\<not> pw_Closed (pw_at m p)"
    and "length decoded \<le> FileChunkSize" and "pw_Written (pw_at m p) + int (length decoded) \<le> MaxFileSize"
    and off: "offset = pw_Written (pw_at m p)"
  shows "minv (fst (give_up io requestID p e (write_chunk io p offset decoded m))) \<and>
    frame p m (fst (give_up io requestID p e (write_chunk io p offset decoded m)))"
proof -
  let ?m1 = "write_chunk io p offset decoded m"
  have m1: "minv ?m1" "frame p m ?m1"
    using write_chunk_ok [OF assms(1,2,4,5,6) off] by simp_all
  have "p < length (um_heap ?m1)" "requestID = pw_id (pw_at ?m1 p)"
    using frame_static(1) [OF m1(2)] assms(2,3) pw_at_write_chunk [OF assms(2)] by simp_all
  then show ?thesis
    using give_up_ok [OF m1(1)] frame_trans [OF m1(2)] by blast
qed

lemma give_up_failed_ok:
  assumes "minv m" and "p < length (um_heap m)" and "requestID = pw_id (pw_at m p)" and "\<not> pw_Closed (pw_at m p)"
  shows "minv (fst (give_up io requestID p e (m\<lparr>um_disk := append_file (pw_TmpPath (pw_at m p)) bytes (um_disk m)\<rparr>))) \<and>
    frame p m (fst (give_up io requestID p e (m\<lparr>um_disk := append_file (pw_TmpPath (pw_at m p)) bytes (um_disk m)\<rparr>)))"
  using cleanup_open [OF assms, of "append_file (pw_TmpPath (pw_at m p)) bytes (um_disk m)" io]
  by (simp add: give_up_def append_file_other)

lemma write_locked_ok:
  assumes "minv m" and "p < length (um_heap m)" and "requestID = pw_id (pw_at m p)" and "length decoded \<le> FileChunkSize"
    and "write_locked io ctx epoch requestID p req decoded m = (m', r)"
  shows "minv m' \<and> frame p m m' \<and> (r = WCommit \<longrightarrow> \<not> pw_Closed (pw_at m' p))"
proof -
  let ?w = "write_locked io ctx epoch requestID p req decoded m"
  have "minv (fst ?w) \<and> frame p m (fst ?w) \<and> (snd ?w = WCommit \<longrightarrow> \<not> pw_Closed (pw_at (fst ?w) p))"
    using assms(1) give_up_ok [OF assms(1-3)] give_up_failed_ok [OF assms(1-3)] give_up_written_ok [OF assms(1-3) _ assms(4)]
      write_chunk_ok [OF assms(1,2) _ assms(4)] pw_at_write_chunk [OF assms(2)]
    by (simp add: write_locked_def Let_def frame_refl split: option.split)
  then show ?thesis
    by (simp add: assms(5))
qed

lemma commit_ok:
  assumes "minv m" and "p < length (um_heap m)" and "requestID = pw_id (pw_at m p)" and "name_unguessed m p"
    and "\<not> pw_Closed (pw_at m p)" and "commit_locked io ctx epoch requestID p m = (m', written, e)"
  shows "minv m' \<and> frame p m m' \<and> pw_Closed (pw_at m' p)"
proof (cases e)
  case (Some x)
  then have "m' = cleanupWriteLocked io requestID p m"
    using assms(6) by (auto simp: commit_locked_def Let_def split: option.splits if_splits)
  then show ?thesis
    using cleanup_ok [OF assms(1-3)] by simp
next
  case None
  define pw' where "pw' = stopPendingWriteTimerLocked ((pw_at m p)\<lparr>pw_Closed := True, pw_hasRoot := False\<rparr>)"
  have m': "m' = removePendingWrite requestID p ((set_pw p pw' m)\<lparr>um_disk := rename_file (pw_TmpPath (pw_at m p)) (pw_Path (pw_at m p)) (um_disk m)\<rparr>)"
    using assms(6) None by (auto simp: commit_locked_def Let_def pw'_def split: option.splits if_splits)
  have ok: "pw_ok pw'" "pw_static pw' = pw_static (pw_at m p)" "pw_Closed pw'"
    using minv_D(1) [OF assms(1,2)] by (simp_all add: pw'_def)
  have d: "rename_file (pw_TmpPath (pw_at m p)) (pw_Path (pw_at m p)) (um_disk m) (pw_TmpPath (pw_at m q)) = um_disk m (pw_TmpPath (pw_at m q))"
    if "q < length (um_heap m)" "q \<noteq> p" "\<not> pw_Closed (pw_at m q)" for q
  proof -
    have "pw_TmpPath (pw_at m q) \<noteq> pw_TmpPath (pw_at m p)" "pw_TmpPath (pw_at m q) \<noteq> pw_Path (pw_at m p)"
      using minv_D(6) [OF assms(1,2) that(1) assms(5) that(3)] that assms(4) unfolding name_unguessed_def by metis+
    then show ?thesis by (simp add: rename_file_def)
  qed
  have "minv m' \<and> frame p m m'"
    unfolding m' using ok d assms(1-3)
    by (intro minv_close [where pw' = pw'] removePendingWrite_writers) (auto intro!: removePendingWrite_writers)
  then show ?thesis
    using ok(3) assms(2) by (simp add: m')
qed

section \<open>Starting and closing\<close>

lemma createTemp_fresh: "createTempInRoot io disk base dirRel k = Ok rel \<Longrightarrow> disk (JoinPath [base, rel]) = None"
  by (induction k) (auto simp: Let_def split: option.splits if_splits)

text \<open>A new upload beside the old ones.\<close>

definition grow :: "scoped_path \<Rightarrow> upload_manager \<Rightarrow> upload_manager \<Rightarrow> bool" where
  "grow target m m' \<longleftrightarrow> um_closes m' = um_closes m \<and> um_writeEpoch m' = um_writeEpoch m \<and> um_scope m' = um_scope m \<and>
     um_locked m' = um_locked m \<and> set (um_writers m) \<subseteq> set (um_writers m') \<and> length (um_heap m) \<le> length (um_heap m') \<and>
     (\<forall>q < length (um_heap m). pw_at m' q = pw_at m q) \<and>
     (\<forall>q < length (um_heap m'). length (um_heap m) \<le> q \<longrightarrow> (pw_id (pw_at m' q), q) \<in> set (um_writers m') \<and>
        pw_base (pw_at m' q) = sp_base target \<and> pw_RelPath (pw_at m' q) = sp_rel target \<and> pw_Path (pw_at m' q) = sp_display target)"

lemma grow_refl: "grow target m m"
  by (auto simp: grow_def)

lemma minv_new:
  assumes "minv m" and "length (um_writers m) < maxWritePending" and "map_of (um_writers m) (pw_id pw) = None"
    and "um_disk m (pw_TmpPath pw) = None" and "\<not> pw_Closed pw" and "pw_hasRoot pw" and "pw_ok pw" and "content pw = []"
    and "pw_born pw = um_closes m"
  shows "minv (add_pending pw m)" (is "minv ?m'")
proof -
  have inv: "heap_ok m" "writers_ok m" "temps_ok m"
    using assms(1) by (simp_all add: minv_def)
  have fresh: "pw_TmpPath (pw_at m q) \<noteq> pw_TmpPath pw" if "q < length (um_heap m)" "\<not> pw_Closed (pw_at m q)" for q
    using minv_D(5) [OF assms(1) that] assms(4) by auto
  have "heap_ok ?m'"
    using inv(1) assms(7,9) by (auto simp: heap_ok_def add_pending_def nth_append)
  moreover have "writers_ok ?m'"
    using inv(2) assms(2,3,5,9) by (auto simp: writers_ok_def add_pending_def map_of_eq_None_iff nth_append)
  moreover have "temps_ok ?m'"
    using inv(3) assms(5,6,8) fresh fresh [THEN not_sym] by (auto simp: temps_ok_def add_pending_def nth_append less_Suc_eq)
  ultimately show ?thesis by (simp add: minv_def)
qed

lemma armed_simps [simp]:
  "pw_Closed (armPendingWriteExpiryLocked a pw) = pw_Closed pw" "pw_hasRoot (armPendingWriteExpiryLocked a pw) = pw_hasRoot pw"
  "pw_chunks (armPendingWriteExpiryLocked a pw) = pw_chunks pw" "pw_Written (armPendingWriteExpiryLocked a pw) = pw_Written pw"
  "pw_static (armPendingWriteExpiryLocked a pw) = pw_static pw"
  by (simp_all add: armPendingWriteExpiryLocked_def pw_static_def)

lemma armed_fields [simp]:
  "pw_id (armPendingWriteExpiryLocked a pw) = pw_id pw" "pw_born (armPendingWriteExpiryLocked a pw) = pw_born pw"
  "pw_Path (armPendingWriteExpiryLocked a pw) = pw_Path pw" "pw_base (armPendingWriteExpiryLocked a pw) = pw_base pw"
  "pw_RelPath (armPendingWriteExpiryLocked a pw) = pw_RelPath pw" "pw_TmpPath (armPendingWriteExpiryLocked a pw) = pw_TmpPath pw"
  by (simp_all add: armPendingWriteExpiryLocked_def)

lemma writer_entry:
  assumes "minv m" and "map_of (um_writers m) requestID = Some p"
  shows "p < length (um_heap m)" "pw_id (pw_at m p) = requestID" "pw_born (pw_at m p) = um_closes m" "\<not> pw_Closed (pw_at m p)"
  using map_of_SomeD [OF assms(2)] assms(1) by (auto simp: minv_def writers_ok_def)

lemma claim_ok:
  assumes "minv m" and "claim_writer io ctx epoch requestID target m = (m', r)"
  shows "minv m' \<and> grow target m m' \<and> (case r of
       ClaimRefused e \<Rightarrow> True
     | ClaimMismatch p \<Rightarrow> p < length (um_heap m') \<and> pw_id (pw_at m' p) = requestID
     | Claimed p \<Rightarrow> p < length (um_heap m') \<and> pw_id (pw_at m' p) = requestID \<and> epoch = of_nat (pw_born (pw_at m' p))) \<and>
    (m' \<noteq> m \<longrightarrow> um_writeEpoch m = epoch)"
proof (cases "m' = m")
  case True
  have ep: "um_writeEpoch m = of_nat (um_closes m)"
    using assms(1) by (simp add: minv_def heap_ok_def)
  have "(\<exists>e. r = ClaimRefused e) \<or> um_writeEpoch m = epoch \<and> (\<exists>p. map_of (um_writers m) requestID = Some p \<and> (r = ClaimMismatch p \<or> r = Claimed p))"
    using assms(2) True
    by (auto simp: claim_writer_def Let_def uploadOwnerErrorLocked_def add_pending_def split: option.splits if_splits sum.splits dest!: arg_cong [of _ m um_heap])
  then show ?thesis
    using True assms(1) writer_entry [OF assms(1), of requestID] ep by (cases r) (auto simp: grow_refl)
next
  case False
  then obtain tmpRel where t: "um_writeEpoch m = epoch" "length (um_writers m) < maxWritePending" "map_of (um_writers m) requestID = None"
      "createTempInRoot io (um_disk m) (sp_base target) (Dir (sp_rel target)) 100 = Ok tmpRel"
      "m' = add_pending (armPendingWriteExpiryLocked (writeIdleTTL m) (new_pending io requestID target tmpRel m)) m" "r = Claimed (length (um_heap m))"
    using assms(2) by (auto simp: claim_writer_def Let_def uploadOwnerErrorLocked_def split: option.splits if_splits sum.splits)
  define pw where "pw = armPendingWriteExpiryLocked (writeIdleTTL m) (new_pending io requestID target tmpRel m)"
  have pw: "um_disk m (pw_TmpPath pw) = None" "pw_id pw = requestID" "\<not> pw_Closed pw" "pw_hasRoot pw" "pw_Written pw = 0" "pw_chunks pw = []"
      "pw_born pw = um_closes m" "pw_base pw = sp_base target" "pw_RelPath pw = sp_rel target" "pw_Path pw = sp_display target"
    using createTemp_fresh [OF t(4)] by (simp_all add: pw_def new_pending_def)
  have m': "m' = add_pending pw m"
    by (simp add: t(5) pw_def)
  have "pw_ok pw" "content pw = []"
    using pw by (simp_all add: pw_ok_def content_def MaxFileSize_def)
  then have "minv m'"
    unfolding m' using assms(1) t(2,3) pw by (intro minv_new) simp_all
  moreover have "grow target m m'"
    using pw unfolding m' by (auto simp: grow_def add_pending_def nth_append)
  moreover have "epoch = of_nat (um_closes m)"
    using assms(1) t(1) by (simp add: minv_def heap_ok_def)
  ultimately show ?thesis
    using pw t(1,6) by (simp add: m' add_pending_def nth_append)
qed

lemma closeall_ok:
  assumes "minv m" and "closeall_begin m = (m', pending)"
  shows "minv m'" "pending = um_writers m" "um_heap m' = um_heap m" "um_closes m' = Suc (um_closes m)" "um_scope m' = um_scope m"
    "um_writers m' = []" "um_locked m' = um_locked m"
  using assms by (auto simp: closeall_begin_def minv_def heap_ok_def writers_ok_def temps_ok_def)

section \<open>The invariant of the calls\<close>

definition in_scope :: "scope_fields \<Rightarrow> string \<Rightarrow> string \<Rightarrow> string \<Rightarrow> bool" where
  "in_scope sc display base rel \<longleftrightarrow> rootFor (sc_roots (scope sc)) display = Some (base, rel)"

lemma in_scope_open: "openScopedPath fs sc raw = Ok target \<Longrightarrow> in_scope sc (sp_display target) (sp_base target) (sp_rel target)"
  by (auto simp: openScopedPath_def in_scope_def split: sum.splits option.splits if_splits)

fun call_ok :: "upload_manager \<Rightarrow> call_state \<Rightarrow> bool" where
  "call_ok m (CChecked ctx epoch born req decoded) \<longleftrightarrow>
     epoch = of_nat born \<and> born \<le> um_closes m \<and> length decoded \<le> FileChunkSize"
| "call_ok m (COpened ctx epoch born req decoded target) \<longleftrightarrow>
     epoch = of_nat born \<and> born \<le> um_closes m \<and> length decoded \<le> FileChunkSize"
| "call_ok m (CAbort ctx epoch requestID p) \<longleftrightarrow> p < length (um_heap m) \<and> requestID = pw_id (pw_at m p)"
| "call_ok m (CMismatch requestID p) \<longleftrightarrow> p < length (um_heap m) \<and> requestID = pw_id (pw_at m p)"
| "call_ok m (CHave ctx epoch req decoded p) \<longleftrightarrow>
     p < length (um_heap m) \<and> req_id req = pw_id (pw_at m p) \<and> epoch = of_nat (pw_born (pw_at m p)) \<and> length decoded \<le> FileChunkSize"
| "call_ok m (CCommit ctx epoch requestID p) \<longleftrightarrow>
     p < length (um_heap m) \<and> requestID = pw_id (pw_at m p) \<and> epoch = of_nat (pw_born (pw_at m p)) \<and>
     \<not> pw_Closed (pw_at m p) \<and> um_locked m p"
| "call_ok m (CRetire pending) \<longleftrightarrow> (\<forall>e \<in> set pending. snd e < length (um_heap m) \<and> fst e = pw_id (pw_at m (snd e)))"
| "call_ok m (CAborting ctx epoch requestID) \<longleftrightarrow> True"
| "call_ok m (CSwitch old) \<longleftrightarrow> True"

fun commits_on :: "nat \<Rightarrow> call_state option \<Rightarrow> bool" where
  "commits_on p (Some (CCommit ctx epoch requestID q)) \<longleftrightarrow> q = p"
| "commits_on p _ \<longleftrightarrow> False"

fun retires :: "call_state option \<Rightarrow> (string \<times> nat) set" where
  "retires (Some (CRetire pending)) = set pending"
| "retires _ = {}"

fun opened :: "call_state option \<Rightarrow> (nat \<times> scoped_path) set" where
  "opened (Some (COpened ctx epoch born req decoded target)) = {(born, target)}"
| "opened _ = {}"

text \<open>The scopes that mode switches between their two sections are replacing.\<close>

fun replaced :: "call_state option \<Rightarrow> scope_fields set" where
  "replaced (Some (CSwitch old)) = {old}"
| "replaced _ = {}"

definition allowed :: "upload_manager \<Rightarrow> (nat \<Rightarrow> call_state option) \<Rightarrow> string \<Rightarrow> string \<Rightarrow> string \<Rightarrow> bool" where
  "allowed m cs display base rel \<longleftrightarrow>
     in_scope (um_scope m) display base rel \<or> (\<exists>c old. old \<in> replaced (cs c) \<and> in_scope old display base rel)"

lemma replaced_iff: "old \<in> replaced x \<longleftrightarrow> x = Some (CSwitch old)"
  by (cases "(old, x)" rule: prod.exhaust, cases x rule: replaced.cases) auto

lemma allowed_upd:
  assumes "allowed m cs d b r" and "um_scope m' = um_scope m" and "replaced (cs c) \<subseteq> replaced x"
  shows "allowed m' (cs(c := x)) d b r"
proof -
  consider "in_scope (um_scope m) d b r" | c' old where "old \<in> replaced (cs c')" "in_scope old d b r"
    using assms(1) by (auto simp: allowed_def)
  then show ?thesis
  proof cases
    case (2 c' old)
    then have "old \<in> replaced ((cs(c := x)) c')"
      using assms(3) by (cases "c' = c") auto
    then show ?thesis unfolding allowed_def using 2(2) by blast
  qed (simp add: allowed_def assms(2))
qed

definition tracked :: "upload_manager \<Rightarrow> (nat \<Rightarrow> call_state option) \<Rightarrow> nat \<Rightarrow> bool" where
  "tracked m cs p \<longleftrightarrow> (pw_id (pw_at m p), p) \<in> set (um_writers m) \<or> (\<exists>c. (pw_id (pw_at m p), p) \<in> retires (cs c))"

lemma tracked_upd:
  assumes "tracked m cs q" and "retires (cs c) \<subseteq> retires x" and "pw_id (pw_at m' q) = pw_id (pw_at m q)"
    and "set (um_writers m) \<subseteq> set (um_writers m')"
  shows "tracked m' (cs(c := x)) q"
proof -
  consider "(pw_id (pw_at m q), q) \<in> set (um_writers m)" | c' where "(pw_id (pw_at m q), q) \<in> retires (cs c')"
    using assms(1) by (auto simp: tracked_def)
  then show ?thesis
  proof cases
    case (2 c')
    then have "(pw_id (pw_at m q), q) \<in> retires ((cs(c := x)) c')"
      using assms(2) by (cases "c' = c") auto
    then show ?thesis unfolding tracked_def assms(3) by blast
  qed (use assms(3,4) in \<open>auto simp: tracked_def\<close>)
qed

definition scoped :: "upload_manager \<Rightarrow> (nat \<Rightarrow> call_state option) \<Rightarrow> bool" where
  "scoped m cs \<longleftrightarrow>
     (\<forall>p < length (um_heap m). pw_born (pw_at m p) = um_closes m \<longrightarrow>
        allowed m cs (pw_Path (pw_at m p)) (pw_base (pw_at m p)) (pw_RelPath (pw_at m p))) \<and>
     (\<forall>c born target. (born, target) \<in> opened (cs c) \<longrightarrow> born = um_closes m \<longrightarrow>
        allowed m cs (sp_display target) (sp_base target) (sp_rel target))"

lemma scopedI:
  "(\<And>q. q < length (um_heap m) \<Longrightarrow> pw_born (pw_at m q) = um_closes m \<Longrightarrow>
      allowed m cs (pw_Path (pw_at m q)) (pw_base (pw_at m q)) (pw_RelPath (pw_at m q))) \<Longrightarrow>
   (\<And>c t. (um_closes m, t) \<in> opened (cs c) \<Longrightarrow> allowed m cs (sp_display t) (sp_base t) (sp_rel t)) \<Longrightarrow> scoped m cs"
  unfolding scoped_def by blast

definition upload_inv :: "upload_state \<Rightarrow> bool" where
  "upload_inv s \<longleftrightarrow> (case s of (m, cs) \<Rightarrow>
     minv m \<and> (\<forall>c st. cs c = Some st \<longrightarrow> call_ok m st) \<and>
     (\<forall>p c c'. commits_on p (cs c) \<longrightarrow> commits_on p (cs c') \<longrightarrow> c = c') \<and>
     (\<forall>p < length (um_heap m). \<not> pw_Closed (pw_at m p) \<longrightarrow> tracked m cs p) \<and>
     (um_closes m < 2 ^ 64 \<longrightarrow> scoped m cs))"

lemma upload_invI:
  "minv m \<Longrightarrow> (\<And>c st. cs c = Some st \<Longrightarrow> call_ok m st) \<Longrightarrow> (\<And>p c c'. commits_on p (cs c) \<Longrightarrow> commits_on p (cs c') \<Longrightarrow> c = c') \<Longrightarrow>
   (\<And>p. p < length (um_heap m) \<Longrightarrow> \<not> pw_Closed (pw_at m p) \<Longrightarrow> tracked m cs p) \<Longrightarrow>
   (um_closes m < 2 ^ 64 \<Longrightarrow> scoped m cs) \<Longrightarrow> upload_inv (m, cs)"
  unfolding upload_inv_def by blast

lemma upload_invD:
  assumes "upload_inv (m, cs)"
  shows "minv m" "cs c = Some st \<Longrightarrow> call_ok m st" "commits_on p (cs c) \<Longrightarrow> commits_on p (cs c') \<Longrightarrow> c = c'"
    "p < length (um_heap m) \<Longrightarrow> \<not> pw_Closed (pw_at m p) \<Longrightarrow> tracked m cs p"
    "um_closes m < 2 ^ 64 \<Longrightarrow> scoped m cs"
  using assms unfolding upload_inv_def by blast+

lemma frame_lock: "frame p m m' \<Longrightarrow> frame p m (m'\<lparr>um_locked := (um_locked m')(p := b)\<rparr>)"
  by (simp add: frame_def)

lemma minv_lock [simp]: "minv (m\<lparr>um_locked := l\<rparr>) = minv m"
  by (simp add: minv_def heap_ok_def writers_ok_def temps_ok_def)

lemma commits_on_locked: "upload_inv (m, cs) \<Longrightarrow> commits_on p (cs c) \<Longrightarrow> um_locked m p"
  using upload_invD(2) [of m cs c] by (cases "cs c" rule: option.exhaust) (auto elim!: commits_on.elims)

lemma call_ok_frame:
  assumes "frame p m m'" and "call_ok m st" and "\<not> commits_on p (Some st)"
  shows "call_ok m' st"
proof -
  have len: "length (um_heap m') = length (um_heap m)"
    using frame_static(1) [OF assms(1)] .
  have same: "um_closes m' = um_closes m" "\<And>q. q \<noteq> p \<Longrightarrow> um_locked m' q = um_locked m q" "\<And>q. q \<noteq> p \<Longrightarrow> pw_at m' q = pw_at m q"
    using assms(1) by (simp_all add: frame_def)
  show ?thesis
    using assms(2,3) same frame_fields [OF assms(1)] by (cases st) (auto simp: len)
qed

text \<open>A section of call \<open>c\<close> on upload \<open>p\<close>, after which the call is at \<open>x\<close>.\<close>

lemma inv_frame:
  assumes inv: "upload_inv (m, cs)" and "minv m'" and fr: "frame p m m'" and p: "p < length (um_heap m)"
    and others: "\<And>c'. c' \<noteq> c \<Longrightarrow> \<not> commits_on p (cs c')"
    and x: "\<And>st. x = Some st \<Longrightarrow> call_ok m' st" "\<And>q. commits_on q x \<Longrightarrow> q = p \<or> commits_on q (cs c)"
      "opened x \<subseteq> opened (cs c)" "replaced (cs c) \<subseteq> replaced x"
    and ret: "\<And>e. e \<in> retires (cs c) \<Longrightarrow> e \<in> retires x \<or> snd e = p \<and> pw_Closed (pw_at m' p)"
  shows "upload_inv (m', cs(c := x))"
proof -
  have len: "length (um_heap m') = length (um_heap m)"
    using frame_static(1) [OF fr] .
  have same: "um_closes m' = um_closes m" "um_scope m' = um_scope m" "\<And>q. q \<noteq> p \<Longrightarrow> pw_at m' q = pw_at m q"
      "\<And>e. snd e \<noteq> p \<Longrightarrow> (e \<in> set (um_writers m') \<longleftrightarrow> e \<in> set (um_writers m))"
      "pw_Closed (pw_at m p) \<Longrightarrow> pw_Closed (pw_at m' p)" "pw_Closed (pw_at m' p) \<or> um_writers m' = um_writers m"
    using fr p unfolding frame_def by blast+
  have calls: "call_ok m' st" if "(cs(c := x)) c' = Some st" for c' st
  proof (cases "c' = c")
    case True
    then show ?thesis using that x(1) by simp
  next
    case False
    then show ?thesis
      using that call_ok_frame [OF fr upload_invD(2) [OF inv]] others [OF False] by (simp add: fun_upd_def)
  qed
  have single: "c1 = c2" if "commits_on q ((cs(c := x)) c1)" "commits_on q ((cs(c := x)) c2)" for q c1 c2
    using that upload_invD(3) [OF inv, of q c1 c2] others x(2) [of q] by (auto split: if_splits)
  have tr: "tracked m' (cs(c := x)) q" if "q < length (um_heap m)" "\<not> pw_Closed (pw_at m' q)" for q
  proof -
    have "tracked m cs q"
      using upload_invD(4) [OF inv that(1)] that(2) same(3,5) by (cases "q = p") auto
    then consider "(pw_id (pw_at m q), q) \<in> set (um_writers m)" | c' where "(pw_id (pw_at m q), q) \<in> retires (cs c')"
      by (auto simp: tracked_def)
    then show ?thesis
    proof cases
      case 1
      then show ?thesis
        using frame_fields(1) [OF fr that(1)] same(4,6) that(2) by (cases "q = p") (auto simp: tracked_def)
    next
      case (2 c')
      then have "(pw_id (pw_at m q), q) \<in> retires ((cs(c := x)) c')"
        using ret [of "(pw_id (pw_at m q), q)"] that(2) by (cases "c' = c") auto
      then show ?thesis
        unfolding tracked_def frame_fields(1) [OF fr that(1)] by blast
    qed
  qed
  have up: "allowed m' (cs(c := x)) d b l" if "allowed m cs d b l" for d b l
    using that same(2) x(4) by (rule allowed_upd)
  have sc: "scoped m' (cs(c := x))" if "scoped m cs"
  proof (rule scopedI)
    show "allowed m' (cs(c := x)) (pw_Path (pw_at m' q)) (pw_base (pw_at m' q)) (pw_RelPath (pw_at m' q))"
      if "q < length (um_heap m')" "pw_born (pw_at m' q) = um_closes m'" for q
      using that \<open>scoped m cs\<close> frame_fields [OF fr, of q] up by (simp add: scoped_def len same)
    show "allowed m' (cs(c := x)) (sp_display t) (sp_base t) (sp_rel t)" if "(um_closes m', t) \<in> opened ((cs(c := x)) c')" for c' t
    proof -
      have "(um_closes m, t) \<in> opened (cs c')"
        using that x(3) by (auto simp: same split: if_splits)
      then show ?thesis
        using \<open>scoped m cs\<close> up unfolding scoped_def by blast
    qed
  qed
  show ?thesis
    by (rule upload_invI [OF assms(2) calls single]) (use tr sc upload_invD(5) [OF inv] in \<open>simp_all add: len same(1)\<close>)
qed

text \<open>A step that only moves a call, or changes the disk or the contexts.\<close>

definition bookkeeping :: "upload_manager \<Rightarrow> upload_manager \<Rightarrow> bool" where
  "bookkeeping m m' \<longleftrightarrow> um_heap m' = um_heap m \<and> um_writers m' = um_writers m \<and> um_closes m' = um_closes m \<and>
     um_locked m' = um_locked m \<and> um_scope m' = um_scope m"

lemma call_ok_same: "um_heap m' = um_heap m \<Longrightarrow> um_closes m \<le> um_closes m' \<Longrightarrow> um_locked m' = um_locked m \<Longrightarrow> call_ok m st \<Longrightarrow> call_ok m' st"
  by (cases st) auto

lemma inv_move:
  assumes inv: "upload_inv (m, cs)" and "minv m'" and bk: "bookkeeping m m'"
    and x: "\<And>st. x = Some st \<Longrightarrow> call_ok m' st" "\<And>q. commits_on q x \<Longrightarrow> commits_on q (cs c)" "replaced (cs c) \<subseteq> replaced x"
      "\<And>b t. (b, t) \<in> opened x \<Longrightarrow> (b, t) \<in> opened (cs c) \<or> in_scope (um_scope m) (sp_display t) (sp_base t) (sp_rel t)"
      "retires (cs c) \<subseteq> retires x"
  shows "upload_inv (m', cs(c := x))"
proof -
  have same: "um_heap m' = um_heap m" "um_writers m' = um_writers m" "um_closes m' = um_closes m" "um_locked m' = um_locked m" "um_scope m' = um_scope m"
    using bk by (simp_all add: bookkeeping_def)
  have calls: "call_ok m' st" if "(cs(c := x)) c' = Some st" for c' st
    using that x(1) upload_invD(2) [OF inv] call_ok_same [of m' m st] same by (auto split: if_splits)
  have single: "c1 = c2" if "commits_on q ((cs(c := x)) c1)" "commits_on q ((cs(c := x)) c2)" for q c1 c2
    using that upload_invD(3) [OF inv, of q c1 c2] x(2) by (auto split: if_splits)
  have tr: "tracked m' (cs(c := x)) q" if "q < length (um_heap m)" "\<not> pw_Closed (pw_at m q)" for q
    using upload_invD(4) [OF inv that] x(5) by (rule tracked_upd) (simp_all add: same)
  have up: "allowed m' (cs(c := x)) d b l" if "allowed m cs d b l" for d b l
    using that same(5) x(3) by (rule allowed_upd)
  have sc: "scoped m' (cs(c := x))" if "scoped m cs"
  proof (rule scopedI)
    show "allowed m' (cs(c := x)) (pw_Path (pw_at m' q)) (pw_base (pw_at m' q)) (pw_RelPath (pw_at m' q))"
      if "q < length (um_heap m')" "pw_born (pw_at m' q) = um_closes m'" for q
      using that \<open>scoped m cs\<close> up by (simp add: scoped_def same)
    show "allowed m' (cs(c := x)) (sp_display t) (sp_base t) (sp_rel t)" if "(um_closes m', t) \<in> opened ((cs(c := x)) c')" for c' t
    proof (rule up)
      have "(um_closes m, t) \<in> opened (cs c') \<or> in_scope (um_scope m) (sp_display t) (sp_base t) (sp_rel t)"
        using that x(4) by (auto simp: same split: if_splits)
      then show "allowed m cs (sp_display t) (sp_base t) (sp_rel t)"
        using \<open>scoped m cs\<close> unfolding scoped_def allowed_def by blast
    qed
  qed
  show ?thesis
    by (rule upload_invI [OF assms(2) calls single]) (use tr sc upload_invD(5) [OF inv] in \<open>simp_all add: same\<close>)
qed

lemma inv_claim:
  assumes inv: "upload_inv (m, cs)" and "cs c = Some (COpened ctx epoch born req decoded target)"
    and cl: "claim_writer io ctx epoch (req_id req) target m = (m', r)"
  shows "upload_inv (m', cs(c := (case r of ClaimRefused e \<Rightarrow> None | ClaimMismatch p \<Rightarrow> Some (CMismatch (req_id req) p)
       | Claimed p \<Rightarrow> Some (CHave ctx epoch req decoded p))))" (is "upload_inv (m', cs(c := ?x))")
proof -
  have mi: "minv m" and co: "epoch = of_nat born" "born \<le> um_closes m" "length decoded \<le> FileChunkSize"
    using upload_invD(1) [OF inv] upload_invD(2) [OF inv assms(2)] by simp_all
  have cm: "minv m'" "grow target m m'" "m' \<noteq> m \<Longrightarrow> um_writeEpoch m = epoch"
    using claim_ok [OF mi cl] by blast+
  have g: "um_closes m' = um_closes m" "um_scope m' = um_scope m" "um_locked m' = um_locked m" "set (um_writers m) \<subseteq> set (um_writers m')"
      "length (um_heap m) \<le> length (um_heap m')" "\<And>q. q < length (um_heap m) \<Longrightarrow> pw_at m' q = pw_at m q"
    using cm(2) unfolding grow_def by blast+
  have fresh: "(pw_id (pw_at m' q), q) \<in> set (um_writers m')" "pw_base (pw_at m' q) = sp_base target"
      "pw_RelPath (pw_at m' q) = sp_rel target" "pw_Path (pw_at m' q) = sp_display target"
    if "q < length (um_heap m')" "\<not> q < length (um_heap m)" for q
    using cm(2) that unfolding grow_def by auto
  have calls: "call_ok m' st" if "(cs(c := ?x)) c' = Some st" for c' st
  proof (cases "c' = c")
    case True
    then show ?thesis
      using that claim_ok [OF mi cl] co(3) by (cases r) auto
  next
    case False
    then have "call_ok m st" using that upload_invD(2) [OF inv] by simp
    then show ?thesis using g by (cases st) force+
  qed
  have single: "c1 = c2" if "commits_on q ((cs(c := ?x)) c1)" "commits_on q ((cs(c := ?x)) c2)" for q c1 c2
    using that upload_invD(3) [OF inv, of q c1 c2] by (cases r) (auto split: if_splits)
  have tr: "tracked m' (cs(c := ?x)) q" if "q < length (um_heap m')" "\<not> pw_Closed (pw_at m' q)" for q
  proof (cases "q < length (um_heap m)")
    case True
    then show ?thesis
      using upload_invD(4) [OF inv True] that(2) g(4,6) assms(2) by (intro tracked_upd [of m]) simp_all
  next
    case False
    then show ?thesis using fresh(1) [OF that(1)] by (simp add: tracked_def)
  qed
  have up: "allowed m' (cs(c := ?x)) d b l" if "allowed m cs d b l" for d b l
    using that g(2) assms(2) by (intro allowed_upd) simp_all
  have sc: "scoped m' (cs(c := ?x))" if s: "scoped m cs" "um_closes m < 2 ^ 64"
  proof -
    have new: "allowed m cs (sp_display target) (sp_base target) (sp_rel target)" if "m' \<noteq> m"
    proof -
      have "(of_nat born :: 64 word) = of_nat (um_closes m)"
        using cm(3) [OF that] co(1) mi by (simp add: minv_def heap_ok_def)
      then have "born = um_closes m"
        using co(2) s(2) by (simp add: word_of_nat_eq_iff take_bit_nat_eq_self)
      moreover have "(born, target) \<in> opened (cs c)"
        using assms(2) by simp
      ultimately show ?thesis
        using s(1) unfolding scoped_def by blast
    qed
    have "allowed m cs (pw_Path (pw_at m' q)) (pw_base (pw_at m' q)) (pw_RelPath (pw_at m' q))"
      if q: "q < length (um_heap m')" "pw_born (pw_at m' q) = um_closes m'" for q
    proof (cases "q < length (um_heap m)")
      case True
      then show ?thesis using s(1) q(2) unfolding scoped_def g(1) by (simp add: g(6))
    next
      case False
      then show ?thesis using new fresh(2-4) [OF q(1) False] q(1) False by (cases "m' = m") auto
    qed
    moreover have "opened ?x = {}"
      by (cases r) auto
    ultimately show ?thesis
      using s(1) unfolding scoped_def g(1) by (auto intro: up split: if_splits)
  qed
  show ?thesis
    by (rule upload_invI [OF cm(1) calls single tr]) (use sc upload_invD(5) [OF inv] in \<open>simp_all add: g(1)\<close>)
qed

lemma inv_closeall:
  assumes inv: "upload_inv (m, cs)" and c: "cs c = None \<or> cs c = Some (CSwitch old)" and cl: "closeall_begin m = (m', pending)"
  shows "upload_inv (m', cs(c \<mapsto> CRetire pending))"
proof -
  have mi: "minv m"
    using upload_invD(1) [OF inv] .
  note same = closeall_ok [OF mi cl]
  have calls: "call_ok m' st" if "(cs(c \<mapsto> CRetire pending)) c' = Some st" for c' st
  proof (cases "c' = c")
    case True
    then have "st = CRetire (um_writers m)"
      using that same(2) by simp
    then show ?thesis
      using mi unfolding minv_def writers_ok_def split_beta by (simp add: same)
  next
    case False
    then show ?thesis
      using that upload_invD(2) [OF inv] call_ok_same [of m' m st] same by simp
  qed
  have single: "c1 = c2" if "commits_on q ((cs(c \<mapsto> CRetire pending)) c1)" "commits_on q ((cs(c \<mapsto> CRetire pending)) c2)" for q c1 c2
    using that upload_invD(3) [OF inv, of q c1 c2] by (auto split: if_splits)
  have tr: "tracked m' (cs(c \<mapsto> CRetire pending)) q" if "q < length (um_heap m')" "\<not> pw_Closed (pw_at m' q)" for q
  proof -
    have "tracked m cs q"
      using upload_invD(4) [OF inv, of q] that by (simp add: same)
    then consider "(pw_id (pw_at m q), q) \<in> set pending" | c' where "(pw_id (pw_at m q), q) \<in> retires (cs c')"
      by (auto simp: tracked_def same)
    then obtain c' where "(pw_id (pw_at m q), q) \<in> retires ((cs(c \<mapsto> CRetire pending)) c')"
    proof cases
      case 1
      then show ?thesis using that [of c] by simp
    next
      case (2 c')
      then have "c' \<noteq> c" using c by auto
      with 2 that [of c'] show ?thesis by simp
    qed
    then show ?thesis
      unfolding tracked_def same(3) by blast
  qed
  have young: "pw_born (pw_at m q) \<le> um_closes m" if "q < length (um_heap m)" for q
    using minv_D(2) [OF mi that] .
  have opn: "b \<le> um_closes m" if o: "(b, t) \<in> opened (cs c')" for b t c'
  proof (cases "cs c'")
    case (Some st)
    with o upload_invD(2) [OF inv Some] show ?thesis by (cases st) auto
  qed (use o in simp)
  have "scoped m' (cs(c \<mapsto> CRetire pending))"
    using young opn unfolding scoped_def same by (fastforce split: if_splits)
  then show ?thesis
    by (intro upload_invI [OF same(1) calls single tr])
qed

lemma inv_switch:
  assumes inv: "upload_inv (m, cs)" and c: "cs c = None"
  shows "upload_inv (m\<lparr>um_scope := sc\<rparr>, cs(c \<mapsto> CSwitch (um_scope m)))"
proof (rule upload_invI)
  let ?m = "m\<lparr>um_scope := sc\<rparr>"
  show "minv ?m"
    using upload_invD(1) [OF inv] by (simp add: minv_def heap_ok_def writers_ok_def temps_ok_def)
  show "call_ok ?m st" if "(cs(c \<mapsto> CSwitch (um_scope m))) c' = Some st" for c' st
    using that upload_invD(2) [OF inv] call_ok_same [of ?m m st] by (auto split: if_splits)
  show "c1 = c2" if "commits_on q ((cs(c \<mapsto> CSwitch (um_scope m))) c1)" "commits_on q ((cs(c \<mapsto> CSwitch (um_scope m))) c2)" for q c1 c2
    using that upload_invD(3) [OF inv, of q c1 c2] by (auto split: if_splits)
  show "tracked ?m (cs(c \<mapsto> CSwitch (um_scope m))) q" if "q < length (um_heap ?m)" "\<not> pw_Closed (pw_at ?m q)" for q
  proof -
    have "tracked m cs q" using upload_invD(4) [OF inv, of q] that by simp
    then show ?thesis by (rule tracked_upd) (simp_all add: c)
  qed
  show "scoped ?m (cs(c \<mapsto> CSwitch (um_scope m)))" if "um_closes ?m < 2 ^ 64"
  proof -
    have "scoped m cs" using upload_invD(5) [OF inv] that by simp
    moreover have "allowed ?m (cs(c \<mapsto> CSwitch (um_scope m))) d b l" if "allowed m cs d b l" for d b l
    proof -
      have "old \<in> replaced ((cs(c \<mapsto> CSwitch (um_scope m))) c')" if "old \<in> replaced (cs c')" for c' old
        using that c by (cases "c' = c") simp_all
      moreover have "um_scope m \<in> replaced ((cs(c \<mapsto> CSwitch (um_scope m))) c)"
        by simp
      ultimately show ?thesis
        using that unfolding allowed_def by blast
    qed
    ultimately show ?thesis
      unfolding scoped_def by (auto split: if_splits)
  qed
qed

lemma check_request_chunk: "check_request req = Chunk decoded \<Longrightarrow> length decoded \<le> FileChunkSize"
  by (auto simp: check_request_def Let_def split: option.splits if_splits)

lemma minv_disk:
  assumes "minv m"
    and "\<forall>p < length (um_heap m). \<not> pw_Closed (pw_at m p) \<longrightarrow> d (pw_TmpPath (pw_at m p)) = um_disk m (pw_TmpPath (pw_at m p))"
  shows "minv (m\<lparr>um_disk := d\<rparr>)"
  using assms by (simp add: minv_def heap_ok_def writers_ok_def temps_ok_def)

lemma minv_cancelled [simp]: "minv (m\<lparr>um_cancelled := d\<rparr>) = minv m"
  by (simp add: minv_def heap_ok_def writers_ok_def temps_ok_def)

lemma abort_ok:
  assumes "minv m" and "p < length (um_heap m)" and "requestID = pw_id (pw_at m p)"
  shows "minv (fst (abort_locked io ctx epoch requestID p m)) \<and> frame p m (fst (abort_locked io ctx epoch requestID p m))"
  using cleanup_ok [OF assms] assms(1) by (simp add: abort_locked_def frame_refl)

lemma unlocked_others: "upload_inv (m, cs) \<Longrightarrow> \<not> um_locked m p \<Longrightarrow> \<not> commits_on p (cs c')"
  using commits_on_locked by blast

lemma inv_same: "upload_inv (m, cs) \<Longrightarrow> minv m' \<Longrightarrow> bookkeeping m m' \<Longrightarrow> upload_inv (m', cs)"
  using inv_move [of m cs m' "cs c" c for c] upload_invD(2) [of m cs] call_ok_same [of m' m]
  by (simp add: bookkeeping_def)

lemma inv_call:
  assumes "upload_inv (m, cs)" and "\<And>st. x = Some st \<Longrightarrow> call_ok m st" and "\<And>q. \<not> commits_on q x" and "replaced (cs c) \<subseteq> replaced x"
    and "\<And>b t. (b, t) \<in> opened x \<Longrightarrow> in_scope (um_scope m) (sp_display t) (sp_base t) (sp_rel t)" and "retires (cs c) \<subseteq> retires x"
  shows "upload_inv (m, cs(c := x))"
  using assms by (intro inv_move [OF assms(1) upload_invD(1) [OF assms(1)]]) (auto simp: bookkeeping_def)

text \<open>A section that ends its call, or leaves it retiring, on an upload no other call holds.\<close>

lemma inv_ends:
  assumes inv: "upload_inv (m, cs)" and "minv m'" and "frame p m m'" and "p < length (um_heap m)"
    and "\<And>c'. c' \<noteq> c \<Longrightarrow> \<not> commits_on p (cs c')" and "retires (cs c) = {}" and "replaced (cs c) = {}"
  shows "upload_inv (m', cs(c := None))"
  using assms by (intro inv_frame [OF inv, of m' p]) auto

lemma upload_inv_step:
  assumes "upload_inv s" and "upload_step s c t"
  shows "upload_inv t"
  using assms(2,1)
proof (induction rule: upload_step.induct)
  case (step_cancel ctx m cs c)
  then show ?case using upload_invD(1) [OF step_cancel(2)] by (intro inv_same [OF step_cancel(2)]) (simp_all add: bookkeeping_def)
next
  case (step_start cs c m ctx req decoded)
  then show ?case
    using upload_invD(1) [of m cs] check_request_chunk by (intro inv_call) (auto simp: minv_def heap_ok_def)
next
  case (step_start_abort cs c m ctx req e)
  then show ?case by (intro inv_call) auto
next
  case (step_abort_write cs c m requestID)
  then show ?case by (intro inv_call) auto
next
  case (step_open cs c ctx epoch born req decoded fs m target)
  then show ?case
    using upload_invD(2) [of m cs c] in_scope_open by (intro inv_call) auto
next
  case (step_open_fails cs c ctx epoch born req decoded fs m e)
  then show ?case by (intro inv_call) auto
next
  case (step_lookup cs c ctx epoch requestID m)
  have "call_ok m st" if "map_option (CAbort ctx epoch requestID) (abort_lookup m ctx epoch requestID) = Some st" for st
    using that writer_entry [OF upload_invD(1) [OF step_lookup(2)], of requestID] by (auto simp: abort_lookup_def split: if_splits)
  moreover have "commits_on q (map_option (CAbort ctx epoch requestID) (abort_lookup m ctx epoch requestID)) = False"
      "opened (map_option (CAbort ctx epoch requestID) (abort_lookup m ctx epoch requestID)) = {}" for q
    by (cases "abort_lookup m ctx epoch requestID"; simp)+
  ultimately show ?case using step_lookup by (intro inv_call) auto
next
  case (step_abort cs c ctx epoch requestID p m io)
  note k = upload_invD(2) [OF step_abort(3,1)]
  show ?case
    using abort_ok [OF upload_invD(1) [OF step_abort(3)], of p requestID] k unlocked_others [OF step_abort(3,2)] step_abort(1,3)
    by (intro inv_ends [of m cs _ p]) auto
next
  case (step_claim cs c ctx epoch born req decoded target io m m' r)
  then show ?case by (intro inv_claim)
next
  case (step_mismatch cs c requestID p m io)
  note k = upload_invD(2) [OF step_mismatch(3,1)]
  show ?case
    using cleanup_ok [OF upload_invD(1) [OF step_mismatch(3)], of p requestID] k unlocked_others [OF step_mismatch(3,2)] step_mismatch(1,3)
    by (intro inv_ends [of m cs _ p]) auto
next
  case (step_write cs c ctx epoch req decoded p m io m' written e)
  note k = upload_invD(2) [OF step_write(4,1)]
  show ?case
    using write_locked_ok [OF upload_invD(1) [OF step_write(4)] _ _ _ step_write(3)] k unlocked_others [OF step_write(4,2)] step_write(1,4)
    by (intro inv_ends [of m cs _ p]) auto
next
  case (step_written cs c ctx epoch req decoded p m io m')
  note k = upload_invD(2) [OF step_written(4,1)]
  have w: "minv m'" "frame p m m'" "\<not> pw_Closed (pw_at m' p)"
    using write_locked_ok [OF upload_invD(1) [OF step_written(4)] _ _ _ step_written(3)] k by simp_all
  have "p < length (um_heap m)" "req_id req = pw_id (pw_at m p)" "epoch = of_nat (pw_born (pw_at m p))"
    using k by simp_all
  then show ?case
    using w frame_lock [OF w(2)] unlocked_others [OF step_written(4,2)] step_written(1) frame_static(1) [OF w(2)] frame_fields [OF w(2)]
    by (intro inv_frame [OF step_written(4), where p = p]) auto
next
  case (step_commit cs c ctx epoch requestID p m io m' written e)
  note k = upload_invD(2) [OF step_commit(4,1)]
  have w: "minv m'" "frame p m m'"
    using commit_ok [OF upload_invD(1) [OF step_commit(4)] _ _ step_commit(2) _ step_commit(3)] k by simp_all
  have "\<not> commits_on p (cs c')" if "c' \<noteq> c" for c'
    using upload_invD(3) [OF step_commit(4), of p c c'] step_commit(1) that by auto
  then show ?case
    using w frame_lock [OF w(2)] k step_commit(1) by (intro inv_ends [OF step_commit(4), where p = p]) auto
next
  case (step_expire p m cs c io now)
  have e: "minv (fst (expirePendingWrite io (pw_id (pw_at m p)) p now m))" "frame p m (fst (expirePendingWrite io (pw_id (pw_at m p)) p now m))"
    using expire_ok [OF upload_invD(1) [OF step_expire(3)] step_expire(1)] by simp_all
  have "call_ok (fst (expirePendingWrite io (pw_id (pw_at m p)) p now m)) st" if "cs c = Some st" for st
    using call_ok_frame [OF e(2) upload_invD(2) [OF step_expire(3) that]] unlocked_others [OF step_expire(3,2), of c] that by simp
  then show ?case
    using inv_frame [OF step_expire(3) e step_expire(1), of c "cs c"] unlocked_others [OF step_expire(3,2)] by auto
next
  case (step_close_all cs c m m' pending)
  then show ?case by (intro inv_closeall) auto
next
  case (step_switch cs c fs mode m sc)
  then show ?case by (intro inv_switch)
next
  case (step_switched cs c old m m' pending)
  then show ?case by (intro inv_closeall) auto
next
  case (step_retire cs c requestID p rest m io)
  note k = upload_invD(2) [OF step_retire(3,1)]
  have w: "minv (cleanupWriteLocked io requestID p m)" "frame p m (cleanupWriteLocked io requestID p m)" "pw_Closed (pw_at (cleanupWriteLocked io requestID p m) p)"
    using cleanup_ok [OF upload_invD(1) [OF step_retire(3)], of p requestID] k by simp_all
  have "call_ok (cleanupWriteLocked io requestID p m) (CRetire rest)"
    using call_ok_frame [OF w(2), of "CRetire rest"] k by simp
  then show ?case
    using w k step_retire(1) unlocked_others [OF step_retire(3,2)]
    by (intro inv_frame [OF step_retire(3), where p = p]) auto
next
  case (step_retired cs c m)
  then show ?case by (intro inv_call) auto
next
  case (step_outside m d cs c)
  then show ?case
    using minv_disk [OF upload_invD(1) [OF step_outside(2)] step_outside(1)]
    by (intro inv_same [OF step_outside(2)]) (simp_all add: bookkeeping_def)
qed

lemma upload_inv_init: "upload_init s \<Longrightarrow> upload_inv s"
  by (auto simp: upload_init_def NewUploadManager_def upload_inv_def minv_def heap_ok_def writers_ok_def temps_ok_def scoped_def)

interpretation uploads: invariant_system upload_init upload_step upload_inv
  by unfold_locales (auto intro: upload_inv_init upload_inv_step)

section \<open>Properties\<close>

text \<open>
  C2. A finished upload is exactly the accepted chunks. Whatever other calls, timers, aborts, mode
  switches and cancelled contexts run in between, when a commit succeeds the destination holds the
  concatenation of the chunks that were accepted for that upload, each at the offset where the one
  before it ended; the temporary name is gone, no chunk is longer than 64 KiB, and the reported size
  is that of the file and at most 512 MiB.
\<close>

theorem upload_commit_exact:
  assumes "reach upload_init upload_step (m, cs)" and "cs c = Some (CCommit ctx epoch requestID p)" and "name_unguessed m p"
    and "commit_locked io ctx epoch requestID p m = (m', written, None)"
  shows "um_disk m' (pw_Path (pw_at m p)) = Some (content (pw_at m p)) \<and> um_disk m' (pw_TmpPath (pw_at m p)) = None \<and>
    contiguous 0 (pw_chunks (pw_at m p)) \<and> (\<forall>ch \<in> set (pw_chunks (pw_at m p)). length (snd ch) \<le> FileChunkSize) \<and>
    written = int (length (content (pw_at m p))) \<and> written \<le> MaxFileSize"
proof -
  have inv: "upload_inv (m, cs)"
    using uploads.reach_inv [OF assms(1)] .
  have k: "p < length (um_heap m)" "\<not> pw_Closed (pw_at m p)"
    using upload_invD(2) [OF inv assms(2)] by simp_all
  note f = minv_D [OF upload_invD(1) [OF inv] k(1)]
  have ne: "pw_Path (pw_at m p) \<noteq> pw_TmpPath (pw_at m p)"
    using assms(3) k unfolding name_unguessed_def by blast
  have d: "um_disk m' = rename_file (pw_TmpPath (pw_at m p)) (pw_Path (pw_at m p)) (um_disk m)" "written = pw_Written (pw_at m p)"
    using assms(4) by (auto simp: commit_locked_def Let_def split: option.splits if_splits)
  show ?thesis
    using f(1) f(5) [OF k(2)] ne by (simp add: d rename_file_def pw_ok_def)
qed

text \<open>
  C8. Which scope a finished upload is in. In every reachable state, a commit that succeeds is of an
  upload that no \<open>CloseAll\<close> has stopped since it was accepted, and its file lies beneath an allowed
  root at the relative path that root gives it: of the scope in force, or, while a mode switch has
  replaced the scope and not yet begun its \<open>CloseAll\<close>, of the scope that switch is replacing. So once
  \<open>SetRootMode\<close> has gone past the first section of \<open>CloseAll\<close> nothing finishes outside the new scope;
  in the window before that an upload still can. The epoch is a 64-bit counter, so this is for fewer
  than \<open>2 ^ 64\<close> calls of \<open>CloseAll\<close>.
\<close>

theorem upload_commit_in_scope:
  assumes "reach upload_init upload_step (m, cs)" and "um_closes m < 2 ^ 64"
    and "cs c = Some (CCommit ctx epoch requestID p)" and "commit_locked io ctx epoch requestID p m = (m', written, None)"
  shows "pw_born (pw_at m p) = um_closes m \<and>
    (rootFor (sc_roots (scope (um_scope m))) (pw_Path (pw_at m p)) = Some (pw_base (pw_at m p), pw_RelPath (pw_at m p)) \<or>
     (\<exists>d old. cs d = Some (CSwitch old) \<and>
        rootFor (sc_roots (scope old)) (pw_Path (pw_at m p)) = Some (pw_base (pw_at m p), pw_RelPath (pw_at m p))))"
proof -
  have inv: "upload_inv (m, cs)"
    using uploads.reach_inv [OF assms(1)] .
  have k: "p < length (um_heap m)" "epoch = of_nat (pw_born (pw_at m p))"
    using upload_invD(2) [OF inv assms(3)] by simp_all
  have "um_writeEpoch m = epoch"
    using assms(4) by (auto simp: commit_locked_def Let_def uploadOwnerErrorLocked_def split: option.splits if_splits)
  then have "(of_nat (pw_born (pw_at m p)) :: 64 word) = of_nat (um_closes m)"
    using minv_D(3) [OF upload_invD(1) [OF inv] k(1)] k(2) by simp
  then have b: "pw_born (pw_at m p) = um_closes m"
    using minv_D(2) [OF upload_invD(1) [OF inv] k(1)] assms(2) by (simp add: word_of_nat_eq_iff take_bit_nat_eq_self)
  then have "allowed m cs (pw_Path (pw_at m p)) (pw_base (pw_at m p)) (pw_RelPath (pw_at m p))"
    using upload_invD(5) [OF inv assms(2)] k(1) unfolding scoped_def by blast
  then show ?thesis
    using b unfolding allowed_def in_scope_def replaced_iff by blast
qed

text \<open>
  C30. Uploads hold bounded resources. In every reachable state at most 64 requests are pending, no
  request twice, and each pending slot is of an upload that is still open; an open upload has its
  temporary file on disk with exactly the bytes counted for it, and belongs to a pending slot or to a
  \<open>CloseAll\<close> that is about to remove it. So a finished or failed upload holds neither a slot nor an
  open file.
\<close>

theorem upload_slots_bounded:
  assumes "reach upload_init upload_step (m, cs)"
  shows "length (um_writers m) \<le> 64 \<and> distinct (map fst (um_writers m)) \<and>
    (\<forall>(requestID, p) \<in> set (um_writers m). p < length (um_heap m) \<and> pw_id (pw_at m p) = requestID \<and> \<not> pw_Closed (pw_at m p)) \<and>
    (\<forall>p < length (um_heap m). \<not> pw_Closed (pw_at m p) \<longrightarrow>
       (map_of (um_writers m) (pw_id (pw_at m p)) = Some p \<or> (\<exists>c. (pw_id (pw_at m p), p) \<in> retires (cs c))) \<and>
       um_disk m (pw_TmpPath (pw_at m p)) = Some (content (pw_at m p)) \<and> pw_Written (pw_at m p) = int (length (content (pw_at m p))))"
proof -
  have inv: "upload_inv (m, cs)"
    using uploads.reach_inv [OF assms] .
  have w: "writers_ok m"
    using upload_invD(1) [OF inv] by (simp add: minv_def)
  have slot: "p < length (um_heap m) \<and> pw_id (pw_at m p) = i \<and> \<not> pw_Closed (pw_at m p)" if "(i, p) \<in> set (um_writers m)" for i p
    using that w unfolding writers_ok_def by blast
  have pend: "map_of (um_writers m) (pw_id (pw_at m p)) = Some p \<or> (\<exists>c. (pw_id (pw_at m p), p) \<in> retires (cs c))"
    if "p < length (um_heap m)" "\<not> pw_Closed (pw_at m p)" for p
    using upload_invD(4) [OF inv that] w unfolding tracked_def writers_ok_def by auto
  have disk: "um_disk m (pw_TmpPath (pw_at m p)) = Some (content (pw_at m p)) \<and> pw_Written (pw_at m p) = int (length (content (pw_at m p)))"
    if "p < length (um_heap m)" "\<not> pw_Closed (pw_at m p)" for p
    using minv_D(1,5) [OF upload_invD(1) [OF inv] that(1)] that(2) by (simp add: pw_ok_def)
  have "length (um_writers m) \<le> 64" "distinct (map fst (um_writers m))"
    using w by (simp_all add: writers_ok_def maxWritePending_def)
  then show ?thesis
    using slot pend disk by blast
qed

text \<open>A run for the examples: one request writes \<open>/h/b\<close> in a single final chunk.\<close>

definition demo_io :: upload_io where
  "demo_io =
     \<lparr>io_now = 7, io_isDir = (\<lambda>_. True), io_mkdirAll = (\<lambda>_. True), io_rand = (\<lambda>_. Some ''A''), io_open = (\<lambda>_. Opened),
      io_write = None, io_sync = True, io_close = True, io_rename = True, io_remove = (\<lambda>_. True)\<rparr>"

definition demo_req :: write_req where
  "demo_req = \<lparr>rq_RequestID = '' r1 '', rq_Path = ''b'', rq_Offset = 0, rq_Data = ''aGk='', rq_Done = True\<rparr>"

definition demo_target :: scoped_path where
  "demo_target = \<lparr>sp_base = ''/h'', sp_rel = ''b'', sp_display = ''/h/b''\<rparr>"

definition demo_m0 :: upload_manager where
  "demo_m0 = NewUploadManager demo_manager (\<lambda>_. None)"

definition demo_m1 :: upload_manager where
  "demo_m1 = add_pending (armPendingWriteExpiryLocked 300000000000 (new_pending demo_io ''r1'' demo_target ''.lt-upload-41'' demo_m0)) demo_m0"

definition demo_m2 :: upload_manager where
  "demo_m2 = (write_chunk demo_io 0 0 ''hi'' demo_m1)\<lparr>um_locked := (um_locked (write_chunk demo_io 0 0 ''hi'' demo_m1))(0 := True)\<rparr>"

definition demo_calls :: "nat \<Rightarrow> call_state option" where
  "demo_calls = [5 \<mapsto> CCommit 1 0 ''r1'' 0]"

lemma demo_id: "req_id demo_req = ''r1''"
  by code_simp

lemma demo_check: "check_request demo_req = Chunk ''hi''"
proof -
  have d: "DecodeString ''aGk='' = Some ''hi''" "TrimSpace '' r1 '' = ''r1''"
    by code_simp+
  show ?thesis
    by (simp add: check_request_def demo_req_def d maxFileWriteRequestIDLen_def FileChunkSize_def EncodedLen_def)
qed

lemma demo_temp: "createTempInRoot demo_io (\<lambda>_. None) ''/h'' ''.'' 100 = Ok ''.lt-upload-41''"
proof -
  have "JoinPath [''.'', ''.lt-upload-'' @ hexEncode ''A''] = ''.lt-upload-41''"
    by code_simp
  then show ?thesis
    by (simp add: numeral_eq_Suc demo_io_def)
qed

lemma demo_claim: "claim_writer demo_io 1 0 ''r1'' demo_target demo_m0 = (demo_m1, Claimed 0)"
proof -
  have "Dir ''b'' = ''.''" by code_simp
  then show ?thesis
    by (simp add: claim_writer_def uploadOwnerErrorLocked_def demo_m0_def NewUploadManager_def demo_target_def mkdirIfMissing_def
        dot_def demo_temp maxWritePending_def demo_m1_def writeIdleTTL_def pendingWriteIdleTTL_def)
qed

lemma demo_write: "write_locked demo_io 1 0 ''r1'' 0 demo_req ''hi'' demo_m1 = (write_chunk demo_io 0 0 ''hi'' demo_m1, WCommit)"
  by (simp add: write_locked_def uploadOwnerErrorLocked_def demo_m1_def demo_m0_def NewUploadManager_def add_pending_def
      new_pending_def armPendingWriteExpiryLocked_def demo_req_def demo_io_def MaxFileSize_def)

lemma demo_reach: "reach upload_init upload_step (demo_m2, demo_calls)"
proof -
  have e: "um_writeEpoch demo_m0 = 0" "um_closes demo_m0 = 0" "um_scope demo_m0 = demo_manager" "\<not> um_cancelled demo_m0 1"
      "um_locked demo_m1 = (\<lambda>_. False)"
    by (simp_all add: demo_m0_def NewUploadManager_def demo_m1_def add_pending_def)
  have "reach upload_init upload_step (demo_m0, Map.empty)"
    by (intro reach_init) (auto simp: upload_init_def demo_m0_def)
  then have "reach upload_init upload_step (demo_m0, [5 \<mapsto> CChecked 1 0 0 demo_req ''hi''])"
    using step_start [of Map.empty 5 demo_m0 1 demo_req "''hi''"] demo_check e by (auto intro: reach_step)
  moreover have "openScopedPath demo_fs demo_manager ''b'' = Ok demo_target"
    by code_simp
  ultimately have "reach upload_init upload_step (demo_m0, [5 \<mapsto> COpened 1 0 0 demo_req ''hi'' demo_target])"
    using step_open [of "[5 \<mapsto> CChecked 1 0 0 demo_req ''hi'']" 5 1 0 0 demo_req "''hi''" demo_fs demo_m0 demo_target] e
    by (auto simp: demo_req_def intro: reach_step)
  then have "reach upload_init upload_step (demo_m1, [5 \<mapsto> CHave 1 0 demo_req ''hi'' 0])"
    using step_claim [of "[5 \<mapsto> COpened 1 0 0 demo_req ''hi'' demo_target]" 5 1 0 0 demo_req "''hi''" demo_target demo_io demo_m0] demo_claim
    by (auto simp: demo_id intro: reach_step)
  then show ?thesis
    using step_written [of "[5 \<mapsto> CHave 1 0 demo_req ''hi'' 0]" 5 1 0 demo_req "''hi''" 0 demo_m1 demo_io] demo_write e(5)
    by (auto simp: demo_id demo_m2_def demo_calls_def intro: reach_step)
qed

lemma demo_heap:
  "um_heap demo_m2 =
     [\<lparr>pw_base = ''/h'', pw_hasRoot = True, pw_Path = ''/h/b'', pw_RelPath = ''b'', pw_TmpPath = ''/h/.lt-upload-41'',
       pw_TmpRelPath = ''.lt-upload-41'', pw_Written = 2, pw_Closed = False, pw_lastActivity = 7, pw_idleTimer = Some 300000000000,
       pw_id = ''r1'', pw_born = 0, pw_chunks = [(0, ''hi'')]\<rparr>]"
proof -
  have "JoinPath [''/h'', ''.lt-upload-41''] = ''/h/.lt-upload-41''"
    by code_simp
  then show ?thesis
    by (simp add: demo_m2_def write_chunk_def demo_m1_def demo_m0_def NewUploadManager_def add_pending_def new_pending_def
        armPendingWriteExpiryLocked_def demo_io_def demo_target_def)
qed

lemma demo_state:
  "um_writeEpoch demo_m2 = 0" "um_closes demo_m2 = 0" "um_scope demo_m2 = demo_manager" "um_cancelled demo_m2 1 = False"
  by (simp_all add: demo_m2_def write_chunk_def demo_m1_def demo_m0_def NewUploadManager_def add_pending_def Let_def)

lemma demo_unguessed: "name_unguessed demo_m2 0"
  by (simp add: name_unguessed_def demo_heap)

lemma demo_commit: "\<exists>m'. commit_locked demo_io 1 0 ''r1'' 0 demo_m2 = (m', 2, None)"
proof -
  have "um_disk demo_m2 ''/h/.lt-upload-41'' = Some ''hi''"
    using minv_D(5) [OF upload_invD(1) [OF uploads.reach_inv [OF demo_reach]], of 0] by (simp add: demo_heap content_def)
  then show ?thesis
    using demo_state by (simp add: commit_locked_def uploadOwnerErrorLocked_def demo_heap) (simp add: demo_io_def)
qed

theorem upload_commit_exact_witness:
  "\<exists>m'. commit_locked demo_io 1 0 ''r1'' 0 demo_m2 = (m', 2, None) \<and> um_disk m' ''/h/b'' = Some ''hi'' \<and> um_disk m' ''/h/.lt-upload-41'' = None"
proof -
  obtain m' where "commit_locked demo_io 1 0 ''r1'' 0 demo_m2 = (m', 2, None)"
    using demo_commit by blast
  then show ?thesis
    using upload_commit_exact [OF demo_reach, of 5 1 0 "''r1''" 0 demo_io m' 2] demo_unguessed by (simp add: demo_calls_def demo_heap content_def)
qed

theorem upload_commit_in_scope_witness:
  "rootFor (sc_roots (scope (um_scope demo_m2))) ''/h/b'' = Some (''/h'', ''b'') \<and> pw_born (pw_at demo_m2 0) = um_closes demo_m2"
proof -
  obtain m' where "commit_locked demo_io 1 0 ''r1'' 0 demo_m2 = (m', 2, None)"
    using demo_commit by blast
  then show ?thesis
    using upload_commit_in_scope [OF demo_reach, of 5 1 0 "''r1''" 0 demo_io m' 2]
    by (auto simp: demo_calls_def demo_heap demo_state split: if_splits)
qed

theorem upload_slots_bounded_witness:
  "length (um_writers demo_m2) \<le> 64 \<and> um_disk demo_m2 ''/h/.lt-upload-41'' = Some ''hi''"
  using upload_slots_bounded [OF demo_reach] by (simp add: demo_heap content_def)

end
