(* ===== verification/FileTransfer.thy ===== *)
theory FileTransfer
  imports FileRead UploadSteps
begin

text \<open>
  Reading and uploading together: the messages that stream a file are, field by field, the requests
  of an upload. A run is a list of requests, each with the answers of the operating system during it.
\<close>

fun run_upload ::
    "file_system \<Rightarrow> context_id \<Rightarrow> (upload_io \<times> write_req) list \<Rightarrow> upload_manager \<Rightarrow> upload_manager \<times> (int \<times> upload_error option) list" where
  "run_upload fs ctx [] m = (m, [])"
| "run_upload fs ctx ((io, req) # rest) m =
     (let (m1, r) = WriteChunkContext io fs ctx req m; (m2, rs) = run_upload fs ctx rest m1 in (m2, r # rs))"

definition as_request :: "string \<Rightarrow> string \<Rightarrow> file_data \<Rightarrow> write_req" where
  "as_request requestID path msg =
     \<lparr>rq_RequestID = requestID, rq_Path = path, rq_Offset = fd_Offset msg, rq_Data = fd_Data msg, rq_Done = fd_Done msg\<rparr>"

definition good_io :: "upload_io \<Rightarrow> bool" where
  "good_io io \<longleftrightarrow> io_write io = None \<and> io_sync io \<and> io_close io \<and> io_rename io"

text \<open>No pause between two chunks reaches the idle limit.\<close>

fun paced :: "upload_io list \<Rightarrow> bool" where
  "paced (io # io' # rest) \<longleftrightarrow> io_now io' - io_now io < pendingWriteIdleTTL \<and> paced (io' # rest)"
| "paced _ \<longleftrightarrow> True"

definition uploading ::
    "context_id \<Rightarrow> string \<Rightarrow> scope_fields \<Rightarrow> string \<Rightarrow> string \<Rightarrow> (string \<Rightarrow> string option) \<Rightarrow> int \<Rightarrow> string \<Rightarrow> upload_manager \<Rightarrow> bool" where
  "uploading ctx requestID sc display tmp disk0 recent acc m \<longleftrightarrow>
     um_writers m = [(requestID, 0)] \<and> um_scope m = sc \<and> um_idleTTL m = 0 \<and> \<not> um_cancelled m ctx \<and>
     (\<exists>pw. um_heap m = [pw] \<and> pw_Path pw = display \<and> pw_TmpPath pw = tmp \<and> \<not> pw_Closed pw \<and> pw_hasRoot pw \<and>
        pw_Written pw = int (length acc) \<and> pw_lastActivity pw = recent) \<and>
     um_disk m = disk0(tmp := Some acc)"

lemma uploadingE:
  assumes "uploading ctx requestID sc display tmp disk0 recent acc m"
  obtains pw where "um_writers m = [(requestID, 0)]" "um_scope m = sc" "um_idleTTL m = 0" "\<not> um_cancelled m ctx"
    "um_heap m = [pw]" "pw_Path pw = display" "pw_TmpPath pw = tmp" "\<not> pw_Closed pw" "pw_hasRoot pw" "pw_Written pw = int (length acc)"
    "pw_lastActivity pw = recent" "um_disk m = disk0(tmp := Some acc)"
  using assms unfolding uploading_def by blast

lemma uploading_rearmed:
  assumes "uploading ctx requestID sc display tmp disk0 recent acc m" and "now - recent < pendingWriteIdleTTL"
  shows "uploading ctx requestID sc display tmp disk0 recent acc (fst (cleanupExpiredPendingWrites io now m))"
    and "um_writeEpoch (fst (cleanupExpiredPendingWrites io now m)) = um_writeEpoch m"
proof -
  obtain pw where u: "um_writers m = [(requestID, 0)]" "um_scope m = sc" "um_idleTTL m = 0" "\<not> um_cancelled m ctx"
    "um_heap m = [pw]" "pw_Path pw = display" "pw_TmpPath pw = tmp" "\<not> pw_Closed pw" "pw_hasRoot pw" "pw_Written pw = int (length acc)"
    "pw_lastActivity pw = recent" "um_disk m = disk0(tmp := Some acc)"
    using assms(1) by (rule uploadingE)
  have ttl: "writeIdleTTL m = pendingWriteIdleTTL" "max 0 (now - recent) < pendingWriteIdleTTL"
    using u(3) assms(2) by (simp_all add: writeIdleTTL_def pendingWriteIdleTTL_def)
  have e: "fst (cleanupExpiredPendingWrites io now m) =
      set_pw 0 (armPendingWriteExpiryLocked (pendingWriteIdleTTL - max 0 (now - recent)) pw) m"
    using u ttl by (simp add: cleanupExpiredPendingWrites_def expirePendingWrite_def)
  show "uploading ctx requestID sc display tmp disk0 recent acc (fst (cleanupExpiredPendingWrites io now m))"
    unfolding e uploading_def using u by (simp add: set_pw_def armPendingWriteExpiryLocked_def)
  show "um_writeEpoch (fst (cleanupExpiredPendingWrites io now m)) = um_writeEpoch m"
    unfolding e by (simp add: set_pw_def)
qed

lemma uploading_claim:
  assumes "uploading ctx requestID sc (sp_display target) tmp disk0 recent acc m"
  shows "claim_writer io ctx (um_writeEpoch m) requestID target m = (m, Claimed 0)"
  using assms by (auto simp: uploading_def claim_writer_def uploadOwnerErrorLocked_def)

lemma fresh_claim:
  assumes "mkdirIfMissing io (sp_base target) (Dir (sp_rel target))"
    and "createTempInRoot io disk0 (sp_base target) (Dir (sp_rel target)) 100 = Ok tmpRel"
  shows "\<exists>m'. claim_writer io ctx 0 requestID target (NewUploadManager sc disk0) = (m', Claimed 0) \<and> um_writeEpoch m' = 0 \<and>
    uploading ctx requestID sc (sp_display target) (JoinPath [sp_base target, tmpRel]) disk0 (io_now io) [] m'"
  using assms by (simp add: claim_writer_def uploadOwnerErrorLocked_def NewUploadManager_def maxWritePending_def
      uploading_def add_pending_def new_pending_def armPendingWriteExpiryLocked_def Let_def)

lemma uploading_write:
  assumes "uploading ctx requestID sc display tmp disk0 recent acc m" and "good_io io"
    and "rq_Offset req = int (length acc)" and "int (length acc + length decoded) \<le> MaxFileSize"
  shows "uploading ctx requestID sc display tmp disk0 (io_now io) (acc @ decoded) (write_chunk io 0 (rq_Offset req) decoded m)"
    and "write_locked io ctx (um_writeEpoch m) requestID 0 req decoded m =
      (write_chunk io 0 (rq_Offset req) decoded m, if rq_Done req then WCommit else WReturn (int (length (acc @ decoded))) None)"
    and "um_writeEpoch (write_chunk io 0 (rq_Offset req) decoded m) = um_writeEpoch m"
proof -
  obtain pw where u: "um_writers m = [(requestID, 0)]" "um_scope m = sc" "um_idleTTL m = 0" "\<not> um_cancelled m ctx"
    "um_heap m = [pw]" "pw_Path pw = display" "pw_TmpPath pw = tmp" "\<not> pw_Closed pw" "pw_hasRoot pw" "pw_Written pw = int (length acc)"
    "pw_lastActivity pw = recent" "um_disk m = disk0(tmp := Some acc)"
    using assms(1) by (rule uploadingE)
  show "uploading ctx requestID sc display tmp disk0 (io_now io) (acc @ decoded) (write_chunk io 0 (rq_Offset req) decoded m)"
    unfolding uploading_def using u by (simp add: write_chunk_def set_pw_def append_file_def)
  show "um_writeEpoch (write_chunk io 0 (rq_Offset req) decoded m) = um_writeEpoch m"
    by (simp add: write_chunk_def set_pw_def Let_def)
  show "write_locked io ctx (um_writeEpoch m) requestID 0 req decoded m =
      (write_chunk io 0 (rq_Offset req) decoded m, if rq_Done req then WCommit else WReturn (int (length (acc @ decoded))) None)"
    using u assms(2-4) by (simp add: write_locked_def uploadOwnerErrorLocked_def good_io_def write_chunk_def set_pw_def)
qed

lemma uploading_commit:
  assumes "uploading ctx requestID sc display tmp disk0 recent acc m" and "good_io io" and "disk0 tmp = None" and "tmp \<noteq> display"
  shows "\<exists>m'. commit_locked io ctx (um_writeEpoch m) requestID 0 m = (m', int (length acc), None) \<and> um_disk m' = disk0(display := Some acc) \<and>
    \<not> HasPendingWrite requestID m'"
proof -
  obtain pw where u: "um_writers m = [(requestID, 0)]" "um_scope m = sc" "um_idleTTL m = 0" "\<not> um_cancelled m ctx"
    "um_heap m = [pw]" "pw_Path pw = display" "pw_TmpPath pw = tmp" "\<not> pw_Closed pw" "pw_hasRoot pw" "pw_Written pw = int (length acc)"
    "pw_lastActivity pw = recent" "um_disk m = disk0(tmp := Some acc)"
    using assms(1) by (rule uploadingE)
  have "rename_file tmp display (disk0(tmp := Some acc)) = disk0(display := Some acc)"
    using assms(3,4) by (auto simp: rename_file_def fun_eq_iff)
  then show ?thesis
    using u assms(2) by (simp add: commit_locked_def uploadOwnerErrorLocked_def good_io_def removePendingWrite_def set_pw_def HasPendingWrite_def)
qed

text \<open>The call of the next chunk gets as far as holding the upload, with what was written before.\<close>

definition ready ::
    "context_id \<Rightarrow> string \<Rightarrow> scope_fields \<Rightarrow> scoped_path \<Rightarrow> string \<Rightarrow> (string \<Rightarrow> string option) \<Rightarrow> upload_io \<Rightarrow> string \<Rightarrow> upload_manager \<Rightarrow> bool" where
  "ready ctx requestID sc target tmp disk0 io acc m \<longleftrightarrow>
     \<not> um_cancelled m ctx \<and> um_scope (fst (cleanupExpiredPendingWrites io (io_now io) m)) = sc \<and>
     (\<exists>m2 recent. claim_writer io ctx (um_writeEpoch m) requestID target (fst (cleanupExpiredPendingWrites io (io_now io) m)) = (m2, Claimed 0) \<and>
        um_writeEpoch m2 = um_writeEpoch m \<and> uploading ctx requestID sc (sp_display target) tmp disk0 recent acc m2)"

lemma ready_uploading:
  assumes "uploading ctx requestID sc (sp_display target) tmp disk0 recent acc m" and "io_now io - recent < pendingWriteIdleTTL"
  shows "ready ctx requestID sc target tmp disk0 io acc m"
proof -
  note r = uploading_rearmed [OF assms, of io]
  have "um_scope (fst (cleanupExpiredPendingWrites io (io_now io) m)) = sc" "\<not> um_cancelled m ctx"
    using r(1) assms(1) unfolding uploading_def by blast+
  moreover have "claim_writer io ctx (um_writeEpoch m) requestID target (fst (cleanupExpiredPendingWrites io (io_now io) m)) =
      (fst (cleanupExpiredPendingWrites io (io_now io) m), Claimed 0)"
    using uploading_claim [OF r(1), of io] r(2) by simp
  ultimately show ?thesis
    unfolding ready_def using r by blast
qed

lemma ready_fresh:
  assumes "mkdirIfMissing io (sp_base target) (Dir (sp_rel target))"
    and "createTempInRoot io disk0 (sp_base target) (Dir (sp_rel target)) 100 = Ok tmpRel"
  shows "ready ctx requestID sc target (JoinPath [sp_base target, tmpRel]) disk0 io [] (NewUploadManager sc disk0)"
proof -
  have "fst (cleanupExpiredPendingWrites io (io_now io) (NewUploadManager sc disk0)) = NewUploadManager sc disk0"
    by (simp add: cleanupExpiredPendingWrites_def NewUploadManager_def)
  moreover have "um_writeEpoch (NewUploadManager sc disk0) = 0" "\<not> um_cancelled (NewUploadManager sc disk0) ctx" "um_scope (NewUploadManager sc disk0) = sc"
    by (simp_all add: NewUploadManager_def)
  ultimately show ?thesis
    unfolding ready_def using fresh_claim [OF assms, of ctx requestID sc] by auto
qed

lemma chunk_step:
  assumes r: "ready ctx (TrimSpace requestID) sc target tmp disk0 io acc m" and "good_io io" and "check_request req = Chunk decoded"
    and "rq_RequestID req = requestID" and "openScopedPath fs sc (rq_Path req) = Ok target" and "disk0 tmp = None" and "tmp \<noteq> sp_display target"
    and "rq_Offset req = int (length acc)" and "int (length acc + length decoded) \<le> MaxFileSize"
  shows "\<exists>m'. WriteChunkContext io fs ctx req m = (m', int (length (acc @ decoded)), None) \<and>
    (if rq_Done req then um_disk m' = disk0(sp_display target := Some (acc @ decoded)) \<and> \<not> HasPendingWrite (TrimSpace requestID) m'
     else uploading ctx (TrimSpace requestID) sc (sp_display target) tmp disk0 (io_now io) (acc @ decoded) m')"
proof -
  obtain m2 recent where m2: "\<not> um_cancelled m ctx" "um_scope (fst (cleanupExpiredPendingWrites io (io_now io) m)) = sc"
      "claim_writer io ctx (um_writeEpoch m) (TrimSpace requestID) target (fst (cleanupExpiredPendingWrites io (io_now io) m)) = (m2, Claimed 0)"
      "um_writeEpoch m2 = um_writeEpoch m" "uploading ctx (TrimSpace requestID) sc (sp_display target) tmp disk0 recent acc m2"
    using r unfolding ready_def by blast
  note w = uploading_write [OF m2(5) assms(2,8,9)]
  have e: "WriteChunkContext io fs ctx req m =
      (case write_locked io ctx (um_writeEpoch m2) (TrimSpace requestID) 0 req decoded m2 of
         (m3, WReturn written e) \<Rightarrow> (m3, written, e)
       | (m3, WCommit) \<Rightarrow> commit_locked io ctx (um_writeEpoch m2) (TrimSpace requestID) 0 m3)"
    unfolding m2(4) using m2(1-3) assms(3,4,5) by (simp add: WriteChunkContext_def Let_def)
  show ?thesis
    unfolding e w(2) using w(1,3) uploading_commit [OF w(1) assms(2,6,7)] by (cases "rq_Done req") simp_all
qed

lemma check_as_request:
  assumes "fd_Data msg = EncodeToString bs" and "length bs \<le> FileChunkSize" and "0 \<le> fd_Offset msg" and "bs = [] \<longrightarrow> fd_Done msg"
    and "TrimSpace requestID \<noteq> []" and "length (TrimSpace requestID) \<le> maxFileWriteRequestIDLen"
  shows "check_request (as_request requestID path msg) = Chunk bs"
  using assms EncodedLen_mono [OF assms(2)]
  by (simp add: check_request_def as_request_def length_EncodeToString)

lemma run_upload_follow:
  assumes "ready ctx (TrimSpace requestID) sc target tmp disk0 (hd ios) acc m" and "messages_follow (int (length acc)) msgs" and "msgs \<noteq> []"
    and "length ios = length msgs" and "\<forall>io \<in> set ios. good_io io" and "paced ios"
    and "decoded_messages msgs = Some bs" and "int (length acc + length bs) \<le> MaxFileSize"
    and op: "openScopedPath fs sc path = Ok target" and tmp: "disk0 tmp = None" "tmp \<noteq> sp_display target"
    and rid: "TrimSpace requestID \<noteq> []" "length (TrimSpace requestID) \<le> maxFileWriteRequestIDLen"
  shows "\<exists>m' rs. run_upload fs ctx (zip ios (map (as_request requestID path) msgs)) m = (m', rs) \<and> rs \<noteq> [] \<and>
    last rs = (int (length (acc @ bs)), None) \<and> um_disk m' = disk0(sp_display target := Some (acc @ bs)) \<and> \<not> HasPendingWrite (TrimSpace requestID) m'"
  using assms(1-8)
proof (induction msgs arbitrary: ios acc m bs)
  case (Cons msg msgs)
  obtain io ios' where ios: "ios = io # ios'" "length ios' = length msgs"
    using Cons.prems(4) by (cases ios) auto
  obtain d where d: "fd_Data msg = EncodeToString d" "length d \<le> FileChunkSize" "messages_follow (int (length acc) + int (length d)) msgs"
      "fd_Offset msg = int (length acc)" "fd_Done msg \<longleftrightarrow> msgs = []" "d = [] \<longrightarrow> msgs = []"
    using Cons.prems(2) by auto
  obtain bs' where bs: "decoded_messages msgs = Some bs'" "bs = d @ bs'"
    using Cons.prems(7) d(1) by auto
  have c: "check_request (as_request requestID path msg) = Chunk d"
    using check_as_request [OF d(1,2) _ _ rid] d(4-6) by simp
  have sz: "int (length acc + length d) \<le> MaxFileSize"
    using Cons.prems(8) bs(2) by simp
  obtain m' where m': "WriteChunkContext io fs ctx (as_request requestID path msg) m = (m', int (length (acc @ d)), None)"
      "if msgs = [] then um_disk m' = disk0(sp_display target := Some (acc @ d)) \<and> \<not> HasPendingWrite (TrimSpace requestID) m'
       else uploading ctx (TrimSpace requestID) sc (sp_display target) tmp disk0 (io_now io) (acc @ d) m'"
    using chunk_step [of ctx requestID sc target tmp disk0 io acc m "as_request requestID path msg" d fs] Cons.prems(1,5) ios(1) c op tmp sz d(4,5)
    by (auto simp: as_request_def)
  show ?case
  proof (cases msgs)
    case Nil
    then show ?thesis using m' ios bs by (simp add: fun_eq_iff)
  next
    case (Cons msg2 rest)
    then obtain io2 ios2 where i2: "ios' = io2 # ios2"
      using ios(2) by (cases ios') auto
    have rd: "ready ctx (TrimSpace requestID) sc target tmp disk0 (hd ios') (acc @ d) m'"
      using ready_uploading [of ctx "TrimSpace requestID" sc target tmp disk0 "io_now io" "acc @ d" m' io2] m'(2) Cons Cons.prems(6) ios(1) i2 by simp
    obtain m'' rs where "run_upload fs ctx (zip ios' (map (as_request requestID path) msgs)) m' = (m'', rs)" "rs \<noteq> []"
        "last rs = (int (length ((acc @ d) @ bs')), None)" "um_disk m'' = disk0(sp_display target := Some ((acc @ d) @ bs'))"
        "\<not> HasPendingWrite (TrimSpace requestID) m''"
    proof -
      have "messages_follow (int (length (acc @ d))) msgs" "msgs \<noteq> []" "\<forall>io \<in> set ios'. good_io io" "paced ios'"
          "int (length (acc @ d) + length bs') \<le> MaxFileSize"
        using d(3) Cons Cons.prems(5,6,8) ios(1) i2 bs(2) by simp_all
      from Cons.IH [OF rd this(1,2) ios(2) this(3,4) bs(1) this(5)] show ?thesis
        using that by blast
    qed
    then show ?thesis using m'(1) ios(1) bs(2) by (simp add: fun_eq_iff)
  qed
qed simp

section \<open>Properties\<close>

text \<open>
  C18. A file that streams out can be streamed back. When the read loop has sent a file with success,
  its messages, taken as upload requests in the same order by an agent whose file system works and
  that sees them without a pause of five minutes, are all accepted, and the destination then holds
  exactly the bytes that were read; the last reply reports their number and no upload is left pending.
\<close>

theorem read_then_upload_roundtrip:
  assumes "streamFileRead MaxFileSize ts = (msgs, Some (tot, None))" and "openScopedPath fs sc path = Ok target"
    and "length ios = length msgs" and "\<forall>io \<in> set ios. good_io io" and "paced ios"
    and "mkdirIfMissing (hd ios) (sp_base target) (Dir (sp_rel target))"
    and "createTempInRoot (hd ios) disk0 (sp_base target) (Dir (sp_rel target)) 100 = Ok tmpRel"
    and "JoinPath [sp_base target, tmpRel] \<noteq> sp_display target"
    and "TrimSpace requestID \<noteq> []" and "length (TrimSpace requestID) \<le> 256"
  shows "\<exists>used m' rs. prefix used ts \<and> rt_err (last used) = EndOfFile \<and>
    run_upload fs ctx (zip ios (map (as_request requestID path) msgs)) (NewUploadManager sc disk0) = (m', rs) \<and>
    last rs = (int (length (all_bytes used)), None) \<and> um_disk m' = disk0(sp_display target := Some (all_bytes used)) \<and>
    \<not> HasPendingWrite (TrimSpace requestID) m'"
proof -
  obtain used where u: "prefix used ts" "rt_err (last used) = EndOfFile" "decoded_messages msgs = Some (all_bytes used)"
      "int (length (all_bytes used)) \<le> MaxFileSize" "messages_follow 0 msgs" "msgs \<noteq> []"
    using stream_loop_exact [of MaxFileSize 0 0 ts msgs tot] assms(1) by (auto simp: streamFileRead_def MaxFileSize_def)
  have "disk0 (JoinPath [sp_base target, tmpRel]) = None"
    using assms(7) by (rule createTemp_fresh)
  moreover have "messages_follow (int (length [])) msgs" "int (length [] + length (all_bytes used)) \<le> MaxFileSize"
      "length (TrimSpace requestID) \<le> maxFileWriteRequestIDLen"
    using u(4,5) assms(10) by (simp_all add: maxFileWriteRequestIDLen_def)
  ultimately obtain m' rs where "run_upload fs ctx (zip ios (map (as_request requestID path) msgs)) (NewUploadManager sc disk0) = (m', rs)"
      "last rs = (int (length ([] @ all_bytes used)), None)" "um_disk m' = disk0(sp_display target := Some ([] @ all_bytes used))"
      "\<not> HasPendingWrite (TrimSpace requestID) m'"
    using run_upload_follow [OF ready_fresh [OF assms(6,7), of ctx "TrimSpace requestID" sc] _ u(6) assms(3,4,5) u(3) _ assms(2) _ assms(8,9)] by blast
  with u(1,2) show ?thesis unfolding append_Nil by blast
qed

theorem read_then_upload_roundtrip_witness:
  "\<exists>used m' rs. prefix used [demo_turn ''hi'' EndOfFile] \<and> rt_err (last used) = EndOfFile \<and>
    run_upload demo_fs 1 (zip [demo_io] (map (as_request ''r1'' ''b'') [\<lparr>fd_Data = ''aGk='', fd_Offset = 0, fd_Done = True\<rparr>]))
      (NewUploadManager demo_manager (\<lambda>_. None)) = (m', rs) \<and>
    last rs = (int (length (all_bytes used)), None) \<and> um_disk m' = (\<lambda>_. None)(sp_display demo_target := Some (all_bytes used)) \<and>
    \<not> HasPendingWrite (TrimSpace ''r1'') m'"
proof (rule read_then_upload_roundtrip)
  have "EncodeToString ''hi'' = ''aGk=''"
    by code_simp
  then show "streamFileRead MaxFileSize [demo_turn ''hi'' EndOfFile] = ([\<lparr>fd_Data = ''aGk='', fd_Offset = 0, fd_Done = True\<rparr>], Some (2, None))"
    by (simp add: streamFileRead_def demo_turn_def read_size_def FileChunkSize_def MaxFileSize_def emit_def)
  have dir: "Dir ''b'' = ''.''" "TrimSpace ''r1'' = ''r1''"
    by code_simp+
  then show "createTempInRoot (hd [demo_io]) (\<lambda>_. None) (sp_base demo_target) (Dir (sp_rel demo_target)) 100 = Ok ''.lt-upload-41''"
    using demo_temp by (simp add: demo_target_def)
  show "mkdirIfMissing (hd [demo_io]) (sp_base demo_target) (Dir (sp_rel demo_target))"
    using dir by (simp add: demo_target_def mkdirIfMissing_def dot_def)
  show "openScopedPath demo_fs demo_manager ''b'' = Ok demo_target" "JoinPath [sp_base demo_target, ''.lt-upload-41''] \<noteq> sp_display demo_target"
    by code_simp+
  show "TrimSpace ''r1'' \<noteq> []" "length (TrimSpace ''r1'') \<le> 256"
    using dir by simp_all
qed (simp_all add: good_io_def demo_io_def)

end
