(* ===== verification/OsRoot.thy ===== *)
theory OsRoot
  imports FileScope "HOL-Library.Word"
begin

text \<open>
  The part of \<open>os.Root\<close> (Go's package \<open>os\<close>) that \<open>files/copy.go\<close>, \<open>files/mkdir_parent.go\<close> and
  \<open>files/handler.go\<close> use, over the machine's file tree: an association list from absolute paths,
  as lists of names, to nodes. A root is the absolute path of the directory it was opened on; a
  name is looked up beneath it name by name, links are followed as long as they stay beneath it.
  Every call consults a schedule of faults first: it may fail, deliver fewer bytes
  or names than asked for, or report a stale size. A \<open>RemoveAll\<close> that fails may have removed any
  entries except those it could not, and a \<open>MkdirAll\<close> that fails may have made the first of the directories.
  The context of a request may end at any call.
  Other processes do not change the tree while a request runs.
\<close>

unbundle bit_operations_syntax

type_synonym perm = "9 word"

datatype node = RegularFile perm string | Directory perm | Symlink string | SpecialFile perm

type_synonym tree = "(string list \<times> node) list"

datatype io_err = NotExist | AlreadyExists | NotDirectory | IsDirectory | PathEscapes | TooManyLinks | InvalidPath | OtherFailure

text \<open>
  \<open>w_fault\<close> gives, for the call with that number, a cap on what is delivered and whether it fails (with
  an error of the operating system that is not the absence of the file). \<open>w_stuck\<close> gives the entries
  that a \<open>RemoveAll\<close> with that number, if it fails, could not remove.
\<close>

record world =
  w_tree :: tree
  w_umask :: perm
  w_calls :: nat
  w_fault :: "nat \<Rightarrow> nat option \<times> bool"
  w_stuck :: "nat \<Rightarrow> string list \<Rightarrow> bool"
  w_deadline :: "nat option"

section \<open>Looking names up\<close>

fun is_directory :: "node option \<Rightarrow> bool" where
  "is_directory (Some (Directory m)) = True"
| "is_directory _ = False"

function resolve :: "tree \<Rightarrow> string list \<Rightarrow> nat \<Rightarrow> string list \<Rightarrow> string list \<Rightarrow> (io_err, string list) result" where
  "resolve t root links d [] = Ok d"
| "resolve t root links d (c # cs) =
     (if c = [] \<or> c = dot then resolve t root links d cs
      else if c = dotdot then
        if d = root then Err PathEscapes else resolve t root links (butlast d) cs
      else case map_of t (d @ [c]) of
        None \<Rightarrow> Err NotExist
      | Some (Symlink target) \<Rightarrow>
          (case links of
             0 \<Rightarrow> Err TooManyLinks
           | Suc k \<Rightarrow> if IsAbs target then Err PathEscapes
                        else resolve t root k d (SplitByte slash target @ cs))
      | Some (Directory m) \<Rightarrow> resolve t root links (d @ [c]) cs
      | Some _ \<Rightarrow> if cs = [] then Ok (d @ [c]) else Err NotDirectory)"
  by pat_completeness auto
termination
  by (relation "inv_image (less_than <*lex*> less_than) (\<lambda>(t, root, links, d, cs). (links, length cs))") auto

definition maxSymlinks :: nat where "maxSymlinks = 255"

text \<open>The path a name stands for when its last component is not followed (\<open>Lstat\<close>, \<open>Mkdir\<close> and the like).\<close>

definition locate :: "tree \<Rightarrow> string list \<Rightarrow> string \<Rightarrow> (io_err, string list) result" where
  "locate t root name =
     (let cs = comps name in
      if cs = [] then Ok root
      else if last cs = dotdot then Err PathEscapes
      else case resolve t root maxSymlinks root (butlast cs) of
        Inl e \<Rightarrow> Err e
      | Inr d \<Rightarrow> if is_directory (map_of t d) then Ok (d @ [last cs]) else Err NotDirectory)"

section \<open>Calls\<close>

definition tick :: "world \<Rightarrow> world" where
  "tick w = w\<lparr>w_calls := Suc (w_calls w)\<rparr>"

definition contextDone :: "world \<Rightarrow> bool" where
  "contextDone w = (case w_deadline w of None \<Rightarrow> False | Some d \<Rightarrow> d \<le> w_calls w)"

definition os_call :: "(nat option \<Rightarrow> tree \<Rightarrow> (io_err, 'a) result \<times> tree) \<Rightarrow> world \<Rightarrow> (io_err, 'a) result \<times> world" where
  "os_call f w =
     (case w_fault w (w_calls w) of
        (cap, True) \<Rightarrow> (Err OtherFailure, tick w)
      | (cap, False) \<Rightarrow> (case f cap (w_tree w) of (r, t) \<Rightarrow> (r, (tick w)\<lparr>w_tree := t\<rparr>)))"

text \<open>A call that may already have changed the tree when it fails: \<open>g\<close> is what it then leaves.\<close>

definition os_call_else ::
    "(nat option \<Rightarrow> tree \<Rightarrow> tree) \<Rightarrow> (nat option \<Rightarrow> tree \<Rightarrow> (io_err, 'a) result \<times> tree) \<Rightarrow> world \<Rightarrow> (io_err, 'a) result \<times> world" where
  "os_call_else g f w =
     (case w_fault w (w_calls w) of
        (cap, True) \<Rightarrow> (Err OtherFailure, (tick w)\<lparr>w_tree := g cap (w_tree w)\<rparr>)
      | (cap, False) \<Rightarrow> (case f cap (w_tree w) of (r, t) \<Rightarrow> (r, (tick w)\<lparr>w_tree := t\<rparr>)))"

definition capped :: "nat option \<Rightarrow> 'a list \<Rightarrow> 'a list" where
  "capped cap xs = (case cap of None \<Rightarrow> xs | Some n \<Rightarrow> take n xs)"

datatype file_kind = RegularKind | DirKind | SymlinkKind | SpecialKind

record os_info =
  oi_kind :: file_kind
  oi_perm :: perm
  oi_size :: int

fun info_of :: "nat option \<Rightarrow> node \<Rightarrow> os_info" where
  "info_of cap (RegularFile m d) =
     \<lparr>oi_kind = RegularKind, oi_perm = m, oi_size = (case cap of None \<Rightarrow> int (length d) | Some n \<Rightarrow> int n)\<rparr>"
| "info_of cap (Directory m) = \<lparr>oi_kind = DirKind, oi_perm = m, oi_size = 0\<rparr>"
| "info_of cap (Symlink l) = \<lparr>oi_kind = SymlinkKind, oi_perm = - 1, oi_size = int (length l)\<rparr>"
| "info_of cap (SpecialFile m) = \<lparr>oi_kind = SpecialKind, oi_perm = m, oi_size = 0\<rparr>"

definition root_Lstat :: "string list \<Rightarrow> string \<Rightarrow> world \<Rightarrow> (io_err, os_info) result \<times> world" where
  "root_Lstat root name = os_call (\<lambda>cap t.
     (case locate t root name of
        Inl e \<Rightarrow> Err e
      | Inr q \<Rightarrow> (case map_of t q of None \<Rightarrow> Err NotExist | Some n \<Rightarrow> Ok (info_of cap n)), t))"

definition root_Stat :: "string list \<Rightarrow> string \<Rightarrow> world \<Rightarrow> (io_err, os_info) result \<times> world" where
  "root_Stat root name = os_call (\<lambda>cap t.
     (case resolve t root maxSymlinks root (comps name) of
        Inl e \<Rightarrow> Err e
      | Inr q \<Rightarrow> (case map_of t q of None \<Rightarrow> Err NotExist | Some n \<Rightarrow> Ok (info_of cap n)), t))"

text \<open>An open directory is the names it still has to deliver, an open file the bytes.\<close>

datatype os_handle = DirHandle "string list" | FileHandle string

definition children :: "tree \<Rightarrow> string list \<Rightarrow> string list" where
  "children t p = map (last \<circ> fst) (filter (\<lambda>(q, n). q \<noteq> [] \<and> butlast q = p) t)"

definition root_Open :: "string list \<Rightarrow> string \<Rightarrow> world \<Rightarrow> (io_err, os_handle) result \<times> world" where
  "root_Open root name = os_call (\<lambda>cap t.
     (case resolve t root maxSymlinks root (comps name) of
        Inl e \<Rightarrow> Err e
      | Inr q \<Rightarrow> (case map_of t q of
          Some (Directory m) \<Rightarrow> Ok (DirHandle (children t q))
        | Some (RegularFile m d) \<Rightarrow> Ok (FileHandle d)
        | Some _ \<Rightarrow> Err OtherFailure
        | None \<Rightarrow> Err NotExist), t))"

definition add_node :: "string list \<Rightarrow> node \<Rightarrow> tree \<Rightarrow> tree" where
  "add_node q n t = t @ [(q, n)]"

definition root_Mkdir :: "string list \<Rightarrow> string \<Rightarrow> perm \<Rightarrow> world \<Rightarrow> (io_err, unit) result \<times> world" where
  "root_Mkdir root name mode w = os_call (\<lambda>cap t.
     (case locate t root name of
        Inl e \<Rightarrow> (Err e, t)
      | Inr q \<Rightarrow> (case map_of t q of
          Some n \<Rightarrow> (Err AlreadyExists, t)
        | None \<Rightarrow> (Ok (), add_node q (Directory (mode AND NOT (w_umask w))) t)))) w"

function make_dirs :: "tree \<Rightarrow> string list \<Rightarrow> node \<Rightarrow> nat \<Rightarrow> string list \<Rightarrow> string list \<Rightarrow> (io_err, unit) result \<times> tree" where
  "make_dirs t root made links d [] = (if is_directory (map_of t d) then (Ok (), t) else (Err NotDirectory, t))"
| "make_dirs t root made links d (c # cs) =
     (if c = [] \<or> c = dot then make_dirs t root made links d cs
      else if c = dotdot then
        if d = root then (Err PathEscapes, t) else make_dirs t root made links (butlast d) cs
      else case map_of t (d @ [c]) of
        None \<Rightarrow> make_dirs (add_node (d @ [c]) made t) root made links (d @ [c]) cs
      | Some (Symlink target) \<Rightarrow>
          (case links of
             0 \<Rightarrow> (Err TooManyLinks, t)
           | Suc k \<Rightarrow> if IsAbs target then (Err PathEscapes, t)
                        else make_dirs t root made k d (SplitByte slash target @ cs))
      | Some (Directory m) \<Rightarrow> make_dirs t root made links (d @ [c]) cs
      | Some _ \<Rightarrow> (Err NotDirectory, t))"
  by pat_completeness auto
termination
  by (relation "inv_image (less_than <*lex*> less_than) (\<lambda>(t, root, made, links, d, cs). (links, length cs))") auto

definition root_MkdirAll :: "string list \<Rightarrow> string \<Rightarrow> perm \<Rightarrow> world \<Rightarrow> (io_err, unit) result \<times> world" where
  "root_MkdirAll root name mode w =
     (let make = (\<lambda>cs t. make_dirs t root (Directory (mode AND NOT (w_umask w))) maxSymlinks root cs)
      in os_call_else (\<lambda>cap t. snd (make (capped cap (comps name)) t)) (\<lambda>cap. make (comps name)) w)"

text \<open>\<open>OpenFile\<close> with \<open>O_CREATE|O_EXCL|O_WRONLY\<close>; the handle is the path of the new file.\<close>

definition root_CreateExcl :: "string list \<Rightarrow> string \<Rightarrow> perm \<Rightarrow> world \<Rightarrow> (io_err, string list) result \<times> world" where
  "root_CreateExcl root name mode w = os_call (\<lambda>cap t.
     (case locate t root name of
        Inl e \<Rightarrow> (Err e, t)
      | Inr q \<Rightarrow> (case map_of t q of
          Some n \<Rightarrow> (Err AlreadyExists, t)
        | None \<Rightarrow> (Ok q, add_node q (RegularFile (mode AND NOT (w_umask w)) []) t)))) w"

fun append_data :: "string \<Rightarrow> node \<Rightarrow> node" where
  "append_data d (RegularFile m e) = RegularFile m (e @ d)"
| "append_data d n = n"

definition append_at :: "string list \<Rightarrow> string \<Rightarrow> tree \<Rightarrow> tree" where
  "append_at q d t = map (\<lambda>(p, n). (p, if p = q then append_data d n else n)) t"

text \<open>
  \<open>Write\<close> on that handle: what was written, and the error. A write that fails may have written a
  part. \<open>Read\<close> and \<open>ReadDir\<close> return what they delivered, what is left, and the error.
\<close>

definition file_Write :: "string list \<Rightarrow> string \<Rightarrow> world \<Rightarrow> (nat \<times> io_err option) \<times> world" where
  "file_Write q d w =
     (case w_fault w (w_calls w) of
        (cap, failing) \<Rightarrow> let d' = capped cap d in
          ((length d', if failing then Some OtherFailure else None), (tick w)\<lparr>w_tree := append_at q d' (w_tree w)\<rparr>))"

definition file_Sync :: "world \<Rightarrow> (io_err, unit) result \<times> world" where
  "file_Sync = os_call (\<lambda>cap t. (Ok (), t))"

datatype read_end = More | AtEOF | ReadFails io_err

definition deliver :: "nat \<Rightarrow> 'a list \<Rightarrow> world \<Rightarrow> ('a list \<times> 'a list \<times> read_end) \<times> world" where
  "deliver n rest w =
     (case w_fault w (w_calls w) of
        (cap, failing) \<Rightarrow> let got = capped cap (take n rest) in
          ((got, drop (length got) rest,
            if failing then ReadFails OtherFailure else if rest = [] then AtEOF else More), tick w))"

definition remove_tree :: "string list \<Rightarrow> tree \<Rightarrow> tree" where
  "remove_tree q t = filter (\<lambda>(p, n). \<not> prefix q p) t"

text \<open>An entry that stays keeps the directories above it.\<close>

definition remove_partly :: "(string list \<Rightarrow> bool) \<Rightarrow> string list \<Rightarrow> tree \<Rightarrow> tree" where
  "remove_partly stuck q t =
     filter (\<lambda>(p, n). \<not> prefix q p \<or> list_ex (\<lambda>(p', n'). prefix p p' \<and> stuck p') t) t"

definition root_RemoveAll :: "string list \<Rightarrow> string \<Rightarrow> world \<Rightarrow> (io_err, unit) result \<times> world" where
  "root_RemoveAll root name w = os_call_else
     (\<lambda>cap t.
        (case locate t root name of
           Inl e \<Rightarrow> t
         | Inr q \<Rightarrow> if q = root then t else remove_partly (w_stuck w (w_calls w)) q t))
     (\<lambda>cap t.
        (case locate t root name of
           Inl e \<Rightarrow> (if e = NotExist then Ok () else Err e, t)
         | Inr q \<Rightarrow> if q = root then (Err InvalidPath, t)
                    else (Ok (), remove_tree q t))) w"

text \<open>
  \<open>Rename\<close>: an existing target is replaced where the system allows it: a non-directory by a
  non-directory, an empty directory by a directory.
\<close>

definition replaceable :: "tree \<Rightarrow> string list \<Rightarrow> string list \<Rightarrow> bool" where
  "replaceable t p q =
     (case map_of t q of
        None \<Rightarrow> True
      | Some n \<Rightarrow> is_directory (map_of t p) = is_directory (Some n) \<and> children t q = [])"

definition move_tree :: "string list \<Rightarrow> string list \<Rightarrow> tree \<Rightarrow> tree" where
  "move_tree p q t =
     map (\<lambda>(x, n). (if prefix p x then q @ drop (length p) x else x, n)) (remove_tree q t)"

definition root_Rename :: "string list \<Rightarrow> string \<Rightarrow> string \<Rightarrow> world \<Rightarrow> (io_err, unit) result \<times> world" where
  "root_Rename root old new = os_call (\<lambda>cap t.
     (case (locate t root old, locate t root new) of
        (Inr p, Inr q) \<Rightarrow>
          if map_of t p = None then (Err NotExist, t)
          else if p = root \<or> q = root \<or> strict_prefix p q \<or> strict_prefix q p then (Err InvalidPath, t)
          else if p = q then (Ok (), t)
          else if \<not> replaceable t p q then (Err AlreadyExists, t)
          else (Ok (), move_tree p q t)
      | (Inl e, _) \<Rightarrow> (Err e, t)
      | (_, Inl e) \<Rightarrow> (Err e, t)))"

section \<open>Trees\<close>

definition valid_name :: "string \<Rightarrow> bool" where
  "valid_name x \<longleftrightarrow> x \<noteq> [] \<and> x \<noteq> dot \<and> x \<noteq> dotdot \<and> slash \<notin> set x"

text \<open>A tree as the operating system keeps it: every node is in an existing directory.\<close>

definition wf_map :: "(string list \<Rightarrow> node option) \<Rightarrow> bool" where
  "wf_map m \<longleftrightarrow> is_directory (m []) \<and> (\<forall>p x. m (p @ [x]) \<noteq> None \<longrightarrow> is_directory (m p) \<and> valid_name x)"

definition wf_tree :: "tree \<Rightarrow> bool" where
  "wf_tree t \<longleftrightarrow> distinct (map fst t) \<and> wf_map (map_of t)"

text \<open>Nothing but the nodes at or beneath \<open>d\<close> differs; nodes stay, and files at most get longer.\<close>

definition framed :: "string list \<Rightarrow> tree \<Rightarrow> tree \<Rightarrow> bool" where
  "framed d t t' \<longleftrightarrow> (\<forall>p. \<not> prefix d p \<longrightarrow> map_of t' p = map_of t p)"

definition grows :: "tree \<Rightarrow> tree \<Rightarrow> bool" where
  "grows t t' \<longleftrightarrow> (\<forall>p n. map_of t p = Some n \<longrightarrow> (\<exists>d. map_of t' p = Some (append_data d n)))"

lemma is_directory_iff: "is_directory x \<longleftrightarrow> (\<exists>m. x = Some (Directory m))"
  by (cases x rule: is_directory.cases) simp_all

lemma is_directory_Some [intro]: "is_directory x \<Longrightarrow> x \<noteq> None"
  by (auto simp: is_directory_iff)

lemma wf_mapD:
  "wf_map m \<Longrightarrow> m (p @ [x]) \<noteq> None \<Longrightarrow> is_directory (m p)" "wf_map m \<Longrightarrow> m (p @ [x]) \<noteq> None \<Longrightarrow> valid_name x"
  unfolding wf_map_def by auto

lemma wf_treeD:
  "wf_tree t \<Longrightarrow> distinct (map fst t)" "wf_tree t \<Longrightarrow> is_directory (map_of t [])"
  "wf_tree t \<Longrightarrow> map_of t (p @ [x]) \<noteq> None \<Longrightarrow> is_directory (map_of t p)"
  "wf_tree t \<Longrightarrow> map_of t (p @ [x]) \<noteq> None \<Longrightarrow> valid_name x"
  unfolding wf_tree_def wf_map_def by auto

lemma wf_tree_above:
  "wf_tree t \<Longrightarrow> map_of t (p @ q) \<noteq> None \<Longrightarrow> q \<noteq> [] \<Longrightarrow> is_directory (map_of t p)"
proof (induction q rule: rev_induct)
  case (snoc x q)
  have "is_directory (map_of t (p @ q))"
    using wf_treeD(3) [of t "p @ q" x] snoc.prems by simp
  with snoc show ?case by (cases "q = []") (auto simp: is_directory_iff)
qed simp

lemma wf_tree_absent: "wf_tree t \<Longrightarrow> map_of t p = None \<Longrightarrow> map_of t (p @ q) = None"
  using wf_tree_above [of t p q] by (cases "q = []") force+

lemma map_of_add_node: "map_of t q = None \<Longrightarrow> map_of (add_node q n t) = (map_of t)(q \<mapsto> n)"
  by (auto simp: add_node_def map_add_def fun_eq_iff split: option.splits)

lemma map_of_append_at:
  "map_of (append_at q d t) = (case map_of t q of None \<Rightarrow> map_of t | Some n \<Rightarrow> (map_of t)(q \<mapsto> append_data d n))"
  by (induction t) (auto simp: append_at_def fun_eq_iff split: option.splits)

lemma map_of_remove_tree: "map_of (remove_tree q t) p = (if prefix q p then None else map_of t p)"
  by (induction t) (auto simp: remove_tree_def)

lemma append_data_Nil [simp]: "append_data [] n = n"
  by (cases n) simp_all

lemma append_data_append [simp]: "append_data e (append_data d n) = append_data (d @ e) n"
  by (cases n) simp_all

lemma is_directory_append [simp]: "is_directory (Some (append_data d n)) = is_directory (Some n)"
  by (cases n) simp_all

lemma framed_refl [simp]: "framed d t t"
  by (simp add: framed_def)

lemma framed_trans: "framed d t u \<Longrightarrow> framed d u v \<Longrightarrow> framed d t v"
  by (simp add: framed_def)

lemma framed_mono: "framed d t u \<Longrightarrow> prefix e d \<Longrightarrow> framed e t u"
  unfolding framed_def by (metis prefix_order.trans)

lemma grows_refl [simp]: "grows t t"
  unfolding grows_def by (metis append_data_Nil)

lemma grows_trans: "grows t u \<Longrightarrow> grows u v \<Longrightarrow> grows t v"
  unfolding grows_def by (metis append_data_append)

lemma grows_dir: "grows t u \<Longrightarrow> is_directory (map_of t p) \<Longrightarrow> map_of u p = map_of t p"
  unfolding grows_def is_directory_iff by (metis append_data.simps(2))

lemma grows_add: "map_of t q = None \<Longrightarrow> grows t (add_node q n t)"
  unfolding grows_def by (metis append_data_Nil fun_upd_other map_of_add_node option.distinct(1))

lemma framed_add: "map_of t q = None \<Longrightarrow> prefix d q \<Longrightarrow> framed d t (add_node q n t)"
  by (auto simp: framed_def map_of_add_node)

lemma grows_append_at: "grows t (append_at q d t)"
proof -
  have "\<exists>e. map_of (append_at q d t) p = Some (append_data e n)" if "map_of t p = Some n" for p n
    using that by (cases "p = q") (auto simp: map_of_append_at split: option.splits intro: exI [of _ "[]"])
  then show ?thesis by (auto simp: grows_def)
qed

lemma framed_append_at: "prefix d q \<Longrightarrow> framed d t (append_at q e t)"
  by (auto simp: framed_def map_of_append_at split: option.splits)

lemma wf_map_upd:
  assumes "wf_map m" and "is_directory (m p)" and "valid_name x" and "\<not> is_directory (m (p @ [x]))"
  shows "wf_map (m(p @ [x] \<mapsto> n))"
proof -
  let ?m = "m(p @ [x] \<mapsto> n)"
  have "is_directory (?m q) \<and> valid_name y" if e: "?m (q @ [y]) \<noteq> None" for q y
  proof -
    have "is_directory (m q) \<and> valid_name y"
      using e assms(2,3) wf_mapD [OF assms(1), of q y] by (cases "q @ [y] = p @ [x]") auto
    with assms(4) show ?thesis by (auto simp: fun_upd_apply)
  qed
  then show ?thesis
    using assms(1) by (simp add: wf_map_def)
qed

lemma wf_tree_add:
  assumes "wf_tree t" and "map_of t (p @ [x]) = None" and "is_directory (map_of t p)" and "valid_name x"
  shows "wf_tree (add_node (p @ [x]) n t)"
proof -
  have "distinct (map fst (add_node (p @ [x]) n t))"
    using assms(1,2) by (auto simp: wf_tree_def add_node_def map_of_eq_None_iff)
  then show ?thesis
    using assms wf_map_upd [of "map_of t" p x n] by (simp add: wf_tree_def map_of_add_node)
qed

lemma map_fst_append_at [simp]: "map fst (append_at q d t) = map fst t"
  by (auto simp: append_at_def)

lemma wf_tree_append_at: "wf_tree t \<Longrightarrow> wf_tree (append_at q d t)"
proof -
  have "wf_map (m(q \<mapsto> append_data d n))" if m: "wf_map m" "m q = Some n" for m n
  proof -
    let ?m = "m(q \<mapsto> append_data d n)"
    have d: "is_directory (?m p) = is_directory (m p)" for p
      using m(2) by simp
    have "is_directory (?m p) \<and> valid_name x" if "?m (p @ [x]) \<noteq> None" for p x
      using wf_mapD [OF m(1), of p x] that m(2) unfolding d by (auto split: if_splits)
    moreover have "is_directory (?m [])"
      using m(1) unfolding d wf_map_def by blast
    ultimately show ?thesis
      unfolding wf_map_def by blast
  qed
  then show "wf_tree t \<Longrightarrow> wf_tree (append_at q d t)"
    by (auto simp only: wf_tree_def map_fst_append_at map_of_append_at split: option.splits)
qed

lemma wf_tree_remove: "wf_tree t \<Longrightarrow> q \<noteq> [] \<Longrightarrow> wf_tree (remove_tree q t)"
proof -
  assume "wf_tree t" "q \<noteq> []"
  then have "wf_map (\<lambda>p. if prefix q p then None else map_of t p)"
    unfolding wf_tree_def wf_map_def by auto
  moreover have "map_of (remove_tree q t) = (\<lambda>p. if prefix q p then None else map_of t p)"
    by (simp add: fun_eq_iff map_of_remove_tree)
  moreover have "distinct (map fst (remove_tree q t))"
    using \<open>wf_tree t\<close> by (auto simp: wf_tree_def remove_tree_def distinct_map intro: inj_on_subset)
  ultimately show ?thesis by (simp add: wf_tree_def)
qed

text \<open>What a removal that failed half way leaves beneath \<open>q\<close>: each entry as it was or not at all.\<close>

definition partly_removed :: "string list \<Rightarrow> tree \<Rightarrow> tree \<Rightarrow> bool" where
  "partly_removed q t t' \<longleftrightarrow>
     (\<forall>y. map_of t' y = map_of t y \<or> prefix q y \<and> map_of t' y = None) \<and>
     (\<forall>y z. map_of t' (y @ z) \<noteq> None \<longrightarrow> map_of t' y = map_of t y)"

lemma map_of_remove_partly:
  "map_of (remove_partly stuck q t) p =
     (if prefix q p \<and> \<not> list_ex (\<lambda>(p', n'). prefix p p' \<and> stuck p') t then None else map_of t p)"
proof -
  have "map_of (filter (\<lambda>(p, n). Q p) u) p = (if Q p then map_of u p else None)" for Q and u :: tree
    by (induction u) auto
  then show ?thesis
    by (simp add: remove_partly_def)
qed

lemma remove_partly_removed: "partly_removed q t (remove_partly stuck q t)"
proof -
  have up: "list_ex (\<lambda>(p', n'). prefix y p' \<and> stuck p') t" if "list_ex (\<lambda>(p', n'). prefix (y @ z) p' \<and> stuck p') t" for y z
    using that by (auto simp: list_ex_iff dest: append_prefixD)
  have "prefix q (y @ z)" if "prefix q y" for y z
    using that by (auto simp: prefix_def)
  then show ?thesis
    using up unfolding partly_removed_def map_of_remove_partly by auto
qed

lemma wf_tree_remove_partly:
  assumes "wf_tree t" and "q \<noteq> []"
  shows "wf_tree (remove_partly stuck q t)"
proof -
  let ?t = "remove_partly stuck q t"
  note r = remove_partly_removed [of q t stuck, unfolded partly_removed_def]
  have "is_directory (map_of ?t p) \<and> valid_name x" if "map_of ?t (p @ [x]) \<noteq> None" for p x
    using r wf_treeD(3,4) [OF assms(1), of p x] that by metis
  moreover have "map_of ?t [] = map_of t []"
    using assms(2) by (simp add: map_of_remove_partly)
  moreover have "distinct (map fst ?t)"
    using assms(1) by (auto simp: wf_tree_def remove_partly_def distinct_map intro: inj_on_subset)
  ultimately show ?thesis
    using wf_treeD(2) [OF assms(1)] by (simp add: wf_tree_def wf_map_def)
qed

lemma framed_removed: "partly_removed q t t' \<Longrightarrow> prefix d q \<Longrightarrow> framed d t t'"
  unfolding partly_removed_def framed_def by (meson prefix_order.trans)

section \<open>Lookups\<close>

lemma butlast_prefix: "prefix root d \<Longrightarrow> d \<noteq> root \<Longrightarrow> prefix root (butlast d)"
  by (auto simp: prefix_def butlast_append)

text \<open>The successful lookups as a relation, one rule per kind of step.\<close>

inductive resolves :: "tree \<Rightarrow> string list \<Rightarrow> nat \<Rightarrow> string list \<Rightarrow> string list \<Rightarrow> string list \<Rightarrow> bool"
  for t :: tree and root :: "string list" where
  rdone: "resolves t root links d [] d"
| rskip: "c = [] \<or> c = dot \<Longrightarrow> resolves t root links d cs q \<Longrightarrow> resolves t root links d (c # cs) q"
| rup: "d \<noteq> root \<Longrightarrow> resolves t root links (butlast d) cs q \<Longrightarrow> resolves t root links d (dotdot # cs) q"
| rlink: "c \<noteq> [] \<Longrightarrow> c \<noteq> dot \<Longrightarrow> c \<noteq> dotdot \<Longrightarrow> map_of t (d @ [c]) = Some (Symlink target) \<Longrightarrow> \<not> IsAbs target \<Longrightarrow>
    resolves t root links d (SplitByte slash target @ cs) q \<Longrightarrow> resolves t root (Suc links) d (c # cs) q"
| rdir: "c \<noteq> [] \<Longrightarrow> c \<noteq> dot \<Longrightarrow> c \<noteq> dotdot \<Longrightarrow> map_of t (d @ [c]) = Some (Directory m) \<Longrightarrow>
    resolves t root links (d @ [c]) cs q \<Longrightarrow> resolves t root links d (c # cs) q"
| rleaf: "c \<noteq> [] \<Longrightarrow> c \<noteq> dot \<Longrightarrow> c \<noteq> dotdot \<Longrightarrow> map_of t (d @ [c]) = Some n \<Longrightarrow> \<not> is_directory (Some n) \<Longrightarrow>
    \<forall>l. n \<noteq> Symlink l \<Longrightarrow> resolves t root links d [c] (d @ [c])"

lemma resolves_resolve: "resolves t root links d cs q \<Longrightarrow> resolve t root links d cs = Ok q"
proof (induction rule: resolves.induct)
  case (rleaf c d n links)
  then show ?case by (cases n) simp_all
qed simp_all

lemma resolve_resolves: "resolve t root links d cs = Ok q \<Longrightarrow> resolves t root links d cs q"
proof (induction t root links d cs rule: resolve.induct)
  case (2 t root links d c cs)
  show ?case
  proof (cases "c = [] \<or> c = dot \<or> c = dotdot")
    case True
    with "2.IH"(1,2) "2.prems" show ?thesis
      by (auto split: if_splits intro: rskip rup)
  next
    case False
    then obtain n where n: "map_of t (d @ [c]) = Some n"
      using "2.prems" by (auto split: option.splits)
    show ?thesis
    proof (cases n)
      case (Symlink target)
      then obtain k where "links = Suc k"
        using "2.prems" False n by (auto split: nat.splits)
      with Symlink "2.IH" "2.prems" False n show ?thesis
        by (auto split: if_splits intro: rlink)
    qed (use "2.IH" "2.prems" False n in \<open>auto split: if_splits intro: rdir rleaf\<close>)
  qed
qed (simp add: rdone)

lemma resolves_beneath: "resolves t root links d cs q \<Longrightarrow> prefix root d \<Longrightarrow> prefix root q"
  by (induction rule: resolves.induct) (auto simp: butlast_prefix)

lemmas resolve_beneath = resolves_beneath [OF resolve_resolves]

lemma resolves_grows: "resolves t root links d cs q \<Longrightarrow> grows t u \<Longrightarrow> resolves u root links d cs q"
proof (induction rule: resolves.induct)
  case (rlink c d target links cs q)
  then have "map_of u (d @ [c]) = Some (Symlink target)"
    unfolding grows_def by (metis append_data.simps(3))
  with rlink show ?case by (auto intro: resolves.rlink)
next
  case (rdir c d m links cs q)
  then have "map_of u (d @ [c]) = Some (Directory m)"
    unfolding grows_def by (metis append_data.simps(2))
  with rdir show ?case by (auto intro: resolves.rdir)
next
  case (rleaf c d n links)
  then obtain e where "map_of u (d @ [c]) = Some (append_data e n)"
    unfolding grows_def by blast
  with rleaf show ?case by (cases n) (auto intro: resolves.rleaf)
qed (auto intro: resolves.intros)

lemma resolve_grows: "resolve t root links d cs = Ok q \<Longrightarrow> grows t u \<Longrightarrow> resolve u root links d cs = Ok q"
  by (blast intro: resolves_resolve resolves_grows resolve_resolves)

lemma resolves_snoc:
  "resolves t root links d cs q \<Longrightarrow> is_directory (map_of t q) \<Longrightarrow> valid_name x \<Longrightarrow>
   map_of t (q @ [x]) = Some n \<Longrightarrow> \<forall>l. n \<noteq> Symlink l \<Longrightarrow> resolves t root links d (cs @ [x]) (q @ [x])"
proof (induction rule: resolves.induct)
  case (rdone links d)
  then show ?case
    by (cases n) (auto simp: valid_name_def intro: resolves.intros)
qed (auto intro: resolves.intros)

lemma comps_JoinPath:
  assumes "valid_name x"
  shows "comps (JoinPath [p, x]) = comps p @ [x]"
proof (cases "p = []")
  case True
  have "\<not> IsAbs x"
    using assms by (cases x) (auto simp: valid_name_def IsAbs_def HasPrefix_iff)
  then have "comps x = [x]"
    using assms by (simp add: comps_def valid_name_def SplitByte_plain)
  then show ?thesis
    using True assms by (simp add: JoinPath_def valid_name_def comps_def [of "[]"] IsAbs_def HasPrefix_iff)
next
  case False
  have "IsAbs (p @ slash # x) = IsAbs p"
    using False by (cases p) (auto simp: IsAbs_def HasPrefix_iff)
  then have "comps (p @ slash # x) = clean_comps (IsAbs p) [] (SplitByte slash p @ [x])"
    using assms by (simp add: comps_def SplitByte_append_general SplitByte_plain valid_name_def)
  then have "comps (p @ slash # x) = comps p @ [x]"
    using assms by (simp add: valid_name_def clean_comps_snoc comps_def [of p])
  with False assms show ?thesis
    by (simp add: JoinPath_def valid_name_def)
qed

lemma locate_grows:
  assumes "locate t root p = Ok q" and "grows t u"
  shows "locate u root p = Ok q"
proof (cases "comps p = []")
  case False
  then obtain d where "resolve t root maxSymlinks root (butlast (comps p)) = Ok d" "is_directory (map_of t d)"
      "q = d @ [last (comps p)]" "last (comps p) \<noteq> dotdot"
    using assms(1) by (auto simp: locate_def Let_def split: if_splits sum.splits)
  then show ?thesis
    using False resolve_grows [OF _ assms(2)] grows_dir [OF assms(2), of d] by (simp add: locate_def)
qed (use assms in \<open>simp add: locate_def\<close>)

lemma locate_beneath: "locate t root p = Ok q \<Longrightarrow> prefix root q"
  by (auto simp: locate_def Let_def split: if_splits sum.splits dest: resolve_beneath)

lemma locate_parent:
  assumes "locate t root p = Ok q" and "q \<noteq> root"
  obtains d x where "q = d @ [x]" and "is_directory (map_of t d)" and "valid_name x" and "prefix root d"
    "comps p = butlast (comps p) @ [x]" "resolve t root maxSymlinks root (butlast (comps p)) = Ok d"
proof -
  have c: "comps p \<noteq> []" "last (comps p) \<noteq> dotdot"
    using assms by (auto simp: locate_def Let_def split: if_splits)
  have "valid_name (last (comps p))"
    using clean_listD(1) [OF clean_list_comps [of p], of "last (comps p)"] c by (simp add: valid_name_def)
  with assms(1) c that show ?thesis
    by (fastforce simp: locate_def Let_def split: if_splits sum.splits dest: resolve_beneath)
qed

lemma locate_resolve:
  assumes "locate t root p = Ok q" and "map_of t q = Some n" and "\<forall>l. n \<noteq> Symlink l"
    and "is_directory (map_of t root)"
  shows "resolve t root maxSymlinks root (comps p) = Ok q"
proof (cases "comps p = []")
  case True
  then show ?thesis using assms(1) by (simp add: locate_def)
next
  case False
  then obtain d where "resolve t root maxSymlinks root (butlast (comps p)) = Ok d" "is_directory (map_of t d)"
      "q = d @ [last (comps p)]" "last (comps p) \<noteq> dotdot"
    using assms(1) by (auto simp: locate_def Let_def split: if_splits sum.splits)
  moreover have "valid_name (last (comps p))"
    using clean_listD(1) [OF clean_list_comps [of p], of "last (comps p)"] False calculation(4) by (simp add: valid_name_def)
  ultimately show ?thesis
    using resolves_resolve [OF resolves_snoc [OF resolve_resolves], of t root maxSymlinks root "butlast (comps p)" d "last (comps p)" n]
      assms(2,3) False by simp
qed

lemma locate_child:
  assumes "locate t root p = Ok q" and "is_directory (map_of t q)" and "is_directory (map_of t root)" and "valid_name x"
  shows "locate t root (JoinPath [p, x]) = Ok (q @ [x])"
proof -
  obtain m where m: "map_of t q = Some (Directory m)"
    using assms(2) by (auto simp: is_directory_iff)
  have "resolve t root maxSymlinks root (comps p) = Ok q"
    using locate_resolve [OF assms(1) m _ assms(3)] by simp
  with assms show ?thesis
    by (simp add: locate_def comps_JoinPath valid_name_def)
qed

lemma set_children: "set (children t p) = {x. map_of t (p @ [x]) \<noteq> None}"
proof -
  have "x \<in> set (children t p) \<longleftrightarrow> p @ [x] \<in> fst ` set t" for x
    by (force simp: children_def image_iff)
  then show ?thesis
    by (auto simp: map_of_eq_None_iff)
qed

lemma distinct_children: "wf_tree t \<Longrightarrow> distinct (children t p)"
proof -
  have "distinct (map fst t) \<Longrightarrow> distinct (children t p)"
  proof (induction t)
    case (Cons e t)
    have "last q \<notin> set (children t p)" if "e = (q, n)" "q \<noteq> []" "butlast q = p" for q n
    proof -
      have "map_of t q = None"
        using Cons.prems that(1) by (simp add: map_of_eq_None_iff)
      then show ?thesis
        using that(2,3) append_butlast_last_id [of q] by (simp add: set_children)
    qed
    with Cons show ?case by (cases e) (auto simp: children_def)
  qed (simp add: children_def)
  then show "wf_tree t \<Longrightarrow> distinct (children t p)"
    by (simp add: wf_tree_def)
qed

end
