(* ===== verification/FileCopy.thy ===== *)
theory FileCopy
  imports OsRoot
begin

text \<open>
  Copying a file or a directory tree: \<open>files/copy.go\<close> and \<open>files/mkdir_parent.go\<close>
  (\<open>internal/agentcore\<close>), over the file tree of \<open>OsRoot\<close>. The state of a copy is the code's
  \<open>copyState\<close> together with the world it acts on; every function returns the error, if any, and the
  state it leaves, so that what a failed copy leaves behind is a result of the model too.
\<close>

record copyLimits =
  maxEntries :: int
  maxBytes :: int
  maxFileSize :: int
  maxDepth :: int
  readBatch :: int
  bufferSize :: int

definition defaultCopyLimits :: copyLimits where
  "defaultCopyLimits =
     \<lparr>maxEntries = 20000, maxBytes = 512 * 1024 * 1024, maxFileSize = 512 * 1024 * 1024, maxDepth = 64,
      readBatch = 256, bufferSize = 64 * 1024\<rparr>"

datatype copy_err =
    CopyCanceled | DepthExceeded | EntriesExceeded | FileExceeded | TotalExceeded
  | SymlinkUnsupported | SpecialUnsupported | NegativeSize | InvalidReadCount | ShortWrite | NoCopyProgress
  | Identical | InsideSource | BadEntryLimit | BadByteLimit | BadFileSizeLimit | BadDepthLimit | BadBatchSize | BadBufferSize
  | OsFailed io_err | CleanupFailed copy_err io_err

record rootedCopyBackend =
  b_src :: "string list"
  b_dst :: "string list"

record copyState =
  cs_entries :: int
  cs_bytes :: int
  cs_destinationCreated :: bool
  cs_world :: world

type_synonym copy_result = "copy_err option \<times> copyState"

definition cthen :: "copy_result \<Rightarrow> (copyState \<Rightarrow> copy_result) \<Rightarrow> copy_result" where
  "cthen r k = (case r of (Some e, s) \<Rightarrow> (Some e, s) | (None, s) \<Rightarrow> k s)"

definition csys :: "(world \<Rightarrow> (io_err, 'a) result \<times> world) \<Rightarrow> copyState \<Rightarrow> ('a \<Rightarrow> copyState \<Rightarrow> copy_result) \<Rightarrow> copy_result" where
  "csys call s k =
     (case call (cs_world s) of
        (Inl e, w) \<Rightarrow> (Some (OsFailed e), s\<lparr>cs_world := w\<rparr>)
      | (Inr v, w) \<Rightarrow> k v (s\<lparr>cs_world := w\<rparr>))"

definition checkContext :: "copyState \<Rightarrow> copy_result" where
  "checkContext s =
     (if contextDone (cs_world s) then Some CopyCanceled else None, s\<lparr>cs_world := tick (cs_world s)\<rparr>)"

definition mkdirIfMissing_root :: "string list \<Rightarrow> string \<Rightarrow> perm \<Rightarrow> world \<Rightarrow> (io_err, unit) result \<times> world" where
  "mkdirIfMissing_root root dir mode w =
     (if dir = [] \<or> dir = dot then (Ok (), w)
      else case root_Stat root dir w of
        (Inr info, w') \<Rightarrow> if oi_kind info = DirKind then (Ok (), w') else root_MkdirAll root dir mode w'
      | (Inl e, w') \<Rightarrow> root_MkdirAll root dir mode w')"

definition copy_readSize :: "copyLimits \<Rightarrow> int \<Rightarrow> int \<Rightarrow> int" where
  "copy_readSize L fileRemaining totalRemaining =
     (let n = bufferSize L;
          n = (if fileRemaining < n then fileRemaining + 1 else n);
          n = (if totalRemaining < n then totalRemaining + 1 else n)
      in if n < 1 then 1 else n)"

text \<open>What the loop does with the bytes one \<open>Read\<close> delivered.\<close>

definition copy_chunk :: "string list \<Rightarrow> int \<Rightarrow> int \<Rightarrow> string \<Rightarrow> copyState \<Rightarrow> copy_result" where
  "copy_chunk q fileRemaining totalRemaining got s =
     (let n = int (length got) in
      if n > 0 then
        if n > fileRemaining then (Some FileExceeded, s)
        else if n > totalRemaining then (Some TotalExceeded, s)
        else case file_Write q got (cs_world s) of
          ((written, writeErr), w) \<Rightarrow>
            let s = s\<lparr>cs_world := w\<rparr> in
            (case writeErr of
               Some e \<Rightarrow> (Some (OsFailed e), s)
             | None \<Rightarrow> if int written \<noteq> n then (Some ShortWrite, s)
                       else (None, s\<lparr>cs_bytes := cs_bytes s + int written\<rparr>))
      else (None, s))"

lemma tick_simps [simp]:
  "w_tree (tick w) = w_tree w" "w_umask (tick w) = w_umask w"
  by (simp_all add: tick_def)

lemma deliver_facts:
  assumes "deliver n rest w = ((got, rest', e), w')"
  shows "rest = got @ rest'" "length got \<le> n" "w_tree w' = w_tree w" "w_umask w' = w_umask w" "e = AtEOF \<Longrightarrow> rest = []"
proof -
  obtain cap err where f: "w_fault w (w_calls w) = (cap, err)" by fastforce
  have "got = take (length got) rest" "length got \<le> n"
    using assms f by (auto simp: deliver_def capped_def Let_def min_def split: option.splits)
  then show "rest = got @ rest'" "length got \<le> n"
    using assms f by (auto simp: deliver_def Let_def) (metis append_take_drop_id)
  show "w_tree w' = w_tree w" "w_umask w' = w_umask w" "e = AtEOF \<Longrightarrow> rest = []"
    using assms f by (auto simp: deliver_def Let_def split: option.splits if_splits)
qed

lemma deliver_shorter: "deliver n rest w = ((got, rest', e), w') \<Longrightarrow> got \<noteq> [] \<Longrightarrow> length rest' < length rest"
  using deliver_facts(1) by fastforce

text \<open>\<open>rest\<close> holds the bytes the source has not delivered yet; \<open>q\<close> is the open destination.\<close>

function copyRegularFile :: "copyLimits \<Rightarrow> string list \<Rightarrow> string \<Rightarrow> int \<Rightarrow> copyState \<Rightarrow> copy_result" where
  "copyRegularFile L q rest fileBytes s =
     cthen (checkContext s) (\<lambda>s.
       let fileRemaining = maxFileSize L - fileBytes;
           totalRemaining = maxBytes L - cs_bytes s;
           readSize = copy_readSize L fileRemaining totalRemaining
       in case deliver (nat readSize) rest (cs_world s) of
         ((got, rest', readErr), w) \<Rightarrow>
           let n = int (length got); s = s\<lparr>cs_world := w\<rparr> in
           if n < 0 \<or> n > readSize then (Some InvalidReadCount, s)
           else cthen (checkContext s) (\<lambda>s.
             cthen (copy_chunk q fileRemaining totalRemaining got s)
               (\<lambda>s. cthen (checkContext s) (\<lambda>s.
                  case readErr of
                    AtEOF \<Rightarrow> (None, s)
                  | ReadFails e \<Rightarrow> (Some (OsFailed e), s)
                  | More \<Rightarrow> if n = 0 then (Some NoCopyProgress, s)
                            else copyRegularFile L q rest' (fileBytes + n) s))))"
  by pat_completeness auto
termination
  by (relation "measure (\<lambda>(L, q, rest, fileBytes, s). length rest)")
    (auto dest!: deliver_shorter [OF sym])

fun copy_entries :: "(string \<Rightarrow> copyState \<Rightarrow> copy_result) \<Rightarrow> string list \<Rightarrow> copyState \<Rightarrow> copy_result" where
  "copy_entries copy [] s = (None, s)"
| "copy_entries copy (name # names) s = cthen (copy name s) (copy_entries copy names)"

function copy_dir :: "copyLimits \<Rightarrow> (string \<Rightarrow> copyState \<Rightarrow> copy_result) \<Rightarrow> string list \<Rightarrow> copyState \<Rightarrow> copy_result" where
  "copy_dir L copy rest s =
     cthen (checkContext s) (\<lambda>s.
       case deliver (nat (readBatch L)) rest (cs_world s) of
         ((entries, rest', readErr), w) \<Rightarrow>
           cthen (copy_entries copy entries (s\<lparr>cs_world := w\<rparr>)) (\<lambda>s.
             case readErr of
               AtEOF \<Rightarrow> (None, s)
             | ReadFails e \<Rightarrow> (Some (OsFailed e), s)
             | More \<Rightarrow> if entries = [] then (Some NoCopyProgress, s) else copy_dir L copy rest' s))"
  by pat_completeness auto
termination
  by (relation "measure (\<lambda>(L, copy, rest, s). length rest)")
    (auto dest!: deliver_shorter [OF sym])

text \<open>What \<open>copyPath\<close> does once it has looked at the source and, at depth 0, made the parent directory.\<close>

definition created_at :: "int \<Rightarrow> copyState \<Rightarrow> copyState" where
  "created_at depth s = (if depth = 0 then s\<lparr>cs_destinationCreated := True\<rparr> else s)"

text \<open>Creating the destination of a regular file, with the source open, and filling it.\<close>

definition copy_contents :: "copyLimits \<Rightarrow> rootedCopyBackend \<Rightarrow> string \<Rightarrow> perm \<Rightarrow> int \<Rightarrow> os_handle \<Rightarrow> copyState \<Rightarrow> copy_result" where
  "copy_contents L b dstPath mode depth src s =
     csys (root_CreateExcl (b_dst b) dstPath mode) s (\<lambda>q s.
       cthen (case src of FileHandle d \<Rightarrow> copyRegularFile L q d 0 (created_at depth s)
              | DirHandle names \<Rightarrow> (Some (OsFailed IsDirectory), created_at depth s)) (\<lambda>s.
       csys file_Sync s (\<lambda>_. checkContext)))"

definition copy_node :: "copyLimits \<Rightarrow> rootedCopyBackend \<Rightarrow> (string \<Rightarrow> copyState \<Rightarrow> copy_result) \<Rightarrow>
    string \<Rightarrow> string \<Rightarrow> int \<Rightarrow> os_info \<Rightarrow> copyState \<Rightarrow> copy_result" where
  "copy_node L b copy srcPath dstPath depth srcInfo s =
     (if oi_kind srcInfo = DirKind then
        csys (root_Mkdir (b_dst b) dstPath (oi_perm srcInfo)) s (\<lambda>_ s.
        csys (root_Open (b_src b) srcPath) (created_at depth s) (\<lambda>dir s.
          case dir of DirHandle names \<Rightarrow> copy_dir L copy names s | FileHandle d \<Rightarrow> (Some (OsFailed NotDirectory), s)))
      else if oi_kind srcInfo \<noteq> RegularKind then (Some SpecialUnsupported, s)
      else if oi_size srcInfo < 0 then (Some NegativeSize, s)
      else if oi_size srcInfo > maxFileSize L then (Some FileExceeded, s)
      else if oi_size srcInfo > maxBytes L - cs_bytes s then (Some TotalExceeded, s)
      else
        csys (root_Open (b_src b) srcPath) s (copy_contents L b dstPath (oi_perm srcInfo) depth))"

function copyPath :: "copyLimits \<Rightarrow> rootedCopyBackend \<Rightarrow> string \<Rightarrow> string \<Rightarrow> int \<Rightarrow> copyState \<Rightarrow> copy_result" where
  "copyPath L b srcPath dstPath depth s =
     cthen (checkContext s) (\<lambda>s.
       if depth > maxDepth L then (Some DepthExceeded, s)
       else let s = s\<lparr>cs_entries := cs_entries s + 1\<rparr> in
         if cs_entries s > maxEntries L then (Some EntriesExceeded, s)
         else csys (root_Lstat (b_src b) srcPath) s (\<lambda>srcInfo s.
           if oi_kind srcInfo = SymlinkKind then (Some SymlinkUnsupported, s)
           else cthen (if depth = 0 then csys (mkdirIfMissing_root (b_dst b) (Dir dstPath) 488) s (\<lambda>_ s. (None, s)) else (None, s))
             (copy_node L b
                (\<lambda>name. copyPath L b (JoinPath [srcPath, name]) (JoinPath [dstPath, name]) (depth + 1))
                srcPath dstPath depth srcInfo)))"
  by pat_completeness auto
termination
  by (relation "measure (\<lambda>(L, b, srcPath, dstPath, depth, s). nat (maxDepth L + 1 - depth))") auto

declare copyRegularFile.simps [simp del] copy_dir.simps [simp del] copyPath.simps [simp del]

definition validateCopyLimits :: "copyLimits \<Rightarrow> copy_err option" where
  "validateCopyLimits L =
     (if maxEntries L \<le> 0 then Some BadEntryLimit
      else if maxBytes L \<le> 0 then Some BadByteLimit
      else if maxFileSize L \<le> 0 then Some BadFileSizeLimit
      else if maxDepth L < 0 then Some BadDepthLimit
      else if readBatch L \<le> 0 then Some BadBatchSize
      else if bufferSize L \<le> 0 then Some BadBufferSize
      else None)"

definition copyPathWithBackend :: "copyLimits \<Rightarrow> rootedCopyBackend \<Rightarrow> string \<Rightarrow> string \<Rightarrow> world \<Rightarrow> copy_err option \<times> world" where
  "copyPathWithBackend L b srcPath dstPath w =
     (case validateCopyLimits L of
        Some e \<Rightarrow> (Some e, w)
      | None \<Rightarrow>
          (case copyPath L b srcPath dstPath 0
                  \<lparr>cs_entries = 0, cs_bytes = 0, cs_destinationCreated = False, cs_world = w\<rparr> of
             (None, s) \<Rightarrow> (None, cs_world s)
           | (Some e, s) \<Rightarrow>
               if \<not> cs_destinationCreated s then (Some e, cs_world s)
               else (case root_RemoveAll (b_dst b) dstPath (cs_world s) of
                       (Inl f, w') \<Rightarrow> (Some (if f = NotExist then e else CleanupFailed e f), w')
                     | (Inr _, w') \<Rightarrow> (Some e, w'))))"

definition copyPathRecursiveRootContext :: "copyLimits \<Rightarrow> string list \<Rightarrow> string \<Rightarrow> string \<Rightarrow> world \<Rightarrow> copy_err option \<times> world" where
  "copyPathRecursiveRootContext L root srcRel dstRel w =
     (if Clean srcRel = Clean dstRel then (Some Identical, w)
      else if PathWithinBaseDir (Clean srcRel) (Clean dstRel) then (Some InsideSource, w)
      else copyPathWithBackend L \<lparr>b_src = root, b_dst = root\<rparr> (Clean srcRel) (Clean dstRel) w)"


section \<open>Copying one file\<close>

abbreviation ctree :: "copyState \<Rightarrow> tree" where
  "ctree s \<equiv> w_tree (cs_world s)"

abbreviation cumask :: "copyState \<Rightarrow> perm" where
  "cumask s \<equiv> w_umask (cs_world s)"

lemma cthen_simps [simp]: "cthen (None, s) k = k s" "cthen (Some e, s) k = (Some e, s)"
  by (simp_all add: cthen_def)

lemma cthen_if: "cthen (if b then x else y) k = (if b then cthen x k else cthen y k)"
  by simp

definition ticked :: "copyState \<Rightarrow> copyState" where
  "ticked s = s\<lparr>cs_world := tick (cs_world s)\<rparr>"

lemma ticked_simps [simp]:
  "cs_world (ticked s) = tick (cs_world s)" "cs_entries (ticked s) = cs_entries s" "cs_bytes (ticked s) = cs_bytes s"
  "cs_destinationCreated (ticked s) = cs_destinationCreated s"
  by (simp_all add: ticked_def)

lemma check_then: "cthen (checkContext s) k = (if contextDone (cs_world s) then (Some CopyCanceled, ticked s) else k (ticked s))"
  by (simp add: checkContext_def ticked_def)

lemma append_at_Nil [simp]: "append_at q [] t = t"
  by (induction t) (auto simp: append_at_def)

lemma append_at_append [simp]: "append_at q e (append_at q d t) = append_at q (d @ e) t"
  by (auto simp: append_at_def)

text \<open>Whatever happens, the destination has received a prefix of the source, within both limits.\<close>

definition file_post :: "copyLimits \<Rightarrow> string list \<Rightarrow> string \<Rightarrow> int \<Rightarrow> copyState \<Rightarrow> copy_result \<Rightarrow> bool" where
  "file_post L q rest fileBytes s res \<longleftrightarrow> (\<exists>d. prefix d rest \<and> (case res of (r, s') \<Rightarrow>
     ctree s' = append_at q d (ctree s) \<and> cumask s' = cumask s \<and> cs_entries s' = cs_entries s \<and>
     cs_destinationCreated s' = cs_destinationCreated s \<and> cs_bytes s \<le> cs_bytes s' \<and> cs_bytes s' \<le> maxBytes L \<and>
     fileBytes + int (length d) \<le> maxFileSize L \<and> cs_bytes s + int (length d) \<le> maxBytes L \<and>
     (r = None \<longrightarrow> d = rest \<and> cs_bytes s' = cs_bytes s + int (length d))))"

lemma file_post_same:
  "fileBytes \<le> maxFileSize L \<Longrightarrow> cs_bytes s \<le> maxBytes L \<Longrightarrow> ctree s' = ctree s \<Longrightarrow> cumask s' = cumask s \<Longrightarrow>
   cs_entries s' = cs_entries s \<Longrightarrow> cs_destinationCreated s' = cs_destinationCreated s \<Longrightarrow> cs_bytes s' = cs_bytes s \<Longrightarrow>
   r = None \<longrightarrow> rest = [] \<Longrightarrow> file_post L q rest fileBytes s (r, s')"
  unfolding file_post_def by (auto intro!: exI [of _ "[]"])

lemma file_post_step:
  assumes "file_post L q rest' (fileBytes + int (length got)) s1 res" and "rest = got @ rest'"
    and "ctree s1 = append_at q got (ctree s)" "cumask s1 = cumask s" "cs_entries s1 = cs_entries s"
      "cs_destinationCreated s1 = cs_destinationCreated s" "cs_bytes s1 = cs_bytes s + int (length got)"
  shows "file_post L q rest fileBytes s res"
proof -
  obtain d where "prefix d rest'" and d: "case res of (r, s') \<Rightarrow>
     ctree s' = append_at q d (ctree s1) \<and> cumask s' = cumask s1 \<and> cs_entries s' = cs_entries s1 \<and>
     cs_destinationCreated s' = cs_destinationCreated s1 \<and> cs_bytes s1 \<le> cs_bytes s' \<and> cs_bytes s' \<le> maxBytes L \<and>
     fileBytes + int (length got) + int (length d) \<le> maxFileSize L \<and> cs_bytes s1 + int (length d) \<le> maxBytes L \<and>
     (r = None \<longrightarrow> d = rest' \<and> cs_bytes s' = cs_bytes s1 + int (length d))"
    using assms(1) unfolding file_post_def by blast
  then show ?thesis
    using assms(2-) unfolding file_post_def by (intro exI [of _ "got @ d"]) auto
qed

lemma file_post_partial:
  assumes "prefix d rest" and "ctree s' = append_at q d (ctree s)" "cumask s' = cumask s" "cs_entries s' = cs_entries s"
      "cs_destinationCreated s' = cs_destinationCreated s" "cs_bytes s' = cs_bytes s" "cs_bytes s \<le> maxBytes L"
    and "fileBytes + int (length d) \<le> maxFileSize L" "cs_bytes s + int (length d) \<le> maxBytes L"
  shows "file_post L q rest fileBytes s (Some e, s')"
  using assms unfolding file_post_def by auto

lemma file_Write_facts:
  assumes "file_Write q d w = ((written, err), w')"
  shows "w_tree w' = append_at q (take written d) (w_tree w)" "w_umask w' = w_umask w" "written \<le> length d"
  using assms by (auto simp: file_Write_def capped_def Let_def min_def split: prod.splits option.splits)

text \<open>One chunk: either it failed, having written a part that fits, or all of it is there and counted.\<close>

lemma copy_chunk_cases:
  assumes "copy_chunk q fileRemaining totalRemaining got s = (r, s')" and "0 \<le> fileRemaining" and "0 \<le> totalRemaining"
  obtains d where "prefix d got" "ctree s' = append_at q d (ctree s)" "cumask s' = cumask s" "cs_entries s' = cs_entries s"
    "cs_destinationCreated s' = cs_destinationCreated s" "int (length d) \<le> fileRemaining" "int (length d) \<le> totalRemaining"
    "r \<noteq> None \<Longrightarrow> cs_bytes s' = cs_bytes s" "r = None \<Longrightarrow> d = got \<and> cs_bytes s' = cs_bytes s + int (length d)"
proof (cases "0 < int (length got) \<and> int (length got) \<le> fileRemaining \<and> int (length got) \<le> totalRemaining")
  case True
  obtain written err w where wr: "file_Write q got (cs_world s) = ((written, err), w)"
    by (metis surj_pair)
  note W = file_Write_facts [OF wr]
  show ?thesis
    using assms True W by (intro that [of "take written got"])
      (auto simp: copy_chunk_def wr Let_def take_is_prefix split: if_splits option.splits)
next
  case False
  then have "s' = s" "r = None \<longrightarrow> got = []"
    using assms(1) by (auto simp: copy_chunk_def Let_def split: if_splits)
  then show ?thesis
    using assms(2,3) by (intro that [of "[]"]) auto
qed

lemma copyRegularFile_post:
  "fileBytes \<le> maxFileSize L \<Longrightarrow> cs_bytes s \<le> maxBytes L \<Longrightarrow> file_post L q rest fileBytes s (copyRegularFile L q rest fileBytes s)"
proof (induction "length rest" arbitrary: rest fileBytes s rule: less_induct)
  case less
  define n where "n = nat (copy_readSize L (maxFileSize L - fileBytes) (maxBytes L - cs_bytes s))"
  obtain got rest' e w1 where dl: "deliver n rest (tick (cs_world s)) = ((got, rest', e), w1)"
    by (metis surj_pair)
  note D = deliver_facts [OF dl]
  define s1 where "s1 = (ticked s)\<lparr>cs_world := w1\<rparr>"
  have s1: "ctree s1 = ctree s" "cumask s1 = cumask s" "cs_entries s1 = cs_entries s" "cs_bytes s1 = cs_bytes s"
      "cs_destinationCreated s1 = cs_destinationCreated s"
    using D by (simp_all add: s1_def)
  obtain r s2 where ch: "copy_chunk q (maxFileSize L - fileBytes) (maxBytes L - cs_bytes s) got (ticked s1) = (r, s2)"
    by fastforce
  obtain d where d: "prefix d got" "ctree s2 = append_at q d (ctree s)" "cumask s2 = cumask s" "cs_entries s2 = cs_entries s"
    "cs_destinationCreated s2 = cs_destinationCreated s" "int (length d) \<le> maxFileSize L - fileBytes" "int (length d) \<le> maxBytes L - cs_bytes s"
    "r \<noteq> None \<Longrightarrow> cs_bytes s2 = cs_bytes s" "r = None \<Longrightarrow> d = got \<and> cs_bytes s2 = cs_bytes s + int (length d)"
    using copy_chunk_cases [OF ch] less.prems s1 by (auto)
  have run: "copyRegularFile L q rest fileBytes s =
    (if contextDone (cs_world s) then (Some CopyCanceled, ticked s)
     else if copy_readSize L (maxFileSize L - fileBytes) (maxBytes L - cs_bytes s) < int (length got) then (Some InvalidReadCount, s1)
     else if contextDone (cs_world s1) then (Some CopyCanceled, ticked s1)
     else case r of Some x \<Rightarrow> (Some x, s2)
       | None \<Rightarrow> if contextDone (cs_world s2) then (Some CopyCanceled, ticked s2)
          else case e of AtEOF \<Rightarrow> (None, ticked s2) | ReadFails x \<Rightarrow> (Some (OsFailed x), ticked s2)
            | More \<Rightarrow> if got = [] then (Some NoCopyProgress, ticked s2)
                      else copyRegularFile L q rest' (fileBytes + int (length got)) (ticked s2))"
    by (subst copyRegularFile.simps)
      (simp add: check_then Let_def n_def [symmetric] dl s1_def [symmetric] ch split: option.split read_end.split)
  have "prefix d rest"
    using d(1) D(1) by (metis prefix_def append.assoc)
  have failed: "file_post L q rest fileBytes s (Some x, s2)" if "r = Some y" for x y
    using that d \<open>prefix d rest\<close> less.prems by (intro file_post_partial [of d]) auto
  have stop: "file_post L q rest fileBytes s (Some x, ticked s2)" if "r = None" for x
  proof -
    have "file_post L q rest' (fileBytes + int (length got)) s2 (Some x, ticked s2)"
      using that d less.prems by (intro file_post_same) auto
    then show ?thesis
      using that d D(1) by (intro file_post_step [of L q rest' fileBytes got s2]) auto
  qed
  have ended: "file_post L q rest fileBytes s (None, ticked s2)" if "r = None" "e = AtEOF"
    using that d D(1,5) less.prems by (intro file_post_same) auto
  have further: "file_post L q rest fileBytes s (copyRegularFile L q rest' (fileBytes + int (length got)) (ticked s2))"
    if "r = None" "got \<noteq> []"
  proof -
    have "file_post L q rest' (fileBytes + int (length got)) (ticked s2)
        (copyRegularFile L q rest' (fileBytes + int (length got)) (ticked s2))"
      using that d D(1) less.prems by (intro less.hyps) auto
    then show ?thesis
      using that d D(1) by (intro file_post_step [of L q rest' fileBytes got "ticked s2"]) auto
  qed
  have early: "file_post L q rest fileBytes s (Some x, s3)" if "s3 = ticked s \<or> s3 = s1 \<or> s3 = ticked s1" for x s3
    using that s1 less.prems by (intro file_post_same) auto
  show ?case
    unfolding run using early failed stop ended further by (simp split: option.split read_end.split)
qed

section \<open>Rules for runs\<close>

text \<open>
  The two kinds of result of a copy: \<open>Q\<close> for a run that succeeded, \<open>F\<close> for one that failed. One
  rule per way the code composes steps.
\<close>

definition outcome :: "(copyState \<Rightarrow> bool) \<Rightarrow> (copyState \<Rightarrow> bool) \<Rightarrow> copy_result \<Rightarrow> bool" where
  "outcome Q F res = (case res of (None, s) \<Rightarrow> Q s | (Some e, s) \<Rightarrow> F s)"

lemma outcome_simps [simp]: "outcome Q F (None, s) = Q s" "outcome Q F (Some e, s) = F s"
  by (simp_all add: outcome_def)

lemma outcome_cthen: "outcome P F r \<Longrightarrow> (\<And>s. P s \<Longrightarrow> outcome Q F (k s)) \<Longrightarrow> outcome Q F (cthen r k)"
  by (cases r; cases "fst r") auto

lemma outcome_mono: "outcome P E r \<Longrightarrow> (\<And>s. P s \<Longrightarrow> Q s) \<Longrightarrow> (\<And>s. E s \<Longrightarrow> F s) \<Longrightarrow> outcome Q F r"
  by (auto simp: outcome_def split: prod.splits option.splits)

lemma outcome_check: "F (ticked s) \<Longrightarrow> outcome Q F (k (ticked s)) \<Longrightarrow> outcome Q F (cthen (checkContext s) k)"
  by (simp add: check_then)

lemma outcome_csys:
  "(\<And>e w. call (cs_world s) = (Inl e, w) \<Longrightarrow> F (s\<lparr>cs_world := w\<rparr>)) \<Longrightarrow>
   (\<And>v w. call (cs_world s) = (Inr v, w) \<Longrightarrow> outcome Q F (k v (s\<lparr>cs_world := w\<rparr>))) \<Longrightarrow> outcome Q F (csys call s k)"
  by (auto simp: csys_def split: prod.splits sum.splits)

text \<open>A condition on the counters and the tree, which a tick of the clock cannot change.\<close>

definition tick_free :: "(copyState \<Rightarrow> bool) \<Rightarrow> bool" where
  "tick_free P \<longleftrightarrow> (\<forall>s w. P s \<longrightarrow> w_tree w = ctree s \<longrightarrow> w_umask w = cumask s \<longrightarrow> P (s\<lparr>cs_world := w\<rparr>))"

lemma tick_freeD: "tick_free P \<Longrightarrow> P s \<Longrightarrow> w_tree w = ctree s \<Longrightarrow> w_umask w = cumask s \<Longrightarrow> P (s\<lparr>cs_world := w\<rparr>)"
  by (simp add: tick_free_def)

lemma tick_free_ticked: "tick_free P \<Longrightarrow> P s \<Longrightarrow> P (ticked s)"
  by (simp add: tick_free_def ticked_def)

lemma outcome_copy_entries:
  assumes "\<And>seen x more s. names = seen @ x # more \<Longrightarrow> Q seen s \<Longrightarrow> outcome (Q (seen @ [x])) F (copy x s)"
  shows "Q seen s \<Longrightarrow> names = seen @ now @ later \<Longrightarrow> outcome (Q (seen @ now)) F (copy_entries copy now s)"
proof (induction now arbitrary: seen s)
  case (Cons x xs)
  have "outcome (Q (seen @ [x])) F (copy x s)"
    using Cons.prems by (intro assms) auto
  moreover have "outcome (Q (seen @ x # xs)) F (copy_entries copy xs s1)" if "Q (seen @ [x]) s1" for s1
    using Cons.IH [OF that] Cons.prems(2) by simp
  ultimately show ?case
    by (auto intro: outcome_cthen)
qed simp

lemma outcome_copy_dir:
  assumes step: "\<And>seen x more s. names = seen @ x # more \<Longrightarrow> Q seen s \<Longrightarrow> outcome (Q (seen @ [x])) F (copy x s)"
    and free: "\<And>seen. tick_free (Q seen)" and weaker: "\<And>seen s. Q seen s \<Longrightarrow> F s"
  shows "Q seen s \<Longrightarrow> names = seen @ rest \<Longrightarrow> outcome (Q names) F (copy_dir L copy rest s)"
proof (induction "length rest" arbitrary: rest seen s rule: less_induct)
  case less
  obtain got rest' e w where dl: "deliver (nat (readBatch L)) rest (cs_world (ticked s)) = ((got, rest', e), w)"
    by (metis surj_pair)
  note D = deliver_facts [OF dl]
  have t: "Q seen (ticked s)" "Q seen ((ticked s)\<lparr>cs_world := w\<rparr>)"
    using tick_free_ticked [OF free less.prems(1)] D(3,4) tick_freeD [OF free] by auto
  have "outcome (Q names) F (case e of AtEOF \<Rightarrow> (None, s1) | ReadFails x \<Rightarrow> (Some (OsFailed x), s1)
      | More \<Rightarrow> if got = [] then (Some NoCopyProgress, s1) else copy_dir L copy rest' s1)"
    if q: "Q (seen @ got) s1" for s1
  proof (cases e)
    case More
    then show ?thesis
      using less.hyps [of rest' "seen @ got" s1] q less.prems(2) D(1) weaker by auto
  qed (use q weaker less.prems(2) D(1,5) in auto)
  moreover have "outcome (Q (seen @ got)) F (copy_entries copy got ((ticked s)\<lparr>cs_world := w\<rparr>))"
  proof (rule outcome_copy_entries [where names = names and later = rest'])
    show "outcome (Q (seen @ [x])) F (copy x s)" if "names = seen @ x # more" "Q seen s" for seen x more s
      using that by (rule step)
  qed (use t(2) less.prems(2) D(1) in auto)
  ultimately have "outcome (Q names) F (cthen (copy_entries copy got ((ticked s)\<lparr>cs_world := w\<rparr>)) (\<lambda>s1.
      case e of AtEOF \<Rightarrow> (None, s1) | ReadFails x \<Rightarrow> (Some (OsFailed x), s1)
      | More \<Rightarrow> if got = [] then (Some NoCopyProgress, s1) else copy_dir L copy rest' s1))"
    by (rule outcome_cthen [rotated])
  with weaker [OF t(1)] dl show ?case
    by (subst copy_dir.simps) (intro outcome_check, simp_all)
qed

section \<open>What one call does\<close>

lemma root_Lstat_facts:
  assumes "root_Lstat root p w = (r, w')"
  shows "w_tree w' = w_tree w" "w_umask w' = w_umask w"
    "r = Ok info \<Longrightarrow> \<exists>q n cap. locate (w_tree w) root p = Ok q \<and> map_of (w_tree w) q = Some n \<and> info = info_of cap n"
    "r = Ok info \<Longrightarrow> locate (w_tree w) root p = Ok q \<Longrightarrow> \<exists>n cap. map_of (w_tree w) q = Some n \<and> info = info_of cap n"
  using assms by (auto simp: root_Lstat_def os_call_def split: prod.splits bool.splits option.splits sum.splits)

lemma root_Stat_facts:
  assumes "root_Stat root p w = (r, w')"
  shows "w_tree w' = w_tree w" "w_umask w' = w_umask w"
    "r = Ok info \<Longrightarrow> \<exists>q n cap. resolve (w_tree w) root maxSymlinks root (comps p) = Ok q \<and> map_of (w_tree w) q = Some n \<and> info = info_of cap n"
  using assms by (auto simp: root_Stat_def os_call_def split: prod.splits bool.splits option.splits sum.splits)

lemma root_Open_facts:
  assumes "root_Open root p w = (r, w')"
  shows "w_tree w' = w_tree w" "w_umask w' = w_umask w"
    "r = Ok h \<Longrightarrow> \<exists>q. resolve (w_tree w) root maxSymlinks root (comps p) = Ok q \<and>
       ((\<exists>m. map_of (w_tree w) q = Some (Directory m) \<and> h = DirHandle (children (w_tree w) q)) \<or>
        (\<exists>m d. map_of (w_tree w) q = Some (RegularFile m d) \<and> h = FileHandle d))"
  using assms by (auto simp: root_Open_def os_call_def split: prod.splits bool.splits option.splits sum.splits node.splits)

lemma root_Mkdir_facts:
  assumes "root_Mkdir root p m w = (r, w')"
  shows "w_umask w' = w_umask w" "r = Err e \<Longrightarrow> w_tree w' = w_tree w"
    "r = Ok u \<Longrightarrow> \<exists>q. locate (w_tree w) root p = Ok q \<and> map_of (w_tree w) q = None \<and>
       w_tree w' = add_node q (Directory (m AND NOT (w_umask w))) (w_tree w)"
  using assms by (auto simp: root_Mkdir_def os_call_def split: prod.splits bool.splits option.splits sum.splits)

lemma root_CreateExcl_facts:
  assumes "root_CreateExcl root p m w = (r, w')"
  shows "w_umask w' = w_umask w" "r = Err e \<Longrightarrow> w_tree w' = w_tree w"
    "r = Ok q \<Longrightarrow> locate (w_tree w) root p = Ok q \<and> map_of (w_tree w) q = None \<and>
       w_tree w' = add_node q (RegularFile (m AND NOT (w_umask w)) []) (w_tree w)"
  using assms by (auto simp: root_CreateExcl_def os_call_def split: prod.splits bool.splits option.splits sum.splits)

lemma file_Sync_facts:
  assumes "file_Sync w = (r, w')"
  shows "w_tree w' = w_tree w" "w_umask w' = w_umask w"
  using assms by (auto simp: file_Sync_def os_call_def split: prod.splits bool.splits)

lemma root_RemoveAll_facts:
  assumes "root_RemoveAll root p w = (r, w')"
  shows "w_umask w' = w_umask w"
    "r = Err e \<Longrightarrow> e \<noteq> NotExist \<and> (w_tree w' = w_tree w \<or>
       (\<exists>q stuck. locate (w_tree w) root p = Ok q \<and> q \<noteq> root \<and> w_tree w' = remove_partly stuck q (w_tree w)))"
    "r = Ok u \<Longrightarrow> (locate (w_tree w) root p = Err NotExist \<and> w_tree w' = w_tree w) \<or>
       (\<exists>q. locate (w_tree w) root p = Ok q \<and> q \<noteq> root \<and> w_tree w' = remove_tree q (w_tree w))"
  using assms by (auto simp: root_RemoveAll_def os_call_else_def split: prod.splits bool.splits option.splits sum.splits if_splits)

text \<open>The rule of each call: what the rest of the run may assume about the world it gets.\<close>

lemma outcome_Lstat:
  assumes "\<And>w. w_tree w = ctree s \<Longrightarrow> w_umask w = cumask s \<Longrightarrow> F (s\<lparr>cs_world := w\<rparr>)"
    and "\<And>w q n cap. w_tree w = ctree s \<Longrightarrow> w_umask w = cumask s \<Longrightarrow> locate (ctree s) root p = Ok q \<Longrightarrow>
      map_of (ctree s) q = Some n \<Longrightarrow> outcome Q F (k (info_of cap n) (s\<lparr>cs_world := w\<rparr>))"
  shows "outcome Q F (csys (root_Lstat root p) s k)"
proof (rule outcome_csys)
  show "F (s\<lparr>cs_world := w\<rparr>)" if "root_Lstat root p (cs_world s) = (Inl e, w)" for e w
    using root_Lstat_facts(1,2) [OF that] by (rule assms(1))
  show "outcome Q F (k v (s\<lparr>cs_world := w\<rparr>))" if "root_Lstat root p (cs_world s) = (Inr v, w)" for v w
    using root_Lstat_facts(1-3) [OF that] assms(2) by blast
qed

lemma outcome_Open:
  assumes "\<And>w. w_tree w = ctree s \<Longrightarrow> w_umask w = cumask s \<Longrightarrow> F (s\<lparr>cs_world := w\<rparr>)"
    and "\<And>w q m. w_tree w = ctree s \<Longrightarrow> w_umask w = cumask s \<Longrightarrow> resolve (ctree s) root maxSymlinks root (comps p) = Ok q \<Longrightarrow>
      map_of (ctree s) q = Some (Directory m) \<Longrightarrow> outcome Q F (k (DirHandle (children (ctree s) q)) (s\<lparr>cs_world := w\<rparr>))"
    and "\<And>w q m d. w_tree w = ctree s \<Longrightarrow> w_umask w = cumask s \<Longrightarrow> resolve (ctree s) root maxSymlinks root (comps p) = Ok q \<Longrightarrow>
      map_of (ctree s) q = Some (RegularFile m d) \<Longrightarrow> outcome Q F (k (FileHandle d) (s\<lparr>cs_world := w\<rparr>))"
  shows "outcome Q F (csys (root_Open root p) s k)"
proof (rule outcome_csys)
  show "F (s\<lparr>cs_world := w\<rparr>)" if "root_Open root p (cs_world s) = (Inl e, w)" for e w
    using root_Open_facts(1,2) [OF that] by (rule assms(1))
  show "outcome Q F (k v (s\<lparr>cs_world := w\<rparr>))" if "root_Open root p (cs_world s) = (Inr v, w)" for v w
    using root_Open_facts(1,2) [OF that] root_Open_facts(3) [OF that refl] assms(2,3) by blast
qed

lemma outcome_Mkdir:
  assumes "\<And>w. w_tree w = ctree s \<Longrightarrow> w_umask w = cumask s \<Longrightarrow> F (s\<lparr>cs_world := w\<rparr>)"
    and "\<And>w q. locate (ctree s) root p = Ok q \<Longrightarrow> map_of (ctree s) q = None \<Longrightarrow> w_umask w = cumask s \<Longrightarrow>
      w_tree w = add_node q (Directory (m AND NOT (cumask s))) (ctree s) \<Longrightarrow> outcome Q F (k () (s\<lparr>cs_world := w\<rparr>))"
  shows "outcome Q F (csys (root_Mkdir root p m) s k)"
proof (rule outcome_csys)
  show "F (s\<lparr>cs_world := w\<rparr>)" if "root_Mkdir root p m (cs_world s) = (Inl e, w)" for e w
    using root_Mkdir_facts(1) [OF that] root_Mkdir_facts(2) [OF that refl] assms(1) by blast
  show "outcome Q F (k v (s\<lparr>cs_world := w\<rparr>))" if "root_Mkdir root p m (cs_world s) = (Inr v, w)" for v w
    using root_Mkdir_facts(1) [OF that] root_Mkdir_facts(3) [OF that refl] assms(2) by auto
qed

lemma outcome_CreateExcl:
  assumes "\<And>w. w_tree w = ctree s \<Longrightarrow> w_umask w = cumask s \<Longrightarrow> F (s\<lparr>cs_world := w\<rparr>)"
    and "\<And>w q. locate (ctree s) root p = Ok q \<Longrightarrow> map_of (ctree s) q = None \<Longrightarrow> w_umask w = cumask s \<Longrightarrow>
      w_tree w = add_node q (RegularFile (m AND NOT (cumask s)) []) (ctree s) \<Longrightarrow> outcome Q F (k q (s\<lparr>cs_world := w\<rparr>))"
  shows "outcome Q F (csys (root_CreateExcl root p m) s k)"
proof (rule outcome_csys)
  show "F (s\<lparr>cs_world := w\<rparr>)" if "root_CreateExcl root p m (cs_world s) = (Inl e, w)" for e w
    using root_CreateExcl_facts(1) [OF that] root_CreateExcl_facts(2) [OF that refl] assms(1) by blast
  show "outcome Q F (k v (s\<lparr>cs_world := w\<rparr>))" if "root_CreateExcl root p m (cs_world s) = (Inr v, w)" for v w
    using root_CreateExcl_facts(1) [OF that] root_CreateExcl_facts(3) [OF that refl] assms(2) by auto
qed

lemma outcome_sync:
  assumes "tick_free Q" and "\<And>s. Q s \<Longrightarrow> F s" and "Q s"
  shows "outcome Q F (csys file_Sync s (\<lambda>_. checkContext))"
proof -
  obtain r w where c: "file_Sync (cs_world s) = (r, w)" by fastforce
  note f = file_Sync_facts [OF c]
  have "Q (s\<lparr>cs_world := w\<rparr>)" "Q (s\<lparr>cs_world := tick w\<rparr>)"
    using tick_freeD [OF assms(1,3)] f by simp_all
  then show ?thesis
    using assms(2) by (auto simp: csys_def c checkContext_def split: sum.splits)
qed

section \<open>Limits\<close>

definition node_bytes :: "node \<Rightarrow> int" where
  "node_bytes n = (case n of RegularFile m d \<Rightarrow> int (length d) | _ \<Rightarrow> 0)"

definition tree_bytes :: "tree \<Rightarrow> int" where
  "tree_bytes t = (\<Sum>(p, n)\<leftarrow>t. node_bytes n)"

lemma tree_bytes_add [simp]: "tree_bytes (add_node q n t) = tree_bytes t + node_bytes n" "length (add_node q n t) = Suc (length t)"
  by (simp_all add: tree_bytes_def add_node_def)

lemma length_append_at [simp]: "length (append_at q d t) = length t"
  by (simp add: append_at_def)

lemma tree_bytes_absent: "q \<notin> fst ` set t \<Longrightarrow> append_at q d t = t"
  by (induction t) (auto simp: append_at_def)

lemma tree_bytes_append_at:
  "distinct (map fst t) \<Longrightarrow> map_of t q = Some (RegularFile m e) \<Longrightarrow> tree_bytes (append_at q d t) = tree_bytes t + int (length d)"
proof (induction t)
  case (Cons x t)
  obtain p n where x: "x = (p, n)" by fastforce
  have c: "append_at q d (x # t) = (p, if p = q then append_data d n else n) # append_at q d t"
    by (simp add: append_at_def x)
  show ?case
  proof (cases "p = q")
    case True
    then have "append_at q d t = t"
      using Cons.prems(1) x by (intro tree_bytes_absent) auto
    with True Cons.prems c x show ?thesis
      by (simp add: tree_bytes_def node_bytes_def)
  next
    case False
    with Cons c x show ?thesis by (simp add: tree_bytes_def)
  qed
qed simp

text \<open>
  What a run has done since \<open>s0\<close>: the tree is still a tree, nothing changed outside the root, and
  what was added is within the limits. After a success the counters are exact.
\<close>

definition within_limits :: "copyLimits \<Rightarrow> string list \<Rightarrow> copyState \<Rightarrow> copyState \<Rightarrow> bool" where
  "within_limits L root s0 s \<longleftrightarrow> wf_tree (ctree s) \<and> grows (ctree s0) (ctree s) \<and> framed root (ctree s0) (ctree s) \<and>
     cumask s = cumask s0 \<and> cs_bytes s \<le> maxBytes L \<and>
     int (length (ctree s)) + cs_entries s0 \<le> int (length (ctree s0)) + min (cs_entries s) (maxEntries L) \<and>
     tree_bytes (ctree s) + cs_bytes s0 \<le> tree_bytes (ctree s0) + maxBytes L"

definition counted :: "copyLimits \<Rightarrow> string list \<Rightarrow> copyState \<Rightarrow> copyState \<Rightarrow> bool" where
  "counted L root s0 s \<longleftrightarrow> within_limits L root s0 s \<and> cs_entries s \<le> maxEntries L \<and>
     tree_bytes (ctree s) + cs_bytes s0 = tree_bytes (ctree s0) + cs_bytes s"

definition copy_ready :: "copyLimits \<Rightarrow> string list \<Rightarrow> copyState \<Rightarrow> bool" where
  "copy_ready L root s \<longleftrightarrow> wf_tree (ctree s) \<and> is_directory (map_of (ctree s) root) \<and>
     cs_entries s \<le> maxEntries L \<and> cs_bytes s \<le> maxBytes L"

lemma within_limits_trans: "counted L root s0 s1 \<Longrightarrow> within_limits L root s1 s2 \<Longrightarrow> within_limits L root s0 s2"
  unfolding counted_def within_limits_def by (auto intro: grows_trans framed_trans)

lemma counted_trans: "counted L root s0 s1 \<Longrightarrow> counted L root s1 s2 \<Longrightarrow> counted L root s0 s2"
  using within_limits_trans [of L root s0 s1 s2] unfolding counted_def by auto

lemma counted_ready: "counted L root s0 s1 \<Longrightarrow> copy_ready L root s0 \<Longrightarrow> copy_ready L root s1"
  unfolding counted_def within_limits_def copy_ready_def using grows_dir by (auto simp: grows_dir)

lemma counted_refl: "copy_ready L root s \<Longrightarrow> counted L root s s"
  by (auto simp: counted_def within_limits_def copy_ready_def)

lemma tick_free_counted: "tick_free (counted L root s0)" "tick_free (within_limits L root s0)"
  by (auto simp: tick_free_def counted_def within_limits_def)

lemma counted_within: "counted L root s0 s \<Longrightarrow> within_limits L root s0 s"
  by (simp add: counted_def)

lemma wf_tree_locate_add:
  assumes "wf_tree t" and "locate t root p = Ok q" and "map_of t q = None" and "is_directory (map_of t root)"
  shows "wf_tree (add_node q n t)" "framed root t (add_node q n t)"
proof -
  have "q \<noteq> root"
    using assms(3,4) by auto
  then obtain d x where "q = d @ [x]" "is_directory (map_of t d)" "valid_name x"
    using locate_parent [OF assms(2)] by metis
  with assms show "wf_tree (add_node q n t)"
    by (simp add: wf_tree_add)
  show "framed root t (add_node q n t)"
    using framed_add [OF assms(3)] locate_beneath [OF assms(2)] by blast
qed

lemma created_at_simps [simp]:
  "cs_world (created_at n s) = cs_world s" "cs_entries (created_at n s) = cs_entries s" "cs_bytes (created_at n s) = cs_bytes s"
  "n \<noteq> 0 \<Longrightarrow> created_at n s = s"
  by (simp_all add: created_at_def)

lemma within_limits_file:
  assumes c: "counted L root s0 s" and q: "map_of (ctree s) q = Some (RegularFile m [])" and r: "prefix root q"
    and post: "file_post L q d 0 s (e, s')"
  shows "within_limits L root s0 s'" "e = None \<Longrightarrow> counted L root s0 s'"
proof -
  obtain d' where p: "prefix d' d"
    "ctree s' = append_at q d' (ctree s)" "cumask s' = cumask s" "cs_entries s' = cs_entries s" "cs_bytes s' \<le> maxBytes L"
    "cs_bytes s + int (length d') \<le> maxBytes L" "e = None \<longrightarrow> d' = d \<and> cs_bytes s' = cs_bytes s + int (length d')"
    using post unfolding file_post_def by auto
  have w: "wf_tree (ctree s)" "wf_tree (ctree s')" "grows (ctree s) (ctree s')" "framed root (ctree s) (ctree s')"
    using c r p(2) by (auto simp: counted_def within_limits_def wf_tree_append_at grows_append_at framed_append_at)
  have b: "tree_bytes (ctree s') = tree_bytes (ctree s) + int (length d')"
    using tree_bytes_append_at [OF wf_treeD(1) [OF w(1)] q] p(2) by simp
  have s: "within_limits L root s s'"
    using c w b p by (auto simp: counted_def within_limits_def)
  show "within_limits L root s0 s'"
    using within_limits_trans [OF c s] .
  show "counted L root s0 s'" if "e = None"
    using counted_trans [OF c, of s'] s b p that c by (auto simp: counted_def)
qed

lemma copy_node_limits:
  assumes ready: "copy_ready L (b_dst b) s0"
    and copies: "\<And>name s. copy_ready L (b_dst b) s \<Longrightarrow> outcome (counted L (b_dst b) s) (within_limits L (b_dst b) s) (copy name s)"
    and s: "ctree s = ctree s0" "cumask s = cumask s0" "cs_entries s = cs_entries s0 + 1" "cs_bytes s = cs_bytes s0"
    and e: "cs_entries s \<le> maxEntries L"
    and L: "0 \<le> maxFileSize L"
  shows "outcome (counted L (b_dst b) s0) (within_limits L (b_dst b) s0) (copy_node L b copy srcPath dstPath depth info s)"
proof -
  let ?ok = "counted L (b_dst b) s0" and ?bad = "within_limits L (b_dst b) s0"
  have ok: "?ok (s1\<lparr>cs_world := w\<rparr>)" "?bad (s1\<lparr>cs_world := w\<rparr>)"
    if "?ok s1" "w_tree w = ctree s1" "w_umask w = cumask s1" for s1 w
    using that tick_freeD [OF tick_free_counted(1)] counted_within by blast+
  have same: "?ok (s\<lparr>cs_world := w\<rparr>)" "?bad (s\<lparr>cs_world := w\<rparr>)" if "w_tree w = ctree s" "w_umask w = cumask s" for w
    using that counted_refl [OF ready] s e ready by (auto simp: counted_def within_limits_def copy_ready_def)
  have added: "?ok (created_at depth (s\<lparr>cs_world := w\<rparr>))"
    if "locate (ctree s) (b_dst b) dstPath = Ok q" "map_of (ctree s) q = None" "w_umask w = cumask s"
       "w_tree w = add_node q n (ctree s)" "node_bytes n = 0" for q n w
    using that s e ready wf_tree_locate_add [of "ctree s" "b_dst b" dstPath q n] grows_add [OF that(2)]
    by (auto simp: counted_def within_limits_def copy_ready_def)
  have entries: "outcome ?ok ?bad (copy_dir L copy (children (ctree s1) q) s1)" if "?ok s1" for s1 q
  proof (rule outcome_copy_dir [where Q = "\<lambda>seen. ?ok" and seen = "[]"])
    show "outcome ?ok ?bad (copy x s2)" if "?ok s2" for x s2
      using copies [OF counted_ready [OF that ready]] counted_trans [OF that] within_limits_trans [OF that]
      by (rule outcome_mono)
  qed (use that in \<open>auto simp: tick_free_counted counted_within\<close>)
  have regular: "outcome ?ok ?bad (cthen (copyRegularFile L q d 0 s1) (\<lambda>s. csys file_Sync s (\<lambda>_. checkContext)))"
    if s1: "?ok s1" and q: "map_of (ctree s1) q = Some (RegularFile m [])" "prefix (b_dst b) q" for s1 q d m
  proof (rule outcome_cthen [where P = ?ok])
    have p: "file_post L q d 0 s1 (copyRegularFile L q d 0 s1)"
      using s1 L by (intro copyRegularFile_post) (auto simp: counted_def within_limits_def)
    then show "outcome ?ok ?bad (copyRegularFile L q d 0 s1)"
      using within_limits_file [OF s1 q] by (cases "copyRegularFile L q d 0 s1"; cases "fst (copyRegularFile L q d 0 s1)") auto
    show "outcome ?ok ?bad (csys file_Sync s2 (\<lambda>_. checkContext))" if "?ok s2" for s2
      using that counted_within by (intro outcome_sync tick_free_counted)
  qed
  show ?thesis
  proof (cases "oi_kind info = DirKind")
    case True
    have "outcome ?ok ?bad (csys (root_Open (b_src b) srcPath) s1 (\<lambda>dir s.
        case dir of DirHandle names \<Rightarrow> copy_dir L copy names s | FileHandle d \<Rightarrow> (Some (OsFailed NotDirectory), s)))"
      if s1: "?ok s1" for s1
      using ok [OF s1] entries by (intro outcome_Open) force+
    with True added same show ?thesis
      unfolding copy_node_def by (auto simp: node_bytes_def intro!: outcome_Mkdir)
  next
    case False
    have made: "outcome ?ok ?bad (cthen (case src of FileHandle d \<Rightarrow> copyRegularFile L q d 0 (created_at depth s2)
          | DirHandle names \<Rightarrow> (Some (OsFailed IsDirectory), created_at depth s2)) (\<lambda>s. csys file_Sync s (\<lambda>_. checkContext)))"
      if "?ok (created_at depth s2)" "map_of (ctree s2) q = Some (RegularFile m [])" "prefix (b_dst b) q" for s2 q m src
      using that regular [of "created_at depth s2" q m] counted_within by (cases src) auto
    have "outcome ?ok ?bad (copy_contents L b dstPath (oi_perm info) depth src (s\<lparr>cs_world := w\<rparr>))"
      if s1: "w_tree w = ctree s" "w_umask w = cumask s" for w src
      unfolding copy_contents_def
      using s1 same added by (intro outcome_CreateExcl made) (auto simp: node_bytes_def map_of_add_node dest: locate_beneath)
    with False same same [of "cs_world s"] show ?thesis
      unfolding copy_node_def by (auto intro!: outcome_Open)
  qed
qed

lemma copyPath_limits:
  "copy_ready L (b_dst b) s \<Longrightarrow> 0 < depth \<Longrightarrow> 0 \<le> maxFileSize L \<Longrightarrow>
   outcome (counted L (b_dst b) s) (within_limits L (b_dst b) s) (copyPath L b srcPath dstPath depth s)"
proof (induction "nat (maxDepth L + 1 - depth)" arbitrary: srcPath dstPath depth s rule: less_induct)
  case less
  let ?s1 = "ticked s\<lparr>cs_entries := cs_entries s + 1\<rparr>"
  have c: "counted L (b_dst b) s (ticked s)"
    by (rule tick_free_ticked [OF tick_free_counted(1) counted_refl [OF less.prems(1)]])
  have bad: "within_limits L (b_dst b) s (?s1\<lparr>cs_world := w\<rparr>)" if "w_tree w = ctree s" "w_umask w = cumask s" for w
    using that less.prems(1) by (auto simp: within_limits_def copy_ready_def)
  have bad0: "within_limits L (b_dst b) s ?s1"
    using less.prems(1) by (auto simp: within_limits_def copy_ready_def)
  have node: "outcome (counted L (b_dst b) s) (within_limits L (b_dst b) s) (copy_node L b
      (\<lambda>name. copyPath L b (JoinPath [srcPath, name]) (JoinPath [dstPath, name]) (depth + 1)) srcPath dstPath depth info (?s1\<lparr>cs_world := w\<rparr>))"
    if "depth \<le> maxDepth L" "cs_entries s + 1 \<le> maxEntries L" "w_tree w = ctree s" "w_umask w = cumask s" for w info
    using that less.prems by (intro copy_node_limits less.hyps) auto
  have "outcome (counted L (b_dst b) s) (within_limits L (b_dst b) s) (csys (root_Lstat (b_src b) srcPath) ?s1 (\<lambda>srcInfo s.
      if oi_kind srcInfo = SymlinkKind then (Some SymlinkUnsupported, s)
      else copy_node L b (\<lambda>name. copyPath L b (JoinPath [srcPath, name]) (JoinPath [dstPath, name]) (depth + 1)) srcPath dstPath depth srcInfo s))"
    if "depth \<le> maxDepth L" "cs_entries s + 1 \<le> maxEntries L"
    using bad node [OF that] by (intro outcome_Lstat) auto
  then show ?case
    using counted_within [OF c] bad0 less.prems(2)
    by (subst copyPath.simps, intro outcome_check) (simp_all add: Let_def cong: if_cong)
qed

section \<open>Making the parent directory\<close>

text \<open>Directories were added where nothing was, and nothing else.\<close>

definition dirs_added :: "(string list \<Rightarrow> bool) \<Rightarrow> tree \<Rightarrow> tree \<Rightarrow> bool" where
  "dirs_added at t t' \<longleftrightarrow> wf_tree t' \<and> tree_bytes t' = tree_bytes t \<and>
     (\<forall>p. map_of t' p = map_of t p \<or> map_of t p = None \<and> is_directory (map_of t' p) \<and> at p)"

lemma dirs_added_refl: "wf_tree t \<Longrightarrow> dirs_added at t t"
  by (simp add: dirs_added_def)

lemma dirs_added_trans: "dirs_added at t u \<Longrightarrow> dirs_added at u v \<Longrightarrow> dirs_added at t v"
  unfolding dirs_added_def by metis

lemma dirs_added_mono: "dirs_added at t u \<Longrightarrow> (\<And>p. at p \<Longrightarrow> at' p) \<Longrightarrow> dirs_added at' t u"
  unfolding dirs_added_def by metis

lemma dirs_added_add:
  assumes "wf_tree t" "map_of t (d @ [c]) = None" "is_directory (map_of t d)" "valid_name c" "at (d @ [c])"
  shows "dirs_added at t (add_node (d @ [c]) (Directory m) t)"
  using assms by (auto simp: dirs_added_def wf_tree_add map_of_add_node node_bytes_def)

lemma dirs_added_grows: "dirs_added at t t' \<Longrightarrow> grows t t'"
  unfolding dirs_added_def grows_def by (metis append_data_Nil option.distinct(1))

lemma dirs_added_framed: "dirs_added at t t' \<Longrightarrow> (\<And>p. at p \<Longrightarrow> prefix root p) \<Longrightarrow> framed root t t'"
  unfolding dirs_added_def framed_def by metis

lemma make_dirs_added:
  "wf_tree t \<Longrightarrow> is_directory (map_of t d) \<Longrightarrow> prefix root d \<Longrightarrow> \<forall>c \<in> set cs. slash \<notin> set c \<Longrightarrow>
   dirs_added (prefix root) t (snd (make_dirs t root (Directory m) links d cs))"
proof (induction t root "Directory m" links d cs rule: make_dirs.induct)
  case (2 t root links d c cs)
  show ?case
  proof (cases "c = [] \<or> c = dot \<or> c = dotdot")
    case True
    have "is_directory (map_of t (butlast d))" "prefix root (butlast d)" if "d \<noteq> root"
      using wf_treeD(3) [of t "butlast d" "last d"] "2.prems"(1-3) that butlast_prefix by (cases "d = []"; force)+
    with True 2 show ?thesis
      by (auto simp: dirs_added_refl)
  next
    case False
    then have v: "valid_name c"
      using "2.prems"(4) by (auto simp: valid_name_def)
    show ?thesis
    proof (cases "map_of t (d @ [c])")
      case None
      let ?t = "add_node (d @ [c]) (Directory m) t"
      have "dirs_added (prefix root) t ?t"
        using None v "2.prems" by (intro dirs_added_add) auto
      moreover have "dirs_added (prefix root) ?t (snd (make_dirs ?t root (Directory m) links (d @ [c]) cs))"
        using 2 False None v by (auto simp: wf_tree_add map_of_add_node)
      ultimately show ?thesis
        using False None dirs_added_trans by auto
    next
      case (Some n)
      then show ?thesis
      proof (cases n)
        case (Symlink target)
        have "dirs_added (prefix root) t (snd (make_dirs t root (Directory m) k d (SplitByte slash target @ cs)))"
          if "links = Suc k" "\<not> IsAbs target" for k
        proof -
          have "\<forall>c \<in> set (SplitByte slash target @ cs). slash \<notin> set c"
            using SplitByte_noslash [of _ slash target] "2.prems"(4) by auto
          then show ?thesis
            using that "2.prems"(1-3) False Some Symlink by (intro "2.hyps"(5)) auto
        qed
        then show ?thesis
          using False Some Symlink "2.prems"(1) by (auto simp: dirs_added_refl split: nat.splits)
      qed (use 2 False in \<open>auto simp: dirs_added_refl\<close>)
    qed
  qed
qed (simp add: dirs_added_refl)

lemma comps_noslash: "\<forall>c \<in> set (comps p). slash \<notin> set c"
  using clean_listD(1) [OF clean_list_comps [of p]] by blast

lemma root_MkdirAll_facts:
  assumes "root_MkdirAll root p m w = (r, w')"
  shows "w_umask w' = w_umask w" "\<exists>cs. prefix cs (comps p) \<and>
    w_tree w' = snd (make_dirs (w_tree w) root (Directory (m AND NOT (w_umask w))) maxSymlinks root cs)"
    "r = Ok u \<Longrightarrow> make_dirs (w_tree w) root (Directory (m AND NOT (w_umask w))) maxSymlinks root (comps p) = (Ok (), w_tree w')"
proof -
  have c: "prefix (capped cap xs) xs" for cap and xs :: "string list"
    by (simp add: capped_def take_is_prefix split: option.split)
  obtain cap failing where f: "w_fault w (w_calls w) = (cap, failing)" by fastforce
  show "w_umask w' = w_umask w"
    using assms by (auto simp: root_MkdirAll_def os_call_else_def Let_def f split: bool.splits prod.splits)
  show "\<exists>cs. prefix cs (comps p) \<and>
    w_tree w' = snd (make_dirs (w_tree w) root (Directory (m AND NOT (w_umask w))) maxSymlinks root cs)"
    using assms c [of cap "comps p"] by (cases failing) (auto simp: root_MkdirAll_def os_call_else_def Let_def f split: prod.splits)
  show "r = Ok u \<Longrightarrow> make_dirs (w_tree w) root (Directory (m AND NOT (w_umask w))) maxSymlinks root (comps p) = (Ok (), w_tree w')"
    using assms by (auto simp: root_MkdirAll_def os_call_else_def Let_def f split: bool.splits prod.splits)
qed

text \<open>What \<open>mkdirIfMissing_root\<close> may do to the tree, and what it has achieved when it succeeds.\<close>

lemma mkdirIfMissing_cases:
  assumes "mkdirIfMissing_root root dir m w = (r, w')"
  shows "w_umask w' = w_umask w" "w_tree w' = w_tree w \<or> (\<exists>cs. prefix cs (comps dir) \<and>
    w_tree w' = snd (make_dirs (w_tree w) root (Directory (m AND NOT (w_umask w))) maxSymlinks root cs))"
    "r = Ok u \<Longrightarrow> (dir = [] \<or> dir = dot) \<and> w_tree w' = w_tree w \<or>
     (\<exists>q. w_tree w' = w_tree w \<and> resolve (w_tree w) root maxSymlinks root (comps dir) = Ok q \<and> is_directory (map_of (w_tree w) q)) \<or>
     make_dirs (w_tree w) root (Directory (m AND NOT (w_umask w))) maxSymlinks root (comps dir) = (Ok (), w_tree w')"
proof -
  obtain r1 w1 where st: "root_Stat root dir w = (r1, w1)" by fastforce
  note S = root_Stat_facts [OF st]
  obtain r2 w2 where mk: "root_MkdirAll root dir m w1 = (r2, w2)" by fastforce
  note M = root_MkdirAll_facts [OF mk]
  have kind: "is_directory (Some n)" if "oi_kind (info_of cap n) = DirKind" for n cap
    using that by (cases n) simp_all
  have c: "(dir = [] \<or> dir = dot) \<and> w' = w \<and> r = Ok () \<or> (\<exists>i. r1 = Ok i \<and> oi_kind i = DirKind \<and> w' = w1) \<or> (w' = w2 \<and> r = r2)"
    using assms by (auto simp: mkdirIfMissing_root_def st mk split: if_splits sum.splits)
  show "w_umask w' = w_umask w" "w_tree w' = w_tree w \<or> (\<exists>cs. prefix cs (comps dir) \<and>
    w_tree w' = snd (make_dirs (w_tree w) root (Directory (m AND NOT (w_umask w))) maxSymlinks root cs))"
    using c S(1,2) M(1,2) by auto
  show "(dir = [] \<or> dir = dot) \<and> w_tree w' = w_tree w \<or>
     (\<exists>q. w_tree w' = w_tree w \<and> resolve (w_tree w) root maxSymlinks root (comps dir) = Ok q \<and> is_directory (map_of (w_tree w) q)) \<or>
     make_dirs (w_tree w) root (Directory (m AND NOT (w_umask w))) maxSymlinks root (comps dir) = (Ok (), w_tree w')"
    if "r = Ok u"
    using c
  proof (elim disjE exE conjE)
    fix i
    assume i: "r1 = Ok i" "oi_kind i = DirKind" "w' = w1"
    from S(3) [OF i(1)] obtain q n cap where q: "resolve (w_tree w) root maxSymlinks root (comps dir) = Ok q"
      "map_of (w_tree w) q = Some n" "i = info_of cap n" by auto
    moreover have "is_directory (map_of (w_tree w) q)"
      using kind [of cap n] i(2) q(2,3) by simp
    ultimately show ?thesis
      using S(1) i(3) by blast
  next
    assume "w' = w2" "r = r2"
    then show ?thesis
      using M(3) that S(1,2) by simp
  qed auto
qed

lemma make_dirs_existing:
  "resolves t root links d cs q \<Longrightarrow> is_directory (map_of t q) \<Longrightarrow> prefix ds cs \<Longrightarrow> snd (make_dirs t root made links d ds) = t"
proof (induction arbitrary: ds rule: resolves.induct)
  case (rlink c d target links cs q)
  then show ?case by (cases ds) auto
next
  case (rleaf c d n links)
  then show ?case by (cases ds) (auto simp: is_directory_iff)
next
  case (rskip c links d cs q)
  then show ?case by (cases ds) auto
next
  case (rup d links cs q)
  then show ?case by (cases ds) auto
next
  case (rdir c d m links cs q)
  then show ?case by (cases ds) auto
qed simp

text \<open>The parent directory may have been made; from then on everything added is within the limits.\<close>

lemma copyPath_top:
  assumes ready: "copy_ready L (b_dst b) s" and L: "0 \<le> maxFileSize L"
  shows "\<exists>t1. dirs_added (prefix (b_dst b)) (ctree s) t1 \<and>
    (resolve (ctree s) (b_dst b) maxSymlinks (b_dst b) (comps (Dir dstPath)) = Ok d \<and> is_directory (map_of (ctree s) d) \<longrightarrow> t1 = ctree s) \<and>
    within_limits L (b_dst b) (s\<lparr>cs_world := (cs_world s)\<lparr>w_tree := t1\<rparr>\<rparr>) (snd (copyPath L b srcPath dstPath 0 s))"
proof -
  let ?R = "b_dst b"
  let ?copy = "\<lambda>name. copyPath L b (JoinPath [srcPath, name]) (JoinPath [dstPath, name]) (0 + 1)"
  let ?W = "\<lambda>t1. s\<lparr>cs_world := (cs_world s)\<lparr>w_tree := t1\<rparr>\<rparr>"
  let ?F = "\<lambda>s'. \<exists>t1. dirs_added (prefix ?R) (ctree s) t1 \<and>
    (resolve (ctree s) ?R maxSymlinks ?R (comps (Dir dstPath)) = Ok d \<and> is_directory (map_of (ctree s) d) \<longrightarrow> t1 = ctree s) \<and>
    within_limits L ?R (?W t1) s'"
  have wf: "wf_tree (ctree s)" "is_directory (map_of (ctree s) ?R)"
    using ready by (auto simp: copy_ready_def)
  have plain: "?F s'" if "ctree s' = ctree s" "cumask s' = cumask s" "cs_entries s \<le> cs_entries s'" "cs_bytes s' = cs_bytes s" for s'
    using that wf ready by (intro exI [of _ "ctree s"]) (auto simp: within_limits_def dirs_added_refl copy_ready_def)
  have node: "outcome ?F ?F (copy_node L b ?copy srcPath dstPath 0 info s1)"
    and made: "?F s1"
    if t1: "dirs_added (prefix ?R) (ctree s) (ctree s1)" "cumask s1 = cumask s" "cs_entries s1 = cs_entries s + 1" "cs_bytes s1 = cs_bytes s"
      "resolve (ctree s) ?R maxSymlinks ?R (comps (Dir dstPath)) = Ok d \<and> is_directory (map_of (ctree s) d) \<longrightarrow> ctree s1 = ctree s"
      "cs_entries s1 \<le> maxEntries L" for s1 info
  proof -
    have r: "copy_ready L ?R (?W (ctree s1))"
      using t1 ready grows_dir [OF dirs_added_grows [OF t1(1)] wf(2)] by (auto simp: copy_ready_def dirs_added_def)
    have "outcome (counted L ?R (?W (ctree s1))) (within_limits L ?R (?W (ctree s1))) (copy_node L b ?copy srcPath dstPath 0 info s1)"
      using r t1 L by (intro copy_node_limits copyPath_limits) auto
    then show "outcome ?F ?F (copy_node L b ?copy srcPath dstPath 0 info s1)"
      using t1(1,5) by (elim outcome_mono) (auto dest: counted_within)
    show "?F s1"
      using t1 r by (intro exI [of _ "ctree s1"]) (auto simp: within_limits_def copy_ready_def)
  qed
  let ?s1 = "ticked s\<lparr>cs_entries := cs_entries s + 1\<rparr>"
  have mk: "dirs_added (prefix ?R) (ctree s) (w_tree w')"
      "resolve (ctree s) ?R maxSymlinks ?R (comps (Dir dstPath)) = Ok d \<and> is_directory (map_of (ctree s) d) \<longrightarrow> w_tree w' = ctree s"
      "w_umask w' = cumask s"
    if m: "mkdirIfMissing_root ?R (Dir dstPath) 488 w = (r, w')" "w_tree w = ctree s" "w_umask w = cumask s" for w r w'
  proof -
    have ns: "\<forall>c \<in> set cs. slash \<notin> set c" if "prefix cs (comps (Dir dstPath))" for cs
      using comps_noslash [of "Dir dstPath"] set_mono_prefix [OF that] by blast
    note c = mkdirIfMissing_cases(1,2) [OF m(1), unfolded m(2,3)]
    show "w_umask w' = cumask s" by (rule c(1))
    show "dirs_added (prefix ?R) (ctree s) (w_tree w')"
      using c(2) make_dirs_added [OF wf, of ?R] ns dirs_added_refl [OF wf(1)] by auto
    show "resolve (ctree s) ?R maxSymlinks ?R (comps (Dir dstPath)) = Ok d \<and> is_directory (map_of (ctree s) d) \<longrightarrow> w_tree w' = ctree s"
      using c(2) make_dirs_existing [OF resolve_resolves, of "ctree s" ?R maxSymlinks ?R "comps (Dir dstPath)" d]
      by (elim disjE exE conjE) auto
  qed
  have "outcome ?F ?F (copyPath L b srcPath dstPath 0 s)"
    apply (subst copyPath.simps)
    apply (intro outcome_check)
    apply (simp add: plain)
    apply (simp add: Let_def plain cong: if_cong)
    apply (intro impI outcome_Lstat)
    apply (simp add: plain)
    apply (simp add: plain)
    apply (intro impI outcome_cthen [where P = "\<lambda>s1. dirs_added (prefix ?R) (ctree s) (ctree s1) \<and> cumask s1 = cumask s \<and> cs_entries s1 = cs_entries s + 1 \<and> cs_bytes s1 = cs_bytes s \<and>
      (resolve (ctree s) ?R maxSymlinks ?R (comps (Dir dstPath)) = Ok d \<and> is_directory (map_of (ctree s) d) \<longrightarrow> ctree s1 = ctree s) \<and>
      cs_entries s1 \<le> maxEntries L"] outcome_csys)
    apply (rule made; use mk in force)
    apply (use mk in force)
    apply (use node in simp)
    done
  then show ?thesis
    by (cases "copyPath L b srcPath dstPath 0 s"; cases "fst (copyPath L b srcPath dstPath 0 s)") auto
qed

lemma node_bytes_nonneg: "0 \<le> node_bytes n"
  by (cases n) (simp_all add: node_bytes_def)

lemma tree_bytes_filter: "tree_bytes (filter P t) \<le> tree_bytes t"
  using node_bytes_nonneg by (induction t) (auto simp: tree_bytes_def intro: order_trans [rotated] add_increasing)

lemma tree_bytes_remove: "tree_bytes (remove_tree q t) \<le> tree_bytes t" "length (remove_tree q t) \<le> length t"
  by (simp_all add: remove_tree_def tree_bytes_filter)

lemma framed_remove: "prefix root q \<Longrightarrow> framed root t (remove_tree q t)"
  unfolding framed_def map_of_remove_tree using prefix_order.trans by auto

lemma root_RemoveAll_keeps:
  assumes "root_RemoveAll root p w = (r, w')" and "wf_tree (w_tree w)"
  shows "wf_tree (w_tree w')" "framed root (w_tree w) (w_tree w')" "tree_bytes (w_tree w') \<le> tree_bytes (w_tree w)"
    "length (w_tree w') \<le> length (w_tree w)"
proof -
  have beneath: "q \<noteq> []" if "prefix root q" "q \<noteq> root" for q
    using that by auto
  have "w_tree w' = w_tree w \<or> (\<exists>q. prefix root q \<and> q \<noteq> [] \<and>
      (w_tree w' = remove_tree q (w_tree w) \<or> (\<exists>stuck. w_tree w' = remove_partly stuck q (w_tree w))))"
  proof (cases r)
    case (Inl e)
    then show ?thesis
      using root_RemoveAll_facts(2) [OF assms(1) Inl] locate_beneath beneath by blast
  next
    case (Inr u)
    then show ?thesis
      using root_RemoveAll_facts(3) [OF assms(1) Inr] locate_beneath beneath by blast
  qed
  moreover have "tree_bytes (remove_partly stuck q t) \<le> tree_bytes t" "length (remove_partly stuck q t) \<le> length t" for stuck q t
    by (simp_all add: remove_partly_def tree_bytes_filter)
  ultimately show "wf_tree (w_tree w')" "framed root (w_tree w) (w_tree w')" "tree_bytes (w_tree w') \<le> tree_bytes (w_tree w)"
    "length (w_tree w') \<le> length (w_tree w)"
    using assms(2) framed_removed [OF remove_partly_removed]
    by (auto simp: wf_tree_remove wf_tree_remove_partly framed_remove tree_bytes_remove)
qed

definition copy_start :: "world \<Rightarrow> copyState" where
  "copy_start w = \<lparr>cs_entries = 0, cs_bytes = 0, cs_destinationCreated = False, cs_world = w\<rparr>"

lemma copyPathWithBackend_cases:
  assumes "copyPathWithBackend L b src dst w = (r, w')"
  obtains e where "validateCopyLimits L = Some e" "r = Some e" "w' = w"
  | e s where "validateCopyLimits L = None" "copyPath L b src dst 0 (copy_start w) = (e, s)" "w' = cs_world s" "r = e"
      "e = None \<or> \<not> cs_destinationCreated s"
  | e s x where "validateCopyLimits L = None" "copyPath L b src dst 0 (copy_start w) = (Some e, s)"
      "cs_destinationCreated s" "root_RemoveAll (b_dst b) dst (cs_world s) = (x, w')"
      "r = Some (case x of Inl f \<Rightarrow> if f = NotExist then e else CleanupFailed e f | Inr _ \<Rightarrow> e)"
  using assms unfolding copyPathWithBackend_def copy_start_def
  by (auto split: option.splits prod.splits sum.splits if_splits)

lemma copyPathWithBackend_limits:
  assumes run: "copyPathWithBackend L b src dst w = (r, w')"
    and wf: "wf_tree (w_tree w)" "is_directory (map_of (w_tree w) (b_dst b))"
  shows "wf_tree (w_tree w')" "framed (b_dst b) (w_tree w) (w_tree w')" "tree_bytes (w_tree w') \<le> tree_bytes (w_tree w) + max 0 (maxBytes L)"
    "resolve (w_tree w) (b_dst b) maxSymlinks (b_dst b) (comps (Dir dst)) = Ok d \<Longrightarrow> is_directory (map_of (w_tree w) d) \<Longrightarrow>
     int (length (w_tree w')) \<le> int (length (w_tree w)) + max 0 (maxEntries L)"
proof -
  let ?P = "\<lambda>t. wf_tree t \<and> framed (b_dst b) (w_tree w) t \<and> tree_bytes t \<le> tree_bytes (w_tree w) + max 0 (maxBytes L) \<and>
    (resolve (w_tree w) (b_dst b) maxSymlinks (b_dst b) (comps (Dir dst)) = Ok d \<and> is_directory (map_of (w_tree w) d) \<longrightarrow>
     int (length t) \<le> int (length (w_tree w)) + max 0 (maxEntries L))"
  have top: "?P (ctree s)" if v: "validateCopyLimits L = None" and c: "copyPath L b src dst 0 (copy_start w) = (e, s)" for e s
  proof -
    have v: "0 < maxEntries L" "0 < maxBytes L" "0 < maxFileSize L"
      using v by (auto simp: validateCopyLimits_def split: if_splits)
    obtain t1 where t1: "dirs_added (prefix (b_dst b)) (w_tree w) t1"
      "resolve (w_tree w) (b_dst b) maxSymlinks (b_dst b) (comps (Dir dst)) = Ok d \<and> is_directory (map_of (w_tree w) d) \<longrightarrow> t1 = w_tree w"
      "within_limits L (b_dst b) ((copy_start w)\<lparr>cs_world := w\<lparr>w_tree := t1\<rparr>\<rparr>) s"
      using copyPath_top [of L b "copy_start w" dst d src] v wf c by (auto simp: copy_start_def copy_ready_def)
    have "tree_bytes t1 = tree_bytes (w_tree w)" "framed (b_dst b) (w_tree w) t1"
      using t1(1) dirs_added_framed [OF t1(1)] by (auto simp: dirs_added_def)
    with t1(2,3) v show ?thesis
      by (auto simp: within_limits_def copy_start_def intro: framed_trans)
  qed
  have "?P (w_tree w')"
    using run
  proof (cases rule: copyPathWithBackend_cases)
    case 1
    then show ?thesis using wf by simp
  next
    case (2 e s)
    then show ?thesis using top by simp
  next
    case (3 e s x)
    have t: "?P (ctree s)"
      using top [OF 3(1,2)] .
    show ?thesis
      using t root_RemoveAll_keeps [OF 3(4)] framed_trans [of "b_dst b" "w_tree w" "ctree s" "w_tree w'"] by force
  qed
  then show "wf_tree (w_tree w')" "framed (b_dst b) (w_tree w) (w_tree w')" "tree_bytes (w_tree w') \<le> tree_bytes (w_tree w) + max 0 (maxBytes L)"
    "resolve (w_tree w) (b_dst b) maxSymlinks (b_dst b) (comps (Dir dst)) = Ok d \<Longrightarrow> is_directory (map_of (w_tree w) d) \<Longrightarrow>
     int (length (w_tree w')) \<le> int (length (w_tree w)) + max 0 (maxEntries L)"
    by blast+
qed

end
