(* ===== verification/FileCopyExact.thy ===== *)
theory FileCopyExact
  imports FileCopy
begin

text \<open>
  A copy is exact or leaves nothing behind: the image of the source at the destination after a
  success, the cleanup after a failure, and the bounds on what a copy adds (\<open>files/copy.go\<close>).
\<close>

section \<open>The copy is exact\<close>

fun copy_of :: "perm \<Rightarrow> node \<Rightarrow> node" where
  "copy_of u (RegularFile m d) = RegularFile (m AND NOT u) d"
| "copy_of u (Directory m) = Directory (m AND NOT u)"
| "copy_of u n = n"

text \<open>Only what is at or beneath \<open>D\<close> may have changed; after a success it is the image of \<open>S\<close>.\<close>

definition only_beneath :: "string list \<Rightarrow> copyState \<Rightarrow> copyState \<Rightarrow> bool" where
  "only_beneath D s0 s \<longleftrightarrow> wf_tree (ctree s) \<and> grows (ctree s0) (ctree s) \<and> framed D (ctree s0) (ctree s) \<and> cumask s = cumask s0"

text \<open>A node as a copy of \<open>n\<close> that stopped on the way leaves it: a file may hold only the first bytes.\<close>

definition part_of :: "perm \<Rightarrow> node \<Rightarrow> node \<Rightarrow> bool" where
  "part_of u n k \<longleftrightarrow> k = copy_of u n \<or> (\<exists>m d e. n = RegularFile m d \<and> k = RegularFile (m AND NOT u) e \<and> prefix e d)"

definition partly :: "string list \<Rightarrow> string list \<Rightarrow> copyState \<Rightarrow> copyState \<Rightarrow> bool" where
  "partly S D s0 s \<longleftrightarrow> only_beneath D s0 s \<and>
     (map_of (ctree s0) D = None \<longrightarrow> (\<forall>q k. map_of (ctree s) (D @ q) = Some k \<longrightarrow>
        (\<exists>n. map_of (ctree s0) (S @ q) = Some n \<and> part_of (cumask s0) n k)))"

definition copied :: "string list \<Rightarrow> string list \<Rightarrow> copyState \<Rightarrow> copyState \<Rightarrow> bool" where
  "copied S D s0 s \<longleftrightarrow> only_beneath D s0 s \<and>
     (\<forall>q. map_of (ctree s) (D @ q) = map_option (copy_of (cumask s0)) (map_of (ctree s0) (S @ q)))"

definition copy_site :: "rootedCopyBackend \<Rightarrow> string \<Rightarrow> string \<Rightarrow> string list \<Rightarrow> string list \<Rightarrow> copyState \<Rightarrow> bool" where
  "copy_site b src dst S D s \<longleftrightarrow> wf_tree (ctree s) \<and> is_directory (map_of (ctree s) (b_src b)) \<and> is_directory (map_of (ctree s) (b_dst b)) \<and>
     locate (ctree s) (b_src b) src = Ok S \<and> locate (ctree s) (b_dst b) dst = Ok D \<and> S \<parallel> D"

lemma tick_free_copied: "tick_free (only_beneath D s0)" "tick_free (copied S D s0)"
  by (auto simp: tick_free_def only_beneath_def copied_def)

lemma copied_partly: "copied S D s0 s \<Longrightarrow> partly S D s0 s"
  unfolding copied_def partly_def part_of_def by auto

lemma partly_beneath: "partly S D s0 s \<Longrightarrow> only_beneath D s0 s"
  by (simp add: partly_def)

lemma only_beneath_refl: "wf_tree (ctree s) \<Longrightarrow> only_beneath D s s"
  by (simp add: only_beneath_def)

lemma only_beneath_trans: "only_beneath D s0 s1 \<Longrightarrow> only_beneath D s1 s2 \<Longrightarrow> only_beneath D s0 s2"
  unfolding only_beneath_def by (auto intro: grows_trans framed_trans)

lemma only_beneath_mono: "only_beneath (D @ x) s0 s1 \<Longrightarrow> only_beneath D s0 s1"
  unfolding only_beneath_def by (auto elim: framed_mono)

lemma framed_elsewhere: "framed D t t' \<Longrightarrow> S \<parallel> D \<Longrightarrow> map_of t' (S @ q) = map_of t (S @ q)"
  unfolding framed_def by (metis append_prefixD parallel_cancel parallelD1 parallelD2 parallelI prefix_same_cases prefixI)

text \<open>While a directory is copied: the children already done are exact, the others are not there yet.\<close>

definition copying :: "string list \<Rightarrow> string list \<Rightarrow> perm \<Rightarrow> copyState \<Rightarrow> string list \<Rightarrow> copyState \<Rightarrow> bool" where
  "copying S D m s0 seen s \<longleftrightarrow> only_beneath D s0 s \<and> map_of (ctree s) D = Some (Directory (m AND NOT (cumask s0))) \<and>
     (\<forall>x q. map_of (ctree s) (D @ x # q) =
        (if x \<in> set seen then map_option (copy_of (cumask s0)) (map_of (ctree s0) (S @ x # q)) else None))"

lemma copying_step:
  assumes c: "copying S D m s0 seen s" and x: "x \<notin> set seen" and par: "S \<parallel> D"
    and n: "copied (S @ [x]) (D @ [x]) s s'"
  shows "copying S D m s0 (seen @ [x]) s'"
proof -
  have o: "only_beneath D s0 s'"
    using c n only_beneath_trans [OF _ only_beneath_mono] by (auto simp: copying_def copied_def)
  have g: "grows (ctree s) (ctree s')" "framed (D @ [x]) (ctree s) (ctree s')" "cumask s = cumask s0" "framed D (ctree s0) (ctree s)"
    using c n by (auto simp: copying_def copied_def only_beneath_def)
  have d: "map_of (ctree s') D = Some (Directory (m AND NOT (cumask s0)))"
    using c grows_dir [OF g(1), of D] by (auto simp: copying_def)
  have "map_of (ctree s') (D @ y # q) =
      (if y \<in> set (seen @ [x]) then map_option (copy_of (cumask s0)) (map_of (ctree s0) (S @ y # q)) else None)" for y q
  proof (cases "y = x")
    case True
    then show ?thesis
      using n g(3) framed_elsewhere [OF g(4) par, of "x # q"] by (auto simp: copied_def)
  next
    case False
    then have "map_of (ctree s') (D @ y # q) = map_of (ctree s) (D @ y # q)"
      using g(2) by (simp add: framed_def)
    with False c show ?thesis by (simp add: copying_def)
  qed
  with o d show ?thesis by (simp add: copying_def)
qed

lemma copying_partly: "copying S D m s0 seen s \<Longrightarrow> map_of (ctree s0) S = Some (Directory m) \<Longrightarrow> partly S D s0 s"
proof -
  assume c: "copying S D m s0 seen s" and S: "map_of (ctree s0) S = Some (Directory m)"
  have "\<exists>n. map_of (ctree s0) (S @ q) = Some n \<and> part_of (cumask s0) n k" if "map_of (ctree s) (D @ q) = Some k" for q k
  proof (cases q)
    case Nil
    then show ?thesis using c S that by (simp add: copying_def part_of_def)
  next
    case (Cons x r)
    then show ?thesis using c that by (auto simp: copying_def part_of_def split: if_splits)
  qed
  then show ?thesis
    using c by (simp add: partly_def copying_def)
qed

text \<open>A child on which the copy stopped.\<close>

lemma copying_stopped:
  assumes c: "copying S D m s0 seen s" and S: "map_of (ctree s0) S = Some (Directory m)" and x: "x \<notin> set seen" and par: "S \<parallel> D"
    and n: "partly (S @ [x]) (D @ [x]) s s'"
  shows "partly S D s0 s'"
proof -
  have o: "only_beneath D s0 s'"
    using c n only_beneath_trans [OF _ only_beneath_mono] by (auto simp: copying_def partly_def)
  have g: "framed (D @ [x]) (ctree s) (ctree s')" "cumask s = cumask s0" "framed D (ctree s0) (ctree s)" "map_of (ctree s) (D @ [x]) = None"
    using c n x by (auto simp: copying_def partly_def only_beneath_def)
  have "\<exists>n. map_of (ctree s0) (S @ q) = Some n \<and> part_of (cumask s0) n k" if k: "map_of (ctree s') (D @ q) = Some k"
    "map_of (ctree s0) D = None" for q k
  proof (cases "prefix [x] q")
    case True
    then obtain r where r: "q = x # r" by (auto simp: prefix_def)
    have "map_of (ctree s') ((D @ [x]) @ r) = Some k"
      using k(1) r by simp
    then obtain n' where "map_of (ctree s) ((S @ [x]) @ r) = Some n'" "part_of (cumask s) n' k"
      using n g(4) unfolding partly_def by blast
    then show ?thesis
      using framed_elsewhere [OF g(3) par, of q] g(2) r by (intro exI [of _ n']) simp
  next
    case False
    then have "map_of (ctree s) (D @ q) = Some k"
      using k(1) g(1) unfolding framed_def by simp
    then show ?thesis
      using copying_partly [OF c S] k(2) unfolding partly_def by blast
  qed
  with o show ?thesis by (simp add: partly_def)
qed

lemma copying_done:
  assumes c: "copying S D m s0 names s" and wf: "wf_tree (ctree s0)" and S: "map_of (ctree s0) S = Some (Directory m)"
    and names: "set names = {x. map_of (ctree s0) (S @ [x]) \<noteq> None}"
  shows "copied S D s0 s"
proof -
  have "map_of (ctree s) (D @ q) = map_option (copy_of (cumask s0)) (map_of (ctree s0) (S @ q))" for q
  proof (cases q)
    case Nil
    then show ?thesis using c S by (simp add: copying_def)
  next
    case (Cons x r)
    then show ?thesis
      using c names wf_tree_absent [OF wf, of "S @ [x]" r] by (auto simp: copying_def)
  qed
  with c show ?thesis by (simp add: copied_def copying_def)
qed

lemma copy_node_exact:
  assumes site: "copy_site b srcPath dstPath S D s0" and n: "map_of (ctree s0) S = Some n"
    and copies: "\<And>x s. copy_site b (JoinPath [srcPath, x]) (JoinPath [dstPath, x]) (S @ [x]) (D @ [x]) s \<Longrightarrow>
      outcome (copied (S @ [x]) (D @ [x]) s) (partly (S @ [x]) (D @ [x]) s) (copy x s)"
    and s: "ctree s = ctree s0" "cumask s = cumask s0"
  shows "outcome (copied S D s0) (partly S D s0) (copy_node L b copy srcPath dstPath depth (info_of cap n) s)"
proof -
  note site = site [unfolded copy_site_def] and wf = site [unfolded copy_site_def, THEN conjunct1]
  have par: "S \<parallel> D" using site by blast
  have absent: "map_of (ctree s0) (D @ q) = None" if "map_of (ctree s0) D = None" for q
    using wf_tree_absent [OF wf that] .
  have same: "partly S D s0 (s\<lparr>cs_world := w\<rparr>)" "partly S D s0 s" if "w_tree w = ctree s" "w_umask w = cumask s" for w
    using that s wf absent by (auto simp: only_beneath_def partly_def)
  have added: "only_beneath D s0 s1" if "map_of (ctree s0) D = None" "ctree s1 = add_node D k (ctree s0)" "cumask s1 = cumask s0" for s1 k
    using that wf_tree_locate_add(1) [OF wf, of "b_dst b" dstPath D k] site grows_add framed_add [of "ctree s0" D D k]
    by (auto simp: only_beneath_def)
  have begun: "partly S D s0 s1" if "map_of (ctree s0) D = None" "ctree s1 = add_node D k (ctree s0)" "cumask s1 = cumask s0" "part_of (cumask s0) n k" for s1 k
    using that added [OF that(1-3)] absent [OF that(1)] assms(2)
    by (auto simp: partly_def map_of_add_node split: if_splits)
  have part: "part_of u (Directory m) (Directory (m AND NOT u))" "part_of u (RegularFile m d) (RegularFile (m AND NOT u) [])" for u m d
    by (simp_all add: part_of_def)
  have src: "resolve t (b_src b) maxSymlinks (b_src b) (comps srcPath) = Ok S"
    if "grows (ctree s0) t" "\<forall>l. n \<noteq> Symlink l" for t
    using resolve_grows [OF locate_resolve [of "ctree s0" "b_src b" srcPath S n] that(1)] site n that(2) by blast
  consider (dir) m where "n = Directory m" | (regular) m d where "n = RegularFile m d" | (other) "\<forall>m. n \<noteq> Directory m" "\<forall>m d. n \<noteq> RegularFile m d"
    by (cases n) auto
  then show ?thesis
  proof cases
    case (dir m)
    have entries: "outcome (copied S D s0) (partly S D s0) (copy_dir L copy (children (ctree s1) S) s2)"
      if s1: "map_of (ctree s0) D = None" "ctree s1 = add_node D (Directory (m AND NOT (cumask s0))) (ctree s0)" "cumask s1 = cumask s0"
        and s2: "ctree s2 = ctree s1" "cumask s2 = cumask s1" for s1 s2
    proof -
      have b1: "only_beneath D s0 s2"
        using added [of s2] s1 s2 by simp
      have away: "map_of (ctree s1) (S @ q) = map_of (ctree s0) (S @ q)" for q
        using b1 s2 framed_elsewhere [OF _ par] by (auto simp: only_beneath_def)
      then have names: "set (children (ctree s1) S) = {x. map_of (ctree s0) (S @ [x]) \<noteq> None}"
        by (simp add: set_children)
      have start: "copying S D m s0 [] s2"
        using b1 s1 s2 absent by (auto simp: copying_def map_of_add_node)
      have "outcome (copying S D m s0 (children (ctree s1) S)) (partly S D s0) (copy_dir L copy (children (ctree s1) S) s2)"
      proof (rule outcome_copy_dir [where seen = "[]"])
        show "outcome (copying S D m s0 (seen @ [x])) (partly S D s0) (copy x s)"
          if split: "children (ctree s1) S = seen @ x # more" and c: "copying S D m s0 seen s" for seen x more s
        proof -
          have "distinct (children (ctree s1) S)"
            using b1 s2 by (auto simp: only_beneath_def distinct_children)
          then have x: "x \<in> set (children (ctree s1) S)" "x \<notin> set seen"
            using split by auto
          have g: "wf_tree (ctree s)" "grows (ctree s0) (ctree s)" "only_beneath D s0 s" "map_of (ctree s) D \<noteq> None" "is_directory (map_of (ctree s) D)"
            using c by (auto simp: copying_def only_beneath_def)
          have v: "valid_name x"
            using x(1) names wf_treeD(4) [OF wf, of S x] by simp
          have dS: "is_directory (map_of (ctree s0) S)"
            using n dir by simp
          have "copy_site b (JoinPath [srcPath, x]) (JoinPath [dstPath, x]) (S @ [x]) (D @ [x]) s"
            using site g v dS par locate_grows [OF _ g(2)] grows_dir [OF g(2)]
            by (auto simp: copy_site_def intro!: locate_child parallel_append)
          from copies [OF this] show ?thesis
            by (rule outcome_mono)
              (use copying_step [OF c x(2) par] copying_stopped [OF c _ x(2) par] n dir in blast)+
        qed
        show "tick_free (copying S D m s0 seen)" for seen
          using tick_free_copied by (auto simp: tick_free_def copying_def)
      qed (use start n dir in \<open>auto intro: copying_partly\<close>)
      then show ?thesis
        using copying_done [OF _ wf _ names] n dir by (auto elim!: outcome_mono)
    qed
    have opened: "outcome (copied S D s0) (partly S D s0) (csys (root_Open (b_src b) srcPath) s1 (\<lambda>dir s.
        case dir of DirHandle names \<Rightarrow> copy_dir L copy names s | FileHandle d \<Rightarrow> (Some (OsFailed NotDirectory), s)))"
      if s1: "map_of (ctree s0) D = None" "ctree s1 = add_node D (Directory (m AND NOT (cumask s0))) (ctree s0)" "cumask s1 = cumask s0" for s1
    proof (rule outcome_Open)
      have g: "grows (ctree s0) (ctree s1)"
        using added [OF s1] by (simp add: only_beneath_def)
      have S: "map_of (ctree s1) S = Some (Directory m)"
        using grows_dir [OF g, of S] n dir by simp
      show "partly S D s0 (s1\<lparr>cs_world := w\<rparr>)" if "w_tree w = ctree s1" "w_umask w = cumask s1" for w
        using that s1 dir part by (intro begun) auto
      show "outcome (copied S D s0) (partly S D s0) (case DirHandle (children (ctree s1) q) of
            DirHandle names \<Rightarrow> copy_dir L copy names (s1\<lparr>cs_world := w\<rparr>) | FileHandle d \<Rightarrow> (Some (OsFailed NotDirectory), s1\<lparr>cs_world := w\<rparr>))"
        if "w_tree w = ctree s1" "w_umask w = cumask s1"
          "resolve (ctree s1) (b_src b) maxSymlinks (b_src b) (comps srcPath) = Ok q" for w q
        using that s1 src [OF g] dir entries by simp
      show "outcome (copied S D s0) (partly S D s0) (case FileHandle d of
            DirHandle names \<Rightarrow> copy_dir L copy names (s1\<lparr>cs_world := w\<rparr>) | FileHandle d \<Rightarrow> (Some (OsFailed NotDirectory), s1\<lparr>cs_world := w\<rparr>))"
        if "resolve (ctree s1) (b_src b) maxSymlinks (b_src b) (comps srcPath) = Ok q" "map_of (ctree s1) q = Some (RegularFile m' d)" for w q m' d
        using that src [OF g] dir S by simp
    qed
    show ?thesis
      unfolding copy_node_def using same s site opened dir by (auto intro!: outcome_Mkdir)
  next
    case (regular m d)
    show ?thesis
    proof (cases "0 \<le> maxFileSize L \<and> cs_bytes s \<le> maxBytes L")
      case False
      then show ?thesis
        using same [of "cs_world s"] regular by (auto simp: copy_node_def split: option.splits)
    next
      case L: True
    have leaf: "map_of (ctree s0) (S @ q) = None" if "q \<noteq> []" for q
      using wf_tree_above [OF wf _ that, of S] n regular by force
    have filled: "outcome (copied S D s0) (partly S D s0) (cthen (copyRegularFile L D d 0 s1) (\<lambda>s. csys file_Sync s (\<lambda>_. checkContext)))"
      if s1: "map_of (ctree s0) D = None" "ctree s1 = add_node D (RegularFile (m AND NOT (cumask s0)) []) (ctree s0)" "cumask s1 = cumask s0"
        "cs_bytes s1 \<le> maxBytes L" for s1
    proof (rule outcome_cthen [where P = "copied S D s0"])
      obtain r s2 where c: "copyRegularFile L D d 0 s1 = (r, s2)" by fastforce
      obtain e where e: "ctree s2 = append_at D e (ctree s1)" "cumask s2 = cumask s1" "r = None \<longrightarrow> e = d" "prefix e d"
        using copyRegularFile_post [of 0 L s1 D d] L s1(4) by (auto simp: file_post_def c)
      have b1: "only_beneath D s0 s1"
        using added [OF s1(1-3)] .
      then have b2: "only_beneath D s0 s2"
        using e grows_trans [OF _ grows_append_at] framed_trans [OF _ framed_append_at]
        by (auto simp: only_beneath_def wf_tree_append_at)
      have "map_of (ctree s2) (D @ q) = map_option (copy_of (cumask s0)) (map_of (ctree s0) (S @ q))" if "r = None" for q
        using e that s1 n regular absent [OF s1(1)] leaf
        by (cases "q = []") (auto simp: map_of_append_at map_of_add_node)
      moreover have "\<exists>n. map_of (ctree s0) (S @ q) = Some n \<and> part_of (cumask s0) n k" if "map_of (ctree s2) (D @ q) = Some k" for q k
        using e that s1 n regular absent [OF s1(1)]
        by (cases "q = []") (auto simp: map_of_append_at map_of_add_node part_of_def)
      ultimately show "outcome (copied S D s0) (partly S D s0) (copyRegularFile L D d 0 s1)"
        using b2 by (cases r) (auto simp: c copied_def partly_def)
      show "outcome (copied S D s0) (partly S D s0) (csys file_Sync s2 (\<lambda>_. checkContext))" if "copied S D s0 s2" for s2
        using that by (intro outcome_sync tick_free_copied copied_partly)
    qed
    have "outcome (copied S D s0) (partly S D s0) (copy_contents L b dstPath m depth (FileHandle d) (s\<lparr>cs_world := w\<rparr>))"
      if "w_tree w = ctree s" "w_umask w = cumask s" for w
      unfolding copy_contents_def using that same s site filled L by (auto intro!: outcome_CreateExcl)
    then show ?thesis
      unfolding copy_node_def using same [of "cs_world s"] same(1) s site src [of "ctree s0"] regular n by (auto intro!: outcome_Open)
    qed
  next
    case other
    then show ?thesis
      using same [of "cs_world s"] by (cases n) (auto simp: copy_node_def)
  qed
qed

lemma copyPath_exact:
  "copy_site b srcPath dstPath S D s \<Longrightarrow> 0 < depth \<Longrightarrow>
   outcome (copied S D s) (partly S D s) (copyPath L b srcPath dstPath depth s)"
proof (induction "nat (maxDepth L + 1 - depth)" arbitrary: srcPath dstPath S D depth s rule: less_induct)
  case less
  have wf: "wf_tree (ctree s)" and S: "locate (ctree s) (b_src b) srcPath = Ok S"
    using less.prems(1) by (auto simp: copy_site_def)
  let ?s1 = "ticked s\<lparr>cs_entries := cs_entries s + 1\<rparr>"
  have same: "partly S D s s1" if "ctree s1 = ctree s" "cumask s1 = cumask s" for s1
    using that wf wf_tree_absent [OF wf] by (auto simp: only_beneath_def partly_def)
  have node: "outcome (copied S D s) (partly S D s) (copy_node L b
      (\<lambda>name. copyPath L b (JoinPath [srcPath, name]) (JoinPath [dstPath, name]) (depth + 1)) srcPath dstPath depth (info_of cap n) (?s1\<lparr>cs_world := w\<rparr>))"
    if "depth \<le> maxDepth L" "w_tree w = ctree s" "w_umask w = cumask s" "map_of (ctree s) S = Some n" for w cap n
    using that less.prems by (intro copy_node_exact less.hyps) auto
  have "outcome (copied S D s) (partly S D s) (csys (root_Lstat (b_src b) srcPath) ?s1 (\<lambda>srcInfo s.
      if oi_kind srcInfo = SymlinkKind then (Some SymlinkUnsupported, s)
      else copy_node L b (\<lambda>name. copyPath L b (JoinPath [srcPath, name]) (JoinPath [dstPath, name]) (depth + 1)) srcPath dstPath depth srcInfo s))"
    if "depth \<le> maxDepth L"
    using same node [OF that] S by (intro outcome_Lstat) auto
  then show ?case
    using same less.prems(2) by (subst copyPath.simps, intro outcome_check) (simp_all add: Let_def cong: if_cong)
qed

section \<open>The whole copy\<close>

text \<open>\<open>destinationCreated\<close> records whether anything was put at the destination.\<close>

lemma copyRegularFile_flag:
  assumes "0 \<le> maxFileSize L" and "cs_bytes s \<le> maxBytes L" and "cs_destinationCreated s"
  shows "outcome cs_destinationCreated cs_destinationCreated (copyRegularFile L q d 0 s)"
  using copyRegularFile_post [of 0 L s q d] assms
  by (cases "copyRegularFile L q d 0 s"; cases "fst (copyRegularFile L q d 0 s)") (auto simp: file_post_def)

lemma tick_free_flag: "tick_free cs_destinationCreated"
  by (simp add: tick_free_def)

definition placed :: "copyState \<Rightarrow> copyState \<Rightarrow> bool" where
  "placed s s' \<longleftrightarrow> cs_destinationCreated s' \<or> \<not> cs_destinationCreated s \<and> ctree s' = ctree s"

lemma placed_simps [simp]: "cs_destinationCreated s' \<Longrightarrow> placed s s'" "placed s s"
  "w_tree w = ctree s \<Longrightarrow> placed s (s\<lparr>cs_world := w\<rparr>)"
  by (auto simp: placed_def)

lemma placed_world: "placed (s\<lparr>cs_world := w\<rparr>) s' \<Longrightarrow> w_tree w = ctree s \<Longrightarrow> placed s s'"
  by (simp add: placed_def)

lemma copy_contents_flag:
  assumes L: "0 \<le> maxFileSize L" "cs_bytes s \<le> maxBytes L" and c: "cs_destinationCreated s \<or> depth = 0"
  shows "outcome cs_destinationCreated (placed s) (copy_contents L b dst m depth src s)"
proof -
  have "outcome cs_destinationCreated cs_destinationCreated
      (cthen (case src of FileHandle d \<Rightarrow> copyRegularFile L q d 0 (created_at depth s1)
              | DirHandle names \<Rightarrow> (Some (OsFailed IsDirectory), created_at depth s1)) (\<lambda>s. csys file_Sync s (\<lambda>_. checkContext)))"
    if s1: "s1 = s\<lparr>cs_world := w\<rparr>" for s1 w q
  proof (rule outcome_cthen [where P = cs_destinationCreated])
    have "cs_destinationCreated (created_at depth s1)"
      using c s1 by (auto simp: created_at_def)
    then show "outcome cs_destinationCreated cs_destinationCreated (case src of FileHandle d \<Rightarrow> copyRegularFile L q d 0 (created_at depth s1)
              | DirHandle names \<Rightarrow> (Some (OsFailed IsDirectory), created_at depth s1))"
      using L s1 copyRegularFile_flag [of L "created_at depth s1" q] by (cases src) auto
  qed (rule outcome_sync [OF tick_free_flag])
  from outcome_mono [OF this [OF refl]] show ?thesis
    unfolding copy_contents_def by (intro outcome_CreateExcl) auto
qed

lemma copy_node_flag:
  assumes copies: "\<And>x s. cs_destinationCreated s \<Longrightarrow> outcome cs_destinationCreated cs_destinationCreated (copy x s)"
    and c: "cs_destinationCreated s \<or> depth = 0"
  shows "outcome cs_destinationCreated (placed s) (copy_node L b copy src dst depth info s)"
proof -
  have opened: "outcome cs_destinationCreated cs_destinationCreated (csys (root_Open (b_src b) src) (created_at depth s1) (\<lambda>dir s.
        case dir of DirHandle names \<Rightarrow> copy_dir L copy names s | FileHandle d \<Rightarrow> (Some (OsFailed NotDirectory), s)))"
    if s1: "s1 = s\<lparr>cs_world := w\<rparr>" for s1 w
  proof (rule outcome_Open)
    have f: "cs_destinationCreated (created_at depth s1)"
      using c s1 by (auto simp: created_at_def)
    then show "cs_destinationCreated ((created_at depth s1)\<lparr>cs_world := w\<rparr>)" for w by simp
    show "outcome cs_destinationCreated cs_destinationCreated (case DirHandle (children (ctree (created_at depth s1)) q) of
         DirHandle names \<Rightarrow> copy_dir L copy names (created_at depth s1\<lparr>cs_world := w\<rparr>)
       | FileHandle d \<Rightarrow> (Some (OsFailed NotDirectory), created_at depth s1\<lparr>cs_world := w\<rparr>))" for w q
      using f outcome_copy_dir [where Q = "\<lambda>_. cs_destinationCreated" and seen = "[]" and names = "children (ctree s1) q" and rest = "children (ctree s1) q"]
        copies tick_free_flag by simp
  qed (use c s1 in \<open>auto simp: created_at_def\<close>)
  have mk: "outcome cs_destinationCreated (placed s)
      (csys (root_Mkdir (b_dst b) dst m) s (\<lambda>_ s. csys (root_Open (b_src b) src) (created_at depth s) (\<lambda>dir s.
          case dir of DirHandle names \<Rightarrow> copy_dir L copy names s | FileHandle d \<Rightarrow> (Some (OsFailed NotDirectory), s))))" for m
    by (intro outcome_Mkdir outcome_mono [OF opened [OF refl]]) auto
  have "outcome cs_destinationCreated (placed s)
      (csys (root_Open (b_src b) src) s (copy_contents L b dst m depth))" if "0 \<le> maxFileSize L" "cs_bytes s \<le> maxBytes L" for m
    using c by (intro outcome_Open outcome_mono [OF copy_contents_flag [OF that(1)]]) (use that in \<open>auto dest: placed_world\<close>)
  with mk show ?thesis
    unfolding copy_node_def by (auto split: if_splits)
qed

lemma copyPath_flag:
  "cs_destinationCreated s \<Longrightarrow> outcome cs_destinationCreated cs_destinationCreated (copyPath L b src dst depth s)"
proof (induction "nat (maxDepth L + 1 - depth)" arbitrary: src dst depth s rule: less_induct)
  case less
  let ?copy = "\<lambda>name. copyPath L b (JoinPath [src, name]) (JoinPath [dst, name]) (depth + 1)"
  let ?c = cs_destinationCreated
  have node: "outcome ?c ?c (copy_node L b ?copy src dst depth info s1)" if "depth \<le> maxDepth L" "?c s1" for info s1
  proof -
    have "outcome ?c (placed s1) (copy_node L b ?copy src dst depth info s1)"
      using that less.hyps by (intro copy_node_flag) auto
    then show ?thesis
      using that(2) by (auto simp: placed_def elim!: outcome_mono)
  qed
  show ?case
    using less.prems node
    by (subst copyPath.simps, intro outcome_check)
      (auto simp: Let_def intro!: outcome_Lstat outcome_csys outcome_cthen [where P = ?c])
qed

text \<open>Relative paths without \<open>..\<close>.\<close>

definition inner_path :: "string \<Rightarrow> bool" where
  "inner_path p \<longleftrightarrow> \<not> IsAbs p \<and> dotdot \<notin> set (comps p)"

lemma inner_names: "inner_path p \<Longrightarrow> c \<in> set (comps p) \<Longrightarrow> valid_name c"
  using clean_listD(1) [OF clean_list_comps [of p], of c] by (auto simp: inner_path_def valid_name_def)

lemma inner_Clean: "inner_path p \<Longrightarrow> Clean p = of_comps False (comps p)"
  by (simp add: inner_path_def Clean_def)

lemma comps_Dir:
  assumes "inner_path p" and "p = Clean p"
  shows "comps (Dir p) = butlast (comps p)"
proof (cases "comps p" rule: rev_cases)
  case Nil
  then have "p = dot"
    using assms inner_Clean [OF assms(1)] by (simp add: of_comps_def)
  then show ?thesis
    using Nil by (simp add: Dir_def dot_def Clean_def comps_def of_comps_def IsAbs_def HasPrefix_iff)
next
  case (snoc cs c)
  have c: "c \<noteq> []" "slash \<notin> set c"
    using inner_names [OF assms(1), of c] snoc by (auto simp: valid_name_def)
  have cl: "clean_list False cs"
    using clean_list_comps [of p] snoc assms(1) clean_listD(1) [OF clean_list_comps [of p]]
    by (intro clean_listI [of cs False 0 cs]) (auto simp: inner_path_def)
  have p: "p = (if cs = [] then c else Join cs ''/'' @ slash # c)"
    using assms inner_Clean [OF assms(1)] snoc by (auto simp: of_comps_def Join_append)
  have dw: "dropWhile (\<lambda>x. x \<noteq> slash) (rev c @ ys) = dropWhile (\<lambda>x. x \<noteq> slash) ys" for ys
    using c(2) by (subst dropWhile_append2) auto
  show ?thesis
  proof (cases "cs = []")
    case True
    then have "dropWhile (\<lambda>x. x \<noteq> slash) (rev p) = []"
      using p c(2) by (auto simp: dropWhile_eq_Nil_conv)
    then have "Dir p = Clean []"
      unfolding Dir_def by (metis rev.simps(1))
    moreover have "comps [] = []"
      by (simp add: comps_def)
    ultimately show ?thesis
      using True snoc by simp
  next
    case False
    then have ne: "Join cs ''/'' \<noteq> []"
      using Join_slash_last [OF False] clean_listD(1) [OF cl] by blast
    have "Dir p = Clean (Join cs ''/'' @ [slash])"
      using p dw [of "slash # rev (Join cs ''/'')"] False by (simp add: Dir_def)
    then have "comps (Dir p) = comps (of_comps False cs)"
      using Clean_trailing_slash [OF ne] False by (simp add: of_comps_def)
    then show ?thesis
      using comps_of_comps [OF cl] snoc by simp
  qed
qed

lemma strip_common_append: "strip_common xs (xs @ ys) = ([], ys)"
  by (induction xs) auto

lemma prefix_within:
  assumes "inner_path a" "inner_path b" "prefix (comps a) (comps b)"
  shows "PathWithinBaseDir a b"
proof -
  obtain vs where vs: "comps b = comps a @ vs"
    using assms(3) by (auto simp: prefix_def)
  have sc: "strip_common (comps a) (comps b) = ([], vs)"
    unfolding vs by (rule strip_common_append)
  have ns: "\<forall>v \<in> set vs. v \<noteq> [] \<and> v \<noteq> dot \<and> slash \<notin> set v" "dotdot \<notin> set vs"
    using clean_listD(1) [OF clean_list_comps [of b]] vs assms(2) by (auto simp: inner_path_def)
  have "Rel (Clean a) (Clean b) = Some (if vs = [] then dot else Join vs ''/'')"
    using assms(1,2) sc by (simp add: Rel_def inner_path_def)
  then show ?thesis
    using not_escapes_Join [of vs] ns by (auto simp: PathWithinBaseDir_def escapes_def not_escapes_dot)
qed

section \<open>Paths without links\<close>

definition no_links :: "tree \<Rightarrow> string list \<Rightarrow> string list \<Rightarrow> bool" where
  "no_links t d cs \<longleftrightarrow> (\<forall>p l. prefix p cs \<longrightarrow> map_of t (d @ p) \<noteq> Some (Symlink l))"

lemma no_links_Cons: "no_links t d (c # cs) \<Longrightarrow> no_links t (d @ [c]) cs"
  unfolding no_links_def by (metis append.assoc append_Cons append_Nil Cons_prefix_Cons)

lemma no_links_head: "no_links t d (c # cs) \<Longrightarrow> map_of t (d @ [c]) \<noteq> Some (Symlink l)"
  unfolding no_links_def by (metis Cons_prefix_Cons Nil_prefix)

lemma resolve_plain:
  "no_links t d cs \<Longrightarrow> \<forall>c \<in> set cs. valid_name c \<Longrightarrow> resolve t root k d cs = Ok q \<Longrightarrow> q = d @ cs"
proof (induction cs arbitrary: d)
  case (Cons c cs)
  have v: "c \<noteq> []" "c \<noteq> dot" "c \<noteq> dotdot"
    using Cons.prems(2) by (auto simp: valid_name_def)
  have IH: "resolve t root k (d @ [c]) cs = Ok q \<Longrightarrow> q = d @ c # cs"
    using Cons.IH [OF no_links_Cons [OF Cons.prems(1)]] Cons.prems(2) by simp
  show ?case
  proof (cases "map_of t (d @ [c])")
    case (Some n)
    then show ?thesis
      using Cons.prems(3) v no_links_head [OF Cons.prems(1)] IH by (cases n) (simp_all split: if_splits)
  qed (use Cons.prems(3) v in simp)
qed simp

lemma resolve_dirs:
  "\<forall>p. prefix p cs \<longrightarrow> is_directory (map_of t (d @ p)) \<Longrightarrow> \<forall>c \<in> set cs. valid_name c \<Longrightarrow> resolve t root k d cs = Ok (d @ cs)"
proof (induction cs arbitrary: d)
  case (Cons c cs)
  have "is_directory (map_of t (d @ [c]))"
    using Cons.prems(1) by (metis Cons_prefix_Cons Nil_prefix)
  then obtain m where m: "map_of t (d @ [c]) = Some (Directory m)"
    by (auto simp: is_directory_iff)
  have "is_directory (map_of t ((d @ [c]) @ p))" if "prefix p cs" for p
    using Cons.prems(1) [rule_format, of "c # p"] that by simp
  then have r: "resolve t root k (d @ [c]) cs = Ok ((d @ [c]) @ cs)"
    using Cons.IH [of "d @ [c]"] Cons.prems(2) by simp
  have v: "c \<noteq> []" "c \<noteq> dot" "c \<noteq> dotdot"
    using Cons.prems(2) by (auto simp: valid_name_def)
  show ?case
    unfolding resolve.simps(2) using v m r by simp
qed simp

lemma make_dirs_plain:
  "wf_tree t \<Longrightarrow> is_directory (map_of t d) \<Longrightarrow> no_links t d cs \<Longrightarrow> \<forall>c \<in> set cs. valid_name c \<Longrightarrow>
   make_dirs t root (Directory m) k d cs = (r, t') \<Longrightarrow>
   dirs_added (\<lambda>p. strict_prefix d p \<and> prefix p (d @ cs)) t t' \<and>
   (r = Ok () \<longrightarrow> (\<forall>p. prefix p cs \<longrightarrow> is_directory (map_of t' (d @ p))))"
proof (induction cs arbitrary: t d)
  case (Cons c cs)
  have v: "valid_name c" using Cons.prems(4) by simp
  have nv: "c \<noteq> []" "c \<noteq> dot" "c \<noteq> dotdot"
    using v by (auto simp: valid_name_def)
  let ?at = "\<lambda>p. strict_prefix d p \<and> prefix p (d @ c # cs)"
  have up: "(\<forall>p. prefix p (c # cs) \<longrightarrow> is_directory (map_of u (d @ p)))"
    if "is_directory (map_of u d)" "\<forall>p. prefix p cs \<longrightarrow> is_directory (map_of u ((d @ [c]) @ p))" for u
    using that by (auto simp: prefix_Cons)
  have step: "dirs_added ?at t t' \<and> (r = Ok () \<longrightarrow> (\<forall>p. prefix p (c # cs) \<longrightarrow> is_directory (map_of t' (d @ p))))"
    if u: "dirs_added ?at t u" "is_directory (map_of u (d @ [c]))" "no_links u d (c # cs)"
      and run: "make_dirs u root (Directory m) k (d @ [c]) cs = (r, t')" for u
  proof -
    have w: "wf_tree u"
      using u(1) by (simp add: dirs_added_def)
    have "\<forall>c \<in> set cs. valid_name c"
      using Cons.prems(4) by simp
    note i = Cons.IH [OF w u(2) no_links_Cons [OF u(3)] this run, THEN conjunct1]
      Cons.IH [OF w u(2) no_links_Cons [OF u(3)] this run, THEN conjunct2]
    have "dirs_added ?at u t'"
      using i(1) by (rule dirs_added_mono) (auto simp: strict_prefix_def prefix_def)
    moreover have "is_directory (map_of t' d)"
      using Cons.prems(2) grows_dir [OF dirs_added_grows [OF u(1)] Cons.prems(2)]
        grows_dir [OF dirs_added_grows [OF i(1)], of d] by simp
    ultimately show ?thesis
      using dirs_added_trans [OF u(1)] up i(2) by blast
  qed
  show ?case
  proof (cases "map_of t (d @ [c])")
    case None
    let ?u = "add_node (d @ [c]) (Directory m) t"
    have "dirs_added ?at t ?u"
      using None v Cons.prems by (intro dirs_added_add) (auto simp: strict_prefix_def)
    moreover have "no_links ?u d (c # cs)"
      using Cons.prems(3) None by (auto simp: no_links_def map_of_add_node)
    ultimately show ?thesis
      using Cons.prems(5) nv None by (intro step) (auto simp: map_of_add_node)
  next
    case (Some n)
    then show ?thesis
      using Cons.prems(1,3,5) nv no_links_head [OF Cons.prems(3)] step [OF dirs_added_refl [OF Cons.prems(1)]]
      by (cases n) (auto simp: dirs_added_refl)
  qed
qed (auto simp: dirs_added_refl)

lemma no_links_prefix: "no_links t d cs \<Longrightarrow> prefix ds cs \<Longrightarrow> no_links t d ds"
  unfolding no_links_def using prefix_order.trans by blast

lemma locate_plain:
  assumes "inner_path p" and "no_links t root (comps p)" and "locate t root p = Ok q"
  shows "q = root @ comps p"
proof (cases "comps p" rule: rev_cases)
  case Nil
  then show ?thesis using assms(3) by (simp add: locate_def)
next
  case (snoc cs c)
  obtain d where d: "resolve t root maxSymlinks root cs = Ok d" "q = d @ [c]"
    using assms(3) unfolding locate_def Let_def snoc by (auto split: sum.splits if_splits)
  moreover have "\<forall>c \<in> set cs. valid_name c"
    using inner_names [OF assms(1)] snoc by simp
  moreover have "no_links t root cs"
    using no_links_prefix [OF assms(2)] snoc by simp
  ultimately show ?thesis
    using resolve_plain [of t root cs] snoc by fastforce
qed

lemma locate_in_dir:
  assumes "inner_path p" and "resolve t root maxSymlinks root (butlast (comps p)) = Ok d" and "is_directory (map_of t d)"
    and "comps p \<noteq> []"
  shows "locate t root p = Ok (d @ [last (comps p)])"
  using assms inner_names [OF assms(1), of "last (comps p)"] by (simp add: locate_def valid_name_def)

lemma copy_node_occupied:
  assumes "locate (ctree s) (b_dst b) dst = Ok D" and "map_of (ctree s) D \<noteq> None"
  shows "outcome (\<lambda>s'. False) (\<lambda>s'. ctree s' = ctree s \<and> cs_destinationCreated s' = cs_destinationCreated s)
    (copy_node L b copy src dst depth info s)"
  unfolding copy_node_def copy_contents_def
  using assms by (auto intro!: outcome_Mkdir outcome_Open outcome_CreateExcl)

text \<open>What a copy leaves behind, whatever happened on the way.\<close>

definition outside_kept :: "string list \<Rightarrow> tree \<Rightarrow> tree \<Rightarrow> bool" where
  "outside_kept D t t' \<longleftrightarrow> (\<forall>p. \<not> prefix D p \<longrightarrow>
     map_of t' p = map_of t p \<or> map_of t p = None \<and> is_directory (map_of t' p) \<and> strict_prefix p D)"

definition image_of :: "perm \<Rightarrow> string list \<Rightarrow> string list \<Rightarrow> tree \<Rightarrow> tree \<Rightarrow> bool" where
  "image_of u S D t t' \<longleftrightarrow> map_of t S \<noteq> None \<and> (\<forall>q. map_of t' (D @ q) = map_option (copy_of u) (map_of t (S @ q)))"

text \<open>What is at \<open>D\<close> is some of the source, each node copied in whole or in part.\<close>

definition part_image :: "perm \<Rightarrow> string list \<Rightarrow> string list \<Rightarrow> tree \<Rightarrow> tree \<Rightarrow> bool" where
  "part_image u S D t t' \<longleftrightarrow>
     (\<forall>q k. map_of t' (D @ q) = Some k \<longrightarrow> (\<exists>n. map_of t (S @ q) = Some n \<and> part_of u n k))"

lemma part_image_removed: "part_image u S D t t1 \<Longrightarrow> partly_removed D t1 t2 \<Longrightarrow> part_image u S D t t2"
  unfolding part_image_def partly_removed_def by (metis option.distinct(1))

definition left_behind :: "rootedCopyBackend \<Rightarrow> string \<Rightarrow> string list \<Rightarrow> string list \<Rightarrow> perm \<Rightarrow> tree \<Rightarrow> copyState \<Rightarrow> bool" where
  "left_behind b dst S D u t s \<longleftrightarrow> wf_tree (ctree s) \<and> outside_kept D t (ctree s) \<and>
     (if cs_destinationCreated s then map_of t D = None \<and> locate (ctree s) (b_dst b) dst = Ok D \<and> part_image u S D t (ctree s)
      else \<forall>q. map_of (ctree s) (D @ q) = map_of t (D @ q))"

lemma copyPath_all_or_nothing:
  assumes wf: "wf_tree (ctree s)" "is_directory (map_of (ctree s) (b_src b))" "is_directory (map_of (ctree s) (b_dst b))"
    and p: "inner_path src" "inner_path dst" "dst = Clean dst"
    and links: "no_links (ctree s) (b_src b) (comps src)" "no_links (ctree s) (b_dst b) (comps dst)"
    and S: "S = b_src b @ comps src" and D: "D = b_dst b @ comps dst" and inside: "\<not> prefix S D"
    and fresh: "\<not> cs_destinationCreated s"
  shows "outcome (\<lambda>s'. outside_kept D (ctree s) (ctree s') \<and> image_of (cumask s) S D (ctree s) (ctree s'))
    (left_behind b dst S D (cumask s) (ctree s)) (copyPath L b src dst 0 s)"
proof -
  let ?copy = "\<lambda>name. copyPath L b (JoinPath [src, name]) (JoinPath [dst, name]) (0 + 1)"
  let ?Q = "\<lambda>s'. outside_kept D (ctree s) (ctree s') \<and> image_of (cumask s) S D (ctree s) (ctree s')"
  let ?F = "left_behind b dst S D (cumask s) (ctree s)"
  let ?at = "\<lambda>p. strict_prefix (b_dst b) p \<and> prefix p (b_dst b @ comps (Dir dst))"
  define parents where "parents t1 \<longleftrightarrow> dirs_added ?at (ctree s) t1" for t1
  have dirs: "comps (Dir dst) = butlast (comps dst)"
    using comps_Dir p by blast
  have off: "\<not> prefix D p" "strict_prefix p D" if "?at p" for p
  proof -
    have "strict_prefix p D"
      using that unfolding D dirs
      by (cases "comps dst" rule: rev_cases) (auto simp: strict_prefix_def prefix_def)
    then show "\<not> prefix D p" "strict_prefix p D"
      by (auto simp: strict_prefix_def)
  qed
  have kept: "map_of t1 (D @ q) = map_of (ctree s) (D @ q)" "map_of t1 (S @ q) = map_of (ctree s) (S @ q)"
    "outside_kept D (ctree s) t1" "wf_tree t1" "grows (ctree s) t1" if t1: "parents t1" for t1 q
  proof -
    have "\<not> ?at (D @ q)" "\<not> ?at (S @ q)"
      using off [of "D @ q"] off [of "S @ q"] inside by (auto simp: strict_prefix_def dest: append_prefixD)
    then show "map_of t1 (D @ q) = map_of (ctree s) (D @ q)" "map_of t1 (S @ q) = map_of (ctree s) (S @ q)"
      using t1 unfolding parents_def dirs_added_def by blast+
    show "outside_kept D (ctree s) t1" "wf_tree t1"
      using t1 off unfolding parents_def dirs_added_def outside_kept_def by blast+
    show "grows (ctree s) t1"
      using t1 dirs_added_grows unfolding parents_def by blast
  qed
  have failed: "?F s1" if "parents (ctree s1)" "\<not> cs_destinationCreated s1" for s1
    using that kept [OF that(1)] by (simp add: left_behind_def)
  have node: "outcome ?Q ?F (copy_node L b ?copy src dst 0 (info_of cap n) s1)"
    if s1: "parents (ctree s1)" "cumask s1 = cumask s" "\<not> cs_destinationCreated s1" "locate (ctree s1) (b_dst b) dst = Ok D"
      and n: "map_of (ctree s) S = Some n" "locate (ctree s) (b_src b) src = Ok S" for s1 cap n
  proof -
    note k = kept [OF s1(1)]
    have n1: "map_of (ctree s1) S = Some n"
      using k(2) [of "[]"] n by simp
    have roots: "is_directory (map_of (ctree s1) (b_src b))" "is_directory (map_of (ctree s1) (b_dst b))"
      using grows_dir [OF k(5)] wf by auto
    show ?thesis
    proof (cases "map_of (ctree s1) D")
      case (Some x)
      show ?thesis
        by (rule outcome_mono [OF copy_node_occupied [OF s1(4)]]) (use Some s1 failed in auto)
    next
      case None
      have "\<not> prefix D S"
        using None n1 wf_tree_absent [OF k(4) None] by (auto simp: prefix_def)
      then have site: "copy_site b src dst S D s1"
        using inside roots k(4) s1(4) locate_grows [OF n(2) k(5)] by (auto simp: copy_site_def)
      have ex: "outcome (copied S D s1) (partly S D s1) (copy_node L b ?copy src dst 0 (info_of cap n) s1)"
        by (rule copy_node_exact [OF site n1 copyPath_exact]) auto
      have fl: "outcome cs_destinationCreated (placed s1)
          (copy_node L b ?copy src dst 0 (info_of cap n) s1)"
        by (rule copy_node_flag) (auto intro: copyPath_flag)
      have out: "outside_kept D (ctree s) (ctree s2)" if "only_beneath D s1 s2" for s2
        using that k(3) unfolding only_beneath_def framed_def outside_kept_def by metis
      have none: "map_of (ctree s) D = None"
        using k(1) [of "[]"] None by simp
      have good: "?Q s2" if c: "copied S D s1 s2" for s2
      proof -
        have "map_of (ctree s2) (D @ q) = map_option (copy_of (cumask s)) (map_of (ctree s) (S @ q))" for q
          using c k(2) [of q] s1(2) by (simp add: copied_def)
        then show ?thesis
          using c out n(1) by (simp add: copied_def image_of_def)
      qed
      have bad: "?F s2" if c: "partly S D s1 s2" "placed s1 s2" for s2
      proof (cases "cs_destinationCreated s2")
        case True
        have ob: "only_beneath D s1 s2"
          using partly_beneath [OF c(1)] .
        then have "locate (ctree s2) (b_dst b) dst = Ok D"
          using locate_grows [OF s1(4)] by (simp add: only_beneath_def)
        moreover have "part_image (cumask s) S D (ctree s) (ctree s2)"
          using c(1) None k(2) s1(2) by (simp add: part_image_def partly_def only_beneath_def)
        ultimately show ?thesis
          using True none ob out [OF ob] by (simp add: left_behind_def only_beneath_def)
      next
        case False
        then show ?thesis
          using c(2) s1 by (intro failed) (auto simp: placed_def)
      qed
      show ?thesis
        using ex fl good bad
        by (cases "copy_node L b ?copy src dst 0 (info_of cap n) s1"; cases "fst (copy_node L b ?copy src dst 0 (info_of cap n) s1)") auto
    qed
  qed
  have names: "\<forall>c \<in> set (comps (Dir dst)). valid_name c"
    using inner_names [OF p(2)] dirs by (auto dest: in_set_butlastD)
  have plain: "no_links (ctree s) (b_dst b) (comps (Dir dst))"
    using no_links_prefix [OF links(2)] dirs by (simp add: prefixeq_butlast)
  have at: "locate t1 (b_dst b) dst = Ok D"
    if "resolve t1 (b_dst b) maxSymlinks (b_dst b) (comps (Dir dst)) = Ok d" "d = b_dst b @ comps (Dir dst)" "is_directory (map_of t1 d)" for t1 d
    using that locate_in_dir [OF p(2)] dirs D by (cases "comps dst = []") (auto simp: locate_def)
  have mk: "parents (w_tree w')" "w_umask w' = cumask s" "r = Ok () \<Longrightarrow> locate (w_tree w') (b_dst b) dst = Ok D"
    if m: "mkdirIfMissing_root (b_dst b) (Dir dst) 488 w = (r, w')" "w_tree w = ctree s" "w_umask w = cumask s" for w r w'
  proof -
    note M = mkdirIfMissing_cases [OF m(1), unfolded m(2,3)]
    have some: "parents (snd (make_dirs (ctree s) (b_dst b) (Directory m) k (b_dst b) cs))" if "prefix cs (comps (Dir dst))" for m k cs
    proof -
      have "\<forall>c \<in> set cs. valid_name c"
        using names set_mono_prefix [OF that] by blast
      then have "dirs_added (\<lambda>p. strict_prefix (b_dst b) p \<and> prefix p (b_dst b @ cs)) (ctree s)
          (snd (make_dirs (ctree s) (b_dst b) (Directory m) k (b_dst b) cs))"
        using make_dirs_plain [OF wf(1,3) no_links_prefix [OF plain that] _ surjective_pairing] by blast
      moreover have "prefix (b_dst b @ cs) (b_dst b @ comps (Dir dst))"
        using that by (simp add: prefix_def)
      ultimately show ?thesis
        unfolding parents_def by (elim dirs_added_mono) (use prefix_order.trans in blast)
    qed
    note plain = make_dirs_plain [OF wf(1,3) plain names]
    show "w_umask w' = cumask s" by (rule M(1))
    show "parents (w_tree w')"
      using M(2) some dirs_added_refl [OF wf(1)] unfolding parents_def by auto
    show "locate (w_tree w') (b_dst b) dst = Ok D" if "r = Ok ()"
      using M(3) [OF that]
    proof (elim disjE)
      assume "(Dir dst = [] \<or> Dir dst = dot) \<and> w_tree w' = ctree s"
      moreover have "comps [] = []" "comps dot = []"
        by (simp_all add: comps_def dot_def)
      ultimately show ?thesis
        using wf(3) by (intro at [of _ "b_dst b"]) auto
    next
      assume "\<exists>q. w_tree w' = ctree s \<and> resolve (ctree s) (b_dst b) maxSymlinks (b_dst b) (comps (Dir dst)) = Ok q \<and>
        is_directory (map_of (ctree s) q)"
      then obtain q where q: "w_tree w' = ctree s" "resolve (ctree s) (b_dst b) maxSymlinks (b_dst b) (comps (Dir dst)) = Ok q"
        "is_directory (map_of (ctree s) q)" by blast
      then show ?thesis
        using resolve_plain [OF \<open>no_links (ctree s) (b_dst b) (comps (Dir dst))\<close> names q(2)] by (intro at [of _ q]) auto
    next
      assume "make_dirs (ctree s) (b_dst b) (Directory (488 AND NOT (cumask s))) maxSymlinks (b_dst b) (comps (Dir dst)) = (Ok (), w_tree w')"
      then have "\<forall>p. prefix p (comps (Dir dst)) \<longrightarrow> is_directory (map_of (w_tree w') (b_dst b @ p))"
        using plain by blast
      then show ?thesis
        using names by (intro at [OF resolve_dirs]) auto
    qed
  qed
  have start: "parents (ctree s)"
    unfolding parents_def using wf(1) by (rule dirs_added_refl)
  let ?P = "\<lambda>s1. parents (ctree s1) \<and> cumask s1 = cumask s \<and> \<not> cs_destinationCreated s1 \<and> locate (ctree s1) (b_dst b) dst = Ok D"
  let ?s1 = "ticked s\<lparr>cs_entries := cs_entries s + 1\<rparr>"
  have looked: "outcome ?Q ?F (cthen (csys (mkdirIfMissing_root (b_dst b) (Dir dst) 488) (?s1\<lparr>cs_world := w\<rparr>) (\<lambda>_ s. (None, s)))
      (copy_node L b ?copy src dst 0 (info_of cap n)))"
    if w: "w_tree w = ctree s" "w_umask w = cumask s" "locate (ctree s) (b_src b) src = Ok q" "map_of (ctree s) q = Some n" for w cap n q
  proof (rule outcome_cthen [where P = ?P])
    have q: "q = S"
      using locate_plain [OF p(1) links(1) w(3)] S by simp
    show "outcome ?P ?F (csys (mkdirIfMissing_root (b_dst b) (Dir dst) 488) (?s1\<lparr>cs_world := w\<rparr>) (\<lambda>_ s. (None, s)))"
      using mk w(1,2) fresh by (intro outcome_csys) (auto intro!: failed)
    show "outcome ?Q ?F (copy_node L b ?copy src dst 0 (info_of cap n) s2)" if "?P s2" for s2
      using node [of s2 n cap] that w(3,4) q by blast
  qed
  show ?thesis
    using start fresh looked
    by (subst copyPath.simps, intro outcome_check) (auto simp: Let_def intro!: failed outcome_Lstat cong: if_cong)
qed

lemma map_of_removed_at: "map_of (remove_tree D t) (D @ q) = None"
  by (simp add: map_of_remove_tree)

lemma outside_kept_removed: "outside_kept D t u \<Longrightarrow> outside_kept D t (remove_tree D u)"
  "outside_kept D t u \<Longrightarrow> outside_kept D t (remove_partly stuck D u)"
  unfolding outside_kept_def by (simp_all add: map_of_remove_tree map_of_remove_partly)

text \<open>What a copy that ended with \<open>r\<close> has done.\<close>

definition copy_result_ok :: "perm \<Rightarrow> string list \<Rightarrow> string list \<Rightarrow> tree \<Rightarrow> copy_err option \<Rightarrow> tree \<Rightarrow> bool" where
  "copy_result_ok u S D t r t' \<longleftrightarrow> outside_kept D t t' \<and>
     (case r of
        None \<Rightarrow> image_of u S D t t'
      | Some (CleanupFailed e f) \<Rightarrow> (\<forall>q. map_of t' (D @ q) = map_of t (D @ q)) \<or>
          (\<forall>q. map_of t (D @ q) = None) \<and> part_image u S D t t'
      | Some e \<Rightarrow> (\<forall>q. map_of t' (D @ q) = map_of t (D @ q)))"

lemma copyPathWithBackend_exact:
  assumes wf: "wf_tree (w_tree w)" "is_directory (map_of (w_tree w) (b_src b))" "is_directory (map_of (w_tree w) (b_dst b))"
    and p: "inner_path src" "inner_path dst" "dst = Clean dst"
    and links: "no_links (w_tree w) (b_src b) (comps src)" "no_links (w_tree w) (b_dst b) (comps dst)"
    and S: "S = b_src b @ comps src" and D: "D = b_dst b @ comps dst" and inside: "\<not> prefix S D"
    and run: "copyPathWithBackend L b src dst w = (r, w')"
  shows "copy_result_ok (w_umask w) S D (w_tree w) r (w_tree w')"
  using run
proof (cases rule: copyPathWithBackend_cases)
  case (1 e)
  then show ?thesis
    by (simp add: copy_result_ok_def outside_kept_def split: copy_err.split)
next
  case (2 e s)
  then show ?thesis
    using copyPath_all_or_nothing [of "copy_start w" b src dst S D L] wf p links S D inside
    by (cases e) (auto simp: copy_start_def left_behind_def copy_result_ok_def split: copy_err.split)
next
  case (3 e s x)
  have lb: "left_behind b dst S D (w_umask w) (w_tree w) s"
    using copyPath_all_or_nothing [of "copy_start w" b src dst S D L] wf p links S D inside 3(2)
    by (simp add: copy_start_def)
  then have k: "map_of (w_tree w) D = None" "locate (ctree s) (b_dst b) dst = Ok D" "outside_kept D (w_tree w) (ctree s)"
      "part_image (w_umask w) S D (w_tree w) (ctree s)"
    using 3(3) by (auto simp: left_behind_def)
  have none: "map_of (w_tree w) (D @ q) = None" for q
    using wf_tree_absent [OF wf(1) k(1)] .
  show ?thesis
  proof (cases x)
    case (Inl f)
    then have f: "f \<noteq> NotExist" "w_tree w' = ctree s \<or> (\<exists>stuck. w_tree w' = remove_partly stuck D (ctree s))"
      using root_RemoveAll_facts(2) [OF 3(4)] k(2) by auto
    then have "outside_kept D (w_tree w) (w_tree w')" "part_image (w_umask w) S D (w_tree w) (w_tree w')"
      using k(3,4) outside_kept_removed(2) part_image_removed [OF _ remove_partly_removed] by auto
    with none f(1) Inl 3(5) show ?thesis
      by (simp add: copy_result_ok_def)
  next
    case (Inr v)
    have "w_tree w' = remove_tree D (ctree s)"
      using root_RemoveAll_facts(3) [OF 3(4) Inr] k(2) by simp
    with none k(3) Inr 3(5) show ?thesis
      by (auto simp: copy_result_ok_def map_of_removed_at outside_kept_removed split: copy_err.split)
  qed
qed

section \<open>Properties\<close>

lemma inner_Clean_path: "inner_path p \<Longrightarrow> inner_path (Clean p)" "Clean (Clean p) = Clean p"
  by (simp_all add: inner_path_def)

text \<open>The conditions on a tree, in a form that evaluates.\<close>

definition wf_listing :: "tree \<Rightarrow> bool" where
  "wf_listing t \<longleftrightarrow> distinct (map fst t) \<and> is_directory (map_of t []) \<and>
     list_all (\<lambda>(q, n). q = [] \<or> is_directory (map_of t (butlast q)) \<and> valid_name (last q)) t"

lemma wf_listing_tree: "wf_listing t \<Longrightarrow> wf_tree t"
proof -
  assume w: "wf_listing t"
  have "is_directory (map_of t p) \<and> valid_name x" if "map_of t (p @ [x]) \<noteq> None" for p x
  proof -
    obtain n where "(p @ [x], n) \<in> set t"
      using \<open>map_of t (p @ [x]) \<noteq> None\<close> by (meson map_of_SomeD not_None_eq)
    then show ?thesis
      using w by (fastforce simp: wf_listing_def list_all_iff)
  qed
  with w show ?thesis
    by (simp add: wf_listing_def wf_tree_def wf_map_def)
qed

fun plain_path :: "tree \<Rightarrow> string list \<Rightarrow> string list \<Rightarrow> bool" where
  "plain_path t d [] = (case map_of t d of Some (Symlink l) \<Rightarrow> False | _ \<Rightarrow> True)"
| "plain_path t d (c # cs) = ((case map_of t d of Some (Symlink l) \<Rightarrow> False | _ \<Rightarrow> True) \<and> plain_path t (d @ [c]) cs)"

lemma plain_path_no_links: "plain_path t d cs \<Longrightarrow> no_links t d cs"
proof (induction cs arbitrary: d)
  case Nil
  then show ?case by (auto simp: no_links_def split: option.splits node.splits)
next
  case (Cons c cs)
  then have n: "no_links t (d @ [c]) cs" "map_of t d \<noteq> Some (Symlink l)" for l
    by (auto split: option.splits node.splits)
  show ?case
    unfolding no_links_def
  proof (intro allI impI)
    fix p l
    assume "prefix p (c # cs)"
    then show "map_of t (d @ p) \<noteq> Some (Symlink l)"
      using n by (cases p) (auto simp: no_links_def)
  qed
qed

text \<open>
  C15. A copy is all or nothing. For a source and a destination inside the root that are not reached
  through symbolic links, whatever calls fail on the way, however short reads and writes are and
  whenever the context ends: outside the destination nothing changes, except that missing parent
  directories of the destination may have been made. If the copy succeeds, the destination is the
  image of the source, node by node and byte by byte (permissions under the process's umask). If it
  fails, there is at the destination exactly what was there before; only when removing the partial
  copy failed too, which the error then says, may something else be there: some of the source's
  entries, each copied in whole or, if it is a file, up to some byte, where there was nothing before.
\<close>

theorem copy_all_or_nothing:
  assumes "wf_tree (w_tree w)" and "is_directory (map_of (w_tree w) root)"
    and "inner_path srcRel" and "inner_path dstRel"
    and "no_links (w_tree w) root (comps srcRel)" and "no_links (w_tree w) root (comps dstRel)"
    and "S = root @ comps srcRel" and "D = root @ comps dstRel"
    and "copyPathRecursiveRootContext L root srcRel dstRel w = (r, w')"
  shows "outside_kept D (w_tree w) (w_tree w') \<and>
    (case r of
       None \<Rightarrow> image_of (w_umask w) S D (w_tree w) (w_tree w')
     | Some (CleanupFailed e f) \<Rightarrow> (\<forall>q. map_of (w_tree w') (D @ q) = map_of (w_tree w) (D @ q)) \<or>
         (\<forall>q. map_of (w_tree w) (D @ q) = None) \<and> part_image (w_umask w) S D (w_tree w) (w_tree w')
     | Some e \<Rightarrow> (\<forall>q. map_of (w_tree w') (D @ q) = map_of (w_tree w) (D @ q)))"
proof (cases "Clean srcRel = Clean dstRel \<or> PathWithinBaseDir (Clean srcRel) (Clean dstRel)")
  case True
  then show ?thesis
    using assms(9) by (auto simp: copyPathRecursiveRootContext_def outside_kept_def split: if_splits)
next
  case False
  have "\<not> prefix S D"
    using False prefix_within inner_Clean_path(1) [OF assms(3)] inner_Clean_path(1) [OF assms(4)] assms(7,8) by auto
  moreover have "copyPathWithBackend L \<lparr>b_src = root, b_dst = root\<rparr> (Clean srcRel) (Clean dstRel) w = (r, w')"
    using False assms(9) by (simp add: copyPathRecursiveRootContext_def)
  ultimately show ?thesis
    using copyPathWithBackend_exact [of w "\<lparr>b_src = root, b_dst = root\<rparr>" "Clean srcRel" "Clean dstRel" S D L r w'] assms inner_Clean_path
    unfolding copy_result_ok_def by simp
qed

text \<open>A directory \<open>/h/a\<close> with a file and an empty directory, and a world in which call \<open>k\<close> fails.\<close>

definition demo_tree :: tree where
  "demo_tree =
     [([], Directory 493), ([''h''], Directory 493), ([''h'', ''a''], Directory 511),
      ([''h'', ''a'', ''f''], RegularFile 420 ''hello''), ([''h'', ''a'', ''d''], Directory 448)]"

definition demo_world :: "nat \<Rightarrow> world" where
  "demo_world k = \<lparr>w_tree = demo_tree, w_umask = 18, w_calls = 0, w_fault = (\<lambda>i. (Some 3, i = k)), w_stuck = (\<lambda>i p. False), w_deadline = None\<rparr>"

definition small_limits :: copyLimits where
  "small_limits = \<lparr>maxEntries = 3, maxBytes = 8, maxFileSize = 8, maxDepth = 2, readBatch = 2, bufferSize = 4\<rparr>"

lemma demo_facts:
  "wf_tree (w_tree (demo_world k))" "is_directory (map_of (w_tree (demo_world k)) [''h''])"
  "no_links (w_tree (demo_world k)) [''h''] (comps ''a'')" "no_links (w_tree (demo_world k)) [''h''] (comps ''x/b'')"
  "inner_path ''a''" "inner_path ''x/b''"
proof -
  have t: "w_tree (demo_world k) = demo_tree" by (simp add: demo_world_def)
  show "wf_tree (w_tree (demo_world k))"
    unfolding t by (rule wf_listing_tree) code_simp
  show "is_directory (map_of (w_tree (demo_world k)) [''h''])"
    unfolding t by code_simp
  show "no_links (w_tree (demo_world k)) [''h''] (comps ''a'')" "no_links (w_tree (demo_world k)) [''h''] (comps ''x/b'')"
    unfolding t by (rule plain_path_no_links, code_simp)+
  show "inner_path ''a''" "inner_path ''x/b''"
    by code_simp+
qed

theorem copy_all_or_nothing_witness:
  "(\<exists>w'. copyPathRecursiveRootContext small_limits [''h''] ''a'' ''x/b'' (demo_world 99) = (None, w') \<and>
      image_of 18 [''h'', ''a''] [''h'', ''x'', ''b''] demo_tree (w_tree w') \<and>
      outside_kept [''h'', ''x'', ''b''] demo_tree (w_tree w')) \<and>
   (\<exists>w'. copyPathRecursiveRootContext small_limits [''h''] ''a'' ''x/b'' (demo_world 18) = (Some (OsFailed OtherFailure), w') \<and>
      map_of (w_tree w') [''h'', ''x'', ''b''] = None \<and> outside_kept [''h'', ''x'', ''b''] demo_tree (w_tree w'))"
proof (intro conjI)
  let ?S = "[''h'', ''a'']" and ?D = "[''h'', ''x'', ''b'']"
  let ?run = "\<lambda>k. copyPathRecursiveRootContext small_limits [''h''] ''a'' ''x/b'' (demo_world k)"
  have c: "?S = [''h''] @ comps ''a''" "?D = [''h''] @ comps ''x/b''"
    by code_simp+
  have t: "w_tree (demo_world k) = demo_tree" "w_umask (demo_world k) = 18" for k
    by (simp_all add: demo_world_def)
  note claim = copy_all_or_nothing [OF demo_facts(1,2,5,6,3,4) c surjective_pairing, of _ small_limits, unfolded t]
  have r: "fst (?run 99) = None" "fst (?run 18) = Some (OsFailed OtherFailure)"
    by code_simp+
  show "\<exists>w'. ?run 99 = (None, w') \<and> image_of 18 ?S ?D demo_tree (w_tree w') \<and> outside_kept ?D demo_tree (w_tree w')"
    using claim [of 99] r(1) by (intro exI [of _ "snd (?run 99)"]) (simp add: prod_eq_iff)
  have "map_of demo_tree (?D @ []) = None"
    by code_simp
  then show "\<exists>w'. ?run 18 = (Some (OsFailed OtherFailure), w') \<and> map_of (w_tree w') ?D = None \<and> outside_kept ?D demo_tree (w_tree w')"
    using claim [of 18] r(2) by (intro exI [of _ "snd (?run 18)"]) (auto simp: prod_eq_iff dest: spec [of _ "[]"])
qed

text \<open>
  C21. A copy cannot fill the disk or leave the root. Whatever happens, links on the way included, the
  tree stays well formed, nothing outside the root changes, at most 512 MiB of file content is added,
  and, when the destination's parent directory exists, at most 20000 files and directories are.
\<close>

theorem copy_bounded:
  assumes "wf_tree (w_tree w)" and "is_directory (map_of (w_tree w) root)"
    and "copyPathRecursiveRootContext defaultCopyLimits root srcRel dstRel w = (r, w')"
  shows "wf_tree (w_tree w') \<and> framed root (w_tree w) (w_tree w') \<and>
    tree_bytes (w_tree w') \<le> tree_bytes (w_tree w) + 512 * 1024 * 1024 \<and>
    (case resolve (w_tree w) root maxSymlinks root (comps (Dir (Clean dstRel))) of
       Inl e \<Rightarrow> True
     | Inr d \<Rightarrow> is_directory (map_of (w_tree w) d) \<longrightarrow> int (length (w_tree w')) \<le> int (length (w_tree w)) + 20000)"
proof (cases "Clean srcRel = Clean dstRel \<or> PathWithinBaseDir (Clean srcRel) (Clean dstRel)")
  case True
  then show ?thesis
    using assms by (auto simp: copyPathRecursiveRootContext_def split: if_splits sum.splits)
next
  case False
  let ?b = "\<lparr>b_src = root, b_dst = root\<rparr>"
  have "copyPathWithBackend defaultCopyLimits ?b (Clean srcRel) (Clean dstRel) w = (r, w')"
    using False assms(3) by (simp add: copyPathRecursiveRootContext_def)
  note lim = copyPathWithBackend_limits [OF this assms(1)] and L = defaultCopyLimits_def
  show ?thesis
    using lim assms(2) by (auto simp: L split: sum.splits)
qed

theorem copy_bounded_witness:
  "\<exists>r w'. copyPathRecursiveRootContext defaultCopyLimits [''h''] ''a'' ''b'' (demo_world 99) = (r, w') \<and>
     framed [''h''] demo_tree (w_tree w') \<and> int (length (w_tree w')) \<le> 5 + 20000"
proof -
  have p: "resolve demo_tree [''h''] maxSymlinks [''h''] (comps (Dir (Clean ''b''))) = Ok [''h'']" "is_directory (map_of demo_tree [''h''])"
    "length demo_tree = 5"
    by code_simp+
  obtain r w' where run: "copyPathRecursiveRootContext defaultCopyLimits [''h''] ''a'' ''b'' (demo_world 99) = (r, w')"
    by fastforce
  from copy_bounded [OF demo_facts(1,2) this] p run show ?thesis
    by (auto simp: demo_world_def)
qed

end
