(* ===== verification/FileManage.thy ===== *)
theory FileManage
  imports FileCopyExact
begin

text \<open>
  The handlers of \<open>files/handler.go\<close> and \<open>files/copy.go\<close> that list, make, delete, rename and copy
  files (\<open>internal/agentcore\<close>): every request path goes through \<open>openScopedPath\<close> of \<open>FileScope\<close>, and
  what happens beneath the opened root is \<open>OsRoot\<close>'s. A request is \<open>None\<close> when its JSON does not
  decode, in which case the code logs and sends nothing. Error texts are values of a datatype.
\<close>

datatype manage_err =
    PathError path_error | OsError io_err | CopyError copy_err | SameSourceAndDestination | DestinationExists
  | CannotDeleteBase | CannotRenameBase | CannotMoveBetweenDrives

text \<open>The \<open>FileResultData\<close> a handler sends: the request it answers and its error, if any.\<close>

record file_result =
  fr_RequestID :: string
  fr_Error :: "manage_err option"

record path_request =
  pr_RequestID :: string
  pr_Path :: string

record move_request =
  mv_RequestID :: string
  mv_From :: string
  mv_To :: string

type_synonym reply = "file_result option"

definition SendFileResult :: "string \<Rightarrow> manage_err option \<Rightarrow> world \<Rightarrow> reply \<times> world" where
  "SendFileResult requestID err w = (Some \<lparr>fr_RequestID = requestID, fr_Error = err\<rparr>, w)"

definition send_call :: "string \<Rightarrow> (io_err, unit) result \<times> world \<Rightarrow> reply \<times> world" where
  "send_call requestID r =
     (case r of
        (Inl e, w) \<Rightarrow> SendFileResult requestID (Some (OsError e)) w
      | (Inr _, w) \<Rightarrow> SendFileResult requestID None w)"

section \<open>Making, deleting and renaming\<close>

definition HandleFileMkdir :: "file_system \<Rightarrow> scope_fields \<Rightarrow> path_request option \<Rightarrow> world \<Rightarrow> reply \<times> world" where
  "HandleFileMkdir fs fm msg w =
     (case msg of
        None \<Rightarrow> (None, w)
      | Some req \<Rightarrow>
          (case OpenRootPath fs fm (pr_Path req) of
             Inl e \<Rightarrow> SendFileResult (pr_RequestID req) (Some (PathError e)) w
           | Inr (base, relPath, display) \<Rightarrow> send_call (pr_RequestID req) (root_MkdirAll (comps base) relPath 488 w)))"

definition HandleFileDelete :: "file_system \<Rightarrow> scope_fields \<Rightarrow> path_request option \<Rightarrow> world \<Rightarrow> reply \<times> world" where
  "HandleFileDelete fs fm msg w =
     (case msg of
        None \<Rightarrow> (None, w)
      | Some req \<Rightarrow>
          (case openScopedPath fs fm (pr_Path req) of
             Inl e \<Rightarrow> SendFileResult (pr_RequestID req) (Some (PathError e)) w
           | Inr target \<Rightarrow>
               if sp_rel target = dot then SendFileResult (pr_RequestID req) (Some CannotDeleteBase) w
               else send_call (pr_RequestID req) (root_RemoveAll (comps (sp_base target)) (sp_rel target) w)))"

text \<open>\<open>destination_free\<close> is the \<open>Lstat\<close> of the destination that rename and copy share.\<close>

definition destination_free :: "string \<Rightarrow> scoped_path \<Rightarrow> (world \<Rightarrow> reply \<times> world) \<Rightarrow> world \<Rightarrow> reply \<times> world" where
  "destination_free requestID destination k w =
     (case root_Lstat (comps (sp_base destination)) (sp_rel destination) w of
        (Inr _, w') \<Rightarrow> SendFileResult requestID (Some DestinationExists) w'
      | (Inl e, w') \<Rightarrow> if e \<noteq> NotExist then SendFileResult requestID (Some (OsError e)) w' else k w')"

definition source_exists :: "string \<Rightarrow> scoped_path \<Rightarrow> (world \<Rightarrow> reply \<times> world) \<Rightarrow> world \<Rightarrow> reply \<times> world" where
  "source_exists requestID source k w =
     (case root_Lstat (comps (sp_base source)) (sp_rel source) w of
        (Inl e, w') \<Rightarrow> SendFileResult requestID (Some (OsError e)) w'
      | (Inr _, w') \<Rightarrow> k w')"

definition HandleFileRename :: "file_system \<Rightarrow> scope_fields \<Rightarrow> move_request option \<Rightarrow> world \<Rightarrow> reply \<times> world" where
  "HandleFileRename fs fm msg w =
     (case msg of
        None \<Rightarrow> (None, w)
      | Some req \<Rightarrow>
          (let reply = \<lambda>e. SendFileResult (mv_RequestID req) (Some e) in
           case openScopedPath fs fm (mv_From req) of
             Inl e \<Rightarrow> reply (PathError e) w
           | Inr source \<Rightarrow>
               (case openScopedPath fs fm (mv_To req) of
                  Inl e \<Rightarrow> reply (PathError e) w
                | Inr destination \<Rightarrow>
                    if sp_rel source = dot then reply CannotRenameBase w
                    else if \<not> sameRoot (sp_base source) (sp_base destination) then reply CannotMoveBetweenDrives w
                    else source_exists (mv_RequestID req) source
                      (destination_free (mv_RequestID req) destination
                        (\<lambda>w. send_call (mv_RequestID req)
                           (root_Rename (comps (sp_base source)) (sp_rel source) (sp_rel destination) w))) w)))"

section \<open>Copying\<close>

definition HandleFileCopyContext :: "file_system \<Rightarrow> scope_fields \<Rightarrow> move_request option \<Rightarrow> world \<Rightarrow> reply \<times> world" where
  "HandleFileCopyContext fs fm msg w =
     (case msg of
        None \<Rightarrow> (None, w)
      | Some req \<Rightarrow>
          (let reply = \<lambda>e. SendFileResult (mv_RequestID req) (Some e) in
           case openScopedPath fs fm (mv_From req) of
             Inl e \<Rightarrow> reply (PathError e) w
           | Inr source \<Rightarrow>
               (case openScopedPath fs fm (mv_To req) of
                  Inl e \<Rightarrow> reply (PathError e) w
                | Inr destination \<Rightarrow>
                    if sp_display source = sp_display destination then reply SameSourceAndDestination w
                    else source_exists (mv_RequestID req) source
                      (destination_free (mv_RequestID req) destination
                        (\<lambda>w.
                          let (err, w') =
                            (if sameRoot (sp_base source) (sp_base destination)
                             then copyPathRecursiveRootContext defaultCopyLimits (comps (sp_base source))
                                    (sp_rel source) (sp_rel destination) w
                             else copyPathWithBackend defaultCopyLimits
                                    \<lparr>b_src = comps (sp_base source), b_dst = comps (sp_base destination)\<rparr>
                                    (sp_rel source) (sp_rel destination) w)
                          in case err of
                               Some e \<Rightarrow> reply (CopyError e) w'
                             | None \<Rightarrow> SendFileResult (mv_RequestID req) None w')) w)))"

section \<open>Listing\<close>

text \<open>
  One entry the operating system lists: its name, whether it is a directory, and what \<open>Info\<close> returns
  (\<open>None\<close> when it fails). The length of the JSON text of an entry, of the reply without entries and of
  the whole reply are those of the shared protocol package's types and hence parameters.
\<close>

record file_info_data =
  fi_Size :: int
  fi_Mode :: string
  fi_ModTime :: string

record dir_entry =
  de_Name :: string
  de_IsDir :: bool
  de_Info :: "file_info_data option"

record file_entry =
  fe_Name :: string
  fe_Size :: int
  fe_Mode :: string
  fe_ModTime :: string
  fe_IsDir :: bool

definition maxFileListEntries :: int where "maxFileListEntries = 5000"
definition maxFileListScanned :: int where "maxFileListScanned = 20000"
definition maxFileListReadBatch :: int where "maxFileListReadBatch = 256"
definition maxFileListResponseSize :: int where "maxFileListResponseSize = 4 * 1024 * 1024"
definition maxFileListRequestIDLen :: nat where "maxFileListRequestIDLen = 256"

datatype list_err =
    ListMetadata | ListScanned | ListEntries | ListSize | ListRead io_err | ListNoProgress | ListPath path_error | ListOpen io_err | ListResponse

definition to_entry :: "dir_entry \<Rightarrow> file_info_data \<Rightarrow> file_entry" where
  "to_entry e info = \<lparr>fe_Name = de_Name e, fe_Size = fi_Size info, fe_Mode = fi_Mode info, fe_ModTime = fi_ModTime info, fe_IsDir = de_IsDir e\<rparr>"

record list_acc =
  la_entries :: "file_entry list"
  la_size :: int
  la_scanned :: int

text \<open>The inner loop over one batch. Entries are collected in order.\<close>

fun list_batch :: "(file_entry \<Rightarrow> int) \<Rightarrow> bool \<Rightarrow> dir_entry list \<Rightarrow> list_acc \<Rightarrow> (list_err, list_acc) result" where
  "list_batch enc showHidden [] a = Ok a"
| "list_batch enc showHidden (e # es) a =
     (let a = a\<lparr>la_scanned := la_scanned a + 1\<rparr> in
      if la_scanned a > maxFileListScanned then Err ListScanned
      else if \<not> showHidden \<and> HasPrefix (de_Name e) ''.'' then list_batch enc showHidden es a
      else case de_Info e of
        None \<Rightarrow> list_batch enc showHidden es a
      | Some info \<Rightarrow>
          if int (length (la_entries a)) \<ge> maxFileListEntries then Err ListEntries
          else let fileEntry = to_entry e info;
                   nextSize = la_size a + enc fileEntry + (if la_entries a = [] then - 2 else 1)
               in if nextSize > maxFileListResponseSize then Err ListSize
                  else list_batch enc showHidden es (a\<lparr>la_entries := la_entries a @ [fileEntry], la_size := nextSize\<rparr>))"

function list_loop :: "(file_entry \<Rightarrow> int) \<Rightarrow> bool \<Rightarrow> dir_entry list \<Rightarrow> list_acc \<Rightarrow> world \<Rightarrow> (list_err, list_acc) result \<times> world" where
  "list_loop enc showHidden rest a w =
     (case deliver (nat maxFileListReadBatch) rest w of
        ((batch, rest', readErr), w') \<Rightarrow>
          (case list_batch enc showHidden batch a of
             Inl e \<Rightarrow> (Err e, w')
           | Inr a' \<Rightarrow>
               (case readErr of
                  AtEOF \<Rightarrow> (Ok a', w')
                | ReadFails e \<Rightarrow> (Err (ListRead e), w')
                | More \<Rightarrow> if batch = [] then (Err ListNoProgress, w') else list_loop enc showHidden rest' a' w')))"
  by pat_completeness auto
termination
  by (relation "measure (\<lambda>(enc, showHidden, rest, a, w). length rest)") (auto dest!: deliver_shorter [OF sym])

declare list_loop.simps [simp del]

definition readBoundedFileEntries ::
  "(file_entry \<Rightarrow> int) \<Rightarrow> (string \<Rightarrow> string \<Rightarrow> int) \<Rightarrow> dir_entry list \<Rightarrow> bool \<Rightarrow> string \<Rightarrow> string \<Rightarrow> world \<Rightarrow>
   (list_err, file_entry list) result \<times> world" where
  "readBoundedFileEntries enc empty_size dir showHidden requestID path w =
     (if empty_size requestID path > maxFileListResponseSize then (Err ListMetadata, w)
      else case list_loop enc showHidden dir \<lparr>la_entries = [], la_size = empty_size requestID path, la_scanned = 0\<rparr> w of
        (Inl e, w') \<Rightarrow> (Err e, w')
      | (Inr a, w') \<Rightarrow> (Ok (la_entries a), w'))"

text \<open>The reply \<open>sendFileListed\<close> sends: request id, path, entries and error.\<close>

record file_listed =
  fl_RequestID :: string
  fl_Path :: string
  fl_Entries :: "file_entry list"
  fl_Error :: "list_err option"

definition sendFileListed :: "(file_listed \<Rightarrow> int) \<Rightarrow> string \<Rightarrow> string \<Rightarrow> file_entry list \<Rightarrow> list_err option \<Rightarrow> file_listed" where
  "sendFileListed payload requestID path entries err =
     (let data = \<lparr>fl_RequestID = requestID, fl_Path = path, fl_Entries = entries, fl_Error = err\<rparr> in
      if payload data > maxFileListResponseSize
      then \<lparr>fl_RequestID = take maxFileListRequestIDLen requestID, fl_Path = [], fl_Entries = [], fl_Error = Some ListResponse\<rparr>
      else data)"

record list_request =
  lr_RequestID :: string
  lr_Path :: string
  lr_ShowHidden :: bool

text \<open>\<open>listing\<close> gives the entries the system lists for a directory, by its path.\<close>

definition HandleFileList ::
  "(file_listed \<Rightarrow> int) \<Rightarrow> (file_entry \<Rightarrow> int) \<Rightarrow> (string list \<Rightarrow> dir_entry list) \<Rightarrow> file_system \<Rightarrow> scope_fields \<Rightarrow>
   list_request option \<Rightarrow> world \<Rightarrow> file_listed option \<times> world" where
  "HandleFileList payload enc listing fs fm msg w =
     (case msg of
        None \<Rightarrow> (None, w)
      | Some req \<Rightarrow>
          (let send = \<lambda>path entries err. Some (sendFileListed payload (lr_RequestID req) path entries err);
               empty_size = \<lambda>i p. payload \<lparr>fl_RequestID = i, fl_Path = p, fl_Entries = [], fl_Error = None\<rparr> in
           case OpenRootPath fs fm (lr_Path req) of
             Inl e \<Rightarrow> (send (lr_Path req) [] (Some (ListPath e)), w)
           | Inr (base, relPath, dirPath) \<Rightarrow>
               (case root_Open (comps base) relPath w of
                  (Inl e, w') \<Rightarrow> (send dirPath [] (Some (ListOpen e)), w')
                | (Inr (FileHandle d), w') \<Rightarrow> (send dirPath [] (Some (ListRead NotDirectory)), w')
                | (Inr (DirHandle names), w') \<Rightarrow>
                    (case readBoundedFileEntries enc empty_size
                            (case resolve (w_tree w) (comps base) maxSymlinks (comps base) (comps relPath) of Inr q \<Rightarrow> listing q | Inl _ \<Rightarrow> [])
                            (lr_ShowHidden req) (lr_RequestID req) dirPath w' of
                       (Inl e, w'') \<Rightarrow> (send dirPath [] (Some e), w'')
                     | (Inr entries, w'') \<Rightarrow> (send dirPath entries None, w'')))))"

section \<open>Moving a subtree\<close>

lemma map_of_renamed:
  "\<forall>(x, n) \<in> set u. g x = y \<longleftrightarrow> x = z \<Longrightarrow> map_of (map (\<lambda>(x, n). (g x, n)) u) y = map_of u z"
  "\<forall>(x, n) \<in> set u. g x \<noteq> y \<Longrightarrow> map_of (map (\<lambda>(x, n). (g x, n)) u) y = None"
  by (induction u) auto

lemma map_of_move:
  assumes "p \<parallel> q"
  shows "map_of (move_tree p q t) y =
    (if prefix q y then map_of t (p @ drop (length q) y) else if prefix p y then None else map_of t y)"
proof -
  let ?g = "\<lambda>x. if prefix p x then q @ drop (length p) x else x"
  have key: "?g x = y \<longleftrightarrow> (if prefix q y then x = p @ drop (length q) y else if prefix p y then False else x = y)"
    if x: "\<not> prefix q x" for x
  proof -
    have pq: "\<not> prefix p (q @ z)" "\<not> prefix q (p @ z)" for z
      using assms by (metis append_prefixD parallelE prefixI prefix_same_cases)+
    show ?thesis
    proof (cases "prefix p x")
      case True
      then obtain a where a: "x = p @ a" by (auto elim: prefixE)
      then show ?thesis
        using True pq by (cases "prefix q y") (auto elim!: prefixE [of q y])
    next
      case False
      then show ?thesis using x by auto
    qed
  qed
  have "map_of (map (\<lambda>(x, n). (?g x, n)) u) y =
      (if prefix q y then map_of u (p @ drop (length q) y) else if prefix p y then None else map_of u y)"
    if "u = remove_tree q t" for u
  proof -
    have k: "\<forall>(x, n) \<in> set u. ?g x = y \<longleftrightarrow> (if prefix q y then x = p @ drop (length q) y else if prefix p y then False else x = y)"
      unfolding that by (intro ballI) (clarify, rule key, auto simp: remove_tree_def)
    show ?thesis
      using k map_of_renamed [of u ?g y] by (cases "prefix q y"; cases "prefix p y") simp_all
  qed
  from this [OF refl] have "map_of (move_tree p q t) y =
      (if prefix q y then map_of (remove_tree q t) (p @ drop (length q) y) else if prefix p y then None else map_of (remove_tree q t) y)"
    unfolding move_tree_def .
  moreover have "\<not> prefix q (p @ z)" for z
    using assms by (metis append_prefixD parallelE prefixI prefix_same_cases)
  ultimately show ?thesis
    by (simp add: map_of_remove_tree)
qed

lemma wf_tree_move:
  assumes wf: "wf_tree t" and par: "p \<parallel> q" and q: "q = d @ [x]" "is_directory (map_of t d)" "valid_name x"
  shows "wf_tree (move_tree p q t)"
proof -
  let ?m = "map_of (move_tree p q t)" and ?g = "\<lambda>x. if prefix p x then q @ drop (length p) x else x"
  note m = map_of_move [OF par]
  have ne: "p \<noteq> []" "q \<noteq> []"
    using par by auto
  have "is_directory (?m z) \<and> valid_name y" if e: "?m (z @ [y]) \<noteq> None" for z y
  proof (cases "prefix q (z @ [y])")
    case True
    then consider "z = d" "y = x" | r where "z = q @ r"
      using q(1) by (auto simp: prefix_snoc elim: prefixE)
    then show ?thesis
    proof cases
      case 1
      have "\<not> prefix q d" "\<not> prefix p d"
        using q(1) par by (auto simp: prefix_def)
      with 1 q(2,3) show ?thesis by (simp add: m)
    next
      case (2 r)
      then show ?thesis
        using e wf_treeD(3,4) [OF wf, of "p @ r" y] by (simp add: m)
    qed
  next
    case False
    then have z: "\<not> prefix p (z @ [y])" "map_of t (z @ [y]) \<noteq> None"
      using e by (auto simp: m split: if_splits)
    have "\<not> prefix q z" "\<not> prefix p z"
      using False z(1) by (auto simp: prefix_def)
    with wf_treeD(3,4) [OF wf z(2)] show ?thesis by (simp add: m)
  qed
  moreover have "is_directory (?m [])"
    using wf_treeD(2) [OF wf] ne by (simp add: m)
  moreover have "distinct (map fst (move_tree p q t))"
  proof -
    have "inj_on ?g {x. \<not> prefix q x}"
      by (auto simp: inj_on_def prefix_def)
    moreover have "map fst (move_tree p q t) = map ?g (map fst (remove_tree q t))"
      by (auto simp: move_tree_def)
    moreover have "distinct (map fst (remove_tree q t))" "set (map fst (remove_tree q t)) \<subseteq> {x. \<not> prefix q x}"
      using wf_treeD(1) [OF wf_tree_remove [OF wf ne(2)]] by (auto simp: remove_tree_def)
    ultimately show ?thesis
      by (simp only: distinct_map) (blast intro: inj_on_subset)
  qed
  ultimately show ?thesis
    by (simp add: wf_tree_def wf_map_def)
qed

lemma root_Rename_facts:
  assumes "root_Rename root old new w = (r, w')"
  shows "w_umask w' = w_umask w" "r = Err e \<Longrightarrow> w_tree w' = w_tree w"
    "r = Ok u \<Longrightarrow> \<exists>p q. locate (w_tree w) root old = Ok p \<and> locate (w_tree w) root new = Ok q \<and> map_of (w_tree w) p \<noteq> None \<and>
       p \<noteq> root \<and> q \<noteq> root \<and> (p = q \<and> w_tree w' = w_tree w \<or> p \<parallel> q \<and> w_tree w' = move_tree p q (w_tree w))"
  using assms by (auto simp: root_Rename_def os_call_def parallel_def strict_prefix_def
      split: prod.splits bool.splits sum.splits if_splits)

section \<open>Staying beneath the base directory\<close>

text \<open>The tree stays one, nothing outside the root changes, and the root itself stays.\<close>

definition confined :: "string list \<Rightarrow> tree \<Rightarrow> tree \<Rightarrow> bool" where
  "confined root t t' \<longleftrightarrow> wf_tree t' \<and> framed root t t' \<and> map_of t' root = map_of t root"

lemma confined_refl: "wf_tree t \<Longrightarrow> confined root t t"
  by (simp add: confined_def)

lemma confined_trans: "confined root t u \<Longrightarrow> confined root u v \<Longrightarrow> confined root t v"
  by (auto simp: confined_def intro: framed_trans)

lemma confined_RemoveAll:
  assumes "root_RemoveAll root p w = (r, w')" and "wf_tree (w_tree w)"
  shows "confined root (w_tree w) (w_tree w')"
proof -
  have up: "\<not> prefix q root" if "locate t root p = Ok q" "q \<noteq> root" for t q
    using locate_beneath [OF that(1)] that(2) prefix_order.antisym by blast
  have "map_of (w_tree w') root = map_of (w_tree w) root"
  proof (cases r)
    case (Inl e)
    then show ?thesis
      using root_RemoveAll_facts(2) [OF assms(1) Inl] up by (auto simp: map_of_remove_partly)
  next
    case (Inr u)
    then show ?thesis
      using root_RemoveAll_facts(3) [OF assms(1) Inr] up by (auto simp: map_of_remove_tree)
  qed
  then show ?thesis
    using root_RemoveAll_keeps(1,2) [OF assms] by (simp add: confined_def)
qed

lemma confined_MkdirAll:
  assumes "root_MkdirAll root p m w = (r, w')" and "wf_tree (w_tree w)" and "is_directory (map_of (w_tree w) root)"
  shows "confined root (w_tree w) (w_tree w')"
proof -
  have "dirs_added (prefix root) (w_tree w) (w_tree w')"
  proof -
    obtain cs where cs: "prefix cs (comps p)"
        "w_tree w' = snd (make_dirs (w_tree w) root (Directory (m AND NOT (w_umask w))) maxSymlinks root cs)"
      using root_MkdirAll_facts(2) [OF assms(1)] by blast
    have "\<forall>c \<in> set cs. slash \<notin> set c"
      using comps_noslash [of p] set_mono_prefix [OF cs(1)] by blast
    then show ?thesis
      using cs(2) make_dirs_added [OF assms(2,3)] by simp
  qed
  then show ?thesis
    using dirs_added_framed [of "prefix root"] grows_dir [OF dirs_added_grows assms(3)]
    by (auto simp: confined_def dirs_added_def)
qed

lemma confined_Rename:
  assumes "root_Rename root old new w = (r, w')" and "wf_tree (w_tree w)"
  shows "confined root (w_tree w) (w_tree w')"
proof (cases "w_tree w' = w_tree w")
  case False
  then obtain p q where pq: "locate (w_tree w) root old = Ok p" "locate (w_tree w) root new = Ok q"
      "p \<noteq> root" "q \<noteq> root" "p \<parallel> q" "w_tree w' = move_tree p q (w_tree w)"
    using root_Rename_facts(2,3) [OF assms(1)] by (cases r) auto
  have b: "prefix root p" "prefix root q"
    using pq(1,2) locate_beneath by blast+
  obtain d x where "q = d @ [x]" "is_directory (map_of (w_tree w) d)" "valid_name x"
    using locate_parent [OF pq(2,4)] by metis
  then have "wf_tree (w_tree w')"
    unfolding pq(6) using assms(2) pq(5) by (intro wf_tree_move)
  moreover have "framed root (w_tree w) (w_tree w')"
    unfolding framed_def pq(6) map_of_move [OF pq(5)] using b prefix_order.trans by auto
  moreover have "\<not> prefix p root" "\<not> prefix q root"
    using b pq(3,4) prefix_order.antisym by blast+
  ultimately show ?thesis
    by (simp add: confined_def pq(6) map_of_move [OF pq(5)])
qed (use assms(2) in \<open>simp add: confined_refl\<close>)

lemma confined_copy:
  assumes "copyPathWithBackend L b src dst w = (r, w')" and "wf_tree (w_tree w)" and "is_directory (map_of (w_tree w) (b_dst b))"
  shows "confined (b_dst b) (w_tree w) (w_tree w')"
proof -
  let ?R = "b_dst b"
  have top: "map_of (ctree s) ?R = map_of (w_tree w) ?R" "wf_tree (ctree s)"
    if v: "validateCopyLimits L = None" and c: "copyPath L b src dst 0 (copy_start w) = (e, s)" for e s
  proof -
    obtain t1 where t1: "dirs_added (prefix ?R) (w_tree w) t1"
      "within_limits L ?R ((copy_start w)\<lparr>cs_world := w\<lparr>w_tree := t1\<rparr>\<rparr>) s"
      using copyPath_top [of L b "copy_start w" dst "[]" src] v assms c
      by (auto simp: copy_start_def copy_ready_def validateCopyLimits_def split: if_splits)
    then have "grows (w_tree w) (ctree s)"
      using grows_trans [OF dirs_added_grows] by (auto simp: within_limits_def)
    then show "map_of (ctree s) ?R = map_of (w_tree w) ?R"
      using grows_dir assms(3) by blast
    show "wf_tree (ctree s)"
      using t1(2) by (simp add: within_limits_def)
  qed
  have "map_of (w_tree w') ?R = map_of (w_tree w) ?R"
    using assms(1)
  proof (cases rule: copyPathWithBackend_cases)
    case (3 e s x)
    show ?thesis
      using top [OF 3(1,2)] confined_RemoveAll [OF 3(4)] by (simp add: confined_def)
  qed (use top in auto)
  then show ?thesis
    using copyPathWithBackend_limits(1,2) [OF assms] by (simp add: confined_def)
qed

section \<open>The handlers\<close>

lemma openScopedPath_base:
  assumes "scope_ok fm" and "openScopedPath fs fm raw = Ok sp"
  shows "sp_base sp = fm_BaseDir fm" "inner_path (sp_rel sp)" "comps (sp_display sp) = comps (fm_BaseDir fm) @ comps (sp_rel sp)"
proof -
  note r = scope_ok_roots [OF assms(1)]
  obtain rel where d: "expand fs (scope fm) raw = Ok (sp_display sp)" "sp_base sp = fm_BaseDir fm"
      "Rel (fm_BaseDir fm) (sp_display sp) = Some (sp_rel sp)" "\<not> escapes (sp_rel sp)"
    using assms(2) r by (auto simp: openScopedPath_def split: sum.splits option.splits if_splits)
  have a: "IsAbs (sp_display sp)"
    using IsAbs_expand [OF _ d(1)] r by (simp add: scope_def)
  have c: "comps (sp_display sp) = comps (fm_BaseDir fm) @ comps (sp_rel sp)" "\<not> IsAbs (sp_rel sp)"
    using Rel_abs [of "fm_BaseDir fm" "sp_display sp"] r a d(3,4) by (auto split: if_splits)
  show "sp_base sp = fm_BaseDir fm" by (rule d(2))
  show "comps (sp_display sp) = comps (fm_BaseDir fm) @ comps (sp_rel sp)" by (rule c(1))
  show "inner_path (sp_rel sp)"
    using c comps_no_dotdot [OF a] by (simp add: inner_path_def)
qed

datatype file_op = OpMkdir "path_request option" | OpDelete "path_request option" | OpRename "move_request option" | OpCopy "move_request option"

fun handle_op :: "file_system \<Rightarrow> scope_fields \<Rightarrow> file_op \<Rightarrow> world \<Rightarrow> reply \<times> world" where
  "handle_op fs fm (OpMkdir m) w = HandleFileMkdir fs fm m w"
| "handle_op fs fm (OpDelete m) w = HandleFileDelete fs fm m w"
| "handle_op fs fm (OpRename m) w = HandleFileRename fs fm m w"
| "handle_op fs fm (OpCopy m) w = HandleFileCopyContext fs fm m w"

text \<open>The requests of a session, one after the other; the file system may answer each differently.\<close>

fun serve :: "scope_fields \<Rightarrow> (file_system \<times> file_op) list \<Rightarrow> world \<Rightarrow> reply list \<times> world" where
  "serve fm [] w = ([], w)"
| "serve fm ((fs, x) # ops) w =
     (case handle_op fs fm x w of (r, w1) \<Rightarrow> (case serve fm ops w1 of (rs, w2) \<Rightarrow> (r # rs, w2)))"

lemma send_simps [simp]: "snd (SendFileResult i e w) = w" "snd (send_call i (r, w)) = w"
  by (simp_all add: SendFileResult_def send_call_def split: sum.split)

lemma confined_send_call:
  "(\<And>r w'. call = (r, w') \<Longrightarrow> confined root t (w_tree w')) \<Longrightarrow> confined root t (w_tree (snd (send_call i call)))"
  by (cases call) simp

lemma confined_source_exists:
  assumes "wf_tree t" and "w_tree w = t" and "\<And>w1. w_tree w1 = t \<Longrightarrow> confined root t (w_tree (snd (k w1)))"
  shows "confined root t (w_tree (snd (source_exists i source k w)))"
  using assms root_Lstat_facts(1) [OF surjective_pairing, of "comps (sp_base source)" "sp_rel source" w]
  by (auto simp: source_exists_def confined_refl split: prod.split sum.split)

lemma confined_destination_free:
  assumes "wf_tree t" and "w_tree w = t" and "\<And>w1. w_tree w1 = t \<Longrightarrow> confined root t (w_tree (snd (k w1)))"
  shows "confined root t (w_tree (snd (destination_free i destination k w)))"
  using assms root_Lstat_facts(1) [OF surjective_pairing, of "comps (sp_base destination)" "sp_rel destination" w]
  by (auto simp: destination_free_def confined_refl split: prod.split sum.split)

lemma handle_op_confined:
  assumes ok: "scope_ok fm" and wf: "wf_tree (w_tree w)" "is_directory (map_of (w_tree w) (comps (fm_BaseDir fm)))"
  shows "confined (comps (fm_BaseDir fm)) (w_tree w) (w_tree (snd (handle_op fs fm x w)))"
proof -
  let ?R = "comps (fm_BaseDir fm)"
  note base = openScopedPath_base(1) [OF ok]
  show ?thesis
  proof (cases x)
    case (OpMkdir m)
    then show ?thesis
      using wf confined_MkdirAll [OF _ wf]
      by (auto simp: HandleFileMkdir_def OpenRootPath_def confined_refl base intro!: confined_send_call split: option.split sum.splits)
  next
    case (OpDelete m)
    then show ?thesis
      using wf confined_RemoveAll [OF _ wf(1)]
      by (auto simp: HandleFileDelete_def confined_refl base intro!: confined_send_call split: option.split sum.split)
  next
    case (OpRename m)
    have "confined ?R (w_tree w) (w_tree (snd (send_call i (root_Rename ?R old new w1))))" if "w_tree w1 = w_tree w" for i old new w1
      using confined_Rename [of ?R old new w1] wf(1) that by (intro confined_send_call) auto
    then show ?thesis
      using wf OpRename
      by (auto simp: HandleFileRename_def confined_refl base Let_def intro!: confined_source_exists confined_destination_free split: option.split sum.split)
  next
    case (OpCopy m)
    have c: "confined ?R (w_tree w) (w_tree w2)" if "copyPathWithBackend L \<lparr>b_src = S, b_dst = ?R\<rparr> a b w1 = (e, w2)" "w_tree w1 = w_tree w" for L S a b w1 e w2
      using confined_copy [OF that(1)] wf that(2) by simp
    have r: "confined ?R (w_tree w) (w_tree w2)" if "copyPathRecursiveRootContext L ?R a b w1 = (e, w2)" "w_tree w1 = w_tree w" for L a b w1 e w2
      using that c wf(1) by (auto simp: copyPathRecursiveRootContext_def confined_refl split: if_splits)
    show ?thesis
      using wf OpCopy c r
      by (auto simp: HandleFileCopyContext_def confined_refl base Let_def intro!: confined_source_exists confined_destination_free split: option.split sum.split prod.split)
  qed
qed

lemma serve_confined:
  assumes ok: "scope_ok fm"
  shows "wf_tree (w_tree w) \<Longrightarrow> is_directory (map_of (w_tree w) (comps (fm_BaseDir fm))) \<Longrightarrow>
    confined (comps (fm_BaseDir fm)) (w_tree w) (w_tree (snd (serve fm ops w)))"
proof (induction ops arbitrary: w)
  case (Cons f ops)
  obtain fs x where f: "f = (fs, x)" by fastforce
  have h: "confined (comps (fm_BaseDir fm)) (w_tree w) (w_tree (snd (handle_op fs fm x w)))"
    by (rule handle_op_confined [OF ok Cons.prems])
  then have "confined (comps (fm_BaseDir fm)) (w_tree (snd (handle_op fs fm x w))) (w_tree (snd (serve fm ops (snd (handle_op fs fm x w)))))"
    using Cons.prems by (intro Cons.IH) (auto simp: confined_def)
  from confined_trans [OF h this] show ?case
    by (simp add: f split_beta)
qed (simp add: confined_refl)

section \<open>Listings\<close>

definition visible :: "bool \<Rightarrow> dir_entry list \<Rightarrow> file_entry list" where
  "visible showHidden es =
     List.map_filter (\<lambda>e. if \<not> showHidden \<and> HasPrefix (de_Name e) ''.'' then None else map_option (to_entry e) (de_Info e)) es"

lemma visible_simps:
  "visible sh [] = []"
  "visible sh (e # es) = (if \<not> sh \<and> HasPrefix (de_Name e) ''.'' then visible sh es
     else case de_Info e of None \<Rightarrow> visible sh es | Some info \<Rightarrow> to_entry e info # visible sh es)"
  by (auto simp: visible_def List.map_filter_simps split: option.splits)

lemma visible_append: "visible sh (xs @ ys) = visible sh xs @ visible sh ys"
  by (induction xs) (auto simp: visible_simps split: option.splits)

text \<open>The size the loop keeps, given that of the reply without entries.\<close>

definition listed_size :: "(file_entry \<Rightarrow> int) \<Rightarrow> int \<Rightarrow> file_entry list \<Rightarrow> int" where
  "listed_size enc bare es = bare + (\<Sum>e\<leftarrow>es. enc e) + (if es = [] then 0 else int (length es) - 3)"

lemma listed_size_snoc:
  "listed_size enc bare (es @ [e]) = listed_size enc bare es + enc e + (if es = [] then - 2 else 1)"
  by (simp add: listed_size_def)

lemma list_batch_result:
  "list_batch enc sh es a = Ok a' \<Longrightarrow> int (length (la_entries a)) \<le> maxFileListEntries \<Longrightarrow> la_scanned a \<le> maxFileListScanned \<Longrightarrow>
   la_size a = listed_size enc bare (la_entries a) \<Longrightarrow> la_size a \<le> maxFileListResponseSize \<Longrightarrow>
   la_entries a' = la_entries a @ visible sh es \<and> la_scanned a' = la_scanned a + int (length es) \<and>
   int (length (la_entries a')) \<le> maxFileListEntries \<and> la_scanned a' \<le> maxFileListScanned \<and>
   la_size a' = listed_size enc bare (la_entries a') \<and> la_size a' \<le> maxFileListResponseSize"
proof (induction es arbitrary: a)
  case (Cons e es)
  let ?a = "a\<lparr>la_scanned := la_scanned a + 1\<rparr>"
  have sc: "la_scanned a + 1 \<le> maxFileListScanned"
    using Cons.prems(1) by (auto simp: Let_def split: if_splits)
  show ?case
  proof (cases "\<not> sh \<and> HasPrefix (de_Name e) ''.'' \<or> de_Info e = None")
    case True
    then have "list_batch enc sh es ?a = Ok a'" "visible sh (e # es) = visible sh es"
      using Cons.prems(1) sc by (auto simp: visible_simps Let_def split: if_splits)
    then show ?thesis
      using Cons.IH [of ?a] Cons.prems(2-) sc by auto
  next
    case False
    then obtain info where i: "de_Info e = Some info" "sh \<or> \<not> HasPrefix (de_Name e) ''.''" by auto
    let ?n = "la_size a + enc (to_entry e info) + (if la_entries a = [] then - 2 else 1)"
    let ?b = "?a\<lparr>la_entries := la_entries a @ [to_entry e info], la_size := ?n\<rparr>"
    have b: "list_batch enc sh es ?b = Ok a'" "int (length (la_entries a)) < maxFileListEntries" "?n \<le> maxFileListResponseSize"
      using Cons.prems(1) i sc by (auto simp: Let_def split: if_splits)
    have "visible sh (e # es) = to_entry e info # visible sh es"
      using i by (simp add: visible_simps)
    then show ?thesis
      using Cons.IH [OF b(1)] b(2,3) sc Cons.prems(4) by (auto simp: listed_size_snoc)
  qed
qed (simp add: visible_simps)

lemma list_loop_result:
  "list_loop enc sh rest a w = (Ok a', w') \<Longrightarrow> int (length (la_entries a)) \<le> maxFileListEntries \<Longrightarrow> la_scanned a \<le> maxFileListScanned \<Longrightarrow>
   la_size a = listed_size enc bare (la_entries a) \<Longrightarrow> la_size a \<le> maxFileListResponseSize \<Longrightarrow>
   la_entries a' = la_entries a @ visible sh rest \<and> la_scanned a' = la_scanned a + int (length rest) \<and>
   int (length (la_entries a')) \<le> maxFileListEntries \<and> la_scanned a' \<le> maxFileListScanned \<and>
   la_size a' = listed_size enc bare (la_entries a')"
proof (induction "length rest" arbitrary: rest a w rule: less_induct)
  case less
  obtain batch rest' e w1 where dl: "deliver (nat maxFileListReadBatch) rest w = ((batch, rest', e), w1)"
    by (metis surj_pair)
  note D = deliver_facts [OF dl]
  obtain b where b: "list_batch enc sh batch a = Ok b"
    using less.prems(1) by (subst (asm) list_loop.simps) (auto simp: dl split: sum.splits)
  note B = list_batch_result [OF b less.prems(2-)]
  show ?case
  proof (cases e)
    case More
    then have "list_loop enc sh rest' b w1 = (Ok a', w')" "batch \<noteq> []"
      using less.prems(1) by (subst (asm) list_loop.simps; simp add: dl b split: if_splits)+
    then show ?thesis
      using less.hyps [of rest' b w1] B D(1) by (auto simp: visible_append)
  next
    case AtEOF
    then have "a' = b"
      using less.prems(1) by (subst (asm) list_loop.simps) (simp add: dl b)
    then show ?thesis
      using B D(1) D(5) [OF AtEOF] by (auto simp: visible_simps)
  next
    case (ReadFails x)
    then show ?thesis
      using less.prems(1) by (subst (asm) list_loop.simps) (simp add: dl b)
  qed
qed

lemma readBounded_result:
  assumes "readBoundedFileEntries enc empty_size dir sh i p w = (Ok es, w')"
  shows "es = visible sh dir" "int (length es) \<le> maxFileListEntries" "int (length dir) \<le> maxFileListScanned"
proof -
  obtain a where a: "list_loop enc sh dir \<lparr>la_entries = [], la_size = empty_size i p, la_scanned = 0\<rparr> w = (Ok a, w')" "es = la_entries a"
    "empty_size i p \<le> maxFileListResponseSize"
    using assms by (auto simp: readBoundedFileEntries_def split: if_splits prod.splits sum.splits)
  show "es = visible sh dir" "int (length es) \<le> maxFileListEntries" "int (length dir) \<le> maxFileListScanned"
    using list_loop_result [OF a(1), of "empty_size i p"] a(2,3) by (auto simp: listed_size_def maxFileListEntries_def maxFileListScanned_def)
qed

section \<open>What the replies say\<close>

lemma sameRoot_comps:
  assumes "sameRoot a b"
  shows "comps a = comps b"
proof -
  obtain us vs where sc: "strip_common (comps a) (comps b) = (us, vs)" by fastforce
  obtain zs where z: "comps a = zs @ us" "comps b = zs @ vs"
    using strip_common_eq [OF sc] by blast
  have r: "us = [] \<and> vs = [] \<or> dotdot \<notin> set us \<and> Join (replicate (length us) dotdot @ vs) ''/'' = dot"
    using assms sc by (auto simp: sameRoot_def Rel_def split: if_splits)
  have "us = [] \<and> vs = []"
  proof (rule ccontr)
    assume n: "\<not> (us = [] \<and> vs = [])"
    let ?ws = "replicate (length us) dotdot @ vs"
    have s: "\<forall>w \<in> set ?ws. slash \<notin> set w \<and> w \<noteq> dot"
      using clean_listD(1) [OF clean_list_comps [of b]] z(2) by auto
    have "SplitByte slash (Join ?ws ''/'') = ?ws"
      using n s by (intro SplitByte_Join) auto
    moreover have "SplitByte slash dot = [dot]"
      by (simp add: SplitByte_plain)
    ultimately have "?ws = [dot]"
      using r n by auto
    then show False using s by auto
  qed
  with z show ?thesis by simp
qed

lemma root_Lstat_missing:
  "root_Lstat root p w = (Inl NotExist, w') \<Longrightarrow> locate (w_tree w) root p = Ok q \<Longrightarrow> map_of (w_tree w) q = None"
  by (auto simp: root_Lstat_def os_call_def split: prod.splits bool.splits option.splits)

lemma source_exists_result:
  assumes "source_exists i source k w = (Some fr, w')"
  shows "(\<exists>e. fr_Error fr = Some e) \<and> w_tree w' = w_tree w \<or> (\<exists>w1. w_tree w1 = w_tree w \<and> k w1 = (Some fr, w'))"
proof -
  obtain r w1 where l: "root_Lstat (comps (sp_base source)) (sp_rel source) w = (r, w1)" by fastforce
  show ?thesis
    using assms root_Lstat_facts(1) [OF l] by (cases r) (auto simp: source_exists_def l SendFileResult_def)
qed

lemma destination_free_result:
  assumes "destination_free i destination k w = (Some fr, w')"
  shows "(\<exists>e. fr_Error fr = Some e) \<and> w_tree w' = w_tree w \<or> (\<exists>w1. w_tree w1 = w_tree w \<and> k w1 = (Some fr, w') \<and>
    (\<forall>q. locate (w_tree w) (comps (sp_base destination)) (sp_rel destination) = Ok q \<longrightarrow> map_of (w_tree w) q = None))"
proof -
  obtain r w1 where l: "root_Lstat (comps (sp_base destination)) (sp_rel destination) w = (r, w1)" by fastforce
  have "r = Inl NotExist \<Longrightarrow> locate (w_tree w) (comps (sp_base destination)) (sp_rel destination) = Ok q \<Longrightarrow> map_of (w_tree w) q = None" for q
    using root_Lstat_missing l by blast
  then show ?thesis
    using assms root_Lstat_facts(1) [OF l]
    by (cases r) (auto simp: destination_free_def l SendFileResult_def split: if_splits)
qed

lemma send_call_result:
  "send_call i (r, w) = (Some fr, w') \<Longrightarrow> w' = w \<and> fr_Error fr = (case r of Inl e \<Rightarrow> Some (OsError e) | Inr _ \<Rightarrow> None)"
  by (auto simp: send_call_def SendFileResult_def split: sum.splits)

section \<open>Properties\<close>

text \<open>
  C14. No file request touches anything outside the directory the file root mode allows. For a manager
  made at startup and switched between modes any number of times, any sequence of make, delete, rename
  and copy requests, well formed or not, with any calls failing and any links in the tree, leaves every
  file and directory outside the base directory as it was, and the base directory itself in place.
\<close>

theorem file_requests_confined:
  assumes "\<forall>fs \<in> set (fs0 # map fst changes). dirs_absolute fs"
    and "fm = foldl (\<lambda>fm (fs, m). snd (SetRootMode fs m fm)) (NewManager fs0 m0) changes"
    and "wf_tree (w_tree w)" and "is_directory (map_of (w_tree w) (comps (fm_BaseDir fm)))"
    and "serve fm ops w = (replies, w')"
  shows "wf_tree (w_tree w') \<and> framed (comps (fm_BaseDir fm)) (w_tree w) (w_tree w') \<and>
    map_of (w_tree w') (comps (fm_BaseDir fm)) = map_of (w_tree w) (comps (fm_BaseDir fm))"
  using serve_confined [of fm w ops] managers_ok [OF assms(1)] assms(2-5) by (simp add: confined_def)

definition demo_move :: "string \<Rightarrow> string \<Rightarrow> move_request" where
  "demo_move a b = \<lparr>mv_RequestID = ''1'', mv_From = a, mv_To = b\<rparr>"

definition demo_path :: "string \<Rightarrow> path_request" where
  "demo_path a = \<lparr>pr_RequestID = ''2'', pr_Path = a\<rparr>"

lemma demo_base: "comps (fm_BaseDir demo_manager) = [''h'']"
  by code_simp

theorem file_requests_confined_witness:
  "\<exists>replies w'. serve demo_manager
      [(demo_fs, OpCopy (Some (demo_move ''a'' ''/h/x/c''))), (demo_fs, OpDelete (Some (demo_path ''/h/../h/a''))), (demo_fs, OpMkdir None)]
      (demo_world 99) = (replies, w') \<and>
    length replies = 3 \<and> framed [''h''] demo_tree (w_tree w') \<and> map_of (w_tree w') [''h''] = Some (Directory 493)"
proof -
  let ?ops = "[(demo_fs, OpCopy (Some (demo_move ''a'' ''/h/x/c''))), (demo_fs, OpDelete (Some (demo_path ''/h/../h/a''))), (demo_fs, OpMkdir None)]"
  obtain replies w' where run: "serve demo_manager ?ops (demo_world 99) = (replies, w')" by fastforce
  have n: "length replies = 3"
    using run by (auto split: prod.splits)
  have t: "w_tree (demo_world 99) = demo_tree" "map_of demo_tree [''h''] = Some (Directory 493)"
    by (simp add: demo_world_def) code_simp
  have d: "\<forall>fs \<in> set (demo_fs # map fst demo_changes). dirs_absolute fs"
    using demo_dirs by (simp add: demo_changes_def)
  show ?thesis
    using file_requests_confined [OF d demo_manager_def _ _ run] demo_facts(1,2) [of 99] run n t by (simp add: demo_base)
qed

text \<open>
  C22. A rename moves the whole subtree or does nothing. When it is acknowledged, the source named by
  the request existed, nothing existed at the destination, neither lies within the other, and
  afterwards every path beneath the destination holds what the corresponding path beneath the source
  held, nothing is left at the source and everything else is as before. When it is refused, the tree
  is unchanged.
\<close>

theorem rename_moves:
  assumes "wf_tree (w_tree w)" and "HandleFileRename fs fm (Some req) w = (Some fr, w')"
  shows "case fr_Error fr of
      Some e \<Rightarrow> w_tree w' = w_tree w
    | None \<Rightarrow> \<exists>source destination p q.
        openScopedPath fs fm (mv_From req) = Ok source \<and> openScopedPath fs fm (mv_To req) = Ok destination \<and> sp_rel source \<noteq> dot \<and>
        locate (w_tree w) (comps (sp_base source)) (sp_rel source) = Ok p \<and>
        locate (w_tree w) (comps (sp_base source)) (sp_rel destination) = Ok q \<and>
        map_of (w_tree w) p \<noteq> None \<and> map_of (w_tree w) q = None \<and> p \<parallel> q \<and>
        (\<forall>y. map_of (w_tree w') y =
          (if prefix q y then map_of (w_tree w) (p @ drop (length q) y) else if prefix p y then None else map_of (w_tree w) y))"
proof (cases "fr_Error fr")
  case None
  obtain source destination where o: "openScopedPath fs fm (mv_From req) = Ok source" "openScopedPath fs fm (mv_To req) = Ok destination"
    "sp_rel source \<noteq> dot" "sameRoot (sp_base source) (sp_base destination)"
    using assms(2) None by (auto simp: HandleFileRename_def Let_def SendFileResult_def split: sum.splits if_splits)
  let ?R = "comps (sp_base source)"
  have R: "comps (sp_base destination) = ?R"
    using sameRoot_comps [OF o(4)] by simp
  have run: "source_exists (mv_RequestID req) source (destination_free (mv_RequestID req) destination
      (\<lambda>w. send_call (mv_RequestID req) (root_Rename ?R (sp_rel source) (sp_rel destination) w))) w = (Some fr, w')"
    using assms(2) o by (simp add: HandleFileRename_def)
  obtain w1 where w1: "w_tree w1 = w_tree w"
    "send_call (mv_RequestID req) (root_Rename ?R (sp_rel source) (sp_rel destination) w1) = (Some fr, w')"
    "\<And>q. locate (w_tree w) ?R (sp_rel destination) = Ok q \<Longrightarrow> map_of (w_tree w) q = None"
    using source_exists_result [OF run] destination_free_result None R by fastforce
  obtain r w2 where rr: "root_Rename ?R (sp_rel source) (sp_rel destination) w1 = (r, w2)" by fastforce
  have rn: "root_Rename ?R (sp_rel source) (sp_rel destination) w1 = (r, w')" "r = Ok ()"
    using rr send_call_result [OF w1(2) [unfolded rr]] None by (auto split: sum.splits)
  obtain p q where pq: "locate (w_tree w) ?R (sp_rel source) = Ok p" "locate (w_tree w) ?R (sp_rel destination) = Ok q" "map_of (w_tree w) p \<noteq> None"
    "p = q \<and> w_tree w' = w_tree w \<or> p \<parallel> q \<and> w_tree w' = move_tree p q (w_tree w)"
    using root_Rename_facts(3) [OF rn] w1(1) by auto
  have q: "map_of (w_tree w) q = None"
    using w1(3) [OF pq(2)] .
  then have m: "p \<parallel> q" "w_tree w' = move_tree p q (w_tree w)"
    using pq(3,4) by auto
  show ?thesis
    using None o pq q m map_of_move [OF m(1)] by auto
next
  case (Some e)
  show ?thesis
  proof (cases "\<exists>source destination. openScopedPath fs fm (mv_From req) = Ok source \<and> openScopedPath fs fm (mv_To req) = Ok destination \<and>
      sp_rel source \<noteq> dot \<and> sameRoot (sp_base source) (sp_base destination)")
    case True
    then obtain source destination where o: "openScopedPath fs fm (mv_From req) = Ok source" "openScopedPath fs fm (mv_To req) = Ok destination"
      "sp_rel source \<noteq> dot" "sameRoot (sp_base source) (sp_base destination)" by blast
    have run: "source_exists (mv_RequestID req) source (destination_free (mv_RequestID req) destination
        (\<lambda>w. send_call (mv_RequestID req) (root_Rename (comps (sp_base source)) (sp_rel source) (sp_rel destination) w))) w = (Some fr, w')"
      using assms(2) o by (simp add: HandleFileRename_def)
    have "w_tree w' = w_tree w1" if "send_call i (root_Rename root old new w1) = (Some fr, w')" for i root old new w1
    proof -
      obtain r w2 where rr: "root_Rename root old new w1 = (r, w2)" by fastforce
      show ?thesis
        using send_call_result [OF that [unfolded rr]] Some root_Rename_facts(2) [OF rr] by (auto split: sum.splits)
    qed
    then show ?thesis
      using source_exists_result [OF run] destination_free_result Some by fastforce
  next
    case False
    then show ?thesis
      using assms(2) Some by (auto simp: HandleFileRename_def Let_def SendFileResult_def split: sum.splits if_splits)
  qed
qed

theorem rename_moves_witness:
  "\<exists>fr w'. HandleFileRename demo_fs demo_manager (Some (demo_move ''~/a'' ''b'')) (demo_world 99) = (Some fr, w') \<and> fr_Error fr = None \<and>
     map_of (w_tree w') [''h'', ''b'', ''f''] = Some (RegularFile 420 ''hello'') \<and> map_of (w_tree w') [''h'', ''a''] = None"
proof -
  let ?run = "HandleFileRename demo_fs demo_manager (Some (demo_move ''~/a'' ''b'')) (demo_world 99)"
  have e: "map_option fr_Error (fst ?run) = Some None" by code_simp
  then obtain fr w' where run: "?run = (Some fr, w')" "fr_Error fr = None"
    by (cases ?run) auto
  have o: "openScopedPath demo_fs demo_manager ''~/a'' = Ok \<lparr>sp_base = ''/h'', sp_rel = ''a'', sp_display = ''/h/a''\<rparr>"
    "openScopedPath demo_fs demo_manager ''b'' = Ok \<lparr>sp_base = ''/h'', sp_rel = ''b'', sp_display = ''/h/b''\<rparr>"
    by code_simp+
  have t: "w_tree (demo_world 99) = demo_tree" by (simp add: demo_world_def)
  have l: "locate demo_tree (comps ''/h'') ''a'' = Ok [''h'', ''a'']" "locate demo_tree (comps ''/h'') ''b'' = Ok [''h'', ''b'']"
    "map_of demo_tree [''h'', ''a'', ''f''] = Some (RegularFile 420 ''hello'')"
    by code_simp+
  show ?thesis
    using rename_moves [OF demo_facts(1) run(1)] run o l t by (simp add: demo_move_def)
qed

text \<open>
  C23. A delete touches only the subtree the request names, never the base directory. When it is
  acknowledged, either the path did not exist, and the tree is unchanged, or everything at and beneath
  it is gone and everything else is as before. When the reply is an error, the removal may have stopped
  half way: then still nothing outside that subtree has changed, each entry in it is as it was or gone,
  and an entry that is left still has the directories above it.
\<close>

theorem delete_removes:
  assumes "HandleFileDelete fs fm (Some req) w = (Some fr, w')"
  shows "case fr_Error fr of
      Some e \<Rightarrow> w_tree w' = w_tree w \<or> (\<exists>target q. openScopedPath fs fm (pr_Path req) = Ok target \<and>
         locate (w_tree w) (comps (sp_base target)) (sp_rel target) = Ok q \<and> strict_prefix (comps (sp_base target)) q \<and>
         (\<forall>y. map_of (w_tree w') y = map_of (w_tree w) y \<or> prefix q y \<and> map_of (w_tree w') y = None) \<and>
         (\<forall>y z. map_of (w_tree w') (y @ z) \<noteq> None \<longrightarrow> map_of (w_tree w') y = map_of (w_tree w) y))
    | None \<Rightarrow> \<exists>target. openScopedPath fs fm (pr_Path req) = Ok target \<and> sp_rel target \<noteq> dot \<and>
        (locate (w_tree w) (comps (sp_base target)) (sp_rel target) = Err NotExist \<and> w_tree w' = w_tree w \<or>
         (\<exists>q. locate (w_tree w) (comps (sp_base target)) (sp_rel target) = Ok q \<and> strict_prefix (comps (sp_base target)) q \<and>
           (\<forall>y. map_of (w_tree w') y = (if prefix q y then None else map_of (w_tree w) y))))"
proof (cases "\<exists>target. openScopedPath fs fm (pr_Path req) = Ok target \<and> sp_rel target \<noteq> dot")
  case True
  then obtain target where t: "openScopedPath fs fm (pr_Path req) = Ok target" "sp_rel target \<noteq> dot" by blast
  let ?R = "comps (sp_base target)"
  obtain r w1 where c: "root_RemoveAll ?R (sp_rel target) w = (r, w1)" by fastforce
  have s: "w' = w1" "fr_Error fr = (case r of Inl e \<Rightarrow> Some (OsError e) | Inr _ \<Rightarrow> None)"
    using assms t send_call_result [of "pr_RequestID req" r w1] by (auto simp: HandleFileDelete_def c)
  have below: "strict_prefix ?R q" if "locate (w_tree w) ?R (sp_rel target) = Ok q" "q \<noteq> ?R" for q
    using that locate_beneath by (auto simp: strict_prefix_def)
  show ?thesis
  proof (cases r)
    case (Inl e)
    have "w_tree w' = w_tree w \<or> (\<exists>q. locate (w_tree w) ?R (sp_rel target) = Ok q \<and> strict_prefix ?R q \<and>
        partly_removed q (w_tree w) (w_tree w'))"
      using root_RemoveAll_facts(2) [OF c Inl] below s(1) remove_partly_removed by auto
    then show ?thesis
      using Inl s t(1) unfolding partly_removed_def by auto
  next
    case (Inr u)
    show ?thesis
      using below Inr s t root_RemoveAll_facts(3) [OF c Inr] by (auto simp: map_of_remove_tree)
  qed
next
  case False
  then show ?thesis
    using assms by (auto simp: HandleFileDelete_def SendFileResult_def split: sum.splits if_splits)
qed

theorem delete_removes_witness:
  "\<exists>fr w'. HandleFileDelete demo_fs demo_manager (Some (demo_path ''a'')) (demo_world 99) = (Some fr, w') \<and> fr_Error fr = None \<and>
     map_of (w_tree w') [''h'', ''a'', ''f''] = None \<and> map_of (w_tree w') [''h''] = Some (Directory 493)"
proof -
  let ?run = "HandleFileDelete demo_fs demo_manager (Some (demo_path ''a'')) (demo_world 99)"
  have e: "map_option fr_Error (fst ?run) = Some None" by code_simp
  then obtain fr w' where run: "?run = (Some fr, w')" "fr_Error fr = None"
    by (cases ?run) auto
  have o: "openScopedPath demo_fs demo_manager ''a'' = Ok \<lparr>sp_base = ''/h'', sp_rel = ''a'', sp_display = ''/h/a''\<rparr>"
    by code_simp
  have t: "w_tree (demo_world 99) = demo_tree" by (simp add: demo_world_def)
  have l: "locate demo_tree (comps ''/h'') ''a'' = Ok [''h'', ''a'']" "map_of demo_tree [''h''] = Some (Directory 493)"
    by code_simp+
  show ?thesis
    using delete_removes [OF run(1)] run o l t by (auto simp: demo_path_def)
qed

text \<open>A delete that fails half way: \<open>/h/a/f\<close> is gone, \<open>/h/a/d\<close> could not be removed.\<close>

lemma delete_can_stop_halfway:
  "case HandleFileDelete demo_fs demo_manager (Some (demo_path ''a'')) ((demo_world 0)\<lparr>w_stuck := (\<lambda>i p. last p = ''d'')\<rparr>) of
     (r, w') \<Rightarrow> map_option fr_Error r = Some (Some (OsError OtherFailure)) \<and>
       map_of (w_tree w') [''h'', ''a'', ''f''] = None \<and> map_of (w_tree w') [''h'', ''a'', ''d''] = Some (Directory 448)"
  by code_simp

text \<open>
  C24. A directory listing is complete or an error, and bounded. A reply without an error holds exactly
  the visible entries of the directory the request names, in the order the system lists them, at most
  5000 of at most 20000, and its JSON text is at most 4 MiB; a reply with an error holds no entry.
\<close>

theorem listing_complete_or_error:
  assumes "HandleFileList payload enc listing fs fm (Some req) w = (Some rl, w')"
  shows "case fl_Error rl of
      Some e \<Rightarrow> fl_Entries rl = []
    | None \<Rightarrow> \<exists>base rel display q.
        OpenRootPath fs fm (lr_Path req) = Ok (base, rel, display) \<and> fl_RequestID rl = lr_RequestID req \<and> fl_Path rl = display \<and>
        resolve (w_tree w) (comps base) maxSymlinks (comps base) (comps rel) = Ok q \<and> is_directory (map_of (w_tree w) q) \<and>
        fl_Entries rl = visible (lr_ShowHidden req) (listing q) \<and> length (fl_Entries rl) \<le> 5000 \<and> length (listing q) \<le> 20000 \<and>
        payload rl \<le> 4 * 1024 * 1024"
proof -
  have send: "fl_Error (sendFileListed payload i p es e) \<noteq> None \<and> fl_Entries (sendFileListed payload i p es e) = [] \<or>
      sendFileListed payload i p es e = \<lparr>fl_RequestID = i, fl_Path = p, fl_Entries = es, fl_Error = e\<rparr> \<and>
      payload (sendFileListed payload i p es e) \<le> 4 * 1024 * 1024" for i p es e
    by (auto simp: sendFileListed_def maxFileListResponseSize_def Let_def)
  have refused: ?thesis if "rl = sendFileListed payload i p [] (Some e)" for i p e
    using send [of i p "[]" "Some e"] that by (auto split: option.split)
  show ?thesis
  proof (cases "OpenRootPath fs fm (lr_Path req)")
    case (Inl e)
    then show ?thesis
      using assms by (intro refused [of "lr_RequestID req" "lr_Path req" "ListPath e"]) (simp add: HandleFileList_def)
  next
    case (Inr x)
    obtain base rel display where b: "OpenRootPath fs fm (lr_Path req) = Ok (base, rel, display)"
      using Inr by (cases x) auto
    obtain h w1 where o: "root_Open (comps base) rel w = (h, w1)" by fastforce
    show ?thesis
    proof (cases "\<exists>names. h = Ok (DirHandle names)")
      case False
      then have "\<exists>e. rl = sendFileListed payload (lr_RequestID req) display [] (Some e)"
        using assms b o by (cases h; cases "projr h") (auto simp: HandleFileList_def)
      then show ?thesis
        using refused by blast
    next
      case True
      then obtain names where h: "h = Ok (DirHandle names)" by blast
      obtain q where q: "resolve (w_tree w) (comps base) maxSymlinks (comps base) (comps rel) = Ok q" "is_directory (map_of (w_tree w) q)"
        using root_Open_facts(3) [OF o h] by auto
      let ?read = "readBoundedFileEntries enc (\<lambda>i p. payload \<lparr>fl_RequestID = i, fl_Path = p, fl_Entries = [], fl_Error = None\<rparr>)
          (listing q) (lr_ShowHidden req) (lr_RequestID req) display w1"
      obtain r w2 where rd: "?read = (r, w2)" by fastforce
      have rl: "rl = (case r of Inl e \<Rightarrow> sendFileListed payload (lr_RequestID req) display [] (Some e)
          | Inr es \<Rightarrow> sendFileListed payload (lr_RequestID req) display es None)"
        using assms b o h q rd by (auto simp: HandleFileList_def split: sum.splits)
      show ?thesis
      proof (cases r)
        case (Inr es)
        note R = readBounded_result [OF rd [unfolded Inr]]
        show ?thesis
          using send [of "lr_RequestID req" display es None] rl Inr R b q
          by (auto simp: maxFileListEntries_def maxFileListScanned_def)
      qed (use rl refused in simp)
    qed
  qed
qed

definition demo_listing :: "dir_entry list" where
  "demo_listing =
     [\<lparr>de_Name = ''f'', de_IsDir = False, de_Info = Some \<lparr>fi_Size = 5, fi_Mode = ''-rw-r--r--'', fi_ModTime = ''t''\<rparr>\<rparr>,
      \<lparr>de_Name = ''.x'', de_IsDir = False, de_Info = Some \<lparr>fi_Size = 0, fi_Mode = ''-rw-------'', fi_ModTime = ''t''\<rparr>\<rparr>,
      \<lparr>de_Name = ''d'', de_IsDir = True, de_Info = Some \<lparr>fi_Size = 0, fi_Mode = ''drwx------'', fi_ModTime = ''t''\<rparr>\<rparr>]"

theorem listing_complete_or_error_witness:
  "\<exists>rl w'. HandleFileList (\<lambda>l. 90 + int (length (fl_Entries l)) * 60) (\<lambda>e. 59) (\<lambda>q. demo_listing) demo_fs demo_manager
       (Some \<lparr>lr_RequestID = ''1'', lr_Path = ''a'', lr_ShowHidden = False\<rparr>) (demo_world 99) = (Some rl, w') \<and>
     map fe_Name (fl_Entries rl) = [''f'', ''d''] \<and> fl_Error rl = None"
proof -
  let ?run = "HandleFileList (\<lambda>l. 90 + int (length (fl_Entries l)) * 60) (\<lambda>e. 59) (\<lambda>q. demo_listing) demo_fs demo_manager
       (Some \<lparr>lr_RequestID = ''1'', lr_Path = ''a'', lr_ShowHidden = False\<rparr>) (demo_world 99)"
  have e: "map_option fl_Error (fst ?run) = Some None" by code_simp
  then obtain rl w' where run: "?run = (Some rl, w')" "fl_Error rl = None"
    by (cases ?run) auto
  have v: "map fe_Name (visible False demo_listing) = [''f'', ''d'']" by code_simp
  show ?thesis
    using listing_complete_or_error [OF run(1)] run v by auto
qed

end
