(* ===== verification/Spec2Isabelle.thy ===== *)
theory Spec2Isabelle
  imports TelemetryDelivery SelfUpdateInstall SettingsHub Reconnect FileTransfer FileManage
begin

text \<open>
  A verification development for the LabTether agent, a Go daemon that runs on managed hosts and
  keeps one WebSocket to a Hub. The Hub asks it to run commands, read and write files, change
  settings and open remote sessions; the agent sends telemetry, heartbeats and replies. Paths below
  are relative to \<open>src/internal\<close>.

  \<^bold>\<open>The parts and how they interact\<close>

  \<^item> The \<^emph>\<open>identity\<close> (\<open>agentcore/runtime_identity.go\<close>) holds the token, device ID, asset ID and Hub
    addresses behind a generation number. \<^emph>\<open>Enrollment\<close> (\<open>enroll.go\<close>, \<open>enrollment_state.go\<close>,
    \<open>enrollment_token_consumed.go\<close>) obtains the token, stores it, and decides at start whether a
    stored token may be sent to the configured Hub.
  \<^item> The \<^emph>\<open>transport\<close> (\<open>ws_transport.go\<close>, \<open>ws_session_transport.go\<close>, \<open>enrollment_ws_handler.go\<close>) owns the
    socket, takes a snapshot of the identity for every connection and hands out senders bound to one
    socket. The \<^emph>\<open>reconnect loop\<close> (\<open>ws_reconnect.go\<close>, \<open>ws_connect_reason.go\<close>) drives it.
  \<^item> The \<^emph>\<open>replay buffer\<close> (\<open>ring_buffer.go\<close>) keeps telemetry that could not be sent.
    \<^emph>\<open>Telemetry delivery\<close> (\<open>telemetry_delivery.go\<close>, \<open>publishOnce\<close> of \<open>runtime.go\<close>) queues every reading
    there and replays it over one session.
  \<^item> \<^emph>\<open>Self-update\<close> (\<open>self_update*.go\<close>) asks the Hub for a release, checks and installs it, and rolls it
    back when the new binary never reaches the Hub.
  \<^item> \<^emph>\<open>Settings\<close> (\<open>sysconfig/settings_*.go\<close>, \<open>settings_*.go\<close>, \<open>config_persist.go\<close>, the settings part of
    \<open>config.go\<close>) are pushed by the Hub, saved, applied while the agent runs or by a restart, and bounded by
    what the installation chose. One of them moves the scope of the file service.
  \<^item> The \<^emph>\<open>command policy\<close> (\<open>securityruntime/command*.go\<close>, \<open>child_env.go\<close>) decides which command lines and
    programs run and with which environment. The \<^emph>\<open>outbound policy\<close> (\<open>securityruntime/outbound*.go\<close>)
    decides which URLs and addresses the agent connects to on behalf of a request.
  \<^item> The \<^emph>\<open>file service\<close> (\<open>agentcore/files\<close>) confines request paths to the allowed roots, streams files
    out, receives uploads in chunks, and lists, creates, deletes, renames and copies through handles on
    the root directory (\<open>handler.go\<close>, \<open>copy.go\<close>, \<open>mkdir_parent.go\<close>).

  \<^bold>\<open>Theories\<close>

  \<^item> \<open>Prelude\<close>: result types, reachability, the locales \<open>invariant_system\<close> and \<open>event_run\<close> the stateful
    components interpret, list and index arithmetic.
  \<^item> \<open>GoStrings\<close>, \<open>GoPath\<close>, \<open>GoURL\<close>, \<open>GoNet\<close>, \<open>GoNetip\<close>, \<open>GoBase64\<close>, \<open>GoEncoding\<close>: what the source uses of Go's
    \<open>strings\<close>, \<open>path/filepath\<close>, \<open>net/url\<close>, \<open>net\<close>, \<open>net/netip\<close>, \<open>encoding/base64\<close>, \<open>encoding/hex\<close> and \<open>strconv\<close>.
  \<^item> \<open>RingBuffer\<close>: the buffer as a record with the two critical sections of \<open>Flush\<close> apart, so that
    pushes and drains run during a send; an abstract queue and the refinement to it. \<open>TelemetryDelivery\<close>:
    the replay callback over a transport that other goroutines step, and the publishing loop.
  \<^item> \<open>SelfUpdate\<close>: release URLs, token audience, metadata, versions, signature payload.
    \<open>SelfUpdateInstall\<close>: the whole check, the disk it leaves, and the life of an update across starts.
  \<^item> \<open>Settings\<close>: the table, the normal forms and the settings file. \<open>SettingsApply\<close>: pushes, updates,
    restarts and starts as operations on one state. \<open>SettingsHub\<close>: runs of messages and restarts.
  \<^item> \<open>CommandLine\<close>, \<open>CommandPolicy\<close>: the parser as a state machine over runes, the allow and block
    rules, the read-only rules, the child environment. \<open>Outbound\<close>: host and URL checks, the validated
    dial, and clients that follow redirects while the resolver may change its answers.
  \<^item> \<open>HubIdentity\<close>, \<open>Enrollment\<close>, \<open>Transport\<close>, \<open>Reconnect\<close>: one record per component and one definition
    per operation, with other goroutines' steps between the sections where the code drops its lock.
  \<^item> \<open>FileScope\<close>: request paths, allowed roots and symbolic-link containment. \<open>Upload\<close>: the upload
    path section by section. \<open>UploadSteps\<close>: the interleaving of any number of calls and its invariant.
    \<open>FileRead\<close>: the streaming loop. \<open>FileTransfer\<close>: both together.
  \<^item> \<open>OsRoot\<close>: a tree of files, directories and links, \<open>os.Root\<close> as the operations on it, and the faults
    any call may meet. \<open>FileCopy\<close>: \<open>copy.go\<close> and \<open>mkdir_parent.go\<close> over it, with rules for the ways a step may
    end. \<open>FileCopyExact\<close>: what a whole copy leaves behind. \<open>FileManage\<close>: the handlers of requests.

  \<^bold>\<open>What is shown\<close>

  \<^item> Buffer: a removal after a send removes exactly what was sent, whatever ran meanwhile; a flush
    delivers in order and refines the abstract queue; the storage invariant. Telemetry: a replay stays
    on one socket under reconnects; while everything fits in the buffer and nobody drains it, a reading
    stays buffered until it is settled, and reaches the Hub by a replay over a working connection.
  \<^item> Updates: the installed bytes were downloaded for fetched and checked metadata that names their
    digest, and which is signed when there is a key; the signed payload determines the signed fields; the token goes to the Hub's origin only; versions
    compare numerically; an update that never reaches the Hub is rolled back, a confirmed one is kept.
  \<^item> Settings: no message of the Hub changes a local or install-time choice, also across restarts, but
    for a CA file left open at enrolment; a pushed value, apart from the Docker endpoint and the scan
    ranges, is reported and survives a restart; the intervals in force are bounded; the scope of the file
    service follows its setting unless a push failed. Weak spots are shown as lemmas beside these.
  \<^item> Commands: accepted lines are literal; an interpreter's arguments are fixed by configuration
    when its rules are in ASCII, and need not be otherwise; while the allowlist is on, file readers stay
    off the protected paths; quoting round trips.
  \<^item> Outbound: every connection of a request, across redirects and changing names, is for an accepted
    URL and an address permitted for the scheme of the first one; what acceptance means; long-lived
    clients use the current settings. Three gaps of the policy are shown as lemmas beside the properties.
  \<^item> Identity and transport: an unauthenticated socket carries only enrollment proofs; a stale session
    can neither write to nor close a newer connection; when a stored token is held back from an
    address and when it is kept; a one-time token whose use is on record is not sent by a later start.
  \<^item> Reconnect: the waits, their bounds, and the spacing of re-enrollment calls.
  \<^item> Files: accepted paths are inside the root in force under every spelling; a committed upload is the
    concatenation of its chunks under every interleaving, in the scope in force or the one a mode
    switch that has not stopped the uploads yet is replacing; at most 64 uploads; a stream that ends well carried the file, always ends, and uploads
    back to the same bytes.
  \<^item> File requests: whatever the links in the tree, a request changes nothing outside the root it was
    scoped to; a copy makes the destination the image of the source or, unless its cleanup fails too,
    leaves what was there, under every schedule of faults, and within its limits; a rename moves exactly
    what was named, a delete removes it and, when it fails, possibly a part of it; a listing holds every entry or is an error or marked as cut off.

  \<^bold>\<open>Conventions and bounds\<close>

  A Go string is a list of bytes. Where the source ranges over the runes of a command line the model
  decodes UTF-8 as Go does; elsewhere case folding, space trimming and word splitting are those of ASCII
  text (rules of the allowlist also know the two letters beyond ASCII that fold to ASCII ones). Time is an integer number of nanoseconds or, where only order matters, a parameter. Sums of
  sizes stay far below \<open>2 ^ 63\<close> and are integers; counters that wrap and whose wrapping could matter
  (buffer versions, the upload epoch) are 64-bit words, and the theorems state the bound under which
  they do not come round. No definition uses fuel to cut a loop short: loops are structural in what
  the environment answers, or have a termination proof (\<open>resolve_walk\<close> by the length of the path, the
  name attempts of \<open>createTempInRoot\<close> by their count). The build modelled is the Unix one. On the tree
  of \<open>OsRoot\<close> a lookup follows at most 255 links, as Go's does; no other process changes the tree during
  one request; a failing call changes nothing, except that a \<open>RemoveAll\<close> may have removed any part of the
  subtree that leaves no orphan and a \<open>MkdirAll\<close> may have made the first of its directories; and a fault
  the schedule injects never claims that a name does not exist. The limits of a copy (depth 64, 20000 entries, 512 MiB) are those of the source.

  \<^bold>\<open>Not modelled\<close>

  Bytes on the wire (JSON, WebSocket frames, TLS), processes after they start, the operating system
  beneath the calls (each answer is an input of the definition that asks), and the components that
  are mostly platform glue or other programs' output: Docker, web-service discovery, desktop, VNC and
  WebRTC sessions, package, service, disk and network backends, the local status server,
  release tooling, the Windows variant of the update, and the search request of the file service.
\<close>

end
